(* ===== verification/Prelude.thy ===== *)
theory Prelude
  imports Main "HOL-Library.AList" "HOL-Library.Sublist"
begin

text \<open>
  Shared vocabulary of the development: the result type that stands for Go's
  \<open>(value, error)\<close> pairs, and the generic facts on lists, prefixes and association
  lists that several components use.

  A Go function returning \<open>(T, error)\<close> is a HOL function into
  \<open>('e, 'a) result\<close>: \<open>Inl e\<close> is "returned with the error \<open>e\<close>", \<open>Inr v\<close> is
  "returned \<open>v\<close> with a nil error". A function returning only \<open>error\<close> has type
  \<open>'e option\<close>, where \<open>None\<close> is nil.
\<close>

named_theorems go_path "facts about path strings and their components"
named_theorems host_simps "how host operations act on the entry table"
named_theorems frame_intros "introduction rules for frame conditions"

type_synonym ('e, 'a) result = "'e + 'a"

subsection \<open>Prefixes of lists\<close>

lemma prefix_take_iff: "prefix xs ys \<longleftrightarrow> take (length xs) ys = xs"
  by (metis append_eq_conv_conj append_take_drop_id prefix_def)

lemma prefix_drop_append: "prefix xs ys \<Longrightarrow> xs @ drop (length xs) ys = ys"
  by (auto simp: prefix_def)

lemma prefix_append_iff:
  "prefix xs (ys @ zs) \<Longrightarrow> length xs \<le> length ys \<Longrightarrow> prefix xs ys"
  by (metis prefix_length_prefix prefixI)

lemma not_prefix_butlast:
  "\<not> prefix r q \<Longrightarrow> \<not> prefix r (butlast q)"
  by (metis prefixeq_butlast prefix_order.trans)

lemma prefix_butlast_iff:
  "prefix r (xs @ [x]) \<Longrightarrow> r \<noteq> xs @ [x] \<Longrightarrow> prefix r xs"
  by simp

lemma prefix_same_length: "prefix xs ys \<Longrightarrow> length xs = length ys \<Longrightarrow> xs = ys"
  by (auto simp: prefix_def)

fun strip_common :: "'a list \<Rightarrow> 'a list \<Rightarrow> 'a list \<times> 'a list" where
  "strip_common (x # xs) (y # ys) = (if x = y then strip_common xs ys else (x # xs, y # ys))"
| "strip_common xs ys = (xs, ys)"

lemma strip_common_prefix: "strip_common xs (xs @ zs) = ([], zs)"
  by (induction xs) (cases zs; auto)+

lemma fst_strip_common_Nil: "fst (strip_common xs ys) = [] \<longleftrightarrow> prefix xs ys"
  by (induction xs ys rule: strip_common.induct) auto

lemma strip_common_split:
  "strip_common xs ys = (as, bs) \<Longrightarrow> \<exists>ps. xs = ps @ as \<and> ys = ps @ bs"
proof (induction xs ys rule: strip_common.induct)
  case (1 x xs y ys)
  then show ?case
    by (cases "x = y") (auto intro: exI [of _ "y # ps" for ps] exI [of _ "[]"])
qed auto

lemma set_strip_common:
  "set (fst (strip_common xs ys)) \<subseteq> set xs" "set (snd (strip_common xs ys)) \<subseteq> set ys"
  by (induction xs ys rule: strip_common.induct) auto

subsection \<open>Association lists\<close>

lemma map_of_filter_keys:
  "map_of (filter (\<lambda>(k, _). P k) xs) k = (if P k then map_of xs k else None)"
  by (induction xs) auto

lemma distinct_filter_keys:
  "distinct (map fst xs) \<Longrightarrow> distinct (map fst (filter P xs))"
  by (simp add: distinct_map_filter)

lemma map_of_map_inj_keys:
  assumes "inj_on f (insert k (set (map fst xs)))"
  shows "map_of (map (\<lambda>(a, b). (f a, b)) xs) (f k) = map_of xs k"
  using assms by (induction xs) (auto simp: inj_on_def)

lemma map_of_map_keys_None:
  assumes "\<forall>a \<in> set (map fst xs). f a \<noteq> k"
  shows "map_of (map (\<lambda>(a, b). (f a, b)) xs) k = None"
  using assms by (induction xs) auto

end
