(* ===== verification/GoStrings.thy ===== *)
theory GoStrings
  imports Prelude
begin

text \<open>
  The part of Go's \<open>strings\<close>, \<open>bytes\<close> and \<open>strconv\<close> packages that the program calls.
  A Go string is a sequence of bytes, and so is a HOL \<open>string\<close> here: one
  \<open>char\<close> per byte, so that \<open>length\<close> is Go's \<open>len\<close>.
\<close>

subsection \<open>Prefixes, suffixes, searching\<close>

definition has_prefix :: "string \<Rightarrow> string \<Rightarrow> bool" where
  "has_prefix s p \<longleftrightarrow> prefix p s"

definition has_suffix :: "string \<Rightarrow> string \<Rightarrow> bool" where
  "has_suffix s p \<longleftrightarrow> suffix p s"

text \<open>\<open>strings.Index\<close>: the offset of the first occurrence.\<close>

fun index_of :: "string \<Rightarrow> string \<Rightarrow> nat option" where
  "index_of p [] = (if p = [] then Some 0 else None)"
| "index_of p (c # s) = (if prefix p (c # s) then Some 0 else map_option Suc (index_of p s))"

definition contains :: "string \<Rightarrow> string \<Rightarrow> bool" where
  "contains s p \<longleftrightarrow> index_of p s \<noteq> None"

text \<open>\<open>strings.Count\<close> for a non-empty pattern: occurrences that do not overlap. The fuel
  is the length of the text; each occurrence consumes at least one byte.\<close>

fun count_fuel :: "nat \<Rightarrow> string \<Rightarrow> string \<Rightarrow> nat" where
  "count_fuel 0 p s = 0"
| "count_fuel (Suc n) p s =
     (case index_of p s of None \<Rightarrow> 0
      | Some i \<Rightarrow> Suc (count_fuel n p (drop (i + length p) s)))"

definition count_of :: "string \<Rightarrow> string \<Rightarrow> nat" where
  "count_of p s = count_fuel (Suc (length s)) p s"

text \<open>\<open>strings.Cut\<close> at a single byte: what is before it, what is after it, whether it is there.\<close>

fun cut_at :: "char \<Rightarrow> string \<Rightarrow> string \<times> string \<times> bool" where
  "cut_at c [] = ([], [], False)"
| "cut_at c (x # xs) =
     (if x = c then ([], xs, True)
      else (case cut_at c xs of (a, b, f) \<Rightarrow> (x # a, b, f)))"

subsection \<open>Split and Join\<close>

fun split_on :: "char \<Rightarrow> string \<Rightarrow> string list" where
  "split_on c [] = [[]]"
| "split_on c (x # xs) =
     (if x = c then [] # split_on c xs
      else (case split_on c xs of [] \<Rightarrow> [[x]] | w # ws \<Rightarrow> (x # w) # ws))"

fun join_with :: "string \<Rightarrow> string list \<Rightarrow> string" where
  "join_with sep [] = []"
| "join_with sep [w] = w"
| "join_with sep (w # v # ws) = w @ sep @ join_with sep (v # ws)"

lemma split_on_not_Nil [simp]: "split_on c s \<noteq> []"
  by (induction s) (auto split: list.splits)

lemma split_on_no_sep: "w \<in> set (split_on c s) \<Longrightarrow> c \<notin> set w"
  by (induction s arbitrary: w) (auto split: if_splits list.splits)

lemma split_on_append_sep: "split_on c (a @ c # b) = split_on c a @ split_on c b"
proof (induction a)
  case (Cons x a)
  then show ?case by (cases "split_on c a") auto
qed simp

lemma split_on_no_occ: "c \<notin> set s \<Longrightarrow> split_on c s = [s]"
  by (induction s) auto

lemma split_on_join:
  "ws \<noteq> [] \<Longrightarrow> \<forall>w \<in> set ws. c \<notin> set w \<Longrightarrow> split_on c (join_with [c] ws) = ws"
  by (induction "[c]" ws rule: join_with.induct) (auto simp: split_on_no_occ split_on_append_sep)

lemma join_split_on: "join_with [c] (split_on c s) = s"
proof (induction s)
  case (Cons x s)
  obtain w ws where ws: "split_on c s = w # ws" by (cases "split_on c s") auto
  then show ?case using Cons by (cases ws) auto
qed simp

lemma join_with_append:
  "xs \<noteq> [] \<Longrightarrow> ys \<noteq> [] \<Longrightarrow> join_with sep (xs @ ys) = join_with sep xs @ sep @ join_with sep ys"
  by (induction sep xs rule: join_with.induct) (auto simp: neq_Nil_conv)

subsection \<open>White space\<close>

text \<open>
  \<open>unicode.IsSpace\<close> in UTF-8: the number of bytes of the white-space rune a string starts
  with, 0 when it starts with none. The six ASCII blanks are one byte; U+0085 and U+00A0
  are two; U+1680, U+2000 to U+200A, U+2028, U+2029, U+202F, U+205F and U+3000 are three.
\<close>

definition ascii_space :: "char \<Rightarrow> bool" where
  "ascii_space c \<longleftrightarrow> c \<in> {CHR 0x20, CHR 0x09, CHR 0x0A, CHR 0x0B, CHR 0x0C, CHR 0x0D}"

definition space2 :: "char \<Rightarrow> char \<Rightarrow> bool" where
  "space2 a b \<longleftrightarrow> a = CHR 0xC2 \<and> b \<in> {CHR 0x85, CHR 0xA0}"

definition space3 :: "char \<Rightarrow> char \<Rightarrow> char \<Rightarrow> bool" where
  "space3 a b c \<longleftrightarrow>
     (a, b, c) \<in> {(CHR 0xE1, CHR 0x9A, CHR 0x80), (CHR 0xE2, CHR 0x81, CHR 0x9F),
                   (CHR 0xE3, CHR 0x80, CHR 0x80)} \<or>
     a = CHR 0xE2 \<and> b = CHR 0x80 \<and>
       c \<in> {CHR 0x80, CHR 0x81, CHR 0x82, CHR 0x83, CHR 0x84, CHR 0x85, CHR 0x86, CHR 0x87,
             CHR 0x88, CHR 0x89, CHR 0x8A, CHR 0xA8, CHR 0xA9, CHR 0xAF}"

definition space_len :: "string \<Rightarrow> nat" where
  "space_len s =
     (case s of [] \<Rightarrow> 0
      | a # s1 \<Rightarrow>
          if ascii_space a then 1
          else case s1 of [] \<Rightarrow> 0
            | b # s2 \<Rightarrow>
                if space2 a b then 2
                else case s2 of [] \<Rightarrow> 0
                  | c # _ \<Rightarrow> if space3 a b c then 3 else 0)"

text \<open>The same at the right end, on the reversed string: the last byte of a rune comes first.\<close>

definition space_len_rev :: "string \<Rightarrow> nat" where
  "space_len_rev s =
     (case s of [] \<Rightarrow> 0
      | c # s1 \<Rightarrow>
          if ascii_space c then 1
          else case s1 of [] \<Rightarrow> 0
            | b # s2 \<Rightarrow>
                if space2 b c then 2
                else case s2 of [] \<Rightarrow> 0
                  | a # _ \<Rightarrow> if space3 a b c then 3 else 0)"

lemma space_len_Nil [simp]: "space_len [] = 0" "space_len_rev [] = 0"
  by (simp_all add: space_len_def space_len_rev_def)

text \<open>Removing a leading run of runes whose width the function \<open>f\<close> gives.\<close>

function trim_run :: "(string \<Rightarrow> nat) \<Rightarrow> string \<Rightarrow> string" where
  "trim_run f s = (if s = [] \<or> f s = 0 then s else trim_run f (drop (f s) s))"
  by pat_completeness auto
termination
  by (relation "measure (\<lambda>(f, s). length s)") auto

declare trim_run.simps [simp del]

lemma trim_run_stop: "f s = 0 \<Longrightarrow> trim_run f s = s"
  by (simp add: trim_run.simps [of f s])

lemma trim_run_Nil [simp]: "trim_run f [] = []"
  by (simp add: trim_run.simps [of f "[]"])

lemma trim_run_fixed: "f (trim_run f s) = 0 \<or> trim_run f s = []"
proof (induction f s rule: trim_run.induct)
  case (1 f s)
  then show ?case by (cases "s = [] \<or> f s = 0") (auto simp: trim_run.simps [of f s])
qed

lemma suffix_trim_run: "suffix (trim_run f s) s"
proof (induction f s rule: trim_run.induct)
  case (1 f s)
  show ?case
  proof (cases "s = [] \<or> f s = 0")
    case False
    then have "suffix (trim_run f (drop (f s) s)) (drop (f s) s)" by (intro "1.IH") simp
    then have "suffix (trim_run f (drop (f s) s)) s"
      by (meson suffix_drop suffix_order.trans)
    with False show ?thesis by (simp add: trim_run.simps [of f s])
  qed (auto simp: trim_run.simps [of f s])
qed

definition trim_space :: "string \<Rightarrow> string" where
  "trim_space s = rev (trim_run space_len_rev (rev (trim_run space_len s)))"

lemma length_trim_space: "length (trim_space s) \<le> length s"
  unfolding trim_space_def
  by (metis length_rev order_trans suffix_length_le suffix_trim_run)

lemma trim_space_Nil [simp]: "trim_space [] = []"
  by (simp add: trim_space_def)

lemma set_trim_space: "set (trim_space s) \<subseteq> set s"
  unfolding trim_space_def
  by (metis set_mono_suffix set_rev suffix_trim_run order_trans)

lemma trim_space_unchanged: "space_len s = 0 \<Longrightarrow> space_len_rev (rev s) = 0 \<Longrightarrow> trim_space s = s"
  by (simp add: trim_space_def trim_run_stop)

lemma space_len_plain:
  "hd s \<notin> {CHR 0x20, CHR 0x09, CHR 0x0A, CHR 0x0B, CHR 0x0C, CHR 0x0D, CHR 0xC2, CHR 0xE1, CHR 0xE2, CHR 0xE3}
   \<Longrightarrow> space_len s = 0"
  by (cases s) (auto simp: space_len_def ascii_space_def space2_def space3_def split: list.splits)

subsection \<open>Integers and Booleans\<close>

definition is_digit :: "char \<Rightarrow> bool" where
  "is_digit c \<longleftrightarrow> 48 \<le> (of_char c :: nat) \<and> of_char c \<le> (57 :: nat)"

definition digit_val :: "char \<Rightarrow> nat" where
  "digit_val c = of_char c - 48"

definition decimal :: "string \<Rightarrow> nat" where
  "decimal s = foldl (\<lambda>n c. 10 * n + digit_val c) 0 s"

text \<open>\<open>strconv.ParseUint(s, 10, bits)\<close>: only digits, at least one, in range.\<close>

definition parse_uint :: "nat \<Rightarrow> string \<Rightarrow> nat option" where
  "parse_uint bits s =
     (if s = [] \<or> \<not> list_all is_digit s then None
      else if decimal s < 2 ^ bits then Some (decimal s) else None)"

text \<open>\<open>strconv.ParseInt(s, 10, bits)\<close>: an optional sign, then digits, in the signed range.\<close>

definition parse_int :: "nat \<Rightarrow> string \<Rightarrow> int option" where
  "parse_int bits s =
     (let neg = prefix ''-'' s; t = (if prefix ''-'' s \<or> prefix ''+'' s then tl s else s)
      in if t = [] \<or> \<not> list_all is_digit t then None
         else if neg then (if decimal t \<le> 2 ^ (bits - 1) then Some (- int (decimal t)) else None)
         else (if decimal t < 2 ^ (bits - 1) then Some (int (decimal t)) else None))"

text \<open>\<open>strconv.ParseBool\<close> accepts exactly these spellings.\<close>

definition parse_bool :: "string \<Rightarrow> bool option" where
  "parse_bool s =
     (if s \<in> {''1'', ''t'', ''T'', ''TRUE'', ''true'', ''True''} then Some True
      else if s \<in> {''0'', ''f'', ''F'', ''FALSE'', ''false'', ''False''} then Some False
      else None)"

text \<open>\<open>strconv.Itoa\<close> and the \<open>%d\<close> verb.\<close>

fun digits_of :: "nat \<Rightarrow> string" where
  "digits_of n = (if n < 10 then [char_of (48 + n)] else digits_of (n div 10) @ [char_of (48 + n mod 10)])"

declare digits_of.simps [simp del]

definition itoa :: "int \<Rightarrow> string" where
  "itoa i = (if i < 0 then ''-'' @ digits_of (nat (- i)) else digits_of (nat i))"

lemma of_char_digit: "n < 10 \<Longrightarrow> of_char (char_of (48 + n) :: char) = (48 + n :: nat)"
  by simp

lemma is_digit_char_of: "(n :: nat) < 10 \<Longrightarrow> is_digit (char_of (48 + n))"
  by (simp add: is_digit_def)

lemma digit_val_char_of: "(n :: nat) < 10 \<Longrightarrow> digit_val (char_of (48 + n)) = n"
  by (simp add: digit_val_def)

lemma decimal_snoc: "decimal (s @ [c]) = 10 * decimal s + digit_val c"
  by (simp add: decimal_def)

lemma digits_of_digits: "list_all is_digit (digits_of n) \<and> digits_of n \<noteq> []"
proof (induction n rule: digits_of.induct)
  case (1 n)
  then show ?case
    by (subst (1 2) digits_of.simps) (auto simp: is_digit_char_of)
qed

lemma decimal_digits_of: "decimal (digits_of n) = n"
proof (induction n rule: digits_of.induct)
  case (1 n)
  show ?case
  proof (cases "n < 10")
    case True
    then show ?thesis
      by (subst digits_of.simps) (simp add: decimal_def digit_val_char_of)
  next
    case False
    then show ?thesis
      using 1 by (subst digits_of.simps) (simp add: decimal_snoc digit_val_char_of)
  qed
qed

lemma parse_uint_digits_of: "n < 2 ^ b \<Longrightarrow> parse_uint b (digits_of n) = Some n"
  using digits_of_digits [of n] by (simp add: parse_uint_def decimal_digits_of)

lemma parse_uint_bound: "parse_uint b s = Some n \<Longrightarrow> n < 2 ^ b"
  by (auto simp: parse_uint_def split: if_splits)

lemma parse_int_bound:
  assumes "parse_int b s = Some i"
  shows "- (2 ^ (b - 1)) \<le> i \<and> i < 2 ^ (b - 1)"
proof -
  have up: "int (decimal t) < 2 ^ k" if "decimal t < 2 ^ k" for t k
    using that by (metis of_nat_less_numeral_power_cancel_iff)
  have down: "int (decimal t) \<le> 2 ^ k" if "decimal t \<le> 2 ^ k" for t k
    using that by (metis of_nat_le_numeral_power_cancel_iff)
  have pos: "0 < (2 :: int) ^ k" "0 \<le> (2 :: int) ^ k" for k by simp_all
  show ?thesis
    using assms up down pos unfolding parse_int_def Let_def
    by (smt (verit) of_nat_0_le_iff option.distinct(1) option.inject)
qed

subsection \<open>Cutting at a byte\<close>

lemma contains_iff: "contains s v \<longleftrightarrow> sublist v s"
proof (induction s)
  case Nil
  then show ?case by (simp add: contains_def)
next
  case (Cons c s)
  then show ?case by (auto simp: contains_def sublist_Cons_right)
qed

lemma contains_char: "contains s [c] \<longleftrightarrow> c \<in> set s"
  by (induction s) (auto simp: contains_def)

lemma sep_inj: "c \<notin> set xs \<Longrightarrow> c \<notin> set xs' \<Longrightarrow> xs @ c # ys = xs' @ c # ys' \<longleftrightarrow> xs = xs' \<and> ys = ys'"
proof (induction xs arbitrary: xs')
  case (Cons x xs)
  then show ?case by (cases xs') auto
qed (auto simp: Cons_eq_append_conv)

lemma cut_at_found: "c \<notin> set a \<Longrightarrow> cut_at c (a @ c # b) = (a, b, True)"
  by (induction a) auto

lemma cut_at_none: "c \<notin> set a \<Longrightarrow> cut_at c a = (a, [], False)"
  by (induction a) auto

lemma cut_atD: "cut_at c v = (a, b, f) \<Longrightarrow> v = a @ (if f then c # b else []) \<and> c \<notin> set a \<and> (\<not> f \<longrightarrow> b = [])"
  by (induction v arbitrary: a) (auto split: if_splits prod.splits)

lemma cut_at_iff: "cut_at c s = (a, b, True) \<longleftrightarrow> s = a @ c # b \<and> c \<notin> set a"
  using cut_at_found cut_atD [of c s a b True] by auto

subsection \<open>Padded numbers\<close>

text \<open>\<open>%0wd\<close>.\<close>

definition padded :: "nat \<Rightarrow> nat \<Rightarrow> string" where
  "padded w n = (let d = digits_of n in replicate (w - length d) (CHR ''0'') @ d)"

lemma padded_digits: "list_all is_digit (padded w n)"
  using digits_of_digits [of n] by (auto simp: padded_def Let_def list_all_iff is_digit_def)

lemma decimal_zeros: "decimal (replicate k (CHR ''0'') @ s) = decimal s"
proof -
  have "foldl (\<lambda>n c. 10 * n + digit_val c) 0 (replicate k (CHR ''0'')) = 0"
    by (induction k) (simp_all add: digit_val_def)
  then show ?thesis by (simp add: decimal_def)
qed

lemma decimal_padded [simp]: "decimal (padded w n) = n"
  by (simp add: padded_def Let_def decimal_zeros decimal_digits_of)

lemma padded_inj: "padded w n = padded w m \<longleftrightarrow> n = m"
  by (metis decimal_padded)

lemma length_digits_of: "n < 10 ^ k \<Longrightarrow> 0 < k \<Longrightarrow> length (digits_of n) \<le> k"
proof (induction n arbitrary: k rule: digits_of.induct)
  case (1 n)
  show ?case
  proof (cases "n < 10")
    case True
    then show ?thesis using "1.prems" by (subst digits_of.simps) simp
  next
    case False
    then obtain j where j: "k = Suc j" "0 < j" using "1.prems" by (cases k; cases "k - 1") auto
    then have "length (digits_of (n div 10)) \<le> j"
      using "1.IH" [OF False, of j] "1.prems" by (simp add: less_mult_imp_div_less mult.commute)
    then show ?thesis using False j by (subst digits_of.simps) simp
  qed
qed

lemma length_padded: "n < 10 ^ w \<Longrightarrow> 0 < w \<Longrightarrow> length (padded w n) = w"
  using length_digits_of [of n w] by (simp add: padded_def Let_def)

end
