(* ===== verification/GoPath.thy ===== *)
theory GoPath
  imports GoStrings
begin

text \<open>
  Go's \<open>path/filepath\<close> for a Unix host, where the separator is \<open>/\<close>: \<open>Clean\<close>,
  \<open>Join\<close>, \<open>Dir\<close>, \<open>Base\<close>, \<open>IsAbs\<close>, \<open>Abs\<close> and \<open>Rel\<close> on strings,
  and what they do to the list of a path's components. The path guard works on strings;
  its theorems are about components, so every function here has a lemma that says what
  it does to \<open>path_comps\<close>.
\<close>

abbreviation sep :: char where "sep \<equiv> CHR ''/''"

definition is_rooted :: "string \<Rightarrow> bool" where
  "is_rooted p \<longleftrightarrow> prefix ''/'' p"

text \<open>One component is pushed on the stack of components kept so far (last one first).\<close>

definition clean_push :: "bool \<Rightarrow> string list \<Rightarrow> string \<Rightarrow> string list" where
  "clean_push rooted st c =
     (if c = '''' \<or> c = ''.'' then st
      else if c = ''..'' then
        (case st of
           [] \<Rightarrow> if rooted then [] else [''..'']
         | d # ds \<Rightarrow> if d = ''..'' then ''..'' # st else ds)
      else c # st)"

definition clean_comps :: "bool \<Rightarrow> string list \<Rightarrow> string list" where
  "clean_comps rooted cs = rev (foldl (clean_push rooted) [] cs)"

definition path_comps :: "string \<Rightarrow> string list" where
  "path_comps p = clean_comps (is_rooted p) (split_on sep p)"

definition render :: "bool \<Rightarrow> string list \<Rightarrow> string" where
  "render rooted cs =
     (if rooted then sep # join_with [sep] cs
      else if cs = [] then ''.'' else join_with [sep] cs)"

definition Clean :: "string \<Rightarrow> string" where
  "Clean p = render (is_rooted p) (path_comps p)"

definition Join :: "string \<Rightarrow> string \<Rightarrow> string" where
  "Join a b =
     (if a \<noteq> [] then Clean (a @ sep # b) else if b \<noteq> [] then Clean b else [])"

text \<open>\<open>Dir\<close> cleans everything up to and including the last separator.\<close>

definition up_to_last_sep :: "string \<Rightarrow> string" where
  "up_to_last_sep p = rev (dropWhile (\<lambda>c. c \<noteq> sep) (rev p))"

definition Dir :: "string \<Rightarrow> string" where
  "Dir p = Clean (up_to_last_sep p)"

definition Base :: "string \<Rightarrow> string" where
  "Base p =
     (if p = [] then ''.''
      else let q = rev (dropWhile (\<lambda>c. c = sep) (rev p))
           in if q = [] then ''/'' else last (split_on sep q))"

definition IsAbs :: "string \<Rightarrow> bool" where
  "IsAbs p = is_rooted p"

text \<open>\<open>Abs\<close> takes the working directory; \<open>os.Getwd\<close> failing is \<open>None\<close>.\<close>

definition Abs :: "string option \<Rightarrow> string \<Rightarrow> string option" where
  "Abs wd p = (if IsAbs p then Some (Clean p) else map_option (\<lambda>w. Join w p) wd)"

text \<open>
  \<open>Rel\<close>: up from what is left of the base after the common components, then down to
  the target; no answer when one path is rooted and the other is not, or when going up
  would have to pass a \<open>..\<close> of the base.
\<close>

definition Rel :: "string \<Rightarrow> string \<Rightarrow> string option" where
  "Rel base targ =
     (if Clean targ = Clean base then Some ''.''
      else if is_rooted base \<noteq> is_rooted targ then None
      else case strip_common (path_comps base) (path_comps targ) of (b, t) \<Rightarrow>
        if ''..'' \<in> set b then None
        else Some (render False (replicate (length b) ''..'' @ t)))"

subsection \<open>Good components\<close>

definition good_comp :: "string \<Rightarrow> bool" where
  "good_comp c \<longleftrightarrow> c \<noteq> '''' \<and> c \<noteq> ''.'' \<and> c \<noteq> ''..'' \<and> sep \<notin> set c"

abbreviation good_comps :: "string list \<Rightarrow> bool" where
  "good_comps \<equiv> list_all good_comp"

lemma clean_push_good [simp]: "good_comp c \<Longrightarrow> clean_push r st c = c # st"
  by (simp add: clean_push_def good_comp_def)

lemma foldl_clean_push_good: "good_comps cs \<Longrightarrow> foldl (clean_push r) st cs = rev cs @ st"
  by (induction cs arbitrary: st) auto

lemma clean_comps_good [go_path]: "good_comps cs \<Longrightarrow> clean_comps r cs = cs"
  by (simp add: clean_comps_def foldl_clean_push_good)

lemma clean_push_skip [simp]: "clean_push r st [] = st" "clean_push r st ''.'' = st"
  by (simp_all add: clean_push_def)

lemma foldl_clean_push_rooted:
  "good_comps st \<Longrightarrow> \<forall>c \<in> set cs. sep \<notin> set c \<Longrightarrow> good_comps (foldl (clean_push True) st cs)"
proof (induction cs arbitrary: st)
  case (Cons c cs)
  have "good_comps (clean_push True st c)"
  proof (cases "good_comp c")
    case False
    then have "c = '''' \<or> c = ''.'' \<or> c = ''..''" using Cons.prems by (auto simp: good_comp_def)
    then show ?thesis using Cons.prems by (auto simp: clean_push_def split: list.splits)
  qed (use Cons.prems in simp)
  then show ?case using Cons by simp
qed simp

text \<open>An unrooted path keeps its leading \<open>..\<close> components, below good ones.\<close>

definition unrooted_stack :: "string list \<Rightarrow> bool" where
  "unrooted_stack st \<longleftrightarrow> (\<exists>gs n. st = gs @ replicate n ''..'' \<and> good_comps gs)"

lemma unrooted_stack_push:
  assumes "unrooted_stack st" "sep \<notin> set c"
  shows "unrooted_stack (clean_push False st c)"
proof -
  obtain gs n where st: "st = gs @ replicate n ''..''" "good_comps gs"
    using assms(1) by (auto simp: unrooted_stack_def)
  consider "c = '''' \<or> c = ''.''" | "c = ''..''" "gs = []" | g gs' where "c = ''..''" "gs = g # gs'"
    | "good_comp c"
    using assms(2) by (cases gs) (auto simp: good_comp_def)
  then show ?thesis
  proof cases
    case 1
    then show ?thesis using assms(1) by auto
  next
    case 2
    then have "clean_push False st c = [] @ replicate (Suc n) ''..''"
      using st by (cases n) (auto simp: clean_push_def)
    then show ?thesis unfolding unrooted_stack_def by (metis list.pred_inject(1))
  next
    case 3
    then have "clean_push False st c = gs' @ replicate n ''..''"
      using st by (auto simp: clean_push_def good_comp_def)
    then show ?thesis using st 3 unfolding unrooted_stack_def by auto
  next
    case 4
    then have "clean_push False st c = (c # gs) @ replicate n ''..''" using st by simp
    then show ?thesis using st 4 unfolding unrooted_stack_def by fastforce
  qed
qed

lemma unrooted_stack_foldl:
  "unrooted_stack st \<Longrightarrow> \<forall>c \<in> set cs. sep \<notin> set c \<Longrightarrow> unrooted_stack (foldl (clean_push False) st cs)"
  by (induction cs arbitrary: st) (auto intro: unrooted_stack_push)

lemma split_on_sep_free: "\<forall>c \<in> set (split_on sep p). sep \<notin> set c"
  using split_on_no_sep by blast

lemma path_comps_rooted_good [go_path]: "is_rooted p \<Longrightarrow> good_comps (path_comps p)"
  unfolding path_comps_def clean_comps_def
  using foldl_clean_push_rooted [of "[]" "split_on sep p"] split_on_sep_free
  by (simp add: list.pred_set)

lemma path_comps_unrooted:
  assumes "\<not> is_rooted p"
  obtains gs n where "path_comps p = replicate n ''..'' @ gs" "good_comps gs"
proof -
  have "unrooted_stack (foldl (clean_push False) [] (split_on sep p))"
    by (rule unrooted_stack_foldl [OF _ split_on_sep_free]) (auto simp: unrooted_stack_def)
  then obtain gs n where "foldl (clean_push False) [] (split_on sep p) = gs @ replicate n ''..''"
    and "good_comps gs" by (auto simp: unrooted_stack_def)
  then show thesis
    using assms by (intro that [of n "rev gs"]) (auto simp: path_comps_def clean_comps_def list.pred_set)
qed

lemma good_comps_sep_free: "good_comps cs \<Longrightarrow> c \<in> set cs \<Longrightarrow> sep \<notin> set c"
  by (simp add: list_all_iff good_comp_def)

lemma path_comps_sep_free: "c \<in> set (path_comps p) \<Longrightarrow> sep \<notin> set c"
proof (cases "is_rooted p")
  case True
  then show "c \<in> set (path_comps p) \<Longrightarrow> sep \<notin> set c"
    by (rule good_comps_sep_free [OF path_comps_rooted_good])
next
  case False
  then obtain gs n where "path_comps p = replicate n ''..'' @ gs" "good_comps gs"
    by (rule path_comps_unrooted)
  then show "c \<in> set (path_comps p) \<Longrightarrow> sep \<notin> set c"
    using good_comps_sep_free [of gs c] by auto
qed

subsection \<open>Rendering and reading back\<close>

lemma is_rooted_render [simp]: "is_rooted (render True cs)"
  by (simp add: is_rooted_def render_def)

lemma join_with_first: "join_with s (w # ws) = w @ (if ws = [] then [] else s @ join_with s ws)"
  by (cases ws) auto

lemma not_rooted_render: "good_comps cs \<Longrightarrow> \<not> is_rooted (render False cs)"
  by (cases cs) (auto simp: is_rooted_def render_def join_with_first good_comp_def prefix_def
      append_eq_Cons_conv)

lemma split_render_True:
  "good_comps cs \<Longrightarrow> split_on sep (render True cs) = [] # (if cs = [] then [[]] else cs)"
  by (simp add: render_def, intro impI split_on_join) (auto simp: list_all_iff good_comp_def)

lemma path_comps_render [go_path, simp]:
  assumes "good_comps cs"
  shows "path_comps (render r cs) = cs"
proof (cases r)
  case True
  then show ?thesis
    using assms by (simp add: path_comps_def split_render_True clean_comps_def foldl_clean_push_good)
next
  case False
  show ?thesis
  proof (cases "cs = []")
    case True
    then show ?thesis
      using False by (simp add: path_comps_def clean_comps_def is_rooted_def render_def)
  next
    case ne: False
    then have "split_on sep (render False cs) = cs"
      using assms by (simp add: render_def) (rule split_on_join, auto simp: list_all_iff good_comp_def)
    then show ?thesis
      using False assms not_rooted_render [OF assms]
      by (simp add: path_comps_def clean_comps_def foldl_clean_push_good)
  qed
qed

lemma Clean_rooted [go_path]: "is_rooted p \<Longrightarrow> Clean p = render True (path_comps p)"
  by (simp add: Clean_def)

lemma is_rooted_Clean [simp]: "is_rooted p \<Longrightarrow> is_rooted (Clean p)"
  by (simp add: Clean_rooted)

lemma path_comps_Clean [go_path, simp]: "is_rooted p \<Longrightarrow> path_comps (Clean p) = path_comps p"
  by (simp add: Clean_rooted path_comps_rooted_good)

lemma Clean_idem: "is_rooted p \<Longrightarrow> Clean (Clean p) = Clean p"
  by (metis Clean_rooted is_rooted_Clean path_comps_Clean)

lemma render_inj: "good_comps xs \<Longrightarrow> good_comps ys \<Longrightarrow> render True xs = render True ys \<Longrightarrow> xs = ys"
  by (metis path_comps_render)

text \<open>A clean rooted path is determined by its components.\<close>

definition clean_abs :: "string \<Rightarrow> bool" where
  "clean_abs p \<longleftrightarrow> p = render True (path_comps p)"

lemma clean_abs_rooted: "clean_abs p \<Longrightarrow> is_rooted p"
  by (metis clean_abs_def is_rooted_render)

lemma clean_abs_good: "clean_abs p \<Longrightarrow> good_comps (path_comps p)"
  by (simp add: clean_abs_rooted path_comps_rooted_good)

lemma clean_abs_render [simp]: "good_comps cs \<Longrightarrow> clean_abs (render True cs)"
  by (simp add: clean_abs_def)

lemma clean_abs_Clean [simp]: "is_rooted p \<Longrightarrow> clean_abs (Clean p)"
  by (simp add: Clean_rooted path_comps_rooted_good)

lemma clean_abs_Clean_id: "clean_abs p \<Longrightarrow> Clean p = p"
  by (simp add: clean_abs_def clean_abs_rooted Clean_def)

lemma clean_abs_eq_iff: "clean_abs p \<Longrightarrow> clean_abs q \<Longrightarrow> p = q \<longleftrightarrow> path_comps p = path_comps q"
  by (metis clean_abs_def)

subsection \<open>Join, Dir, Rel on components\<close>

lemma is_rooted_append: "is_rooted a \<Longrightarrow> is_rooted (a @ b)"
  by (simp add: is_rooted_def prefix_prefix)

lemma is_rooted_not_Nil: "is_rooted a \<Longrightarrow> a \<noteq> []"
  by (auto simp: is_rooted_def)

lemma dotdot_stays:
  assumes "''..'' \<in> set s" "unrooted_stack s"
  shows "''..'' \<in> set (clean_push False s d)"
proof -
  obtain gs n where s: "s = gs @ replicate n ''..''" and g: "good_comps gs"
    using assms(2) by (auto simp: unrooted_stack_def)
  have "''..'' \<notin> set gs" using g by (auto simp: list_all_iff good_comp_def)
  then have "0 < n" using assms(1) s by (cases n) auto
  then show ?thesis
    using s g by (cases gs; cases n) (auto simp: clean_push_def good_comp_def)
qed

lemma dotdot_stays_foldl:
  "''..'' \<in> set s \<Longrightarrow> unrooted_stack s \<Longrightarrow> \<forall>c \<in> set cs. sep \<notin> set c
    \<Longrightarrow> ''..'' \<in> set (foldl (clean_push False) s cs)"
  by (induction cs arbitrary: s) (simp_all add: dotdot_stays unrooted_stack_push)

text \<open>Components that stay below their start are pushed on any stack in the same way.\<close>

lemma foldl_clean_push_above:
  assumes "''..'' \<notin> set (foldl (clean_push False) st cs)" "unrooted_stack st"
    and "\<forall>c \<in> set cs. sep \<notin> set c"
  shows "foldl (clean_push True) (st @ ds) cs = foldl (clean_push False) st cs @ ds"
  using assms
proof (induction cs arbitrary: st)
  case (Cons c cs)
  define st' where "st' = clean_push False st c"
  have u: "unrooted_stack st'" using Cons.prems unfolding st'_def by (simp add: unrooted_stack_push)
  have nodd: "''..'' \<notin> set st'"
    using dotdot_stays_foldl [OF _ u] Cons.prems by (auto simp: st'_def)
  have "clean_push True (st @ ds) c = st' @ ds"
    using nodd by (cases st) (auto simp: st'_def clean_push_def split: if_splits)
  then show ?case using Cons.IH [OF _ u] Cons.prems by (simp add: st'_def)
qed simp

lemma path_comps_append_sep:
  assumes "is_rooted a" "\<not> is_rooted b" "''..'' \<notin> set (path_comps b)"
  shows "path_comps (a @ sep # b) = path_comps a @ path_comps b"
proof -
  let ?A = "foldl (clean_push True) [] (split_on sep a)"
  have "foldl (clean_push True) ([] @ ?A) (split_on sep b)
      = foldl (clean_push False) [] (split_on sep b) @ ?A"
    using assms(2,3) split_on_sep_free [of b]
    by (intro foldl_clean_push_above) (auto simp: path_comps_def clean_comps_def unrooted_stack_def)
  moreover have "is_rooted (a @ sep # b)" by (rule is_rooted_append [OF assms(1)])
  ultimately show ?thesis
    using assms(1,2) by (simp add: path_comps_def clean_comps_def split_on_append_sep)
qed

lemma good_comps_no_dotdot: "good_comps cs \<Longrightarrow> ''..'' \<notin> set cs"
  by (auto simp: list_all_iff good_comp_def)

lemma Join_rooted [go_path]:
  "is_rooted a \<Longrightarrow> Join a b = Clean (a @ sep # b)"
  by (simp add: Join_def is_rooted_not_Nil)

lemma Join_clean:
  assumes "is_rooted a" "\<not> is_rooted b" "good_comps (path_comps b)"
  shows "Join a b = render True (path_comps a @ path_comps b)"
  using assms by (simp add: Join_rooted Clean_rooted is_rooted_append path_comps_append_sep
      good_comps_no_dotdot)

lemma path_comps_good_comp [simp]:
  assumes "good_comp c"
  shows "path_comps c = [c]" "\<not> is_rooted c"
proof -
  have "c = render False [c]" by (simp add: render_def)
  then show "path_comps c = [c]" "\<not> is_rooted c"
    using assms path_comps_render [of "[c]" False] not_rooted_render [of "[c]"] by auto
qed

lemma Join_comp [go_path]:
  "is_rooted a \<Longrightarrow> good_comp c \<Longrightarrow> Join a c = render True (path_comps a @ [c])"
  by (simp add: Join_clean)

lemma dropWhile_append_stop: "\<forall>x \<in> set xs. P x \<Longrightarrow> \<not> P y \<Longrightarrow> dropWhile P (xs @ y # ys) = y # ys"
  by (induction xs) auto

lemma up_to_last_sep_append:
  assumes "sep \<notin> set c"
  shows "up_to_last_sep (a @ sep # c) = a @ [sep]"
proof -
  have "dropWhile (\<lambda>x. x \<noteq> sep) (rev c @ sep # rev a) = sep # rev a"
    using assms by (intro dropWhile_append_stop) auto
  then show ?thesis by (simp add: up_to_last_sep_def)
qed

lemma path_comps_trailing_sep:
  assumes "is_rooted a"
  shows "is_rooted (a @ [sep])" "path_comps (a @ [sep]) = path_comps a"
proof -
  show r: "is_rooted (a @ [sep])" using assms by (rule is_rooted_append)
  show "path_comps (a @ [sep]) = path_comps a"
    using assms r split_on_append_sep [of sep a "[]"] by (simp add: path_comps_def clean_comps_def)
qed

lemma path_comps_slash [simp]: "path_comps ''/'' = []" "is_rooted ''/''"
  by (simp_all add: path_comps_def clean_comps_def is_rooted_def)

lemma Dir_render [go_path]:
  assumes "good_comps cs"
  shows "Dir (render True cs) = render True (butlast cs)"
proof (cases cs rule: rev_cases)
  case Nil
  have "render True [] = ''/''" by (simp add: render_def)
  moreover have "Dir ''/'' = ''/''" by (simp add: Dir_def up_to_last_sep_def Clean_def render_def)
  ultimately show ?thesis using Nil by simp
next
  case (snoc ds c)
  have c: "sep \<notin> set c" and g: "good_comps ds" using assms snoc by (auto simp: good_comp_def)
  have r: "render True cs = (if ds = [] then [] else render True ds) @ sep # c"
    using snoc by (auto simp: render_def join_with_append)
  show ?thesis
  proof (cases "ds = []")
    case True
    then have "Dir (render True cs) = Clean [sep]"
      using r c up_to_last_sep_append [of c "[]"] by (simp add: Dir_def)
    then show ?thesis using True snoc by (simp add: Clean_def render_def)
  next
    case False
    then have "Dir (render True cs) = Clean (render True ds @ [sep])"
      using r c by (simp add: Dir_def up_to_last_sep_append)
    then show ?thesis using g snoc by (simp add: Clean_rooted path_comps_trailing_sep)
  qed
qed

lemma Rel_rooted [go_path]:
  assumes "is_rooted b" "is_rooted t"
  shows "Rel b t =
    (if path_comps t = path_comps b then Some ''.''
     else case strip_common (path_comps b) (path_comps t) of (b', t') \<Rightarrow>
        Some (render False (replicate (length b') ''..'' @ t')))"
proof -
  have eq: "Clean t = Clean b \<longleftrightarrow> path_comps t = path_comps b"
    using assms by (metis Clean_rooted path_comps_Clean)
  obtain b' t' where bt: "strip_common (path_comps b) (path_comps t) = (b', t')" by fastforce
  have "''..'' \<notin> set b'"
    using set_strip_common(1) [of "path_comps b" "path_comps t"] bt
      good_comps_no_dotdot [OF path_comps_rooted_good [OF assms(1)]] by auto
  then show ?thesis unfolding Rel_def eq bt using assms by simp
qed

end
