(* ===== verification/HostFs.thy ===== *)
theory HostFs
  imports GoPath "HOL-Library.Char_ord" "HOL-Library.List_Lexorder"
begin

text \<open>
  The host file system behind Go's \<open>os\<close> package, on Unix: a table from physical paths
  (component lists from the root directory) to nodes, file contents by inode number, and
  the system calls the program makes. Symbolic links are nodes whose target the calls
  follow as the kernel does; hard links are two entries with the same inode number. Every
  call first asks the field \<open>fault\<close>, which stands for the failures the program cannot
  foresee (permissions, I/O errors, quotas): a fault answers the call with its errno
  and has no effect, except that a faulty \<open>write\<close> may have written a part of the data.

  Calls that may fail after changing something return the new host together with the
  result.
\<close>

subsection \<open>Errors\<close>

datatype errno = ENOENT | EEXIST | ENOTDIR | EISDIR | ENOTEMPTY | ELOOP | EACCES | EPERM
  | EXDEV | EINVAL | EIO | ENOSPC | EBUSY

text \<open>The sentinel errors of \<open>internal/security\<close> and \<open>internal/fs\<close>, and the errors of the host.\<close>

datatype goerr =
    ErrEmptyRoot | ErrRootNotDirectory | ErrAbsolutePath | ErrPathTraversal | ErrOutsideRoot
  | ErrHiddenPathDenied | ErrUNCPathDenied | ErrSymlinkDenied | ErrReparsePointDenied
  | ErrFileTooLarge | ErrPathIsDirectory | ErrPathIsNotDirectory | ErrFileExists
  | ErrDirectoryNotEmpty | ErrCopyDirectoryUnsupported | ErrLimitExceeded | ErrNotFound
  | ErrSamePath | ErrMoveIntoSelf | ErrCrossVolumeMoveUnsupported | ErrMoveTypeMismatch
  | ErrMovePathChanged | ErrShortWrite | ErrTooManyLinks | ErrGetwd | Errno errno

text \<open>\<open>errors.Is\<close> against \<open>os.ErrNotExist\<close>, \<open>os.ErrExist\<close>, \<open>os.ErrPermission\<close>.\<close>

definition is_not_exist :: "goerr \<Rightarrow> bool" where
  "is_not_exist e \<longleftrightarrow> e = Errno ENOENT"

definition is_exist :: "goerr \<Rightarrow> bool" where
  "is_exist e \<longleftrightarrow> e = Errno EEXIST \<or> e = Errno ENOTEMPTY"

definition is_permission :: "goerr \<Rightarrow> bool" where
  "is_permission e \<longleftrightarrow> e = Errno EACCES \<or> e = Errno EPERM"

subsection \<open>The state\<close>

datatype node = RegN nat | DirN nat | LinkN nat string

fun node_ino :: "node \<Rightarrow> nat" where
  "node_ino (RegN i) = i"
| "node_ino (DirN i) = i"
| "node_ino (LinkN i t) = i"

fun is_dirN :: "node \<Rightarrow> bool" where
  "is_dirN (DirN i) = True"
| "is_dirN _ = False"

fun is_linkN :: "node \<Rightarrow> bool" where
  "is_linkN (LinkN i t) = True"
| "is_linkN _ = False"

datatype sysop = SLstat | SStat | SEval | SReadDir | SOpen | SReadFile | SMkdir | SRemove
  | SRemoveAll | SRename | SWalk

record host =
  entries :: "(string list \<times> node) list"
  content :: "nat \<Rightarrow> string"
  perm :: "nat \<Rightarrow> nat"
  device :: "nat \<Rightarrow> nat"
  dir_size :: "nat \<Rightarrow> nat"
  fresh :: nat
  wd :: "string option"
  umask :: "nat \<Rightarrow> nat"
  fault :: "sysop \<Rightarrow> string \<Rightarrow> errno option"
  write_fault :: "nat \<Rightarrow> string \<Rightarrow> (nat \<times> errno) option"

definition lookup :: "host \<Rightarrow> string list \<Rightarrow> node option" where
  "lookup h p = map_of (entries h) p"

text \<open>\<open>os.FileInfo\<close>: what \<open>Stat\<close> and \<open>Lstat\<close> report, with the identity \<open>os.SameFile\<close> compares.\<close>

record finfo =
  fi_name :: string
  fi_node :: node
  fi_size :: int
  fi_perm :: nat
  fi_dev :: nat

definition fi_is_dir :: "finfo \<Rightarrow> bool" where
  "fi_is_dir i = is_dirN (fi_node i)"

definition fi_is_symlink :: "finfo \<Rightarrow> bool" where
  "fi_is_symlink i = is_linkN (fi_node i)"

definition SameFile :: "finfo \<Rightarrow> finfo \<Rightarrow> bool" where
  "SameFile a b \<longleftrightarrow> node_ino (fi_node a) = node_ino (fi_node b) \<and> fi_dev a = fi_dev b"

fun node_size :: "host \<Rightarrow> node \<Rightarrow> int" where
  "node_size h (RegN i) = int (length (content h i))"
| "node_size h (DirN i) = int (dir_size h i)"
| "node_size h (LinkN i t) = int (length t)"

definition info_of :: "host \<Rightarrow> string \<Rightarrow> node \<Rightarrow> finfo" where
  "info_of h name n =
     \<lparr>fi_name = name, fi_node = n, fi_size = node_size h n,
      fi_perm = perm h (node_ino n), fi_dev = device h (node_ino n)\<rparr>"

subsection \<open>Path walking\<close>

text \<open>
  The walk keeps the physical path reached so far and the components still to go. \<open>k\<close> is
  the number of symbolic links it may still follow (40 in the kernel, 255 in
  \<open>filepath.EvalSymlinks\<close>). The mode says what happens at the last component: a link
  is not followed (\<open>NoFollow\<close>), is followed (\<open>Follow\<close>), or is followed and
  need not exist (\<open>Create\<close>, the walk of \<open>open\<close> with \<open>O_CREAT\<close>).
\<close>

datatype wmode = NoFollow | Follow | Create

text \<open>The measure counts a link target as one more round of components.\<close>

function walk :: "host \<Rightarrow> wmode \<Rightarrow> nat \<Rightarrow> string list \<Rightarrow> string list \<Rightarrow> errno + string list" where
  "walk h m k cur [] = Inr cur"
| "walk h m k cur (c # cs) =
     (if c = '''' \<or> c = ''.'' then walk h m k cur cs
      else if c = ''..'' then walk h m k (butlast cur) cs
      else case lookup h (cur @ [c]) of
        None \<Rightarrow> if m = Create \<and> cs = [] then Inr (cur @ [c]) else Inl ENOENT
      | Some (DirN i) \<Rightarrow> walk h m k (cur @ [c]) cs
      | Some (RegN i) \<Rightarrow> if cs = [] then Inr (cur @ [c]) else Inl ENOTDIR
      | Some (LinkN i t) \<Rightarrow>
          if m = NoFollow \<and> cs = [] then Inr (cur @ [c])
          else if k = 0 then Inl ELOOP
          else walk h m (k - 1) (if is_rooted t then [] else cur) (split_on sep t @ cs))"
  by pat_completeness auto
termination
  by (relation "measures [\<lambda>(h, m, k, cur, cs). k, \<lambda>(h, m, k, cur, cs). length cs]") auto

declare walk.simps [simp del]

definition kernel_links :: nat where "kernel_links = 40"
definition eval_links :: nat where "eval_links = 255"

text \<open>The components the kernel starts from: a relative path starts at the working directory.\<close>

definition kpath :: "host \<Rightarrow> string \<Rightarrow> string list" where
  "kpath h p =
     (if is_rooted p then filter (\<lambda>c. c \<noteq> '''' \<and> c \<noteq> ''.'') (split_on sep p)
      else path_comps (case wd h of None \<Rightarrow> ''/'' | Some w \<Rightarrow> w)
             @ filter (\<lambda>c. c \<noteq> '''' \<and> c \<noteq> ''.'') (split_on sep p))"

text \<open>The entry a call works on when it does not follow the last component.\<close>

definition walk_parent :: "host \<Rightarrow> string list \<Rightarrow> errno + string list" where
  "walk_parent h cs =
     (case walk h Follow kernel_links [] (butlast cs) of
        Inl e \<Rightarrow> Inl e
      | Inr par \<Rightarrow>
          (case lookup h par of
             Some (DirN i) \<Rightarrow> Inr (par @ [last cs])
           | Some _ \<Rightarrow> Inl ENOTDIR
           | None \<Rightarrow> Inl ENOENT))"

subsection \<open>Calls that only read\<close>

definition stat_at :: "host \<Rightarrow> wmode \<Rightarrow> string \<Rightarrow> goerr + finfo" where
  "stat_at h m p =
     (case walk h m kernel_links [] (kpath h p) of
        Inl e \<Rightarrow> Inl (Errno e)
      | Inr q \<Rightarrow> (case lookup h q of
          None \<Rightarrow> Inl (Errno ENOENT)
        | Some n \<Rightarrow> Inr (info_of h (Base p) n)))"

definition os_lstat :: "host \<Rightarrow> string \<Rightarrow> goerr + finfo" where
  "os_lstat h p = (case fault h SLstat p of Some e \<Rightarrow> Inl (Errno e) | None \<Rightarrow> stat_at h NoFollow p)"

definition os_stat :: "host \<Rightarrow> string \<Rightarrow> goerr + finfo" where
  "os_stat h p = (case fault h SStat p of Some e \<Rightarrow> Inl (Errno e) | None \<Rightarrow> stat_at h Follow p)"

text \<open>\<open>filepath.EvalSymlinks\<close> of an absolute path: the path without any symbolic link.\<close>

definition eval_symlinks :: "host \<Rightarrow> string \<Rightarrow> goerr + string" where
  "eval_symlinks h p =
     (case fault h SEval p of Some e \<Rightarrow> Inl (Errno e)
      | None \<Rightarrow> (case walk h Follow eval_links [] (kpath h p) of
          Inl ELOOP \<Rightarrow> Inl ErrTooManyLinks
        | Inl e \<Rightarrow> Inl (Errno e)
        | Inr q \<Rightarrow> Inr (render True q)))"

text \<open>The entries directly below a directory; \<open>os.ReadDir\<close> returns them sorted by name.\<close>

definition children :: "host \<Rightarrow> string list \<Rightarrow> (string \<times> node) list" where
  "children h d =
     map (\<lambda>(q, n). (last q, n)) (filter (\<lambda>(q, n). q \<noteq> [] \<and> butlast q = d) (entries h))"

definition os_read_dir :: "host \<Rightarrow> string \<Rightarrow> goerr + (string \<times> node) list" where
  "os_read_dir h p =
     (case fault h SReadDir p of Some e \<Rightarrow> Inl (Errno e)
      | None \<Rightarrow> (case walk h Follow kernel_links [] (kpath h p) of
          Inl e \<Rightarrow> Inl (Errno e)
        | Inr q \<Rightarrow> (case lookup h q of
            Some (DirN i) \<Rightarrow> Inr (sort_key fst (children h q))
          | Some _ \<Rightarrow> Inl (Errno ENOTDIR)
          | None \<Rightarrow> Inl (Errno ENOENT))))"

definition os_read_file :: "host \<Rightarrow> string \<Rightarrow> goerr + string" where
  "os_read_file h p =
     (case fault h SReadFile p of Some e \<Rightarrow> Inl (Errno e)
      | None \<Rightarrow> (case walk h Follow kernel_links [] (kpath h p) of
          Inl e \<Rightarrow> Inl (Errno e)
        | Inr q \<Rightarrow> (case lookup h q of
            Some (RegN i) \<Rightarrow> Inr (content h i)
          | Some _ \<Rightarrow> Inl (Errno EISDIR)
          | None \<Rightarrow> Inl (Errno ENOENT))))"

text \<open>
  \<open>filepath.WalkDir\<close>: the paths below the root of the walk, which does not follow links;
  the root itself comes first and is listed here as the empty suffix.
\<close>

definition os_walk_dir :: "host \<Rightarrow> string \<Rightarrow> goerr + string list list" where
  "os_walk_dir h p =
     (case fault h SWalk p of Some e \<Rightarrow> Inl (Errno e)
      | None \<Rightarrow> (case walk h NoFollow kernel_links [] (kpath h p) of
          Inl e \<Rightarrow> Inl (Errno e)
        | Inr q \<Rightarrow> (case lookup h q of
            None \<Rightarrow> Inl (Errno ENOENT)
          | Some (DirN i) \<Rightarrow>
              Inr ([] # map (\<lambda>(k, n). drop (length q) k)
                     (sort_key fst (filter (\<lambda>(k, n). strict_prefix q k) (entries h))))
          | Some _ \<Rightarrow> Inr [[]])))"

subsection \<open>Calls that change the host\<close>

definition add_entry :: "host \<Rightarrow> string list \<Rightarrow> node \<Rightarrow> host" where
  "add_entry h q n = h\<lparr>entries := (q, n) # entries h\<rparr>"

definition del_tree :: "host \<Rightarrow> string list \<Rightarrow> host" where
  "del_tree h q = h\<lparr>entries := filter (\<lambda>(k, _). \<not> prefix q k) (entries h)\<rparr>"

definition rebase :: "string list \<Rightarrow> string list \<Rightarrow> string list \<Rightarrow> string list" where
  "rebase src dst k = (if prefix src k then dst @ drop (length src) k else k)"

definition move_tree :: "host \<Rightarrow> string list \<Rightarrow> string list \<Rightarrow> host" where
  "move_tree h src dst =
     h\<lparr>entries := map (\<lambda>(k, n). (rebase src dst k, n))
         (filter (\<lambda>(k, _). \<not> prefix dst k) (entries h))\<rparr>"

text \<open>A new inode on the device of the directory it is created in.\<close>

definition parent_dev :: "host \<Rightarrow> string list \<Rightarrow> nat" where
  "parent_dev h q =
     (case lookup h (butlast q) of Some n \<Rightarrow> device h (node_ino n) | None \<Rightarrow> 0)"

definition new_inode :: "host \<Rightarrow> string list \<Rightarrow> nat \<Rightarrow> host" where
  "new_inode h q pm =
     h\<lparr>content := (content h)(fresh h := []),
       perm := (perm h)(fresh h := umask h pm),
       device := (device h)(fresh h := parent_dev h q),
       fresh := Suc (fresh h)\<rparr>"

definition new_file :: "host \<Rightarrow> string list \<Rightarrow> nat \<Rightarrow> host" where
  "new_file h q pm = add_entry (new_inode h q pm) q (RegN (fresh h))"

definition new_dir :: "host \<Rightarrow> string list \<Rightarrow> nat \<Rightarrow> host" where
  "new_dir h q pm = add_entry (new_inode h q pm) q (DirN (fresh h))"

text \<open>
  \<open>os.OpenFile\<close> for writing with \<open>O_CREATE\<close> and the given \<open>O_TRUNC\<close> and
  \<open>O_EXCL\<close> bits. With \<open>O_EXCL\<close> the last component is not followed and must not
  exist; without it a final symbolic link is followed, and its target is created when it
  does not exist.
\<close>

record oflags =
  o_trunc :: bool
  o_excl :: bool

definition os_open_write :: "host \<Rightarrow> string \<Rightarrow> oflags \<Rightarrow> nat \<Rightarrow> host \<times> (goerr + nat)" where
  "os_open_write h p fl pm =
     (case fault h SOpen p of Some e \<Rightarrow> (h, Inl (Errno e))
      | None \<Rightarrow>
        if o_excl fl then
          (if kpath h p = [] then (h, Inl (Errno EEXIST))
           else case walk_parent h (kpath h p) of
             Inl e \<Rightarrow> (h, Inl (Errno e))
           | Inr q \<Rightarrow> (case lookup h q of
               Some _ \<Rightarrow> (h, Inl (Errno EEXIST))
             | None \<Rightarrow> (new_file h q pm, Inr (fresh h))))
        else
          (case walk h Create kernel_links [] (kpath h p) of
             Inl e \<Rightarrow> (h, Inl (Errno e))
           | Inr q \<Rightarrow> (case lookup h q of
               None \<Rightarrow> (new_file h q pm, Inr (fresh h))
             | Some (RegN i) \<Rightarrow>
                 (if o_trunc fl then h\<lparr>content := (content h)(i := [])\<rparr> else h, Inr i)
             | Some (DirN i) \<Rightarrow> (h, Inl (Errno EISDIR))
             | Some (LinkN i t) \<Rightarrow> (h, Inl (Errno ELOOP)))))"

text \<open>\<open>os.Open\<close> of a file, for reading: the inode behind the path.\<close>

definition os_open_read :: "host \<Rightarrow> string \<Rightarrow> goerr + nat" where
  "os_open_read h p =
     (case fault h SOpen p of Some e \<Rightarrow> Inl (Errno e)
      | None \<Rightarrow> (case walk h Follow kernel_links [] (kpath h p) of
          Inl e \<Rightarrow> Inl (Errno e)
        | Inr q \<Rightarrow> (case lookup h q of
            Some (RegN i) \<Rightarrow> Inr i
          | Some _ \<Rightarrow> Inl (Errno EISDIR)
          | None \<Rightarrow> Inl (Errno ENOENT))))"

text \<open>Writing at offset 0 of an open file: the bytes written and the error, if any.\<close>

definition fd_write :: "host \<Rightarrow> nat \<Rightarrow> string \<Rightarrow> host \<times> nat \<times> goerr option" where
  "fd_write h i data =
     (let put = (\<lambda>d. h\<lparr>content := (content h)(i := d @ drop (length d) (content h i))\<rparr>)
      in case write_fault h i data of
           None \<Rightarrow> (put data, length data, None)
         | Some (k, e) \<Rightarrow> (put (take k data), length (take k data), Some (Errno e)))"

definition os_mkdir :: "host \<Rightarrow> string \<Rightarrow> nat \<Rightarrow> host \<times> goerr option" where
  "os_mkdir h p pm =
     (case fault h SMkdir p of Some e \<Rightarrow> (h, Some (Errno e))
      | None \<Rightarrow>
        if kpath h p = [] then (h, Some (Errno EEXIST))
        else case walk_parent h (kpath h p) of
          Inl e \<Rightarrow> (h, Some (Errno e))
        | Inr q \<Rightarrow> (case lookup h q of
            Some _ \<Rightarrow> (h, Some (Errno EEXIST))
          | None \<Rightarrow> (new_dir h q pm, None)))"

text \<open>\<open>os.MkdirAll\<close> of an absolute path, by its components (the last one first).\<close>

fun mkdir_all_rev :: "host \<Rightarrow> string list \<Rightarrow> nat \<Rightarrow> host \<times> goerr option" where
  "mkdir_all_rev h [] pm =
     (case os_stat h ''/'' of Inl e \<Rightarrow> (h, Some e)
      | Inr i \<Rightarrow> (h, if fi_is_dir i then None else Some (Errno ENOTDIR)))"
| "mkdir_all_rev h (c # cs) pm =
     (let p = render True (rev (c # cs))
      in case os_stat h p of
           Inr i \<Rightarrow> (h, if fi_is_dir i then None else Some (Errno ENOTDIR))
         | Inl _ \<Rightarrow>
             (case mkdir_all_rev h cs pm of
                (h1, Some e) \<Rightarrow> (h1, Some e)
              | (h1, None) \<Rightarrow>
                  (case os_mkdir h1 p pm of
                     (h2, None) \<Rightarrow> (h2, None)
                   | (h2, Some e) \<Rightarrow>
                       (case os_lstat h2 p of
                          Inr i \<Rightarrow> (h2, if fi_is_dir i then None else Some e)
                        | Inl _ \<Rightarrow> (h2, Some e)))))"

definition os_mkdir_all :: "host \<Rightarrow> string \<Rightarrow> nat \<Rightarrow> host \<times> goerr option" where
  "os_mkdir_all h p pm = mkdir_all_rev h (rev (path_comps p)) pm"

definition os_remove :: "host \<Rightarrow> string \<Rightarrow> host \<times> goerr option" where
  "os_remove h p =
     (case fault h SRemove p of Some e \<Rightarrow> (h, Some (Errno e))
      | None \<Rightarrow>
        if kpath h p = [] then (h, Some (Errno EBUSY))
        else case walk_parent h (kpath h p) of
          Inl e \<Rightarrow> (h, Some (Errno e))
        | Inr q \<Rightarrow> (case lookup h q of
            None \<Rightarrow> (h, Some (Errno ENOENT))
          | Some (DirN i) \<Rightarrow>
              if children h q = [] then (del_tree h q, None) else (h, Some (Errno ENOTEMPTY))
          | Some _ \<Rightarrow> (del_tree h q, None)))"

text \<open>\<open>os.RemoveAll\<close>: the whole subtree; a path that does not exist is no error.\<close>

definition os_remove_all :: "host \<Rightarrow> string \<Rightarrow> host \<times> goerr option" where
  "os_remove_all h p =
     (case fault h SRemoveAll p of Some e \<Rightarrow> (h, Some (Errno e))
      | None \<Rightarrow>
        if kpath h p = [] then (h, Some (Errno EBUSY))
        else case walk_parent h (kpath h p) of
          Inl ENOENT \<Rightarrow> (h, None)
        | Inl e \<Rightarrow> (h, Some (Errno e))
        | Inr q \<Rightarrow> (del_tree h q, None))"

text \<open>
  \<open>os.Rename\<close>: Go refuses to replace a directory by another file; the kernel refuses
  to cross devices, to move a directory below itself, and to replace a non-directory by a
  directory.
\<close>

definition os_rename :: "host \<Rightarrow> string \<Rightarrow> string \<Rightarrow> host \<times> goerr option" where
  "os_rename h old new =
     (case fault h SRename old of Some e \<Rightarrow> (h, Some (Errno e))
      | None \<Rightarrow>
        if kpath h old = [] \<or> kpath h new = [] then (h, Some (Errno EBUSY))
        else case walk_parent h (kpath h old) of
          Inl e \<Rightarrow> (h, Some (Errno e))
        | Inr src \<Rightarrow> (case walk_parent h (kpath h new) of
            Inl e \<Rightarrow> (h, Some (Errno e))
          | Inr dst \<Rightarrow> (case lookup h src of
              None \<Rightarrow> (h, Some (Errno ENOENT))
            | Some n \<Rightarrow>
                (case lookup h dst of
                   None \<Rightarrow>
                     if device h (node_ino n) \<noteq> parent_dev h dst then (h, Some (Errno EXDEV))
                     else if strict_prefix src dst then (h, Some (Errno EINVAL))
                     else (move_tree h src dst, None)
                 | Some m \<Rightarrow>
                     if node_ino m = node_ino n then (h, None)
                     else if is_dirN m then (h, Some (Errno EEXIST))
                     else if device h (node_ino n) \<noteq> parent_dev h dst then (h, Some (Errno EXDEV))
                     else if is_dirN n then (h, Some (Errno ENOTDIR))
                     else (move_tree h src dst, None)))))"

end
