(* ===== verification/HostFacts.thy ===== *)
theory HostFacts
  imports HostFs
begin

text \<open>
  What the host's calls do, for the proofs above them: the well-formedness invariant of the
  entry table, the effect of each change on \<open>lookup\<close>, and the facts about \<open>walk\<close>
  (following fewer links gives the same answer, a walk along plain directories reaches the
  path itself, a walk splits where it passes a directory).
\<close>

subsection \<open>Well-formed hosts\<close>

text \<open>A fault is a failure that the entry table does not explain.\<close>

definition unforeseen :: "errno \<Rightarrow> bool" where
  "unforeseen e \<longleftrightarrow> e \<in> {EACCES, EPERM, EIO, ENOSPC, EBUSY}"

definition host_wf :: "host \<Rightarrow> bool" where
  "host_wf h \<longleftrightarrow>
     distinct (map fst (entries h)) \<and>
     (\<exists>i. lookup h [] = Some (DirN i)) \<and>
     (\<forall>q n. lookup h q = Some n \<longrightarrow> good_comps q \<and> node_ino n < fresh h) \<and>
     (\<forall>q c n. lookup h (q @ [c]) = Some n \<longrightarrow> (\<exists>i. lookup h q = Some (DirN i))) \<and>
     (\<forall>p q n m. lookup h p = Some n \<longrightarrow> lookup h q = Some m \<longrightarrow> node_ino n = node_ino m \<longrightarrow>
        p = q \<or> (\<exists>i. n = RegN i \<and> m = RegN i)) \<and>
     (\<forall>op p e. fault h op p = Some e \<longrightarrow> unforeseen e)"

lemma host_wfD:
  assumes "host_wf h"
  shows wf_distinct: "distinct (map fst (entries h))"
    and wf_root: "\<exists>i. lookup h [] = Some (DirN i)"
    and wf_good: "lookup h q = Some n \<Longrightarrow> good_comps q"
    and wf_fresh: "lookup h q = Some n \<Longrightarrow> node_ino n < fresh h"
    and wf_parent: "lookup h (q @ [c]) = Some n \<Longrightarrow> \<exists>i. lookup h q = Some (DirN i)"
    and wf_ino: "lookup h p = Some n \<Longrightarrow> lookup h q = Some m \<Longrightarrow> node_ino n = node_ino m \<Longrightarrow>
        p = q \<or> (\<exists>i. n = RegN i \<and> m = RegN i)"
    and wf_fault: "fault h op p' = Some e \<Longrightarrow> unforeseen e"
  using assms unfolding host_wf_def by blast+

lemma host_wfI:
  assumes "distinct (map fst (entries h))" "\<exists>i. lookup h [] = Some (DirN i)"
    and "\<And>q n. lookup h q = Some n \<Longrightarrow> good_comps q"
    and "\<And>q n. lookup h q = Some n \<Longrightarrow> node_ino n < fresh h"
    and "\<And>q c n. lookup h (q @ [c]) = Some n \<Longrightarrow> \<exists>i. lookup h q = Some (DirN i)"
    and "\<And>p q n m. lookup h p = Some n \<Longrightarrow> lookup h q = Some m \<Longrightarrow> node_ino n = node_ino m \<Longrightarrow>
        p = q \<or> (\<exists>i. n = RegN i \<and> m = RegN i)"
    and "\<And>op p e. fault h op p = Some e \<Longrightarrow> unforeseen e"
  shows "host_wf h"
  unfolding host_wf_def
  by (intro conjI allI impI) (fact assms | drule assms; assumption)+

lemma wf_prefix_dir:
  assumes "host_wf h" "lookup h (p @ q) = Some n" "q \<noteq> []"
  shows "\<exists>i. lookup h p = Some (DirN i)"
  using assms(2,3)
proof (induction q arbitrary: n rule: rev_induct)
  case (snoc c q)
  then obtain i where i: "lookup h (p @ q) = Some (DirN i)"
    using wf_parent [OF assms(1), of "p @ q" c n] by auto
  then show ?case using snoc.IH by (cases "q = []") auto
qed simp

lemma wf_butlast_dir:
  assumes "host_wf h" "lookup h q = Some n" "q \<noteq> []"
  shows "\<exists>i. lookup h (butlast q) = Some (DirN i)"
  using wf_prefix_dir [OF assms(1), of "butlast q" "[last q]" n] assms(2,3) by simp

lemma wf_below_nondir:
  assumes "host_wf h" "lookup h p = Some n" "\<not> is_dirN n" "strict_prefix p q"
  shows "lookup h q = None"
proof (rule ccontr)
  assume "lookup h q \<noteq> None"
  then obtain m r where "lookup h (p @ r) = Some m" "r \<noteq> []"
    using assms(4) by (auto simp: strict_prefix_def prefix_def)
  then show False using wf_prefix_dir [OF assms(1)] assms(2,3) by fastforce
qed

lemma lookup_in_entries: "lookup h q = Some n \<Longrightarrow> (q, n) \<in> set (entries h)"
  by (simp add: lookup_def map_of_SomeD)

lemma entries_lookup: "host_wf h \<Longrightarrow> (q, n) \<in> set (entries h) \<longleftrightarrow> lookup h q = Some n"
  by (simp add: lookup_def wf_distinct)

lemma children_Nil_iff:
  assumes "host_wf h"
  shows "children h q = [] \<longleftrightarrow> (\<forall>c. lookup h (q @ [c]) = None)"
proof -
  have "children h q = [] \<longleftrightarrow> (\<forall>(k, n) \<in> set (entries h). \<not> (k \<noteq> [] \<and> butlast k = q))"
    by (auto simp: children_def filter_empty_conv)
  also have "\<dots> \<longleftrightarrow> (\<forall>k n. lookup h k = Some n \<longrightarrow> \<not> (k \<noteq> [] \<and> butlast k = q))"
    using entries_lookup [OF assms] by blast
  also have "\<dots> \<longleftrightarrow> (\<forall>c. lookup h (q @ [c]) = None)"
    by (metis append_butlast_last_id butlast_snoc not_None_eq not_Some_eq snoc_eq_iff_butlast)
  finally show ?thesis .
qed

subsection \<open>Lookups after a change\<close>

lemma lookup_add_entry [host_simps]:
  "lookup (add_entry h q n) p = (if p = q then Some n else lookup h p)"
  by (simp add: lookup_def add_entry_def)

lemma lookup_del_tree [host_simps]:
  "lookup (del_tree h q) p = (if prefix q p then None else lookup h p)"
  by (simp add: lookup_def del_tree_def map_of_filter_keys)

lemma lookup_new_inode [host_simps, simp]: "lookup (new_inode h q pm) p = lookup h p"
  by (simp add: lookup_def new_inode_def)

lemma lookup_content [host_simps, simp]: "lookup (h\<lparr>content := f\<rparr>) p = lookup h p"
  by (simp add: lookup_def)

lemma lookup_new_file [host_simps]:
  "lookup (new_file h q pm) p = (if p = q then Some (RegN (fresh h)) else lookup h p)"
  by (simp add: new_file_def lookup_add_entry)

lemma lookup_new_dir [host_simps]:
  "lookup (new_dir h q pm) p = (if p = q then Some (DirN (fresh h)) else lookup h p)"
  by (simp add: new_dir_def lookup_add_entry)

lemma rebase_inj:
  assumes "rebase s d a = rebase s d b" "\<not> prefix d a" "\<not> prefix d b"
  shows "a = b"
  using assms by (auto simp: rebase_def prefix_def split: if_splits)

lemma rebase_onto: "prefix d p \<Longrightarrow> rebase s d (s @ drop (length d) p) = p"
  by (simp add: rebase_def prefix_drop_append)

lemma rebase_hits:
  assumes "rebase s d k = p" "\<not> prefix d k"
  shows "if prefix d p then k = s @ drop (length d) p else k = p \<and> \<not> prefix s p"
  using assms by (auto simp: rebase_def prefix_def split: if_splits)

lemma lookup_move_tree:
  "lookup (move_tree h s d) p =
     (if prefix d p then
        (if prefix d (s @ drop (length d) p) then None else lookup h (s @ drop (length d) p))
      else if prefix s p then None else lookup h p)"
proof -
  define es where "es = filter (\<lambda>(k, _). \<not> prefix d k) (entries h)"
  have keys: "\<not> prefix d k" if "k \<in> set (map fst es)" for k using that by (auto simp: es_def)
  have mt: "lookup (move_tree h s d) p = map_of (map (\<lambda>(k, n). (rebase s d k, n)) es) p"
    by (simp add: lookup_def move_tree_def es_def)
  have orig: "map_of es k = lookup h k" if "\<not> prefix d k" for k
    using that by (simp add: es_def lookup_def map_of_filter_keys)
  have hit: "lookup (move_tree h s d) p = lookup h k" if "rebase s d k = p" "\<not> prefix d k" for k
  proof -
    have "inj_on (rebase s d) (insert k (set (map fst es)))"
      using keys that(2) by (intro inj_onI) (metis insert_iff rebase_inj)
    from map_of_map_inj_keys [OF this] show ?thesis
      unfolding mt that(1) using orig [OF that(2)] by simp
  qed
  have miss: "lookup (move_tree h s d) p = None" if "\<And>k. \<not> prefix d k \<Longrightarrow> rebase s d k \<noteq> p"
    unfolding mt by (rule map_of_map_keys_None) (use that keys in blast)
  show ?thesis
  proof (cases "prefix d p")
    case True
    show ?thesis
    proof (cases "prefix d (s @ drop (length d) p)")
      case F: True
      have "rebase s d k \<noteq> p" if "\<not> prefix d k" for k
        using rebase_hits [OF _ that, of s p] that F True by metis
      then show ?thesis using miss True F by simp
    next
      case False
      then show ?thesis using hit [OF rebase_onto [OF True] False] True by simp
    qed
  next
    case F: False
    show ?thesis
    proof (cases "prefix s p")
      case True
      have "rebase s d k \<noteq> p" if "\<not> prefix d k" for k
        using rebase_hits [OF _ that, of s p] F True by metis
      then show ?thesis using miss True F by simp
    next
      case False
      then have "rebase s d p = p" by (simp add: rebase_def)
      then show ?thesis using hit [OF _ F] False F by simp
    qed
  qed
qed

subsection \<open>Walks\<close>

lemma walk_Nil [simp]: "walk h m k cur [] = Inr cur"
  by (simp add: walk.simps)

lemma walk_skip [simp]: "walk h m k cur ([] # cs) = walk h m k cur cs"
    "walk h m k cur (''.'' # cs) = walk h m k cur cs"
    "walk h m k cur (''..'' # cs) = walk h m k (butlast cur) cs"
  by (simp_all add: walk.simps)

text \<open>A component that names an entry.\<close>

definition plain :: "string \<Rightarrow> bool" where
  "plain c \<longleftrightarrow> c \<noteq> '''' \<and> c \<noteq> ''.'' \<and> c \<noteq> ''..''"

lemma good_comp_plain: "good_comp c \<longleftrightarrow> plain c \<and> sep \<notin> set c"
  by (auto simp: good_comp_def plain_def)

lemma walk_plain:
  "plain c \<Longrightarrow> walk h m k cur (c # cs) =
    (case lookup h (cur @ [c]) of
       None \<Rightarrow> if m = Create \<and> cs = [] then Inr (cur @ [c]) else Inl ENOENT
     | Some (DirN i) \<Rightarrow> walk h m k (cur @ [c]) cs
     | Some (RegN i) \<Rightarrow> if cs = [] then Inr (cur @ [c]) else Inl ENOTDIR
     | Some (LinkN i t) \<Rightarrow>
         if m = NoFollow \<and> cs = [] then Inr (cur @ [c])
         else if k = 0 then Inl ELOOP
         else walk h m (k - 1) (if is_rooted t then [] else cur) (split_on sep t @ cs))"
  by (simp add: walk.simps(2) plain_def)

lemma walk_link:
  assumes "plain c" "lookup h (cur @ [c]) = Some (LinkN i t)" "\<not> (m = NoFollow \<and> cs = [])"
  shows "walk h m (Suc k) cur (c # cs) =
    walk h m k (if is_rooted t then [] else cur) (split_on sep t @ cs)"
  using walk_plain [OF assms(1), of h m "Suc k" cur cs] assms(2,3) by auto

text \<open>The induction over a walk, with the cases a proof needs.\<close>

lemma walk_induct [case_names Nil empty dot up missing reg dir last_link no_links link]:
  assumes "\<And>h m k cur. P h m k cur []"
    and "\<And>h m k cur cs. P h m k cur cs \<Longrightarrow> P h m k cur ([] # cs)"
    and "\<And>h m k cur cs. P h m k cur cs \<Longrightarrow> P h m k cur (''.'' # cs)"
    and "\<And>h m k cur cs. P h m k (butlast cur) cs \<Longrightarrow> P h m k cur (''..'' # cs)"
    and "\<And>h m k cur c cs. plain c \<Longrightarrow> lookup h (cur @ [c]) = None \<Longrightarrow> P h m k cur (c # cs)"
    and "\<And>h m k cur c cs i. plain c \<Longrightarrow> lookup h (cur @ [c]) = Some (RegN i) \<Longrightarrow> P h m k cur (c # cs)"
    and "\<And>h m k cur c cs i. plain c \<Longrightarrow> lookup h (cur @ [c]) = Some (DirN i) \<Longrightarrow>
          P h m k (cur @ [c]) cs \<Longrightarrow> P h m k cur (c # cs)"
    and "\<And>h k cur c i t. plain c \<Longrightarrow> lookup h (cur @ [c]) = Some (LinkN i t) \<Longrightarrow> P h NoFollow k cur [c]"
    and "\<And>h m cur c cs i t. plain c \<Longrightarrow> lookup h (cur @ [c]) = Some (LinkN i t) \<Longrightarrow>
          \<not> (m = NoFollow \<and> cs = []) \<Longrightarrow> P h m 0 cur (c # cs)"
    and "\<And>h m k cur c cs i t. plain c \<Longrightarrow> lookup h (cur @ [c]) = Some (LinkN i t) \<Longrightarrow>
          \<not> (m = NoFollow \<and> cs = []) \<Longrightarrow>
          P h m k (if is_rooted t then [] else cur) (split_on sep t @ cs) \<Longrightarrow> P h m (Suc k) cur (c # cs)"
  shows "P h m k cur cs"
proof (induction h m k cur cs rule: walk.induct)
  case (2 h m k cur c cs)
  consider "c = '''' \<or> c = ''.''" | "c = ''..''" | "plain c" by (auto simp: plain_def)
  then show ?case
  proof cases
    case 1
    then show ?thesis using "2.IH"(1) assms(2,3) by blast
  next
    case up: 2
    have "P h m k (butlast cur) cs" by (rule "2.IH"(2)) (simp_all add: up)
    then show ?thesis using up assms(4) by blast
  next
    case 3
    then have np: "\<not> (c = '''' \<or> c = ''.'')" "c \<noteq> ''..''" by (auto simp: plain_def)
    show ?thesis
    proof (cases "lookup h (cur @ [c])")
      case None
      then show ?thesis using 3 assms(5) by blast
    next
      case (Some n)
      show ?thesis
      proof (cases n)
        case (RegN i)
        then show ?thesis using 3 Some assms(6) by blast
      next
        case (DirN i)
        have "P h m k (cur @ [c]) cs" by (rule "2.IH"(3) [OF np Some DirN])
        then show ?thesis using 3 Some DirN assms(7) by blast
      next
        case (LinkN i t)
        show ?thesis
        proof (cases "m = NoFollow \<and> cs = []")
          case True
          then show ?thesis using 3 Some LinkN assms(8) by blast
        next
          case nf: False
          show ?thesis
          proof (cases k)
            case 0
            then show ?thesis using 3 Some LinkN nf assms(9) by blast
          next
            case (Suc j)
            have "P h m (k - 1) (if is_rooted t then [] else cur) (split_on sep t @ cs)"
              by (rule "2.IH"(4) [OF np Some LinkN nf]) (simp add: Suc)
            then show ?thesis using 3 Some LinkN nf Suc assms(10) by simp
          qed
        qed
      qed
    qed
  qed
qed (rule assms(1))

text \<open>An answer other than "too many links" does not depend on how many links may be followed.\<close>

lemma walk_more_links:
  "walk h m k cur cs = r \<Longrightarrow> r \<noteq> Inl ELOOP \<Longrightarrow> k \<le> k' \<Longrightarrow> walk h m k' cur cs = r"
proof (induction h m k cur cs arbitrary: k' rule: walk_induct)
  case (link h m k cur c cs i t)
  obtain j where j: "k' = Suc j" "k \<le> j" using link.prems(3) by (cases k') auto
  have "walk h m k (if is_rooted t then [] else cur) (split_on sep t @ cs) = r"
    using link.prems(1) unfolding walk_link [OF link.hyps] .
  then have "walk h m j (if is_rooted t then [] else cur) (split_on sep t @ cs) = r"
    using link.IH link.prems(2) j(2) by blast
  then show ?case unfolding j(1) walk_link [OF link.hyps] .
next
  case (no_links h m cur c cs i t)
  then show ?case using walk_plain [of c h m 0 cur cs] by auto
qed (simp_all add: walk_plain)

text \<open>Along existing directories, a walk reaches the path itself.\<close>

lemma walk_dir_step:
  "good_comp c \<Longrightarrow> lookup h (cur @ [c]) = Some (DirN i) \<Longrightarrow>
    walk h m k cur (c # cs) = walk h m k (cur @ [c]) cs"
  by (simp add: walk_plain good_comp_plain)

lemma walk_along_dirs:
  assumes "good_comps as" "\<And>bs. prefix bs as \<Longrightarrow> bs \<noteq> [] \<Longrightarrow> \<exists>i. lookup h (cur @ bs) = Some (DirN i)"
  shows "walk h m k cur (as @ cs) = walk h m k (cur @ as) cs"
  using assms
proof (induction as arbitrary: cur)
  case (Cons a as)
  obtain i where i: "lookup h (cur @ [a]) = Some (DirN i)"
    using Cons.prems(2) [of "[a]"] by auto
  have "walk h m k (cur @ [a]) (as @ cs) = walk h m k ((cur @ [a]) @ as) cs"
  proof (rule Cons.IH)
    show "\<exists>i. lookup h ((cur @ [a]) @ bs) = Some (DirN i)" if "prefix bs as" "bs \<noteq> []" for bs
      using Cons.prems(2) [of "a # bs"] that by auto
  qed (use Cons.prems in simp)
  then show ?case using i Cons.prems(1) by (simp add: walk_dir_step)
qed simp

lemma walk_last:
  assumes "good_comp c"
  shows "walk h m k cur [c] =
    (case lookup h (cur @ [c]) of
       None \<Rightarrow> if m = Create then Inr (cur @ [c]) else Inl ENOENT
     | Some (LinkN i t) \<Rightarrow>
         if m = NoFollow then Inr (cur @ [c])
         else if k = 0 then Inl ELOOP
         else walk h m (k - 1) (if is_rooted t then [] else cur) (split_on sep t)
     | Some _ \<Rightarrow> Inr (cur @ [c]))"
  using assms by (simp add: walk_plain good_comp_plain split: option.split node.split)

text \<open>Where a walk passes a directory, what follows starts from that directory.\<close>

lemma walk_split:
  "walk h m k cur as = Inr q \<Longrightarrow> m = Follow \<Longrightarrow> lookup h q = Some (DirN i) \<Longrightarrow>
    \<exists>k' \<le> k. \<forall>m' bs. bs \<noteq> [] \<or> m' \<noteq> NoFollow \<longrightarrow> walk h m' k cur (as @ bs) = walk h m' k' q bs"
proof (induction h m k cur as rule: walk_induct)
  case (Nil h m k cur)
  then show ?case by auto
next
  case (reg h m k cur c cs j)
  then show ?case by (auto simp: walk_plain split: if_splits)
next
  case (link h m k cur c cs j t)
  then have "walk h Follow k (if is_rooted t then [] else cur) (split_on sep t @ cs) = Inr q"
    by (simp add: walk_plain)
  with link obtain k' where k': "k' \<le> k" "\<forall>m' bs. bs \<noteq> [] \<or> m' \<noteq> NoFollow \<longrightarrow>
      walk h m' k (if is_rooted t then [] else cur) ((split_on sep t @ cs) @ bs) = walk h m' k' q bs"
    by auto
  have "walk h m' (Suc k) cur ((c # cs) @ bs) = walk h m' k' q bs" if "bs \<noteq> [] \<or> m' \<noteq> NoFollow" for m' bs
    using k'(2) [rule_format, OF that] that link by (auto simp: walk_plain)
  then show ?case using k'(1) by (intro exI [of _ k']) auto
qed (simp_all add: walk_plain)

text \<open>What a following walk returns exists and is no link.\<close>

lemma walk_Follow_exists:
  assumes "host_wf h" "walk h m k cur cs = Inr q" "m = Follow" "lookup h cur = Some (DirN i)"
  shows "\<exists>n. lookup h q = Some n \<and> \<not> is_linkN n"
  using assms
proof (induction h m k cur cs arbitrary: i rule: walk_induct)
  case (up h m k cur cs)
  then have "\<exists>j. lookup h (butlast cur) = Some (DirN j)"
    using wf_butlast_dir [of h cur] wf_root [of h] by (cases "cur = []") auto
  then show ?case using up by auto
next
  case (link h m k cur c cs j t)
  have "\<exists>j. lookup h [] = Some (DirN j)" using link.prems(1) by (rule wf_root)
  then show ?case using link by (cases "is_rooted t") (auto simp: walk_plain)
qed (auto simp: walk_plain split: if_splits)

lemma walk_good:
  assumes "walk h m k cur cs = Inr q" "good_comps cur" "\<forall>c \<in> set cs. sep \<notin> set c"
  shows "good_comps q"
  using assms
proof (induction h m k cur cs rule: walk_induct)
  case (up h m k cur cs)
  then show ?case by (simp add: list_all_iff in_set_butlastD)
next
  case (link h m k cur c cs j t)
  have "walk h m k (if is_rooted t then [] else cur) (split_on sep t @ cs) = Inr q"
    using link.prems(1) unfolding walk_link [OF link.hyps] .
  moreover have "\<forall>c \<in> set (split_on sep t @ cs). sep \<notin> set c"
    using link.prems(3) split_on_sep_free [of t] by auto
  moreover have "good_comps (if is_rooted t then [] else cur)" using link.prems(2) by simp
  ultimately show ?case by (intro link.IH)
qed (auto simp: walk_plain good_comp_plain split: if_splits)

text \<open>A walk that does not end in a link is the same whether a last link is followed or not.\<close>

lemma walk_nonlink_modes:
  assumes "walk h m k cur cs = Inr q" "m = NoFollow" "lookup h q = Some n" "\<not> is_linkN n"
  shows "walk h m' k cur cs = Inr q"
  using assms
proof (induction h m k cur cs rule: walk_induct)
  case (link h m k cur c cs i t)
  have "walk h m k (if is_rooted t then [] else cur) (split_on sep t @ cs) = Inr q"
    using link.prems(1) unfolding walk_link [OF link.hyps] .
  then have "walk h m' k (if is_rooted t then [] else cur) (split_on sep t @ cs) = Inr q"
    using link by blast
  moreover have "\<not> (m' = NoFollow \<and> cs = [])" using link by auto
  ultimately show ?case using walk_link [OF link.hyps(1,2)] by simp
next
  case (no_links h m cur c cs i t)
  then show ?case using walk_plain [of c h m 0 cur cs] by auto
qed (auto simp: walk_plain split: if_splits)

text \<open>What a walk passes on its way is a directory.\<close>

lemma walk_through_dir:
  assumes "host_wf h" "walk h m k cur cs = Inr q" "cs = as @ c # bs" "plain c"
    and "lookup h cur = Some (DirN i)"
  shows "\<exists>r j. walk h Follow k cur as = Inr r \<and> lookup h r = Some (DirN j)"
  using assms
proof (induction h m k cur cs arbitrary: as i rule: walk_induct)
  case (up h m k cur cs)
  show ?case
  proof (cases as)
    case (Cons a as')
    have "\<exists>j. lookup h (butlast cur) = Some (DirN j)"
      using up.prems wf_butlast_dir [of h cur] wf_root [of h] by (cases "cur = []") auto
    then show ?thesis using up Cons by auto
  qed (use up in auto)
next
  case (link h m k cur d cs j t)
  show ?case
  proof (cases as)
    case (Cons a as')
    have "walk h m k (if is_rooted t then [] else cur) (split_on sep t @ cs) = Inr q"
      using link.prems(2) unfolding walk_link [OF link.hyps] .
    moreover have "split_on sep t @ cs = (split_on sep t @ as') @ c # bs" using link.prems(3) Cons by simp
    moreover have "\<exists>j. lookup h (if is_rooted t then [] else cur) = Some (DirN j)"
      using link.prems(5) wf_root [OF link.prems(1)] by auto
    ultimately have "\<exists>r j. walk h Follow k (if is_rooted t then [] else cur) (split_on sep t @ as') = Inr r
        \<and> lookup h r = Some (DirN j)"
      using link.IH link.prems(1,4) by blast
    then show ?thesis using walk_link [OF link.hyps(1,2), of Follow as'] link.prems(3) Cons by simp
  qed (use link in auto)
next
  case (dir h m k cur d cs j)
  then show ?case by (cases as) (auto simp: walk_plain)
next
  case (reg h m k cur d cs j)
  then show ?case by (cases as) (auto simp: walk_plain split: if_splits)
next
  case (missing h m k cur d cs)
  then show ?case by (cases as) (auto simp: walk_plain split: if_splits)
next
  case (no_links h m cur d cs j t)
  then show ?case using walk_plain [of d h m 0 cur cs] by (cases as) auto
next
  case (last_link h k cur d j t)
  then show ?case by (cases as) auto
next
  case (empty h m k cur cs)
  then show ?case by (cases as) auto
next
  case (dot h m k cur cs)
  then show ?case by (cases as) auto
qed auto

lemma walk_beyond_file:
  assumes "walk h m k cur as = Inr q" "m = Follow" "lookup h q = Some (RegN j)"
    "lookup h cur = Some (DirN i)" "plain c" "host_wf h"
  shows "walk h m' k cur (as @ c # bs) = Inl ENOTDIR"
  using assms
proof (induction h m k cur as arbitrary: i rule: walk_induct)
  case (up h m k cur cs)
  have "\<exists>j. lookup h (butlast cur) = Some (DirN j)"
    using up.prems wf_butlast_dir [of h cur] wf_root [of h] by (cases "cur = []") auto
  then show ?case using up by auto
next
  case (link h m k cur d cs j t)
  have "walk h m k (if is_rooted t then [] else cur) (split_on sep t @ cs) = Inr q"
    using link.prems(1) unfolding walk_link [OF link.hyps] .
  moreover have "\<exists>j. lookup h (if is_rooted t then [] else cur) = Some (DirN j)"
    using link.prems(4) wf_root [OF link.prems(6)] by auto
  ultimately have "walk h m' k (if is_rooted t then [] else cur) ((split_on sep t @ cs) @ c # bs) = Inl ENOTDIR"
    using link.IH link.prems by blast
  then show ?case using walk_link [OF link.hyps(1,2), of m' "cs @ c # bs"] by simp
next
  case (no_links h m cur d cs j t)
  then show ?case using walk_plain [of d h m 0 cur cs] by auto
qed (auto simp: walk_plain split: if_splits)

subsection \<open>Calls on clean absolute paths\<close>

lemma kpath_render [simp]:
  assumes "good_comps cs"
  shows "kpath h (render True cs) = cs"
proof -
  have "filter (\<lambda>c. c \<noteq> '''' \<and> c \<noteq> ''.'') cs = cs"
    using assms by (auto simp: filter_id_conv list_all_iff good_comp_def)
  then show ?thesis using assms by (simp add: kpath_def split_render_True)
qed

lemma os_lstat_Inr:
  assumes "os_lstat h (render True cs) = Inr info" "good_comps cs"
  obtains q n where "walk h NoFollow kernel_links [] cs = Inr q" "lookup h q = Some n"
    "info = info_of h (Base (render True cs)) n"
  using assms by (auto simp: os_lstat_def stat_at_def split: option.splits sum.splits)

lemma os_lstat_ENOENT:
  assumes "os_lstat h (render True cs) = Inl (Errno ENOENT)" "good_comps cs" "host_wf h"
  shows "walk h NoFollow kernel_links [] cs = Inl ENOENT \<or>
    (\<exists>q. walk h NoFollow kernel_links [] cs = Inr q \<and> lookup h q = None)"
  using assms(1,2) wf_fault [OF assms(3)]
  by (auto simp: os_lstat_def stat_at_def unforeseen_def split: option.splits sum.splits)

lemma os_stat_Inr:
  assumes "os_stat h (render True cs) = Inr info" "good_comps cs"
  obtains q n where "walk h Follow kernel_links [] cs = Inr q" "lookup h q = Some n"
    "info = info_of h (Base (render True cs)) n"
  using assms by (auto simp: os_stat_def stat_at_def split: option.splits sum.splits)

lemma eval_symlinks_Inr:
  assumes "eval_symlinks h (render True cs) = Inr p" "good_comps cs"
  obtains q where "walk h Follow eval_links [] cs = Inr q" "p = render True q"
  using assms by (auto simp: eval_symlinks_def split: option.splits sum.splits errno.splits)

lemma eval_symlinks_ENOENT:
  assumes "eval_symlinks h (render True cs) = Inl (Errno ENOENT)" "good_comps cs" "host_wf h"
  shows "walk h Follow eval_links [] cs = Inl ENOENT"
  using assms(1,2) wf_fault [OF assms(3)]
  by (auto simp: eval_symlinks_def unforeseen_def split: option.splits sum.splits errno.splits)

lemma info_of_simps [simp]:
  "fi_name (info_of h s n) = s" "fi_node (info_of h s n) = n" "fi_size (info_of h s n) = node_size h n"
  "fi_perm (info_of h s n) = perm h (node_ino n)" "fi_dev (info_of h s n) = device h (node_ino n)"
  "fi_is_dir (info_of h s n) = is_dirN n" "fi_is_symlink (info_of h s n) = is_linkN n"
  by (simp_all add: info_of_def fi_is_dir_def fi_is_symlink_def)

end
