(* ===== verification/Security.thy ===== *)
theory Security
  imports HostFacts
begin

text \<open>
  The path guard of \<open>internal/security/path.go\<close> with the Unix file
  \<open>policy_unix.go\<close>: how a user path becomes an absolute path inside the sandbox
  root, which of its components are checked against the policy, and when a directory
  entry may be listed. The theorems about what the guard accepts are in
  \<open>SecurityFacts\<close>.
\<close>

subsection \<open>Policy, safe paths, guards\<close>

record policy =
  AllowHiddenFiles :: bool
  AllowUNCPaths :: bool
  FollowSymlinks :: bool

definition DefaultPolicy :: policy where
  "DefaultPolicy = \<lparr>AllowHiddenFiles = False, AllowUNCPaths = False, FollowSymlinks = False\<rparr>"

record safe_path =
  sp_path :: string

definition sp_String :: "safe_path \<Rightarrow> string" where
  "sp_String p = sp_path p"

definition sp_Base :: "safe_path \<Rightarrow> string" where
  "sp_Base p = Base (sp_path p)"

definition sp_Dir :: "safe_path \<Rightarrow> string" where
  "sp_Dir p = Dir (sp_path p)"

record path_guard =
  pg_root :: string
  pg_effectiveRoot :: string
  pg_policy :: policy

subsection \<open>The Unix side of the policy\<close>

definition isUNCPath :: "string \<Rightarrow> bool" where
  "isUNCPath p \<longleftrightarrow> has_prefix p [CHR 0x5C, CHR 0x5C] \<or> has_prefix p ''//''"

definition validatePathMetadata :: "host \<Rightarrow> string \<Rightarrow> policy \<Rightarrow> goerr option" where
  "validatePathMetadata h p pol =
     (case os_lstat h p of
        Inl e \<Rightarrow> Some e
      | Inr info \<Rightarrow>
          if \<not> FollowSymlinks pol \<and> fi_is_symlink info then Some ErrSymlinkDenied else None)"

definition evalEffectivePath :: "host \<Rightarrow> string \<Rightarrow> goerr + string" where
  "evalEffectivePath h p = eval_symlinks h p"

subsection \<open>Tests on strings\<close>

definition isInsideRoot :: "string \<Rightarrow> string \<Rightarrow> bool" where
  "isInsideRoot r p =
     (case Rel r p of
        None \<Rightarrow> False
      | Some relative \<Rightarrow>
          relative = ''.'' \<or> (relative \<noteq> ''..'' \<and> \<not> has_prefix relative ''../''))"

definition normalizeUserPath :: "string \<Rightarrow> string" where
  "normalizeUserPath u = (if trim_space u = [] then ''.'' else Clean u)"

definition isTraversalPath :: "string \<Rightarrow> bool" where
  "isTraversalPath p \<longleftrightarrow> p = ''..'' \<or> has_prefix p ''../''"

definition isHiddenName :: "string \<Rightarrow> bool" where
  "isHiddenName name \<longleftrightarrow>
     name \<noteq> [] \<and> name \<noteq> ''.'' \<and> name \<noteq> ''..'' \<and> has_prefix name ''.''"

definition hasHiddenPathComponent :: "string \<Rightarrow> bool" where
  "hasHiddenPathComponent p \<longleftrightarrow> p \<noteq> ''.'' \<and> list_ex isHiddenName (split_on sep p)"

subsection \<open>Constructing a guard\<close>

definition NewPathGuardWithPolicy :: "host \<Rightarrow> string \<Rightarrow> policy \<Rightarrow> (goerr, path_guard) result" where
  "NewPathGuardWithPolicy h r pol =
     (if trim_space r = [] then Inl ErrEmptyRoot
      else if \<not> AllowUNCPaths pol \<and> isUNCPath r then Inl ErrUNCPathDenied
      else case Abs (wd h) (Clean r) of
        None \<Rightarrow> Inl ErrGetwd
      | Some absoluteRoot \<Rightarrow>
          if \<not> AllowUNCPaths pol \<and> isUNCPath absoluteRoot then Inl ErrUNCPathDenied
          else case validatePathMetadata h absoluteRoot pol of
            Some e \<Rightarrow> Inl e
          | None \<Rightarrow>
              (case evalEffectivePath h absoluteRoot of
                 Inl e \<Rightarrow> Inl e
               | Inr effectiveRoot \<Rightarrow>
                   (case os_stat h effectiveRoot of
                      Inl e \<Rightarrow> Inl e
                    | Inr info \<Rightarrow>
                        if \<not> fi_is_dir info then Inl ErrRootNotDirectory
                        else Inr \<lparr>pg_root = absoluteRoot, pg_effectiveRoot = effectiveRoot,
                                  pg_policy = pol\<rparr>)))"

definition NewPathGuard :: "host \<Rightarrow> string \<Rightarrow> (goerr, path_guard) result" where
  "NewPathGuard h r = NewPathGuardWithPolicy h r DefaultPolicy"

definition Root :: "path_guard \<Rightarrow> string" where
  "Root g = pg_root g"

subsection \<open>Resolving a user path\<close>

definition resolveLexical :: "host \<Rightarrow> path_guard \<Rightarrow> string \<Rightarrow> (goerr, string) result" where
  "resolveLexical h g userPath =
     (let u = normalizeUserPath userPath in
      if \<not> AllowUNCPaths (pg_policy g) \<and> isUNCPath u then Inl ErrUNCPathDenied
      else if IsAbs u then Inl ErrAbsolutePath
      else if isTraversalPath u then Inl ErrPathTraversal
      else if \<not> AllowHiddenFiles (pg_policy g) \<and> hasHiddenPathComponent u then Inl ErrHiddenPathDenied
      else case Abs (wd h) (Join (pg_root g) u) of
        None \<Rightarrow> Inl ErrGetwd
      | Some resolvedPath \<Rightarrow>
          if \<not> isInsideRoot (pg_root g) resolvedPath then Inl ErrOutsideRoot else Inr resolvedPath)"

text \<open>The loop of \<open>validateExistingPathPolicy\<close> over the components of the relative path.\<close>

fun validate_components :: "host \<Rightarrow> policy \<Rightarrow> string \<Rightarrow> string list \<Rightarrow> goerr option" where
  "validate_components h pol current [] = None"
| "validate_components h pol current (c # cs) =
     (if c = [] \<or> c = ''.'' then validate_components h pol current cs
      else if \<not> AllowHiddenFiles pol \<and> isHiddenName c then Some ErrHiddenPathDenied
      else case validatePathMetadata h (Join current c) pol of
        Some e \<Rightarrow> Some e
      | None \<Rightarrow> validate_components h pol (Join current c) cs)"

definition validateExistingPathPolicy :: "host \<Rightarrow> path_guard \<Rightarrow> string \<Rightarrow> goerr option" where
  "validateExistingPathPolicy h g p =
     (case Rel (pg_root g) p of
        None \<Rightarrow> Some ErrOutsideRoot
      | Some relative \<Rightarrow>
          if relative = ''.'' then validatePathMetadata h (pg_root g) (pg_policy g)
          else validate_components h (pg_policy g) (pg_root g) (split_on sep relative))"

definition ResolveExisting :: "host \<Rightarrow> path_guard \<Rightarrow> string \<Rightarrow> (goerr, safe_path) result" where
  "ResolveExisting h g userPath =
     (case resolveLexical h g userPath of
        Inl e \<Rightarrow> Inl e
      | Inr resolvedPath \<Rightarrow>
          (case validateExistingPathPolicy h g resolvedPath of
             Some e \<Rightarrow> Inl e
           | None \<Rightarrow>
               (case evalEffectivePath h resolvedPath of
                  Inl e \<Rightarrow> Inl e
                | Inr effectivePath \<Rightarrow>
                    if \<not> isInsideRoot (pg_effectiveRoot g) effectivePath then Inl ErrOutsideRoot
                    else Inr \<lparr>sp_path = resolvedPath\<rparr>)))"

text \<open>
  The loop of \<open>resolveExistingParent\<close> climbs with \<open>Dir\<close>; it ends because \<open>Dir\<close> gives
  a shorter path or, at last, a path that is its own parent.
\<close>

definition comps_size :: "string list \<Rightarrow> nat" where
  "comps_size cs = sum_list (map (\<lambda>c. Suc (length c)) cs)"

lemma comps_size_simps [simp]: "comps_size [] = 0" "comps_size (c # cs) = Suc (length c) + comps_size cs"
    "comps_size (cs @ ds) = comps_size cs + comps_size ds" "comps_size (rev cs) = comps_size cs"
  by (simp_all add: comps_size_def rev_map [symmetric] sum_list_rev)

lemma comps_size_clean: "comps_size (foldl (clean_push r) st cs) \<le> comps_size st + comps_size cs"
proof (induction cs arbitrary: st)
  case (Cons c cs)
  have "comps_size (clean_push r st c) \<le> comps_size st + Suc (length c)"
    by (cases st) (auto simp: clean_push_def)
  then show ?case using Cons.IH [of "clean_push r st c"] by simp
qed simp

lemma comps_size_split: "comps_size (split_on c s) = Suc (length s)"
proof (induction s)
  case (Cons x s)
  then show ?case by (cases "split_on c s") auto
qed simp

lemma length_join: "cs \<noteq> [] \<Longrightarrow> Suc (length (join_with [x] cs)) = comps_size cs"
  by (induction "[x]" cs rule: join_with.induct) auto

lemma length_Clean:
  assumes "p \<noteq> []"
  shows "length (Clean p) \<le> length p"
proof (cases "is_rooted p")
  case True
  then obtain q where q: "p = sep # q" by (auto simp: is_rooted_def prefix_def)
  have "comps_size (path_comps p) \<le> Suc (length q)"
    using comps_size_clean [of True "[]" "split_on sep q"] q True
    by (simp add: path_comps_def clean_comps_def comps_size_split)
  then show ?thesis using True q length_join [of "path_comps p" sep]
    by (cases "path_comps p = []") (simp_all add: Clean_def render_def)
next
  case False
  have "comps_size (path_comps p) \<le> Suc (length p)"
    using comps_size_clean [of False "[]" "split_on sep p"] False
    by (simp add: path_comps_def clean_comps_def comps_size_split)
  then show ?thesis using False assms length_join [of "path_comps p" sep]
    by (cases "path_comps p = []") (auto simp: Clean_def render_def Suc_le_eq)
qed

lemma Clean_trailing_sep: "a \<noteq> [] \<Longrightarrow> Clean (a @ [sep]) = Clean a"
proof -
  assume "a \<noteq> []"
  then have "is_rooted (a @ [sep]) = is_rooted a" by (cases a) (auto simp: is_rooted_def)
  then show ?thesis
    using split_on_append_sep [of sep a "[]"] by (simp add: Clean_def path_comps_def clean_comps_def)
qed

lemma up_to_last_sep_cases:
  obtains "up_to_last_sep p = []" | a where "up_to_last_sep p = a @ [sep]" "length a < length p"
proof (cases "dropWhile (\<lambda>c. c \<noteq> sep) (rev p)")
  case Nil
  then show thesis using that(1) by (simp add: up_to_last_sep_def)
next
  case (Cons x xs)
  have "x = sep" using Cons hd_dropWhile [of "\<lambda>c. c \<noteq> sep" "rev p"] by auto
  moreover have "length (x # xs) \<le> length p"
    using length_dropWhile_le [of "\<lambda>c. c \<noteq> sep" "rev p"] Cons by simp
  ultimately show thesis using that(2) [of "rev xs"] Cons by (simp add: up_to_last_sep_def)
qed

definition climb_measure :: "string \<Rightarrow> nat" where
  "climb_measure p = (if p = ''.'' then 0 else Suc (length p))"

lemma Dir_climbs:
  assumes "Dir p \<noteq> p"
  shows "climb_measure (Dir p) < climb_measure p"
proof (cases p rule: up_to_last_sep_cases)
  case 1
  then have "Dir p = ''.''" by (simp add: Dir_def Clean_def path_comps_def clean_comps_def is_rooted_def render_def)
  then show ?thesis using assms by (auto simp: climb_measure_def)
next
  case (2 a)
  have p: "p \<noteq> ''.''" using 2 by (auto simp: up_to_last_sep_def)
  show ?thesis
  proof (cases "a = []")
    case True
    then have "Dir p = ''/''"
      using 2 by (simp add: Dir_def Clean_def render_def)
    then show ?thesis using assms 2 p by (cases p rule: list.exhaust) (auto simp: climb_measure_def up_to_last_sep_def)
  next
    case False
    then have "length (Dir p) < length p"
      using 2 length_Clean [of a] by (simp add: Dir_def Clean_trailing_sep)
    then show ?thesis using p by (auto simp: climb_measure_def)
  qed
qed

function existing_parent_loop :: "host \<Rightarrow> path_guard \<Rightarrow> string \<Rightarrow> (goerr, string) result" where
  "existing_parent_loop h g current =
     (let parent = Dir current in
      if parent = current then Inl ErrOutsideRoot
      else if \<not> isInsideRoot (pg_root g) parent then Inl ErrOutsideRoot
      else case validateExistingPathPolicy h g parent of
        Some e \<Rightarrow> if is_not_exist e then existing_parent_loop h g parent else Inl e
      | None \<Rightarrow>
          (case evalEffectivePath h parent of
             Inr effectiveParent \<Rightarrow> Inr effectiveParent
           | Inl e \<Rightarrow> if is_not_exist e then existing_parent_loop h g parent else Inl e))"
  by pat_completeness auto
termination
  by (relation "measure (\<lambda>(h, g, p). climb_measure p)") (auto intro: Dir_climbs)

declare existing_parent_loop.simps [simp del]

definition resolveExistingParent :: "host \<Rightarrow> path_guard \<Rightarrow> string \<Rightarrow> (goerr, string) result" where
  "resolveExistingParent h g p = existing_parent_loop h g (Clean p)"

definition ResolveForCreate :: "host \<Rightarrow> path_guard \<Rightarrow> string \<Rightarrow> (goerr, safe_path) result" where
  "ResolveForCreate h g userPath =
     (case resolveLexical h g userPath of
        Inl e \<Rightarrow> Inl e
      | Inr resolvedPath \<Rightarrow>
          (case evalEffectivePath h resolvedPath of
             Inr effectivePath \<Rightarrow>
               (case validateExistingPathPolicy h g resolvedPath of
                  Some e \<Rightarrow> Inl e
                | None \<Rightarrow>
                    if \<not> isInsideRoot (pg_effectiveRoot g) effectivePath then Inl ErrOutsideRoot
                    else Inr \<lparr>sp_path = resolvedPath\<rparr>)
           | Inl e \<Rightarrow>
               if \<not> is_not_exist e then Inl e
               else case resolveExistingParent h g resolvedPath of
                 Inl e \<Rightarrow> Inl e
               | Inr effectiveParent \<Rightarrow>
                   if \<not> isInsideRoot (pg_effectiveRoot g) effectiveParent then Inl ErrOutsideRoot
                   else Inr \<lparr>sp_path = resolvedPath\<rparr>))"

definition Resolve :: "host \<Rightarrow> path_guard \<Rightarrow> string \<Rightarrow> (goerr, safe_path) result" where
  "Resolve h g userPath = ResolveForCreate h g userPath"

subsection \<open>Directory entries\<close>

definition AllowListEntry :: "host \<Rightarrow> path_guard \<Rightarrow> safe_path \<Rightarrow> string \<Rightarrow> (goerr, bool) result" where
  "AllowListEntry h g parent name =
     (if \<not> AllowHiddenFiles (pg_policy g) \<and> isHiddenName name then Inr False
      else let entryPath = Join (sp_String parent) name in
        if \<not> isInsideRoot (pg_root g) entryPath then Inl ErrOutsideRoot
        else case validatePathMetadata h entryPath (pg_policy g) of
          Some e \<Rightarrow>
            if e \<in> {ErrHiddenPathDenied, ErrSymlinkDenied, ErrReparsePointDenied} then Inr False
            else Inl e
        | None \<Rightarrow>
            (case evalEffectivePath h entryPath of
               Inl e \<Rightarrow> Inl e
             | Inr effectivePath \<Rightarrow>
                 Inr (isInsideRoot (pg_effectiveRoot g) effectivePath)))"

end
