(* ===== verification/SecurityFacts.thy ===== *)
theory SecurityFacts
  imports Security
begin

text \<open>
  What the path guard's functions mean on components: the string tests are prefix tests on
  component lists, a lexically resolved path is the root followed by good components, and a
  validated path has no symbolic link below the root. The main lemmas, used by every file
  operation, say where the kernel's walk of an accepted path ends.
\<close>

subsection \<open>String tests on components\<close>

lemma prefix_join_first:
  assumes "cs \<noteq> []" "good_comps cs \<or> hd cs = ''..''"
  shows "(join_with [sep] cs = ''..'' \<or> prefix ''../'' (join_with [sep] cs)) \<longleftrightarrow> hd cs = ''..''"
proof -
  obtain c ds where cs: "cs = c # ds" using assms(1) by (cases cs) auto
  have c: "sep \<notin> set c" "c \<noteq> []" using assms(2) cs by (auto simp: good_comp_def)
  have j: "join_with [sep] cs = c @ (if ds = [] then [] else sep # join_with [sep] ds)"
    using cs by (simp add: join_with_first)
  show ?thesis
  proof (cases c)
    case (Cons a1 c1)
    then show ?thesis using j c cs
      by (cases c1; cases "tl c1") (auto simp: prefix_def Cons_eq_append_conv append_eq_Cons_conv)
  qed (use c in simp)
qed

lemma render_dotdot_iff:
  assumes "good_comps gs"
  shows "(render False (replicate n ''..'' @ gs) = ''..'' \<or>
          prefix ''../'' (render False (replicate n ''..'' @ gs))) \<longleftrightarrow> 0 < n"
proof (cases "replicate n ''..'' @ gs = []")
  case True
  then show ?thesis by (auto simp: render_def prefix_def)
next
  case False
  have "good_comps (replicate n ''..'' @ gs) \<or> hd (replicate n ''..'' @ gs) = ''..''"
    using assms by (cases n) auto
  from prefix_join_first [OF False this] show ?thesis
    using False assms by (cases n; cases gs) (auto simp: render_def good_comp_def)
qed

lemma render_dot_iff:
  assumes "good_comps gs"
  shows "render False (replicate n ''..'' @ gs) = ''.'' \<longleftrightarrow> n = 0 \<and> gs = []"
proof (cases "replicate n ''..'' @ gs")
  case (Cons c cs)
  have c: "c \<noteq> ''.''" "c \<noteq> []" using Cons assms by (cases n; cases gs; auto simp: good_comp_def)+
  then have "join_with [sep] (c # cs) \<noteq> ''.''"
    by (auto simp: join_with_first append_eq_Cons_conv)
  then show ?thesis using Cons by (auto simp: render_def)
qed (auto simp: render_def)

lemma isInsideRoot_iff [go_path]:
  assumes "is_rooted r" "is_rooted p"
  shows "isInsideRoot r p \<longleftrightarrow> prefix (path_comps r) (path_comps p)"
proof (cases "path_comps p = path_comps r")
  case True
  then show ?thesis using assms by (simp add: isInsideRoot_def Rel_rooted)
next
  case False
  obtain b t where bt: "strip_common (path_comps r) (path_comps p) = (b, t)" by fastforce
  have t: "good_comps t"
    using set_strip_common(2) [of "path_comps r" "path_comps p"] bt path_comps_rooted_good [OF assms(2)]
    by (auto simp: list_all_iff)
  have b: "b = [] \<longleftrightarrow> prefix (path_comps r) (path_comps p)"
    using fst_strip_common_Nil [of "path_comps r" "path_comps p"] bt by simp
  have "isInsideRoot r p \<longleftrightarrow> render False (replicate (length b) ''..'' @ t) = ''.'' \<or> \<not> 0 < length b"
    unfolding render_dotdot_iff [OF t, symmetric]
    using assms False bt by (auto simp: isInsideRoot_def Rel_rooted has_prefix_def)
  then show ?thesis using b render_dot_iff [OF t, of "length b"] by auto
qed

lemma isInsideRoot_render:
  "good_comps rs \<Longrightarrow> good_comps ps \<Longrightarrow> isInsideRoot (render True rs) (render True ps) \<longleftrightarrow> prefix rs ps"
  by (simp add: isInsideRoot_iff)

lemma space_not_sep:
  "\<not> ascii_space sep" "\<not> space2 sep b" "\<not> space2 a sep"
  "\<not> space3 sep b c" "\<not> space3 a sep c" "\<not> space3 a b sep"
  by (simp_all add: ascii_space_def space2_def space3_def)

lemma space_len_no_sep: "sep \<notin> set (take (space_len s) s)" "sep \<notin> set (take (space_len_rev s) s)"
proof -
  consider "s = []" | a where "s = [a]" | a b where "s = [a, b]" | a b c t where "s = a # b # c # t"
    by (metis list.exhaust)
  then have "sep \<notin> set (take (space_len s) s) \<and> sep \<notin> set (take (space_len_rev s) s)"
    by cases (use space_not_sep in \<open>auto simp: space_len_def space_len_rev_def\<close>)
  then show "sep \<notin> set (take (space_len s) s)" "sep \<notin> set (take (space_len_rev s) s)" by auto
qed

lemma trim_run_keeps:
  assumes "\<And>s. x \<notin> set (take (f s) s)"
  shows "x \<in> set s \<Longrightarrow> x \<in> set (trim_run f s)"
proof (induction "length s" arbitrary: s rule: less_induct)
  case less
  show ?case
  proof (cases "s = [] \<or> f s = 0")
    case False
    have "x \<in> set (drop (f s) s)"
      using less.prems assms [of s] by (metis Un_iff append_take_drop_id set_append)
    then have "x \<in> set (trim_run f (drop (f s) s))" by (intro less.hyps) (use False in auto)
    then show ?thesis using False by (simp add: trim_run.simps [of f s])
  qed (use less.prems in \<open>simp add: trim_run.simps [of f s]\<close>)
qed

lemma trim_space_slash: "is_rooted u \<Longrightarrow> trim_space u \<noteq> []"
proof -
  assume "is_rooted u"
  then have "sep \<in> set u" by (auto simp: is_rooted_def prefix_def)
  then have "sep \<in> set (trim_space u)"
    unfolding trim_space_def by (simp add: trim_run_keeps space_len_no_sep)
  then show ?thesis by auto
qed

subsection \<open>Lexical resolution\<close>

text \<open>The components a user path names, relative to the root.\<close>

definition user_comps :: "string \<Rightarrow> string list" where
  "user_comps u = (if trim_space u = [] then [] else path_comps u)"

lemma not_rooted_dotdots: "good_comps gs \<Longrightarrow> \<not> is_rooted (render False (replicate n ''..'' @ gs))"
  by (cases n) (simp_all add: not_rooted_render, simp add: is_rooted_def render_def join_with_first)

lemma user_comps_cases:
  assumes "\<not> is_rooted u"
  obtains n gs where "user_comps u = replicate n ''..'' @ gs" "good_comps gs"
    "normalizeUserPath u = render False (user_comps u)"
proof (cases "trim_space u = []")
  case True
  then show thesis using that [of 0 "[]"] by (simp add: user_comps_def normalizeUserPath_def render_def)
next
  case False
  from path_comps_unrooted [OF assms] obtain n gs
    where "path_comps u = replicate n ''..'' @ gs" "good_comps gs" .
  then show thesis
    using that [of n gs] False assms by (simp add: user_comps_def normalizeUserPath_def Clean_def)
qed

lemma hidden_render:
  assumes "good_comps gs"
  shows "hasHiddenPathComponent (render False gs) \<longleftrightarrow> list_ex isHiddenName gs"
proof (cases "gs = []")
  case True
  then show ?thesis by (simp add: render_def hasHiddenPathComponent_def)
next
  case False
  have "split_on sep (render False gs) = gs"
    using False assms by (simp add: render_def) (rule split_on_join, auto simp: list_all_iff good_comp_def)
  then show ?thesis
    using render_dot_iff [OF assms, of 0] False by (simp add: hasHiddenPathComponent_def)
qed

lemma normalize_rooted: "is_rooted (normalizeUserPath u) \<longleftrightarrow> is_rooted u"
proof (cases "is_rooted u")
  case True
  then show ?thesis using trim_space_slash by (simp add: normalizeUserPath_def)
next
  case False
  from user_comps_cases [OF this] show ?thesis
    using False not_rooted_dotdots by metis
qed

lemma resolveLexical_eq:
  assumes "clean_abs (pg_root g)"
  shows "resolveLexical h g u =
    (if \<not> AllowUNCPaths (pg_policy g) \<and> isUNCPath (normalizeUserPath u) then Inl ErrUNCPathDenied
     else if is_rooted u then Inl ErrAbsolutePath
     else if ''..'' \<in> set (user_comps u) then Inl ErrPathTraversal
     else if \<not> AllowHiddenFiles (pg_policy g) \<and> list_ex isHiddenName (user_comps u)
       then Inl ErrHiddenPathDenied
     else Inr (render True (path_comps (pg_root g) @ user_comps u)))"
proof (cases "is_rooted u")
  case True
  then show ?thesis by (simp add: resolveLexical_def Let_def IsAbs_def normalize_rooted)
next
  case False
  from user_comps_cases [OF False] obtain n gs where
    u: "user_comps u = replicate n ''..'' @ gs" and g: "good_comps gs"
    and nu: "normalizeUserPath u = render False (user_comps u)" .
  have abs: "\<not> IsAbs (normalizeUserPath u)" using False by (simp add: IsAbs_def normalize_rooted)
  have trav: "isTraversalPath (normalizeUserPath u) \<longleftrightarrow> 0 < n"
    using render_dotdot_iff [OF g, of n] by (simp add: nu u isTraversalPath_def has_prefix_def)
  have dd: "''..'' \<in> set (user_comps u) \<longleftrightarrow> 0 < n"
    using u good_comps_no_dotdot [OF g] by auto
  show ?thesis
  proof (cases "0 < n")
    case True
    then show ?thesis using abs trav dd False by (simp add: resolveLexical_def Let_def)
  next
    case n0: False
    then have uc: "user_comps u = gs" using u by simp
    have root: "is_rooted (pg_root g)" "good_comps (path_comps (pg_root g))"
      using assms by (simp_all add: clean_abs_rooted clean_abs_good)
    have join: "Join (pg_root g) (render False gs) = render True (path_comps (pg_root g) @ gs)"
      using Join_clean [OF root(1) not_rooted_render [OF g]] g by simp
    have abs2: "Abs (wd h) (render True (path_comps (pg_root g) @ gs)) =
        Some (render True (path_comps (pg_root g) @ gs))"
      using root(2) g by (simp add: Abs_def IsAbs_def clean_abs_Clean_id)
    have inside: "isInsideRoot (pg_root g) (render True (path_comps (pg_root g) @ gs))"
      using root g by (simp add: isInsideRoot_iff)
    show ?thesis
      using abs trav dd n0 False hidden_render [OF g] inside abs2
      by (simp add: resolveLexical_def Let_def join nu uc)
  qed
qed

lemma resolveLexical_InrE:
  assumes "resolveLexical h g u = Inr p" "clean_abs (pg_root g)"
  obtains bs where "p = render True (path_comps (pg_root g) @ bs)" "good_comps bs" "bs = user_comps u"
    "\<not> AllowHiddenFiles (pg_policy g) \<Longrightarrow> \<not> list_ex isHiddenName bs"
proof -
  have nr: "\<not> is_rooted u" and nd: "''..'' \<notin> set (user_comps u)"
    and p: "p = render True (path_comps (pg_root g) @ user_comps u)"
    and hid: "\<not> AllowHiddenFiles (pg_policy g) \<Longrightarrow> \<not> list_ex isHiddenName (user_comps u)"
    using assms(1) unfolding resolveLexical_eq [OF assms(2)] by (auto split: if_splits)
  from user_comps_cases [OF nr] obtain n gs where "user_comps u = replicate n ''..'' @ gs" "good_comps gs" .
  then have "good_comps (user_comps u)" using nd by (cases n) auto
  with p hid that show thesis by blast
qed

subsection \<open>Guards\<close>

text \<open>The invariant of a constructed guard; \<open>eroot g\<close> is the physical root.\<close>

definition eroot :: "path_guard \<Rightarrow> string list" where
  "eroot g = path_comps (pg_effectiveRoot g)"

definition guard_ok :: "host \<Rightarrow> path_guard \<Rightarrow> bool" where
  "guard_ok h g \<longleftrightarrow>
     clean_abs (pg_root g) \<and> clean_abs (pg_effectiveRoot g) \<and>
     walk h Follow eval_links [] (path_comps (pg_root g)) = Inr (eroot g) \<and>
     (\<exists>i. lookup h (eroot g) = Some (DirN i))"

lemma guard_okD:
  assumes "guard_ok h g"
  shows guard_clean: "clean_abs (pg_root g)" "clean_abs (pg_effectiveRoot g)"
    and guard_good: "good_comps (path_comps (pg_root g))" "good_comps (eroot g)"
    and guard_rooted: "is_rooted (pg_root g)" "is_rooted (pg_effectiveRoot g)"
    and guard_walk: "walk h Follow eval_links [] (path_comps (pg_root g)) = Inr (eroot g)"
    and guard_dir: "\<exists>i. lookup h (eroot g) = Some (DirN i)"
  using assms by (auto simp: guard_ok_def clean_abs_good clean_abs_rooted eroot_def)

lemma walk_at_root:
  assumes "walk h Follow k [] cs = Inr q" "good_comps cs"
  shows "good_comps q"
  by (rule walk_good [OF assms(1)]) (use assms(2) in \<open>simp_all add: list_all_iff good_comp_def\<close>)

lemma NewPathGuard_ok:
  assumes "NewPathGuardWithPolicy h r pol = Inr g" "host_wf h" "\<forall>w. wd h = Some w \<longrightarrow> is_rooted w"
  shows "guard_ok h g \<and> pg_policy g = pol"
proof -
  obtain ar er info where ar: "Abs (wd h) (Clean r) = Some ar"
    and er: "eval_symlinks h ar = Inr er" and st: "os_stat h er = Inr info" and d: "fi_is_dir info"
    and g: "g = \<lparr>pg_root = ar, pg_effectiveRoot = er, pg_policy = pol\<rparr>"
    using assms(1)
    by (auto simp: NewPathGuardWithPolicy_def evalEffectivePath_def split: if_splits option.splits sum.splits)
  have ca: "clean_abs ar"
  proof (cases "IsAbs (Clean r)")
    case True
    then show ?thesis using ar by (auto simp: Abs_def IsAbs_def)
  next
    case False
    then obtain w where "wd h = Some w" "ar = Join w (Clean r)" using ar by (auto simp: Abs_def)
    then show ?thesis using assms(3) by (simp add: Join_rooted is_rooted_append)
  qed
  then have are: "ar = render True (path_comps ar)" "good_comps (path_comps ar)"
    by (simp_all add: clean_abs_def clean_abs_good)
  obtain q where q: "walk h Follow eval_links [] (path_comps ar) = Inr q" "er = render True q"
    using er are eval_symlinks_Inr by metis
  have gq: "good_comps q" by (rule walk_at_root [OF q(1) are(2)])
  obtain q' n where q': "walk h Follow kernel_links [] q = Inr q'" "lookup h q' = Some n"
    "info = info_of h (Base er) n"
    using st gq unfolding q(2) by (rule os_stat_Inr)
  obtain i0 where "lookup h [] = Some (DirN i0)" using wf_root [OF assms(2)] by blast
  then obtain m where m: "lookup h q = Some m" "\<not> is_linkN m"
    using walk_Follow_exists [OF assms(2) q(1) refl] by blast
  have "q' = q"
  proof (cases q rule: rev_cases)
    case Nil
    then show ?thesis using q'(1) by simp
  next
    case (snoc as c)
    have "walk h Follow kernel_links [] (as @ [c]) = walk h Follow kernel_links ([] @ as) [c]"
    proof (rule walk_along_dirs)
      show "good_comps as" using gq snoc by simp
      show "\<exists>i. lookup h ([] @ bs) = Some (DirN i)" if pre: "prefix bs as" "bs \<noteq> []" for bs
      proof -
        obtain cs where "as = bs @ cs" using pre(1) unfolding prefix_def by blast
        then show ?thesis using wf_prefix_dir [OF assms(2), of bs "cs @ [c]" m] m(1) snoc by simp
      qed
    qed
    moreover have "good_comp c" using gq snoc by simp
    ultimately show ?thesis using q'(1) m snoc by (cases m) (simp_all add: walk_last)
  qed
  then have "\<exists>i. lookup h q = Some (DirN i)" using q' d by (cases n) simp_all
  then show ?thesis using ca q gq g by (simp add: guard_ok_def eroot_def)
qed

subsection \<open>Validation of existing components\<close>

lemma validate_components_None:
  assumes "good_comps base" "good_comps cs"
  shows "validate_components h pol (render True base) cs = None \<longleftrightarrow>
    (\<not> AllowHiddenFiles pol \<longrightarrow> \<not> list_ex isHiddenName cs) \<and>
    (\<forall>as. as \<noteq> [] \<longrightarrow> prefix as cs \<longrightarrow> validatePathMetadata h (render True (base @ as)) pol = None)"
  using assms
proof (induction cs arbitrary: base)
  case (Cons d cs)
  have join: "Join (render True base) d = render True (base @ [d])"
    using Cons.prems by (simp add: Join_comp)
  have split: "(\<forall>as. as \<noteq> [] \<longrightarrow> prefix as (d # cs) \<longrightarrow> P as) \<longleftrightarrow>
      P [d] \<and> (\<forall>as. as \<noteq> [] \<longrightarrow> prefix as cs \<longrightarrow> P (d # as))" (is "?A \<longleftrightarrow> ?B") for P :: "string list \<Rightarrow> bool"
  proof
    assume ?A
    then have "P (d # as)" if "prefix as cs" for as using that by simp
    then show ?B by simp
  next
    assume B: ?B
    show ?A
    proof (intro allI impI)
      fix as assume "as \<noteq> []" "prefix as (d # cs)"
      then obtain as' where "as = d # as'" "prefix as' cs" by (cases as) auto
      then show "P as" using B by (cases "as' = []") auto
    qed
  qed
  have d: "d \<noteq> []" "d \<noteq> ''.''" using Cons.prems by (auto simp: good_comp_def)
  have IH: "validate_components h pol (render True (base @ [d])) cs = None \<longleftrightarrow>
    (\<not> AllowHiddenFiles pol \<longrightarrow> \<not> list_ex isHiddenName cs) \<and>
    (\<forall>as. as \<noteq> [] \<longrightarrow> prefix as cs \<longrightarrow>
      validatePathMetadata h (render True ((base @ [d]) @ as)) pol = None)"
    using Cons.prems by (intro Cons.IH) simp_all
  show ?case
    using d IH split [of "\<lambda>x. validatePathMetadata h (render True (base @ x)) pol = None"]
    by (auto simp: join split: option.splits)
qed simp

lemma validateExistingPathPolicy_eq:
  assumes "clean_abs (pg_root g)" "good_comps bs"
  shows "validateExistingPathPolicy h g (render True (path_comps (pg_root g) @ bs)) =
    (if bs = [] then validatePathMetadata h (pg_root g) (pg_policy g)
     else validate_components h (pg_policy g) (pg_root g) bs)"
proof -
  let ?rs = "path_comps (pg_root g)"
  have root: "is_rooted (pg_root g)" "good_comps ?rs"
    using assms by (simp_all add: clean_abs_rooted clean_abs_good)
  have rel: "Rel (pg_root g) (render True (?rs @ bs)) =
      (if bs = [] then Some ''.'' else Some (render False bs))"
    using root assms(2) by (simp add: Rel_rooted strip_common_prefix)
  show ?thesis
  proof (cases "bs = []")
    case False
    have "split_on sep (render False bs) = bs"
      using False assms(2) by (simp add: render_def) (rule split_on_join, auto simp: list_all_iff good_comp_def)
    then show ?thesis
      using False rel render_dot_iff [OF assms(2), of 0] by (simp add: validateExistingPathPolicy_def)
  qed (use rel in \<open>simp add: validateExistingPathPolicy_def\<close>)
qed

subsection \<open>Paths accepted under the default policy\<close>

text \<open>
  Every component below the root exists and is not a link; all but the last are directories.
\<close>

definition link_free :: "host \<Rightarrow> string list \<Rightarrow> string list \<Rightarrow> bool" where
  "link_free h r bs \<longleftrightarrow>
     (\<forall>as. prefix as bs \<longrightarrow>
        (\<exists>n. lookup h (r @ as) = Some n \<and> \<not> is_linkN n \<and> (as \<noteq> bs \<longrightarrow> is_dirN n)))"

text \<open>The kernel reaches \<open>q\<close> from the path, following links or not.\<close>

definition reaches :: "host \<Rightarrow> string list \<Rightarrow> string list \<Rightarrow> bool" where
  "reaches h cs q \<longleftrightarrow> (\<forall>m. walk h m kernel_links [] cs = Inr q)"

lemma validatePathMetadata_None:
  assumes "validatePathMetadata h (render True cs) pol = None" "good_comps cs"
  obtains q n where "walk h NoFollow kernel_links [] cs = Inr q" "lookup h q = Some n"
    "\<not> FollowSymlinks pol \<Longrightarrow> \<not> is_linkN n"
proof -
  obtain info where i: "os_lstat h (render True cs) = Inr info"
    "\<not> FollowSymlinks pol \<Longrightarrow> \<not> fi_is_symlink info"
    using assms(1) by (auto simp: validatePathMetadata_def split: sum.splits if_splits)
  from os_lstat_Inr [OF i(1) assms(2)] i(2) that show thesis by fastforce
qed

lemma kernel_le_eval: "kernel_links \<le> eval_links"
  by (simp add: kernel_links_def eval_links_def)

lemma walk_eval_unique:
  assumes "walk h m kernel_links [] cs = Inr q" "walk h m eval_links [] cs = Inr r"
  shows "q = r"
  using walk_more_links [OF assms(1) _ kernel_le_eval] assms(2) by simp

text \<open>One component further: the walk of \<open>as @ [c]\<close> continues from where \<open>as\<close> leads.\<close>

lemma reaches_step:
  assumes "walk h Follow kernel_links [] as = Inr r" "lookup h r = Some (DirN i)"
  shows "\<exists>k'. \<forall>m. walk h m kernel_links [] (as @ [c]) = walk h m k' r [c]"
  using walk_split [of h Follow kernel_links "[]" as r i] assms by auto

lemma reaches_child:
  assumes "host_wf h" "walk h Follow kernel_links [] as = Inr r" "good_comp c"
    and "walk h NoFollow kernel_links [] (as @ [c]) = Inr q" "lookup h q = Some n" "\<not> is_linkN n"
  shows "q = r @ [c] \<and> reaches h (as @ [c]) q \<and> (\<exists>i. lookup h r = Some (DirN i))"
proof -
  obtain i0 where "lookup h [] = Some (DirN i0)" using wf_root [OF assms(1)] by blast
  then obtain r' j where r': "walk h Follow kernel_links [] as = Inr r'" "lookup h r' = Some (DirN j)"
    using walk_through_dir [OF assms(1,4), of as c "[]"] assms(3) good_comp_plain by auto
  then have d: "lookup h r = Some (DirN j)" using assms(2) by simp
  from reaches_step [OF assms(2) d, of c] obtain k' where
    k': "\<And>m. walk h m kernel_links [] (as @ [c]) = walk h m k' r [c]" by blast
  have "walk h NoFollow k' r [c] = Inr q" using k' assms(4) by simp
  then have "q = r @ [c]"
    using assms(3) by (simp add: walk_last split: option.splits node.splits)
  moreover have "reaches h (as @ [c]) q"
    unfolding reaches_def using walk_nonlink_modes [OF assms(4) refl assms(5,6)] by blast
  ultimately show ?thesis using d by blast
qed

lemma link_free_snoc:
  assumes "link_free h r bs" "lookup h (r @ bs) = Some (DirN i)" "lookup h (r @ bs @ [c]) = Some n"
    "\<not> is_linkN n"
  shows "link_free h r (bs @ [c])"
  unfolding link_free_def
proof (intro allI impI)
  fix as assume "prefix as (bs @ [c])"
  then consider "as = bs @ [c]" | "as = bs" | "prefix as bs" "as \<noteq> bs" by auto
  then show "\<exists>n. lookup h (r @ as) = Some n \<and> \<not> is_linkN n \<and> (as \<noteq> bs @ [c] \<longrightarrow> is_dirN n)"
    by cases (use assms in \<open>auto simp: link_free_def\<close>)
qed

lemma link_free_take: "link_free h r (bs @ cs) \<Longrightarrow> link_free h r bs"
  unfolding link_free_def
proof (intro allI impI)
  fix as
  assume *: "\<forall>as. prefix as (bs @ cs) \<longrightarrow>
      (\<exists>n. lookup h (r @ as) = Some n \<and> \<not> is_linkN n \<and> (as \<noteq> bs @ cs \<longrightarrow> is_dirN n))"
    and "prefix as bs"
  then have "prefix as (bs @ cs)" by simp
  then obtain n where "lookup h (r @ as) = Some n" "\<not> is_linkN n" "as \<noteq> bs @ cs \<longrightarrow> is_dirN n"
    using * by blast
  moreover have "as \<noteq> bs @ cs" if "as \<noteq> bs" using that \<open>prefix as bs\<close> by (auto simp: prefix_def)
  ultimately show "\<exists>n. lookup h (r @ as) = Some n \<and> \<not> is_linkN n \<and> (as \<noteq> bs \<longrightarrow> is_dirN n)"
    by blast
qed

lemma validated_link_free:
  assumes g: "guard_ok h g" and wf: "host_wf h" and nf: "\<not> FollowSymlinks (pg_policy g)"
    and bs: "good_comps bs"
    and ok: "validateExistingPathPolicy h g (render True (path_comps (pg_root g) @ bs)) = None"
  shows "link_free h (eroot g) bs \<and> reaches h (path_comps (pg_root g) @ bs) (eroot g @ bs)"
proof -
  let ?rs = "path_comps (pg_root g)"
  have good: "good_comps ?rs" by (rule guard_good(1) [OF g])
  have root_eq: "pg_root g = render True ?rs" using guard_clean(1) [OF g] by (simp add: clean_abs_def)
  obtain i where dir: "lookup h (eroot g) = Some (DirN i)" using guard_dir [OF g] by blast
  show ?thesis
  proof (cases "bs = []")
    case True
    then have "validatePathMetadata h (render True ?rs) (pg_policy g) = None"
      using ok validateExistingPathPolicy_eq [OF guard_clean(1) [OF g] bs, of h] root_eq by simp
    from validatePathMetadata_None [OF this good] obtain q n where
      q: "walk h NoFollow kernel_links [] ?rs = Inr q" "lookup h q = Some n" "\<not> is_linkN n" using nf by metis
    have w: "walk h m kernel_links [] ?rs = Inr q" for m
      using walk_nonlink_modes [OF q(1) refl q(2,3)] .
    have "q = eroot g" by (rule walk_eval_unique [OF w guard_walk [OF g]])
    then show ?thesis using True dir w by (simp add: link_free_def reaches_def)
  next
    case ne: False
    have steps: "validatePathMetadata h (render True (?rs @ as)) (pg_policy g) = None"
      if "prefix as bs" "as \<noteq> []" for as
      using ok ne validateExistingPathPolicy_eq [OF guard_clean(1) [OF g] bs, of h]
        validate_components_None [OF good bs, of h "pg_policy g"] root_eq that by metis
    have root: "walk h Follow kernel_links [] ?rs = Inr (eroot g)"
    proof -
      obtain c cs where bs': "bs = c # cs" using ne by (cases bs) auto
      then have c: "good_comp c" using bs by simp
      have "validatePathMetadata h (render True (?rs @ [c])) (pg_policy g) = None"
        by (rule steps) (simp_all add: bs')
      then obtain q where "walk h NoFollow kernel_links [] (?rs @ [c]) = Inr q"
        by (rule validatePathMetadata_None) (use good c in simp_all)
      moreover obtain i0 where "lookup h [] = Some (DirN i0)" using wf_root [OF wf] by blast
      ultimately obtain r where r: "walk h Follow kernel_links [] ?rs = Inr r"
        using walk_through_dir [OF wf, of NoFollow kernel_links "[]" _ q ?rs c "[]"] c good_comp_plain
        by blast
      then show ?thesis using walk_eval_unique [OF r guard_walk [OF g]] by simp
    qed
    have "prefix as bs \<Longrightarrow> link_free h (eroot g) as \<and>
        walk h Follow kernel_links [] (?rs @ as) = Inr (eroot g @ as) \<and>
        (as \<noteq> [] \<longrightarrow> reaches h (?rs @ as) (eroot g @ as))" for as
    proof (induction as rule: rev_induct)
      case Nil
      then show ?case using root dir by (simp add: link_free_def)
    next
      case (snoc c as)
      have pre: "prefix as bs" using snoc.prems by (rule append_prefixD)
      have gc: "good_comp c" "good_comps as"
        using bs snoc.prems by (auto simp: prefix_def)
      have "validatePathMetadata h (render True (?rs @ as @ [c])) (pg_policy g) = None"
        using steps [OF snoc.prems] by simp
      then obtain q n where q: "walk h NoFollow kernel_links [] (?rs @ as @ [c]) = Inr q"
        "lookup h q = Some n" "\<not> is_linkN n"
        by (rule validatePathMetadata_None) (use good gc nf in simp_all)
      have q1: "walk h NoFollow kernel_links [] ((?rs @ as) @ [c]) = Inr q" using q(1) by simp
      have IH: "link_free h (eroot g) as" "walk h Follow kernel_links [] (?rs @ as) = Inr (eroot g @ as)"
        using snoc.IH [OF pre] by auto
      from reaches_child [OF wf IH(2) gc(1) q1 q(2,3)]
      show ?case using link_free_snoc [OF IH(1)] q(2,3) by (auto simp: reaches_def)
    qed
    then show ?thesis using ne by simp
  qed
qed

lemma validate_components_snoc:
  assumes "good_comps base" "good_comps (as @ [c])"
  shows "validate_components h pol (render True base) (as @ [c]) =
    (case validate_components h pol (render True base) as of
       Some e \<Rightarrow> Some e
     | None \<Rightarrow> if \<not> AllowHiddenFiles pol \<and> isHiddenName c then Some ErrHiddenPathDenied
               else validatePathMetadata h (render True (base @ as @ [c])) pol)"
  using assms
proof (induction as arbitrary: base)
  case Nil
  have "Join (render True base) c = render True (base @ [c])" using Nil.prems by (simp add: Join_comp)
  moreover have "c \<noteq> []" "c \<noteq> ''.''" using Nil.prems by (auto simp: good_comp_def)
  ultimately show ?case by (simp split: option.split)
next
  case (Cons d as)
  have "Join (render True base) d = render True (base @ [d])" using Cons.prems by (simp add: Join_comp)
  moreover have "d \<noteq> []" "d \<noteq> ''.''" using Cons.prems by (auto simp: good_comp_def)
  ultimately show ?case using Cons.IH [of "base @ [d]"] Cons.prems by (simp split: option.splits)
qed

lemma validatePathMetadata_missing:
  "validatePathMetadata h p pol = Some e \<Longrightarrow> is_not_exist e \<Longrightarrow> os_lstat h p = Inl (Errno ENOENT)"
  by (auto simp: validatePathMetadata_def is_not_exist_def split: sum.splits if_splits)

text \<open>The parent is validated and the child is reported missing: it is missing.\<close>

lemma missing_child:
  assumes g: "guard_ok h g" and wf: "host_wf h" and nf: "\<not> FollowSymlinks (pg_policy g)"
    and bs: "good_comps (as @ [c])"
    and ok: "validateExistingPathPolicy h g (render True (path_comps (pg_root g) @ as)) = None"
    and e: "validateExistingPathPolicy h g (render True (path_comps (pg_root g) @ as @ [c])) = Some e"
      "is_not_exist e"
  shows "lookup h (eroot g @ as @ [c]) = None \<and> (\<exists>i. lookup h (eroot g @ as) = Some (DirN i))"
proof -
  let ?rs = "path_comps (pg_root g)"
  have good: "good_comps ?rs" by (rule guard_good(1) [OF g])
  have root_eq: "pg_root g = render True ?rs" using guard_clean(1) [OF g] by (simp add: clean_abs_def)
  have gc: "good_comp c" "good_comps as" using bs by auto
  note lf = validated_link_free [OF g wf nf gc(2) ok]
  have v: "validate_components h (pg_policy g) (render True ?rs) (as @ [c]) = Some e"
    using e(1) validateExistingPathPolicy_eq [OF guard_clean(1) [OF g] bs, of h] root_eq by simp
  have "validate_components h (pg_policy g) (render True ?rs) as = None"
    using ok validateExistingPathPolicy_eq [OF guard_clean(1) [OF g] gc(2), of h] root_eq
    by (cases "as = []") simp_all
  then have "validatePathMetadata h (render True (?rs @ as @ [c])) (pg_policy g) = Some e"
    using v e(2) validate_components_snoc [OF good bs, of h "pg_policy g"]
    by (auto simp: is_not_exist_def split: if_splits)
  then have "os_lstat h (render True (?rs @ as @ [c])) = Inl (Errno ENOENT)"
    using e(2) by (rule validatePathMetadata_missing)
  then have miss: "walk h NoFollow kernel_links [] ((?rs @ as) @ [c]) = Inl ENOENT \<or>
      (\<exists>q. walk h NoFollow kernel_links [] ((?rs @ as) @ [c]) = Inr q \<and> lookup h q = None)"
    using os_lstat_ENOENT [of h "?rs @ as @ [c]"] good gc wf by simp
  have F: "walk h Follow kernel_links [] (?rs @ as) = Inr (eroot g @ as)"
    using lf by (simp add: reaches_def)
  obtain i0 where i0: "lookup h [] = Some (DirN i0)" using wf_root [OF wf] by blast
  obtain n where n: "lookup h (eroot g @ as) = Some n" "\<not> is_linkN n"
    using lf by (auto simp: link_free_def)
  show ?thesis
  proof (cases n)
    case (RegN j)
    have "walk h NoFollow kernel_links [] ((?rs @ as) @ [c]) = Inl ENOTDIR"
      using walk_beyond_file [OF F refl _ i0 _ wf, of j c NoFollow "[]"] n RegN gc good_comp_plain by simp
    then show ?thesis using miss by simp
  next
    case (DirN j)
    obtain k' where "walk h NoFollow kernel_links [] ((?rs @ as) @ [c]) = walk h NoFollow k' (eroot g @ as) [c]"
      using reaches_step [OF F, of j c] n DirN by blast
    then have "lookup h (eroot g @ as @ [c]) = None"
      using miss gc(1) by (auto simp: walk_last split: option.splits node.splits)
    then show ?thesis using n DirN by simp
  qed (use n in simp)
qed

text \<open>The loop of \<open>resolveExistingParent\<close> stops at an ancestor inside the root.\<close>

lemma existing_parent_loop_Inr:
  assumes "existing_parent_loop h g (render True (path_comps (pg_root g) @ bs)) = Inr ep"
    and g: "clean_abs (pg_root g)" and bs: "good_comps bs"
  shows "\<exists>as c rest. bs = as @ c # rest \<and>
    validateExistingPathPolicy h g (render True (path_comps (pg_root g) @ as)) = None \<and>
    evalEffectivePath h (render True (path_comps (pg_root g) @ as)) = Inr ep \<and>
    (rest \<noteq> [] \<longrightarrow>
      (\<exists>e. is_not_exist e \<and>
        (validateExistingPathPolicy h g (render True (path_comps (pg_root g) @ as @ [c])) = Some e \<or>
         validateExistingPathPolicy h g (render True (path_comps (pg_root g) @ as @ [c])) = None \<and>
         evalEffectivePath h (render True (path_comps (pg_root g) @ as @ [c])) = Inl e)))"
  using assms(1) bs
proof (induction bs rule: rev_induct)
  case Nil
  let ?rs = "path_comps (pg_root g)"
  have good: "good_comps ?rs" using g by (rule clean_abs_good)
  have "\<not> isInsideRoot (pg_root g) (render True (butlast ?rs)) \<or> butlast ?rs = ?rs"
    using isInsideRoot_iff [OF clean_abs_rooted [OF g], of "render True (butlast ?rs)"] good
    by (cases ?rs rule: rev_cases) (auto dest: prefix_length_le)
  then show ?case using Nil.prems(1) good
    by (subst (asm) existing_parent_loop.simps) (auto simp: Dir_render Let_def split: if_splits)
next
  case (snoc c as)
  let ?rs = "path_comps (pg_root g)" and ?p = "render True (path_comps (pg_root g) @ as)"
  let ?q = "render True (path_comps (pg_root g) @ as @ [c])"
  have good: "good_comps ?rs" "good_comps as" using g snoc.prems by (simp_all add: clean_abs_good)
  have dir: "Dir ?q = ?p" using good snoc.prems by (simp add: Dir_render butlast_append)
  have ne: "?p \<noteq> ?q" using render_inj [of "?rs @ as" "?rs @ as @ [c]"] good snoc.prems by auto
  have inside: "isInsideRoot (pg_root g) ?p"
    using isInsideRoot_iff [OF clean_abs_rooted [OF g], of ?p] good by simp
  have step: "(case validateExistingPathPolicy h g ?p of
        Some e \<Rightarrow> if is_not_exist e then existing_parent_loop h g ?p else Inl e
      | None \<Rightarrow> (case evalEffectivePath h ?p of
             Inr effectiveParent \<Rightarrow> Inr effectiveParent
           | Inl e \<Rightarrow> if is_not_exist e then existing_parent_loop h g ?p else Inl e)) = Inr ep"
    using snoc.prems(1) ne inside by (subst (asm) existing_parent_loop.simps) (simp add: dir Let_def)
  show ?case
  proof (cases "existing_parent_loop h g ?p = Inr ep \<and>
      (\<exists>e. is_not_exist e \<and> (validateExistingPathPolicy h g ?p = Some e \<or>
        validateExistingPathPolicy h g ?p = None \<and> evalEffectivePath h ?p = Inl e))")
    case True
    then obtain as' c' rest where IH: "as = as' @ c' # rest"
      "validateExistingPathPolicy h g (render True (?rs @ as')) = None"
      "evalEffectivePath h (render True (?rs @ as')) = Inr ep"
      "rest \<noteq> [] \<longrightarrow> (\<exists>e. is_not_exist e \<and>
        (validateExistingPathPolicy h g (render True (?rs @ as' @ [c'])) = Some e \<or>
         validateExistingPathPolicy h g (render True (?rs @ as' @ [c'])) = None \<and>
         evalEffectivePath h (render True (?rs @ as' @ [c'])) = Inl e))"
      using snoc.IH good(2) by blast
    have "\<exists>e. is_not_exist e \<and>
        (validateExistingPathPolicy h g (render True (?rs @ as' @ [c'])) = Some e \<or>
         validateExistingPathPolicy h g (render True (?rs @ as' @ [c'])) = None \<and>
         evalEffectivePath h (render True (?rs @ as' @ [c'])) = Inl e)"
      using IH(1,4) True by (cases "rest = []") auto
    then show ?thesis using IH by (intro exI [of _ as'] exI [of _ c'] exI [of _ "rest @ [c]"]) simp
  next
    case False
    then have "validateExistingPathPolicy h g ?p = None" "evalEffectivePath h ?p = Inr ep"
      using step by (auto split: option.splits sum.splits if_splits)
    then show ?thesis by (intro exI [of _ as] exI [of _ c] exI [of _ "[]"]) simp
  qed
qed

subsection \<open>What the resolvers accept\<close>

text \<open>An accepted existing path, under the default treatment of links.\<close>

definition resolved :: "host \<Rightarrow> path_guard \<Rightarrow> string \<Rightarrow> string list \<Rightarrow> bool" where
  "resolved h g p bs \<longleftrightarrow>
     p = render True (path_comps (pg_root g) @ bs) \<and> good_comps bs \<and>
     (\<not> AllowHiddenFiles (pg_policy g) \<longrightarrow> \<not> list_ex isHiddenName bs) \<and>
     link_free h (eroot g) bs \<and> reaches h (path_comps (pg_root g) @ bs) (eroot g @ bs)"

text \<open>
  A path accepted for creation whose target is not there: the walk reaches the ancestor
  \<open>as\<close> along directories, and either its next component is missing, or it is the last
  component and a link whose target is missing.
\<close>

definition creatable :: "host \<Rightarrow> path_guard \<Rightarrow> string \<Rightarrow> string list \<Rightarrow> string \<Rightarrow> string list \<Rightarrow> bool" where
  "creatable h g p as c rest \<longleftrightarrow>
     p = render True (path_comps (pg_root g) @ as @ c # rest) \<and> good_comps (as @ c # rest) \<and>
     (\<not> AllowHiddenFiles (pg_policy g) \<longrightarrow> \<not> list_ex isHiddenName (as @ c # rest)) \<and>
     link_free h (eroot g) as \<and> reaches h (path_comps (pg_root g) @ as) (eroot g @ as) \<and>
     (\<exists>i. lookup h (eroot g @ as) = Some (DirN i)) \<and>
     (lookup h (eroot g @ as @ [c]) = None \<or>
      rest = [] \<and> (\<exists>i t. lookup h (eroot g @ as @ [c]) = Some (LinkN i t)) \<and>
      walk h Follow eval_links [] (path_comps (pg_root g) @ as @ [c]) = Inl ENOENT)"

lemma ResolveExisting_resolved:
  assumes "ResolveExisting h g u = Inr sp" "guard_ok h g" "host_wf h" "\<not> FollowSymlinks (pg_policy g)"
  shows "resolved h g (sp_path sp) (user_comps u)"
proof -
  obtain p where p: "resolveLexical h g u = Inr p" "validateExistingPathPolicy h g p = None" "sp_path sp = p"
    using assms(1) by (auto simp: ResolveExisting_def split: sum.splits option.splits if_splits)
  from resolveLexical_InrE [OF p(1) guard_clean(1) [OF assms(2)]] obtain bs where
    bs: "p = render True (path_comps (pg_root g) @ bs)" "good_comps bs" "bs = user_comps u"
    "\<not> AllowHiddenFiles (pg_policy g) \<Longrightarrow> \<not> list_ex isHiddenName bs" by metis
  have "link_free h (eroot g) bs \<and> reaches h (path_comps (pg_root g) @ bs) (eroot g @ bs)"
    using p(2) unfolding bs(1) by (rule validated_link_free [OF assms(2,3,4) bs(2)])
  then show ?thesis using bs p(3) unfolding resolved_def by blast
qed

lemma link_free_exists: "link_free h r bs \<Longrightarrow> \<exists>n. lookup h (r @ bs) = Some n \<and> \<not> is_linkN n"
  unfolding link_free_def by blast

text \<open>A last component that the walk reports missing is missing, or a link to something missing.\<close>

lemma missing_or_dangling:
  assumes "host_wf h" "link_free h r as" "reaches h (rs @ as) (r @ as)" "good_comps (as @ [c])"
    "walk h Follow eval_links [] (rs @ as @ [c]) = Inl ENOENT"
  shows "(\<exists>i. lookup h (r @ as) = Some (DirN i)) \<and>
    (lookup h (r @ as @ [c]) = None \<or> (\<exists>i t. lookup h (r @ as @ [c]) = Some (LinkN i t)))"
proof -
  have F: "walk h Follow eval_links [] (rs @ as) = Inr (r @ as)"
    using assms(3) walk_more_links [OF _ _ kernel_le_eval] by (simp add: reaches_def)
  obtain n where n: "lookup h (r @ as) = Some n" "\<not> is_linkN n" using link_free_exists [OF assms(2)] by blast
  obtain i0 where i0: "lookup h [] = Some (DirN i0)" using wf_root [OF assms(1)] by blast
  show ?thesis
  proof (cases n)
    case (RegN j)
    then show ?thesis
      using walk_beyond_file [OF F refl _ i0 _ assms(1), of j c Follow "[]"] n assms(4,5) good_comp_plain
      by simp
  next
    case (DirN j)
    then obtain k' where "walk h Follow eval_links [] ((rs @ as) @ [c]) = walk h Follow k' (r @ as) [c]"
      using walk_split [OF F refl, of j] n by blast
    then show ?thesis
      using assms(4,5) n DirN by (auto simp: walk_last split: option.splits node.splits)
  qed (use n in simp)
qed

lemma ResolveForCreate_cases:
  assumes "ResolveForCreate h g u = Inr sp" "guard_ok h g" "host_wf h" "\<not> FollowSymlinks (pg_policy g)"
  obtains "resolved h g (sp_path sp) (user_comps u)"
  | as c rest where "user_comps u = as @ c # rest" "creatable h g (sp_path sp) as c rest"
proof -
  let ?rs = "path_comps (pg_root g)"
  note g = assms(2) and wf = assms(3) and nf = assms(4)
  obtain p where p: "resolveLexical h g u = Inr p" "sp_path sp = p"
    using assms(1) by (auto simp: ResolveForCreate_def split: sum.splits option.splits if_splits)
  from resolveLexical_InrE [OF p(1) guard_clean(1) [OF g]] obtain bs where
    bs: "p = render True (?rs @ bs)" "good_comps bs" "bs = user_comps u"
    "\<not> AllowHiddenFiles (pg_policy g) \<Longrightarrow> \<not> list_ex isHiddenName bs" by metis
  have good: "good_comps ?rs" by (rule guard_good(1) [OF g])
  show thesis
  proof (cases "evalEffectivePath h p")
    case (Inr ep)
    then have "validateExistingPathPolicy h g (render True (?rs @ bs)) = None"
      using assms(1) p bs(1) by (auto simp: ResolveForCreate_def split: option.splits)
    from validated_link_free [OF g wf nf bs(2) this]
    have "resolved h g (sp_path sp) (user_comps u)" using bs p(2) unfolding resolved_def by blast
    then show thesis by (rule that(1))
  next
    case (Inl e)
    then have e: "is_not_exist e" and "\<exists>ep. resolveExistingParent h g p = Inr ep"
      using assms(1) p by (auto simp: ResolveForCreate_def split: sum.splits if_splits)
    then obtain ep where "existing_parent_loop h g (render True (?rs @ bs)) = Inr ep"
      using good bs by (auto simp: resolveExistingParent_def clean_abs_Clean_id)
    from existing_parent_loop_Inr [OF this guard_clean(1) [OF g] bs(2)] obtain as c rest where
      acr: "bs = as @ c # rest" and
      v: "validateExistingPathPolicy h g (render True (?rs @ as)) = None" and
      above: "rest \<noteq> [] \<longrightarrow> (\<exists>e. is_not_exist e \<and>
        (validateExistingPathPolicy h g (render True (?rs @ as @ [c])) = Some e \<or>
         validateExistingPathPolicy h g (render True (?rs @ as @ [c])) = None \<and>
         evalEffectivePath h (render True (?rs @ as @ [c])) = Inl e))" by blast
    have ga: "good_comps as" "good_comps (as @ [c])" using bs(2) acr by auto
    have lf: "link_free h (eroot g) as" "reaches h (?rs @ as) (eroot g @ as)"
      using validated_link_free [OF g wf nf ga(1) v] by auto
    have missing: "lookup h (eroot g @ as @ [c]) = None \<and> (\<exists>i. lookup h (eroot g @ as) = Some (DirN i))"
      if "validateExistingPathPolicy h g (render True (?rs @ as @ [c])) = Some e'" "is_not_exist e'" for e'
      by (rule missing_child [OF g wf nf ga(2) v that])
    have "(\<exists>i. lookup h (eroot g @ as) = Some (DirN i)) \<and>
      (lookup h (eroot g @ as @ [c]) = None \<or>
       rest = [] \<and> (\<exists>i t. lookup h (eroot g @ as @ [c]) = Some (LinkN i t)) \<and>
       walk h Follow eval_links [] (?rs @ as @ [c]) = Inl ENOENT)"
    proof (cases "rest = []")
      case True
      then have "walk h Follow eval_links [] (?rs @ as @ [c]) = Inl ENOENT"
        using Inl e acr bs(1) ga good eval_symlinks_ENOENT [of h "?rs @ as @ [c]"] wf
        by (simp add: evalEffectivePath_def is_not_exist_def)
      then show ?thesis using missing_or_dangling [OF wf lf ga(2)] True by simp
    next
      case False
      then obtain e' where e': "is_not_exist e'" and
        "validateExistingPathPolicy h g (render True (?rs @ as @ [c])) = Some e' \<or>
         validateExistingPathPolicy h g (render True (?rs @ as @ [c])) = None \<and>
         evalEffectivePath h (render True (?rs @ as @ [c])) = Inl e'" using above by blast
      then consider "validateExistingPathPolicy h g (render True (?rs @ as @ [c])) = Some e'"
        | "validateExistingPathPolicy h g (render True (?rs @ as @ [c])) = None"
          "evalEffectivePath h (render True (?rs @ as @ [c])) = Inl e'" by (elim disjE conjE)
      then show ?thesis
      proof cases
        case 1
        then show ?thesis using missing e' by blast
      next
        case 2
        have "walk h Follow kernel_links [] (?rs @ as @ [c]) = Inr (eroot g @ as @ [c])"
          using validated_link_free [OF g wf nf ga(2) 2(1)] by (simp add: reaches_def)
        then have "walk h Follow eval_links [] (?rs @ as @ [c]) = Inr (eroot g @ as @ [c])"
          using walk_more_links [OF _ _ kernel_le_eval] by blast
        moreover have "walk h Follow eval_links [] (?rs @ as @ [c]) = Inl ENOENT"
          using 2(2) e' ga good eval_symlinks_ENOENT [of h "?rs @ as @ [c]"] wf
          by (simp add: evalEffectivePath_def is_not_exist_def)
        ultimately show ?thesis by simp
      qed
    qed
    then have "creatable h g (sp_path sp) as c rest"
      using lf bs acr p(2) unfolding creatable_def by simp
    then show thesis using that(2) [of as c rest] bs(3) acr by simp
  qed
qed

text \<open>Under any policy, an accepted existing path ends inside the physical root.\<close>

lemma ResolveExisting_inside:
  assumes "ResolveExisting h g u = Inr sp" "guard_ok h g"
  obtains q where "walk h Follow eval_links [] (path_comps (sp_path sp)) = Inr q" "prefix (eroot g) q"
    "sp_path sp = render True (path_comps (pg_root g) @ user_comps u)" "good_comps (user_comps u)"
proof -
  obtain p ep where p: "resolveLexical h g u = Inr p" "eval_symlinks h p = Inr ep"
    "isInsideRoot (pg_effectiveRoot g) ep" "sp_path sp = p"
    using assms(1) by (auto simp: ResolveExisting_def evalEffectivePath_def split: sum.splits option.splits if_splits)
  from resolveLexical_InrE [OF p(1) guard_clean(1) [OF assms(2)]] obtain bs where
    bs: "p = render True (path_comps (pg_root g) @ bs)" "good_comps bs" "bs = user_comps u" by metis
  have good: "good_comps (path_comps (pg_root g) @ bs)" using guard_good(1) [OF assms(2)] bs(2) by simp
  obtain q where q: "walk h Follow eval_links [] (path_comps (pg_root g) @ bs) = Inr q" "ep = render True q"
    using p(2) good unfolding bs(1) by (rule eval_symlinks_Inr)
  have gq: "good_comps q" by (rule walk_at_root [OF q(1) good])
  have "prefix (eroot g) q"
    using p(3) guard_rooted(2) [OF assms(2)] gq unfolding q(2) by (simp add: isInsideRoot_iff eroot_def)
  then show thesis using q(1) good bs p(4) that by simp
qed

lemma AllowListEntry_hidden:
  "\<not> AllowHiddenFiles (pg_policy g) \<Longrightarrow> isHiddenName name \<Longrightarrow> AllowListEntry h g sp name = Inr False"
  by (simp add: AllowListEntry_def)

end
