(* ===== verification/LocalFs.thy ===== *)
theory LocalFs
  imports SecurityFacts
begin

text \<open>
  The sandboxed file operations of \<open>internal/fs\<close>: \<open>LocalFileSystem\<close> with its
  guard and limits, and its eight operations, each from the state of the host to the new
  state and the Go result. The Unix file \<open>move_unix.go\<close> is the platform part. A Go
  function that returns an \<open>error\<close> alone returns \<open>goerr option\<close> here.
\<close>

subsection \<open>Limits and results\<close>

record limits =
  MaxWriteBytes :: int
  MaxListEntries :: int
  MaxCopyBytes :: int
  MaxDeleteEntries :: int

definition DefaultLimits :: limits where
  "DefaultLimits = \<lparr>MaxWriteBytes = 10 * 1024 * 1024, MaxListEntries = 1000,
     MaxCopyBytes = 10 * 1024 * 1024, MaxDeleteEntries = 1000\<rparr>"

definition validateLimits :: "limits \<Rightarrow> goerr option" where
  "validateLimits l =
     (if MaxWriteBytes l \<le> 0 \<or> MaxListEntries l \<le> 0 \<or> MaxCopyBytes l \<le> 0 \<or> MaxDeleteEntries l \<le> 0
      then Some ErrLimitExceeded else None)"

record entry =
  e_name :: string
  e_isDir :: bool
  e_size :: int

record metadata =
  m_name :: string
  m_isDir :: bool
  m_size :: int

record local_fs =
  lf_guard :: path_guard
  lf_limits :: limits

definition NewLocalFileSystemWithPolicyAndLimits ::
    "host \<Rightarrow> string \<Rightarrow> policy \<Rightarrow> limits \<Rightarrow> (goerr, local_fs) result" where
  "NewLocalFileSystemWithPolicyAndLimits h r pol l =
     (case validateLimits l of
        Some e \<Rightarrow> Inl e
      | None \<Rightarrow>
          (case NewPathGuardWithPolicy h r pol of
             Inl e \<Rightarrow> Inl e
           | Inr g \<Rightarrow> Inr \<lparr>lf_guard = g, lf_limits = l\<rparr>))"

definition NewLocalFileSystemWithPolicy :: "host \<Rightarrow> string \<Rightarrow> policy \<Rightarrow> (goerr, local_fs) result" where
  "NewLocalFileSystemWithPolicy h r pol = NewLocalFileSystemWithPolicyAndLimits h r pol DefaultLimits"

definition NewLocalFileSystem :: "host \<Rightarrow> string \<Rightarrow> (goerr, local_fs) result" where
  "NewLocalFileSystem h r = NewLocalFileSystemWithPolicy h r DefaultPolicy"

subsection \<open>Reading operations\<close>

definition fs_Read :: "host \<Rightarrow> local_fs \<Rightarrow> string \<Rightarrow> int \<Rightarrow> (goerr, string) result" where
  "fs_Read h f p maxBytes =
     (case ResolveExisting h (lf_guard f) p of
        Inl e \<Rightarrow> Inl e
      | Inr sp \<Rightarrow>
          (case os_stat h (sp_String sp) of
             Inl e \<Rightarrow> Inl e
           | Inr info \<Rightarrow>
               if fi_is_dir info then Inl ErrPathIsDirectory
               else if maxBytes \<le> 0 then Inl ErrFileTooLarge
               else if fi_size info > maxBytes then Inl ErrFileTooLarge
               else os_read_file h (sp_String sp)))"

definition fs_Stat :: "host \<Rightarrow> local_fs \<Rightarrow> string \<Rightarrow> (goerr, metadata) result" where
  "fs_Stat h f p =
     (case ResolveExisting h (lf_guard f) p of
        Inl e \<Rightarrow> Inl (if is_not_exist e then ErrNotFound else e)
      | Inr sp \<Rightarrow>
          (case os_stat h (sp_String sp) of
             Inl e \<Rightarrow> Inl (if is_not_exist e then ErrNotFound else e)
           | Inr info \<Rightarrow>
               Inr \<lparr>m_name = fi_name info, m_isDir = fi_is_dir info, m_size = fi_size info\<rparr>))"

text \<open>The loop of \<open>List\<close>; \<open>Info\<close> of a directory entry is an \<open>Lstat\<close> of its path.\<close>

fun list_loop :: "host \<Rightarrow> local_fs \<Rightarrow> safe_path \<Rightarrow> (string \<times> node) list \<Rightarrow> entry list
    \<Rightarrow> (goerr, entry list) result" where
  "list_loop h f sp [] acc = Inr acc"
| "list_loop h f sp ((name, n) # es) acc =
     (case AllowListEntry h (lf_guard f) sp name of
        Inl e \<Rightarrow> Inl e
      | Inr allowed \<Rightarrow>
          if \<not> allowed then list_loop h f sp es acc
          else if int (length acc) \<ge> MaxListEntries (lf_limits f) then Inl ErrLimitExceeded
          else case os_lstat h (Join (sp_String sp) name) of
            Inl e \<Rightarrow> Inl e
          | Inr info \<Rightarrow>
              list_loop h f sp es
                (acc @ [\<lparr>e_name = name, e_isDir = is_dirN n, e_size = fi_size info\<rparr>]))"

definition fs_List :: "host \<Rightarrow> local_fs \<Rightarrow> string \<Rightarrow> (goerr, entry list) result" where
  "fs_List h f p =
     (case ResolveExisting h (lf_guard f) p of
        Inl e \<Rightarrow> Inl e
      | Inr sp \<Rightarrow>
          (case os_read_dir h (sp_String sp) of
             Inl e \<Rightarrow> Inl e
           | Inr dirEntries \<Rightarrow> list_loop h f sp dirEntries []))"

subsection \<open>Write and Mkdir\<close>

definition write_flags :: "bool \<Rightarrow> oflags" where
  "write_flags overwrite = \<lparr>o_trunc = overwrite, o_excl = \<not> overwrite\<rparr>"

text \<open>Opening for writing and mapping \<open>os.ErrExist\<close>, then one \<open>Write\<close>.\<close>

definition open_target :: "host \<Rightarrow> string \<Rightarrow> bool \<Rightarrow> nat \<Rightarrow> host \<times> (goerr, nat) result" where
  "open_target h p overwrite pm =
     (case os_open_write h p (write_flags overwrite) pm of
        (h1, Inl e) \<Rightarrow> (h1, Inl (if is_exist e then ErrFileExists else e))
      | (h1, Inr i) \<Rightarrow> (h1, Inr i))"

definition fs_Write :: "host \<Rightarrow> local_fs \<Rightarrow> string \<Rightarrow> string \<Rightarrow> bool \<Rightarrow> host \<times> goerr option" where
  "fs_Write h f p data overwrite =
     (case ResolveForCreate h (lf_guard f) p of
        Inl e \<Rightarrow> (h, Some e)
      | Inr sp \<Rightarrow>
          if int (length data) > MaxWriteBytes (lf_limits f) then (h, Some ErrLimitExceeded)
          else
            (let go = (case open_target h (sp_String sp) overwrite 0x180 of
                  (h1, Inl e) \<Rightarrow> (h1, Some e)
                | (h1, Inr i) \<Rightarrow>
                    (case fd_write h1 i data of
                       (h2, written, Some e) \<Rightarrow> (h2, Some e)
                     | (h2, written, None) \<Rightarrow>
                         if written \<noteq> length data then (h2, Some ErrShortWrite) else (h2, None)))
             in case os_stat h (sp_String sp) of
                  Inr info \<Rightarrow>
                    if fi_is_dir info then (h, Some ErrPathIsDirectory)
                    else if \<not> overwrite then (h, Some ErrFileExists)
                    else go
                | Inl e \<Rightarrow> if \<not> is_not_exist e then (h, Some e) else go))"

definition pathsEquivalent :: "string \<Rightarrow> string \<Rightarrow> bool" where
  "pathsEquivalent a b \<longleftrightarrow> Clean a = Clean b"

definition fs_Mkdir :: "host \<Rightarrow> local_fs \<Rightarrow> string \<Rightarrow> host \<times> (goerr, bool) result" where
  "fs_Mkdir h f p =
     (case ResolveForCreate h (lf_guard f) p of
        Inl e \<Rightarrow> (h, Inl e)
      | Inr sp \<Rightarrow>
          if pathsEquivalent (sp_String sp) (Root (lf_guard f)) then (h, Inr False)
          else case os_mkdir_all h (sp_Dir sp) 0x1C0 of
            (h1, Some e) \<Rightarrow> (h1, Inl e)
          | (h1, None) \<Rightarrow>
              (case os_mkdir h1 (sp_String sp) 0x1C0 of
                 (h2, None) \<Rightarrow> (h2, Inr True)
               | (h2, Some e) \<Rightarrow>
                   if \<not> is_exist e then (h2, Inl e)
                   else case os_stat h2 (sp_String sp) of
                     Inl e \<Rightarrow> (h2, Inl e)
                   | Inr info \<Rightarrow>
                       if \<not> fi_is_dir info then (h2, Inl ErrPathIsNotDirectory)
                       else (h2, Inr False)))"

subsection \<open>Delete\<close>

text \<open>The callback of \<open>filepath.WalkDir\<close>, folded over the visited paths; the root is the empty suffix.\<close>

fun count_walk :: "int \<Rightarrow> int \<Rightarrow> string list list \<Rightarrow> goerr option" where
  "count_walk mx n [] = None"
| "count_walk mx n (q # qs) =
     (if q = [] then count_walk mx n qs
      else if n + 1 > mx then Some ErrLimitExceeded
      else count_walk mx (n + 1) qs)"

definition ensureRecursiveDeleteWithinLimit :: "host \<Rightarrow> local_fs \<Rightarrow> string \<Rightarrow> goerr option" where
  "ensureRecursiveDeleteWithinLimit h f p =
     (case os_walk_dir h p of
        Inl e \<Rightarrow> Some e
      | Inr qs \<Rightarrow> count_walk (MaxDeleteEntries (lf_limits f)) 0 qs)"

definition fs_Delete :: "host \<Rightarrow> local_fs \<Rightarrow> string \<Rightarrow> bool \<Rightarrow> host \<times> goerr option" where
  "fs_Delete h f p recursive =
     (case ResolveExisting h (lf_guard f) p of
        Inl e \<Rightarrow> (h, Some e)
      | Inr sp \<Rightarrow>
          (case os_stat h (sp_String sp) of
             Inl e \<Rightarrow> (h, Some e)
           | Inr info \<Rightarrow>
               if fi_is_dir info then
                 if recursive then
                   (case ensureRecursiveDeleteWithinLimit h f (sp_String sp) of
                      Some e \<Rightarrow> (h, Some e)
                    | None \<Rightarrow> os_remove_all h (sp_String sp))
                 else
                   (case os_read_dir h (sp_String sp) of
                      Inl e \<Rightarrow> (h, Some e)
                    | Inr es \<Rightarrow>
                        if length es > 0 then (h, Some ErrDirectoryNotEmpty)
                        else os_remove h (sp_String sp))
               else os_remove h (sp_String sp)))"

subsection \<open>Copy\<close>

definition ensureTargetPolicy :: "host \<Rightarrow> string \<Rightarrow> bool \<Rightarrow> goerr option" where
  "ensureTargetPolicy h targetPath overwrite =
     (case os_stat h targetPath of
        Inr info \<Rightarrow>
          if \<not> overwrite then Some ErrFileExists
          else if fi_is_dir info then Some ErrPathIsDirectory
          else None
      | Inl e \<Rightarrow> if is_not_exist e then None else Some e)"

text \<open>\<open>io.Copy\<close> reads the source after the target has been opened.\<close>

definition fs_Copy :: "host \<Rightarrow> local_fs \<Rightarrow> string \<Rightarrow> string \<Rightarrow> bool \<Rightarrow> host \<times> goerr option" where
  "fs_Copy h f source target overwrite =
     (case ResolveExisting h (lf_guard f) source of
        Inl e \<Rightarrow> (h, Some e)
      | Inr sourcePath \<Rightarrow>
          (case ResolveForCreate h (lf_guard f) target of
             Inl e \<Rightarrow> (h, Some e)
           | Inr targetPath \<Rightarrow>
               (case os_stat h (sp_String sourcePath) of
                  Inl e \<Rightarrow> (h, Some e)
                | Inr sourceInfo \<Rightarrow>
                    if fi_is_dir sourceInfo then (h, Some ErrCopyDirectoryUnsupported)
                    else if fi_size sourceInfo > MaxCopyBytes (lf_limits f)
                      then (h, Some ErrLimitExceeded)
                    else case ensureTargetPolicy h (sp_String targetPath) overwrite of
                      Some e \<Rightarrow> (h, Some e)
                    | None \<Rightarrow>
                        (case os_open_read h (sp_String sourcePath) of
                           Inl e \<Rightarrow> (h, Some e)
                         | Inr si \<Rightarrow>
                             (case open_target h (sp_String targetPath) overwrite (fi_perm sourceInfo) of
                                (h1, Inl e) \<Rightarrow> (h1, Some e)
                              | (h1, Inr ti) \<Rightarrow>
                                  (case fd_write h1 ti (content h1 si) of
                                     (h2, written, err) \<Rightarrow> (h2, err)))))))"

subsection \<open>Move\<close>

fun join_suffix :: "string \<Rightarrow> string list \<Rightarrow> string" where
  "join_suffix effective [] = effective"
| "join_suffix effective (c # cs) = join_suffix (Join effective c) cs"

text \<open>
  \<open>effectivePathForComparison\<close>: the real path of the nearest existing ancestor with the
  missing components put back. \<open>missing\<close> has them in the order the final loop joins them,
  which is the reverse of the source's slice.
\<close>

function effective_loop :: "host \<Rightarrow> string \<Rightarrow> string list \<Rightarrow> (goerr, string) result" where
  "effective_loop h current missing =
     (case eval_symlinks h current of
        Inr effective \<Rightarrow> Inr (Clean (join_suffix effective missing))
      | Inl e \<Rightarrow>
          if \<not> is_not_exist e then Inl e
          else if Dir current = current then Inl e
          else effective_loop h (Dir current) (Base current # missing))"
  by pat_completeness auto
termination
  by (relation "measure (\<lambda>(h, p, ms). climb_measure p)") (auto intro: Dir_climbs)

declare effective_loop.simps [simp del]

definition effectivePathForComparison :: "host \<Rightarrow> string \<Rightarrow> (goerr, string) result" where
  "effectivePathForComparison h p = effective_loop h (Clean p) []"

definition isStrictDescendant :: "string \<Rightarrow> string \<Rightarrow> bool" where
  "isStrictDescendant parent candidate =
     (case Rel parent candidate of
        None \<Rightarrow> False
      | Some relative \<Rightarrow>
          relative \<noteq> ''.'' \<and> relative \<noteq> ''..'' \<and> \<not> has_prefix relative ''../'')"

text \<open>The device of the nearest existing ancestor of the target.\<close>

function volume_loop :: "host \<Rightarrow> finfo \<Rightarrow> string \<Rightarrow> (goerr, bool) result" where
  "volume_loop h sourceInfo targetProbe =
     (case os_stat h targetProbe of
        Inr targetInfo \<Rightarrow> Inr (fi_dev sourceInfo = fi_dev targetInfo)
      | Inl e \<Rightarrow>
          if \<not> is_not_exist e then Inl e
          else if Dir targetProbe = targetProbe then Inl e
          else volume_loop h sourceInfo (Dir targetProbe))"
  by pat_completeness auto
termination
  by (relation "measure (\<lambda>(h, i, p). climb_measure p)") (auto intro: Dir_climbs)

declare volume_loop.simps [simp del]

definition pathsOnSameVolume :: "host \<Rightarrow> string \<Rightarrow> string \<Rightarrow> (goerr, bool) result" where
  "pathsOnSameVolume h source target =
     (case os_stat h source of
        Inl e \<Rightarrow> Inl e
      | Inr sourceInfo \<Rightarrow> volume_loop h sourceInfo target)"

definition isCrossVolumeError :: "goerr \<Rightarrow> bool" where
  "isCrossVolumeError e \<longleftrightarrow> e = Errno EXDEV"

definition renameOnSameVolume :: "host \<Rightarrow> string \<Rightarrow> string \<Rightarrow> bool \<Rightarrow> host \<times> goerr option" where
  "renameOnSameVolume h source target sameVolume =
     (if \<not> sameVolume then (h, Some ErrCrossVolumeMoveUnsupported)
      else case os_rename h source target of
        (h1, None) \<Rightarrow> (h1, None)
      | (h1, Some e) \<Rightarrow>
          (h1, Some (if isCrossVolumeError e then ErrCrossVolumeMoveUnsupported else e)))"

text \<open>\<open>targetInfo\<close> is \<open>None\<close> when the target did not exist (\<open>targetExists\<close> is false).\<close>

definition revalidateMoveState ::
    "host \<Rightarrow> string \<Rightarrow> string \<Rightarrow> finfo \<Rightarrow> finfo option \<Rightarrow> goerr option" where
  "revalidateMoveState h source target expectedSource expectedTarget =
     (case os_stat h source of
        Inl e \<Rightarrow> Some (if is_not_exist e then ErrNotFound else e)
      | Inr currentSource \<Rightarrow>
          if fi_is_dir expectedSource \<noteq> fi_is_dir currentSource \<or> \<not> SameFile expectedSource currentSource
          then Some ErrMovePathChanged
          else case expectedTarget of
            Some et \<Rightarrow>
              (case os_stat h target of
                 Inl e \<Rightarrow> Some (if is_not_exist e then ErrMovePathChanged else e)
               | Inr currentTarget \<Rightarrow>
                   if fi_is_dir et \<noteq> fi_is_dir currentTarget \<or> \<not> SameFile et currentTarget
                   then Some ErrMovePathChanged
                   else if SameFile currentSource currentTarget then Some ErrSamePath
                   else None)
          | None \<Rightarrow>
              (case os_stat h target of
                 Inr _ \<Rightarrow> Some ErrMovePathChanged
               | Inl e \<Rightarrow> if \<not> is_not_exist e then Some e else None))"

text \<open>
  \<open>Move\<close> validates, and looks again at both paths just before the rename, because other
  processes may have changed them. \<open>env\<close> is what they did in between; it is the
  identity when nobody else touches the host. \<open>move_checked\<close> is the part of \<open>Move\<close>
  after the two \<open>Stat\<close> calls.
\<close>

definition move_checked :: "(host \<Rightarrow> host) \<Rightarrow> host \<Rightarrow> string \<Rightarrow> string \<Rightarrow> finfo \<Rightarrow> finfo option \<Rightarrow> bool
    \<Rightarrow> host \<times> goerr option" where
  "move_checked env h s t sourceInfo targetInfo overwrite =
     (case eval_symlinks h s of
        Inl e \<Rightarrow> (h, Some e)
      | Inr effectiveSource \<Rightarrow>
     (case effectivePathForComparison h t of
        Inl e \<Rightarrow> (h, Some e)
      | Inr effectiveTarget \<Rightarrow>
          if pathsEquivalent effectiveSource effectiveTarget then (h, Some ErrSamePath)
          else if fi_is_dir sourceInfo \<and> isStrictDescendant effectiveSource effectiveTarget
            then (h, Some ErrMoveIntoSelf)
          else case pathsOnSameVolume h s t of
            Inl e \<Rightarrow> (h, Some e)
          | Inr sameVolume \<Rightarrow>
              if \<not> sameVolume then renameOnSameVolume h s t False
              else if targetInfo \<noteq> None \<and> \<not> overwrite then (h, Some ErrFileExists)
              else if targetInfo \<noteq> None \<and> (fi_is_dir sourceInfo \<or> fi_is_dir (the targetInfo))
                then (h, Some ErrMoveTypeMismatch)
              else (case revalidateMoveState (env h) s t sourceInfo targetInfo of
                  Some e \<Rightarrow> (env h, Some e)
                | None \<Rightarrow> renameOnSameVolume (env h) s t sameVolume)))"

definition Move_during :: "(host \<Rightarrow> host) \<Rightarrow> host \<Rightarrow> local_fs \<Rightarrow> string \<Rightarrow> string \<Rightarrow> bool
    \<Rightarrow> host \<times> goerr option" where
  "Move_during env h f source target overwrite =
     (case ResolveExisting h (lf_guard f) source of
        Inl e \<Rightarrow> (h, Some (if is_not_exist e then ErrNotFound else e))
      | Inr sp \<Rightarrow>
     (case ResolveForCreate h (lf_guard f) target of
        Inl e \<Rightarrow> (h, Some e)
      | Inr tp \<Rightarrow>
          if pathsEquivalent (sp_String sp) (sp_String tp) then (h, Some ErrSamePath)
          else case os_stat h (sp_String sp) of
            Inl e \<Rightarrow> (h, Some (if is_not_exist e then ErrNotFound else e))
          | Inr sourceInfo \<Rightarrow>
              (case os_stat h (sp_String tp) of
                 Inl e \<Rightarrow>
                   if \<not> is_not_exist e then (h, Some e)
                   else move_checked env h (sp_String sp) (sp_String tp) sourceInfo None overwrite
               | Inr targetInfo \<Rightarrow>
                   if SameFile sourceInfo targetInfo then (h, Some ErrSamePath)
                   else move_checked env h (sp_String sp) (sp_String tp) sourceInfo (Some targetInfo)
                          overwrite)))"

definition fs_Move :: "host \<Rightarrow> local_fs \<Rightarrow> string \<Rightarrow> string \<Rightarrow> bool \<Rightarrow> host \<times> goerr option" where
  "fs_Move h f source target overwrite = Move_during (\<lambda>h. h) h f source target overwrite"

end
