(* ===== verification/HostOps.thy ===== *)
theory HostOps
  imports HostFacts
begin

text \<open>
  The frame of the host's changing calls: each call changes only entries below a directory
  \<open>R\<close> when the entry it works on is below \<open>R\<close>, and keeps the host well-formed. The
  frame relation \<open>confined R\<close> is reflexive and transitive, so a sequence of confined calls is confined.
\<close>

subsection \<open>The frame relation\<close>

definition confined :: "string list \<Rightarrow> host \<Rightarrow> host \<Rightarrow> bool" where
  "confined R h h' \<longleftrightarrow>
     (\<forall>p. \<not> prefix R p \<longrightarrow> lookup h' p = lookup h p) \<and>
     (\<forall>i. content h' i \<noteq> content h i \<longrightarrow>
        fresh h \<le> i \<or> (\<exists>p. prefix R p \<and> lookup h p = Some (RegN i))) \<and>
     (\<forall>p i. prefix R p \<longrightarrow> lookup h' p = Some (RegN i) \<longrightarrow>
        fresh h \<le> i \<or> (\<exists>q. prefix R q \<and> lookup h q = Some (RegN i))) \<and>
     (\<forall>p i t. prefix R p \<longrightarrow> lookup h' p = Some (LinkN i t) \<longrightarrow>
        (\<exists>q. prefix R q \<and> lookup h q = Some (LinkN i t))) \<and>
     (lookup h' R = lookup h R \<or> lookup h' R = None) \<and>
     fresh h \<le> fresh h' \<and>
     (\<forall>i < fresh h. perm h' i = perm h i \<and> device h' i = device h i) \<and>
     fault h' = fault h \<and> write_fault h' = write_fault h \<and> wd h' = wd h \<and> umask h' = umask h \<and>
     dir_size h' = dir_size h"

lemma confined_refl [simp, frame_intros]: "confined R h h"
  by (auto simp: confined_def)

lemma confined_trans:
  assumes "confined R h h1" "confined R h1 h2"
  shows "confined R h h2"
proof -
  note a = assms(1) [unfolded confined_def] and b = assms(2) [unfolded confined_def]
  have c1: "\<forall>p. \<not> prefix R p \<longrightarrow> lookup h2 p = lookup h p" using a b by simp
  have "fresh h \<le> i \<or> (\<exists>p. prefix R p \<and> lookup h p = Some (RegN i))" if "content h2 i \<noteq> content h i" for i
  proof (cases "content h1 i = content h i")
    case True
    then have "fresh h1 \<le> i \<or> (\<exists>p. prefix R p \<and> lookup h1 p = Some (RegN i))"
      using that b by auto
    then show ?thesis using a by (meson order_trans)
  next
    case False
    then show ?thesis using a by blast
  qed
  then have c2: "\<forall>i. content h2 i \<noteq> content h i \<longrightarrow>
        fresh h \<le> i \<or> (\<exists>p. prefix R p \<and> lookup h p = Some (RegN i))" by blast
  have c3: "\<forall>p i. prefix R p \<longrightarrow> lookup h2 p = Some (RegN i) \<longrightarrow>
        fresh h \<le> i \<or> (\<exists>q. prefix R q \<and> lookup h q = Some (RegN i))"
    using a b by (meson order_trans)
  have c4: "\<forall>p i t. prefix R p \<longrightarrow> lookup h2 p = Some (LinkN i t) \<longrightarrow>
      (\<exists>q. prefix R q \<and> lookup h q = Some (LinkN i t))"
    using a b by meson
  have c5: "lookup h2 R = lookup h R \<or> lookup h2 R = None" using a b by metis
  show ?thesis
    unfolding confined_def
    by (intro conjI) (fact c1, fact c2, fact c3, fact c4, fact c5, use a b in simp_all)
qed

lemma confined_add_new:
  assumes "prefix R q" "q \<noteq> R"
  shows "confined R h (new_file h q pm)" "confined R h (new_dir h q pm)"
  using assms by (auto simp: confined_def new_file_def new_dir_def add_entry_def new_inode_def lookup_def)

lemma confined_del_tree:
  assumes "prefix R q"
  shows "confined R h (del_tree h q)"
proof -
  have "\<not> prefix q p" if "\<not> prefix R p" for p using assms that by (meson prefix_order.trans)
  then show ?thesis
    using assms by (auto simp: confined_def lookup_del_tree split: if_splits) (auto simp: del_tree_def)
qed

lemma confined_move_tree:
  assumes "prefix R s" "prefix R d" "d \<noteq> R"
  shows "confined R h (move_tree h s d)"
proof -
  have "\<not> prefix d R" using assms(2,3) by (meson prefix_order.antisym)
  moreover have "\<not> prefix s p" "\<not> prefix d p" if "\<not> prefix R p" for p using assms that by (meson prefix_order.trans)+
  moreover have "prefix R (s @ xs)" for xs using assms(1) by simp
  ultimately show ?thesis
    unfolding confined_def lookup_move_tree by (auto split: if_splits) (auto simp: move_tree_def)
qed

lemma confined_content:
  assumes "prefix R p" "lookup h p = Some (RegN i)"
  shows "confined R h (h\<lparr>content := (content h)(i := d)\<rparr>)"
  using assms by (auto simp: confined_def)

subsection \<open>Well-formedness is kept\<close>

lemma drop_append_prefix: "prefix d p \<Longrightarrow> drop (length d) (p @ xs) = drop (length d) p @ xs"
  by (auto simp: prefix_def)

lemma wf_content [simp]: "host_wf (h\<lparr>content := f\<rparr>) = host_wf h"
  by (simp add: host_wf_def)

lemma wf_add_new:
  assumes "host_wf h" "lookup h q = None" "q \<noteq> []" "good_comps q" "lookup h (butlast q) = Some (DirN j)"
  shows "host_wf (new_file h q pm)" "host_wf (new_dir h q pm)"
proof -
  have ents: "distinct (map fst ((q, n) # entries h))" for n
    using wf_distinct [OF assms(1)] assms(2) by (auto simp: lookup_def map_of_eq_None_iff)
  have ino: "node_ino n \<noteq> fresh h" if "lookup h p = Some n" for p n
    using wf_fresh [OF assms(1) that] by simp
  have gen: "host_wf (add_entry (new_inode h q pm) q n)" if n: "node_ino n = fresh h" for n
  proof -
    let ?h = "add_entry (new_inode h q pm) q n"
    have lk: "lookup ?h p = (if p = q then Some n else lookup h p)" for p by (simp add: lookup_add_entry)
    have fr: "fresh ?h = Suc (fresh h)" "fault ?h = fault h" "entries ?h = (q, n) # entries h"
      by (simp_all add: add_entry_def new_inode_def)
    have par: "\<exists>i. lookup ?h p = Some (DirN i)" if "lookup ?h (p @ [c]) = Some m" for p c m
    proof (cases "p @ [c] = q")
      case True
      then have "butlast q = p" by auto
      then show ?thesis using assms(2,5) lk by auto
    next
      case False
      then have "lookup h (p @ [c]) = Some m" using that lk by simp
      then obtain i where i: "lookup h p = Some (DirN i)" using wf_parent [OF assms(1)] by blast
      then have "p \<noteq> q" using assms(2) by auto
      then show ?thesis using i lk by simp
    qed
    have "p = p' \<or> (\<exists>i. a = RegN i \<and> b = RegN i)"
      if "lookup ?h p = Some a" "lookup ?h p' = Some b" "node_ino a = node_ino b" for p p' a b
      using that ino wf_ino [OF assms(1), of p a p' b] n unfolding lk by (metis option.inject)
    moreover have "\<exists>i. lookup ?h [] = Some (DirN i)" using wf_root [OF assms(1)] assms(3) lk by auto
    moreover have "good_comps p \<and> node_ino m < Suc (fresh h)" if "lookup ?h p = Some m" for p m
      using that assms(4) n wf_good [OF assms(1)] wf_fresh [OF assms(1)] unfolding lk
      by (metis less_SucI lessI option.inject)
    ultimately show ?thesis
      unfolding host_wf_def fr using ents par wf_fault [OF assms(1)] by blast
  qed
  show "host_wf (new_file h q pm)" "host_wf (new_dir h q pm)"
    unfolding new_file_def new_dir_def by (rule gen, simp)+
qed

lemma wf_del_tree:
  assumes "host_wf h" "q \<noteq> []"
  shows "host_wf (del_tree h q)"
proof -
  have fr: "fresh (del_tree h q) = fresh h" "fault (del_tree h q) = fault h" by (simp_all add: del_tree_def)
  have d: "distinct (map fst (entries (del_tree h q)))"
    using wf_distinct [OF assms(1)] by (simp add: del_tree_def distinct_filter_keys)
  have par: "\<exists>i. lookup (del_tree h q) p = Some (DirN i)" if "lookup (del_tree h q) (p @ [c]) = Some m" for p c m
  proof -
    have "\<not> prefix q (p @ [c])" "lookup h (p @ [c]) = Some m"
      using that by (auto simp: lookup_del_tree split: if_splits)
    moreover from this(1) have "\<not> prefix q p" by auto
    ultimately show ?thesis using wf_parent [OF assms(1)] by (auto simp: lookup_del_tree)
  qed
  have root: "\<exists>i. lookup (del_tree h q) [] = Some (DirN i)"
    using wf_root [OF assms(1)] assms(2) by (auto simp: lookup_del_tree)
  have sub: "lookup h p = Some n" if "lookup (del_tree h q) p = Some n" for p n
    using that by (auto simp: lookup_del_tree split: if_splits)
  show ?thesis
  proof (rule host_wfI)
    show "p = p' \<or> (\<exists>i. n = RegN i \<and> m = RegN i)"
      if "lookup (del_tree h q) p = Some n" "lookup (del_tree h q) p' = Some m" "node_ino n = node_ino m"
      for p p' n m
      using wf_ino [OF assms(1) sub [OF that(1)] sub [OF that(2)] that(3)] .
    show "\<exists>i. lookup (del_tree h q) p = Some (DirN i)" if "lookup (del_tree h q) (p @ [c]) = Some n" for p c n
      using par [OF that] .
    show "node_ino n < fresh (del_tree h q)" if "lookup (del_tree h q) p = Some n" for p n
      using wf_fresh [OF assms(1) sub [OF that]] by (simp add: fr)
    show "good_comps p" if "lookup (del_tree h q) p = Some n" for p n
      using wf_good [OF assms(1) sub [OF that]] .
  qed (use d root wf_fault [OF assms(1)] in \<open>simp_all add: fr\<close>)
qed

text \<open>Moving a subtree onto a missing entry or a file, not below itself.\<close>

lemma wf_move_tree:
  assumes wf: "host_wf h" and src: "lookup h s = Some n" "s \<noteq> []" and good: "good_comps d" "d \<noteq> []"
    and par: "lookup h (butlast d) = Some (DirN j)"
    and dst: "lookup h d = None \<or> (\<exists>m. lookup h d = Some m \<and> \<not> is_dirN m \<and> \<not> is_dirN n)"
    and sep: "\<not> strict_prefix s d" "s \<noteq> d"
  shows "host_wf (move_tree h s d)"
proof -
  have fr: "fresh (move_tree h s d) = fresh h" "fault (move_tree h s d) = fault h"
    by (simp_all add: move_tree_def)
  have ns: "\<not> prefix s d" using sep by (simp add: prefix_order.order_iff_strict)
  have nd: "\<not> prefix d s"
  proof
    assume "prefix d s"
    then have "strict_prefix d s" using sep(2) by (simp add: prefix_order.order_iff_strict)
    then obtain xs where "s = d @ xs" "xs \<noteq> []" by (auto simp: strict_prefix_def prefix_def)
    then have "\<exists>i. lookup h d = Some (DirN i)" using wf_prefix_dir [OF wf, of d xs n] src(1) by simp
    then show False using dst by auto
  qed
  have nds: "\<not> prefix d (s @ xs)" if "lookup h (s @ xs) \<noteq> None" for xs
  proof
    assume p: "prefix d (s @ xs)"
    then consider "prefix d s" | "prefix s d" by (meson prefix_same_cases prefixI)
    then show False by cases (use nd ns in simp_all)
  qed
  have lk: "lookup (move_tree h s d) p =
      (if prefix d p then lookup h (s @ drop (length d) p)
       else if prefix s p then None else lookup h p)" for p
    unfolding lookup_move_tree using nds [of "drop (length d) p"]
    by (cases "lookup h (s @ drop (length d) p)") simp_all
  let ?f = "rebase s d"
  have dist: "distinct (map fst (entries (move_tree h s d)))"
  proof -
    let ?es = "filter (\<lambda>(k, _). \<not> prefix d k) (entries h)"
    have "inj_on ?f (set (map fst ?es))"
      by (rule inj_onI, rule rebase_inj) auto
    moreover have "distinct (map fst ?es)" by (rule distinct_filter_keys [OF wf_distinct [OF wf]])
    ultimately have "distinct (map ?f (map fst ?es))" by (simp only: distinct_map)
    then show ?thesis by (simp add: move_tree_def comp_def case_prod_unfold)
  qed
  have orig: "\<exists>k. lookup h k = Some m \<and> \<not> prefix d k \<and> ?f k = p" if "lookup (move_tree h s d) p = Some m" for p m
  proof (cases "prefix d p")
    case True
    then have "lookup h (s @ drop (length d) p) = Some m" using that lk by simp
    moreover have "\<not> prefix d (s @ drop (length d) p)" using nds calculation by blast
    ultimately show ?thesis using rebase_onto [OF True, of s] by blast
  next
    case False
    then show ?thesis using that lk by (auto simp: rebase_def split: if_splits)
  qed
  show ?thesis
  proof (rule host_wfI)
    show "\<exists>i. lookup (move_tree h s d) [] = Some (DirN i)"
      using wf_root [OF wf] good(2) src(2) by (simp add: lk)
    show "good_comps p" if lp: "lookup (move_tree h s d) p = Some m" for p m
    proof -
      obtain k where "lookup h k = Some m" "?f k = p" using orig [OF lp] by blast
      then show ?thesis using wf_good [OF wf, of k m] good(1)
        by (cases "prefix s k") (simp_all add: rebase_def prefix_def, clarsimp)
    qed
    show "node_ino m < fresh (move_tree h s d)" if "lookup (move_tree h s d) p = Some m" for p m
      using orig [OF that] wf_fresh [OF wf] by (auto simp: fr)
    show "a = b \<or> (\<exists>i. m1 = RegN i \<and> m2 = RegN i)"
      if "lookup (move_tree h s d) a = Some m1" "lookup (move_tree h s d) b = Some m2"
        "node_ino m1 = node_ino m2" for a b m1 m2
      using orig [OF that(1)] orig [OF that(2)] wf_ino [OF wf _ _ that(3)] by blast
    show "\<exists>i. lookup (move_tree h s d) p = Some (DirN i)"
      if "lookup (move_tree h s d) (p @ [c]) = Some m" for p c m
    proof (cases "prefix d (p @ [c])")
      case True
      show ?thesis
      proof (cases "p @ [c] = d")
        case True
        then have "butlast d = p" by auto
        then have "lookup h p = Some (DirN j)" using par by simp
        moreover have "\<not> prefix d p" using True by (auto dest: prefix_length_le)
        moreover have "\<not> prefix s p"
          using ns True by (metis prefix_snoc)
        ultimately show ?thesis by (simp add: lk)
      next
        case False
        then have dp: "prefix d p" using True by simp
        then have "lookup h ((s @ drop (length d) p) @ [c]) = Some m"
          using that True unfolding lk [of "p @ [c]"] drop_append_prefix [OF dp] by simp
        then show ?thesis using wf_parent [OF wf] dp by (auto simp: lk)
      qed
    next
      case False
      then have "\<not> prefix s (p @ [c])" "lookup h (p @ [c]) = Some m" using that by (auto simp: lk split: if_splits)
      moreover have "\<not> prefix d p" "\<not> prefix s p" using False calculation(1) by auto
      ultimately show ?thesis using wf_parent [OF wf] by (auto simp: lk)
    qed
  qed (use dist wf_fault [OF wf] fr in auto)
qed

subsection \<open>What each call may do\<close>

lemma walk_parent_Inr:
  assumes "walk_parent h cs = Inr q" "host_wf h" "good_comps cs" "cs \<noteq> []"
  shows "\<exists>r i. walk h Follow kernel_links [] (butlast cs) = Inr r \<and> lookup h r = Some (DirN i) \<and>
    q = r @ [last cs] \<and> good_comps q"
proof -
  obtain r i where r: "walk h Follow kernel_links [] (butlast cs) = Inr r" "lookup h r = Some (DirN i)"
    "q = r @ [last cs]"
    using assms(1) by (auto simp: walk_parent_def split: sum.splits option.splits node.splits)
  have "good_comps r" by (rule wf_good [OF assms(2) r(2)])
  moreover have "good_comp (last cs)" using assms(3,4) by (simp add: list_all_iff)
  ultimately show ?thesis using r by auto
qed

text \<open>The entry an open for writing works on.\<close>

definition open_at :: "host \<Rightarrow> oflags \<Rightarrow> string list \<Rightarrow> string list \<Rightarrow> bool" where
  "open_at h fl cs q \<longleftrightarrow>
     (if o_excl fl then cs \<noteq> [] \<and> walk_parent h cs = Inr q
      else walk h Create kernel_links [] cs = Inr q)"

text \<open>A creating walk that ends at a missing entry ends below a directory.\<close>

lemma walk_Create_missing:
  assumes "host_wf h" "walk h m k cur cs = Inr q" "m = Create" "lookup h q = None"
    "lookup h cur = Some (DirN i)"
  shows "\<exists>p c j. q = p @ [c] \<and> lookup h p = Some (DirN j)"
  using assms
proof (induction h m k cur cs arbitrary: i rule: walk_induct)
  case (up h m k cur cs)
  have "\<exists>j. lookup h (butlast cur) = Some (DirN j)"
    using up.prems wf_butlast_dir [of h cur] wf_root [of h] by (cases "cur = []") auto
  then show ?case using up by auto
next
  case (link h m k cur c cs j t)
  have "walk h m k (if is_rooted t then [] else cur) (split_on sep t @ cs) = Inr q"
    using link.prems(2) unfolding walk_link [OF link.hyps] .
  moreover have "\<exists>j. lookup h (if is_rooted t then [] else cur) = Some (DirN j)"
    using link.prems(5) wf_root [OF link.prems(1)] by auto
  ultimately show ?case using link.IH link.prems by blast
next
  case (no_links h m cur c cs i t)
  then show ?case using walk_plain [of c h m 0 cur cs] by auto
qed (auto simp: walk_plain split: if_splits)

lemma walk_Create_good:
  assumes "walk h Create k [] cs = Inr q" "good_comps cs"
  shows "good_comps q"
  by (rule walk_good [OF assms(1)]) (use assms(2) in \<open>simp_all add: list_all_iff good_comp_def\<close>)

text \<open>A place where an entry can be made.\<close>

definition vacant :: "host \<Rightarrow> string list \<Rightarrow> bool" where
  "vacant h q \<longleftrightarrow>
     lookup h q = None \<and> q \<noteq> [] \<and> good_comps q \<and> (\<exists>j. lookup h (butlast q) = Some (DirN j))"

lemma vacant_not: "vacant h q \<Longrightarrow> lookup h R \<noteq> None \<Longrightarrow> q \<noteq> R"
  by (auto simp: vacant_def)

lemma wf_new_vacant:
  "host_wf h \<Longrightarrow> vacant h q \<Longrightarrow> host_wf (new_file h q pm)"
  "host_wf h \<Longrightarrow> vacant h q \<Longrightarrow> host_wf (new_dir h q pm)"
  using wf_add_new unfolding vacant_def by blast+

lemma open_at_vacant:
  assumes "host_wf h" "open_at h fl cs q" "lookup h q = None" "good_comps cs"
  shows "vacant h q"
proof (cases "o_excl fl")
  case True
  then have "cs \<noteq> []" "walk_parent h cs = Inr q" using assms(2) by (simp_all add: open_at_def)
  then obtain r i where "q = r @ [last cs]" "lookup h r = Some (DirN i)" "good_comps q"
    using walk_parent_Inr [OF _ assms(1,4)] by metis
  then show ?thesis using assms(3) by (simp add: vacant_def)
next
  case False
  then have w: "walk h Create kernel_links [] cs = Inr q" using assms(2) by (simp add: open_at_def)
  obtain i0 where "lookup h [] = Some (DirN i0)" using wf_root [OF assms(1)] by blast
  then obtain p c j where "q = p @ [c]" "lookup h p = Some (DirN j)"
    using walk_Create_missing [OF assms(1) w refl assms(3)] by blast
  then show ?thesis using walk_Create_good [OF w assms(4)] assms(3) by (simp add: vacant_def)
qed

lemma os_open_write_cases:
  assumes "os_open_write h (render True cs) fl pm = (h', r)" "good_comps cs" "host_wf h"
  obtains (failed) e where "h' = h" "r = Inl e"
  | (created) q where "open_at h fl cs q" "vacant h q" "h' = new_file h q pm" "r = Inr (fresh h)"
  | (opened) q i where "open_at h fl cs q" "\<not> o_excl fl" "lookup h q = Some (RegN i)" "r = Inr i"
      "h' = (if o_trunc fl then h\<lparr>content := (content h)(i := [])\<rparr> else h)"
proof -
  have "(\<exists>e. h' = h \<and> r = Inl e) \<or>
    (\<exists>q. open_at h fl cs q \<and> lookup h q = None \<and> h' = new_file h q pm \<and> r = Inr (fresh h)) \<or>
    (\<exists>q i. open_at h fl cs q \<and> \<not> o_excl fl \<and> lookup h q = Some (RegN i) \<and> r = Inr i \<and>
      h' = (if o_trunc fl then h\<lparr>content := (content h)(i := [])\<rparr> else h))"
    using assms(1,2)
    by (auto simp: os_open_write_def open_at_def split: option.splits sum.splits if_splits node.splits)
  then show thesis using that open_at_vacant [OF assms(3) _ _ assms(2)] by blast
qed

lemma os_mkdir_cases:
  assumes "os_mkdir h (render True cs) pm = (h', r)" "good_comps cs" "host_wf h"
  obtains (failed) e where "h' = h" "r = Some e"
  | (created) q where "cs \<noteq> []" "walk_parent h cs = Inr q" "vacant h q" "h' = new_dir h q pm" "r = None"
proof -
  have "(\<exists>e. h' = h \<and> r = Some e) \<or>
    (\<exists>q. cs \<noteq> [] \<and> walk_parent h cs = Inr q \<and> lookup h q = None \<and> h' = new_dir h q pm \<and> r = None)"
    using assms(1,2) by (auto simp: os_mkdir_def split: option.splits sum.splits if_splits)
  moreover have "vacant h q" if "cs \<noteq> []" "walk_parent h cs = Inr q" "lookup h q = None" for q
    by (rule open_at_vacant [of h "\<lparr>o_trunc = False, o_excl = True\<rparr>" cs])
      (use that assms in \<open>simp_all add: open_at_def\<close>)
  ultimately show thesis using that by blast
qed

lemma os_remove_cases:
  assumes "os_remove h (render True cs) = (h', r)" "good_comps cs"
  obtains (failed) e where "h' = h" "r = Some e"
  | (removed) q n where "cs \<noteq> []" "walk_parent h cs = Inr q" "lookup h q = Some n"
      "is_dirN n \<Longrightarrow> children h q = []" "h' = del_tree h q" "r = None"
proof -
  have "(\<exists>e. h' = h \<and> r = Some e) \<or>
    (\<exists>q n. cs \<noteq> [] \<and> walk_parent h cs = Inr q \<and> lookup h q = Some n \<and>
       (is_dirN n \<longrightarrow> children h q = []) \<and> h' = del_tree h q \<and> r = None)"
    using assms by (auto simp: os_remove_def split: option.splits sum.splits if_splits node.splits)
  then show thesis using failed removed by blast
qed

lemma os_remove_all_cases:
  assumes "os_remove_all h (render True cs) = (h', r)" "good_comps cs"
  obtains (unchanged) "h' = h"
  | (removed) q where "cs \<noteq> []" "walk_parent h cs = Inr q" "h' = del_tree h q" "r = None"
proof -
  have "h' = h \<or> (\<exists>q. cs \<noteq> [] \<and> walk_parent h cs = Inr q \<and> h' = del_tree h q \<and> r = None)"
    using assms by (auto simp: os_remove_all_def split: option.splits sum.splits if_splits errno.splits)
  then show thesis using unchanged removed by blast
qed

lemma os_rename_cases:
  assumes "os_rename h (render True cs) (render True ds) = (h', r)" "good_comps cs" "good_comps ds"
  obtains (failed) e where "h' = h" "r = Some e"
  | (same) s d n m where "cs \<noteq> []" "ds \<noteq> []" "walk_parent h cs = Inr s" "walk_parent h ds = Inr d"
      "lookup h s = Some n" "lookup h d = Some m" "node_ino m = node_ino n" "h' = h" "r = None"
  | (moved) s d n where "cs \<noteq> []" "ds \<noteq> []" "walk_parent h cs = Inr s" "walk_parent h ds = Inr d"
      "lookup h s = Some n" "lookup h d = None \<and> \<not> strict_prefix s d \<or>
         (\<exists>m. lookup h d = Some m \<and> \<not> is_dirN m \<and> \<not> is_dirN n \<and> node_ino m \<noteq> node_ino n)"
      "h' = move_tree h s d" "r = None"
proof (cases "r = None")
  case False
  then have "h' = h"
    using assms by (auto simp: os_rename_def Let_def split: option.splits sum.splits if_splits)
  then show ?thesis using False failed by (cases r) auto
next
  case True
  then obtain s d n where sd: "cs \<noteq> []" "ds \<noteq> []" "walk_parent h cs = Inr s" "walk_parent h ds = Inr d"
    "lookup h s = Some n"
    using assms by (auto simp: os_rename_def split: option.splits sum.splits if_splits)
  have ok: "fault h SRename (render True cs) = None"
    using assms(1) True by (auto simp: os_rename_def split: option.splits)
  show ?thesis
  proof (cases "lookup h d")
    case None
    then have "\<not> strict_prefix s d" "h' = move_tree h s d"
      using assms sd ok True by (simp_all add: os_rename_def split: if_splits)
    then show ?thesis using moved [OF sd] None True by blast
  next
    case (Some m)
    show ?thesis
    proof (cases "node_ino m = node_ino n")
      case eq: True
      then have "h' = h" using assms sd ok Some by (simp add: os_rename_def)
      then show ?thesis using same [OF sd Some eq] True by blast
    next
      case False
      then have "\<not> is_dirN m \<and> \<not> is_dirN n" "h' = move_tree h s d"
        using assms sd ok True Some by (simp_all add: os_rename_def split: if_splits)
      then show ?thesis using moved [OF sd] Some False True by blast
    qed
  qed
qed

lemma vacant_parent: "vacant h q \<Longrightarrow> butlast q @ [last q] = q"
  by (simp add: vacant_def)

subsection \<open>Each call keeps the host well-formed and stays below a directory\<close>

lemma os_open_write_wf:
  assumes "os_open_write h (render True cs) fl pm = (h', r)" "good_comps cs" "host_wf h"
  shows "host_wf h'"
  using assms by (cases rule: os_open_write_cases [OF assms]) (auto intro: wf_new_vacant)

lemma os_open_write_confined:
  assumes "os_open_write h (render True cs) fl pm = (h', r)" "good_comps cs" "host_wf h"
    and "\<And>q. open_at h fl cs q \<Longrightarrow> prefix R q" "lookup h R \<noteq> None"
  shows "confined R h h' \<and> (\<forall>i. r = Inr i \<longrightarrow> (\<exists>q. prefix R q \<and> lookup h' q = Some (RegN i)))"
  using assms(1-3)
proof (cases rule: os_open_write_cases)
  case (created q)
  then show ?thesis
    using assms(4) [OF created(1)] vacant_not [OF created(2) assms(5)] confined_add_new(1) [of R q h pm]
    by (auto simp: lookup_new_file)
next
  case (opened q i)
  then show ?thesis using assms(4) [OF opened(1)] confined_content [of R q h i "[]"] by auto
qed auto

lemma fd_write_wf: "fd_write h i d = (h', k, e) \<Longrightarrow> host_wf h \<Longrightarrow> host_wf h'"
  by (auto simp: fd_write_def Let_def split: option.splits)

lemma fd_write_confined:
  "fd_write h i d = (h', k, e) \<Longrightarrow> prefix R q \<Longrightarrow> lookup h q = Some (RegN i) \<Longrightarrow> confined R h h'"
  by (auto simp: fd_write_def Let_def intro!: confined_content split: option.splits)

lemma os_mkdir_wf:
  assumes "os_mkdir h (render True cs) pm = (h', r)" "good_comps cs" "host_wf h"
  shows "host_wf h'"
  using assms by (cases rule: os_mkdir_cases [OF assms]) (auto intro: wf_new_vacant)

lemma os_mkdir_confined:
  assumes "os_mkdir h (render True cs) pm = (h', r)" "good_comps cs" "host_wf h"
    and "\<And>q. cs \<noteq> [] \<Longrightarrow> walk_parent h cs = Inr q \<Longrightarrow> lookup h q = None \<Longrightarrow> prefix R q"
    and "lookup h R \<noteq> None"
  shows "confined R h h'"
  using assms(1-3)
proof (cases rule: os_mkdir_cases)
  case (created q)
  then show ?thesis
    using assms(4) [of q] vacant_not [OF created(3) assms(5)] confined_add_new(2) [of R q h pm]
    by (simp add: vacant_def)
qed auto

lemma os_remove_wf:
  assumes "os_remove h (render True cs) = (h', r)" "good_comps cs" "host_wf h"
  shows "host_wf h'"
  using assms(1,2)
proof (cases rule: os_remove_cases)
  case (removed q n)
  then have "q \<noteq> []" using walk_parent_Inr [OF _ assms(3,2)] by fastforce
  then show ?thesis using removed wf_del_tree [OF assms(3)] by simp
qed (use assms in simp)

lemma os_remove_confined:
  assumes "os_remove h (render True cs) = (h', r)" "good_comps cs"
    and "\<And>q. cs \<noteq> [] \<Longrightarrow> walk_parent h cs = Inr q \<Longrightarrow> prefix R q"
  shows "confined R h h'"
  using assms(1,2) by (cases rule: os_remove_cases) (use assms(3) in \<open>auto intro: confined_del_tree\<close>)

lemma os_remove_all_wf:
  assumes "os_remove_all h (render True cs) = (h', r)" "good_comps cs" "host_wf h"
  shows "host_wf h'"
  using assms(1,2)
proof (cases rule: os_remove_all_cases)
  case (removed q)
  then have "q \<noteq> []" using walk_parent_Inr [OF _ assms(3,2)] by fastforce
  then show ?thesis using removed wf_del_tree [OF assms(3)] by simp
qed (use assms in simp)

lemma os_remove_all_confined:
  assumes "os_remove_all h (render True cs) = (h', r)" "good_comps cs"
    and "\<And>q. cs \<noteq> [] \<Longrightarrow> walk_parent h cs = Inr q \<Longrightarrow> prefix R q"
  shows "confined R h h'"
  using assms(1,2) by (cases rule: os_remove_all_cases) (use assms(3) in \<open>auto intro: confined_del_tree\<close>)

lemma os_rename_wf:
  assumes "os_rename h (render True cs) (render True ds) = (h', r)" "good_comps cs" "good_comps ds" "host_wf h"
  shows "host_wf h'"
  using assms(1-3)
proof (cases rule: os_rename_cases)
  case (moved s d n)
  have s: "s \<noteq> []" using walk_parent_Inr [OF moved(3) assms(4,2) moved(1)] by auto
  obtain r i where r: "d = r @ [last ds]" "lookup h r = Some (DirN i)" "good_comps d"
    using walk_parent_Inr [OF moved(4) assms(4,3) moved(2)] by blast
  have sd: "\<not> strict_prefix s d"
    using moved(6) wf_below_nondir [OF assms(4) moved(5), of d] by auto
  have ne: "s \<noteq> d" using moved(5,6) by auto
  have "host_wf (move_tree h s d)"
    by (rule wf_move_tree [OF assms(4) moved(5) s r(3) _ _ _ sd ne]) (use r moved(6) in auto)
  then show ?thesis by (simp add: moved)
qed (use assms in auto)

lemma os_rename_confined:
  assumes "os_rename h (render True cs) (render True ds) = (h', r)" "good_comps cs" "good_comps ds"
    and "\<And>q. cs \<noteq> [] \<Longrightarrow> walk_parent h cs = Inr q \<Longrightarrow> prefix R q"
    and "\<And>q. ds \<noteq> [] \<Longrightarrow> walk_parent h ds = Inr q \<Longrightarrow> prefix R q"
    and "lookup h R = Some (DirN i)"
  shows "confined R h h'"
  using assms(1-3)
proof (cases rule: os_rename_cases)
  case (moved s d n)
  have "prefix R s" "prefix R d" "d \<noteq> R"
    using assms(4) [OF moved(1,3)] assms(5) [OF moved(2,4)] assms(6) moved(6) by auto
  then show ?thesis using confined_move_tree by (simp add: moved(7))
qed auto

subsection \<open>Hosts with more entries\<close>

definition extends :: "host \<Rightarrow> host \<Rightarrow> bool" where
  "extends h h' \<longleftrightarrow> (\<forall>p n. lookup h p = Some n \<longrightarrow> lookup h' p = Some n)"

lemma extends_refl [simp]: "extends h h"
  by (simp add: extends_def)

lemma extends_trans: "extends h h1 \<Longrightarrow> extends h1 h2 \<Longrightarrow> extends h h2"
  by (simp add: extends_def)

lemma extends_new: "lookup h q = None \<Longrightarrow> extends h (new_dir h q pm)" "lookup h q = None \<Longrightarrow> extends h (new_file h q pm)"
  by (auto simp: extends_def lookup_new_dir lookup_new_file)

lemma walk_extends:
  assumes "walk h m k cur cs = Inr q" "m \<noteq> Create" "extends h h'"
  shows "walk h' m k cur cs = Inr q"
  using assms
proof (induction h m k cur cs rule: walk_induct)
  case (link h m k cur c cs i t)
  have "walk h m k (if is_rooted t then [] else cur) (split_on sep t @ cs) = Inr q"
    using link.prems(1) unfolding walk_link [OF link.hyps] .
  then have "walk h' m k (if is_rooted t then [] else cur) (split_on sep t @ cs) = Inr q"
    using link by blast
  moreover have "lookup h' (cur @ [c]) = Some (LinkN i t)" using link by (simp add: extends_def)
  ultimately show ?case using walk_link [OF link.hyps(1) _ link.hyps(3)] by simp
next
  case (no_links h m cur c cs i t)
  then show ?case using walk_plain [of c h m 0 cur cs] by auto
next
  case (last_link h k cur c i t)
  then have "lookup h' (cur @ [c]) = Some (LinkN i t)" by (simp add: extends_def)
  then show ?case using last_link by (simp add: walk_plain)
next
  case (reg h m k cur c cs i)
  then have "lookup h' (cur @ [c]) = Some (RegN i)" by (simp add: extends_def)
  then show ?case using reg by (simp add: walk_plain)
next
  case (dir h m k cur c cs i)
  then have "lookup h' (cur @ [c]) = Some (DirN i)" by (simp add: extends_def)
  then show ?case using dir by (simp add: walk_plain)
next
  case (missing h m k cur c cs)
  then show ?case by (simp add: walk_plain)
qed (simp_all add: extends_def)

text \<open>A walk that follows links and arrives shows that the entry itself is there.\<close>

lemma walk_parent_exists:
  assumes "host_wf h" "walk h Follow kernel_links [] (cs @ [c]) = Inr q" "good_comp c"
  shows "\<exists>r. walk_parent h (cs @ [c]) = Inr r \<and> lookup h r \<noteq> None"
proof -
  obtain i0 where i0: "lookup h [] = Some (DirN i0)" using wf_root [OF assms(1)] by blast
  then obtain r j where r: "walk h Follow kernel_links [] cs = Inr r" "lookup h r = Some (DirN j)"
    using walk_through_dir [OF assms(1,2), of cs c "[]"] assms(3) good_comp_plain by auto
  obtain k' where "walk h Follow kernel_links [] (cs @ [c]) = walk h Follow k' r [c]"
    using walk_split [OF r(1) refl r(2)] by blast
  then have "lookup h (r @ [c]) \<noteq> None" using assms(2,3) by (auto simp: walk_last split: option.splits)
  then show ?thesis using r by (simp add: walk_parent_def)
qed

lemma os_mkdir_existing:
  assumes "host_wf h" "walk h Follow kernel_links [] cs = Inr q" "good_comps cs"
  shows "\<exists>e. os_mkdir h (render True cs) pm = (h, Some e)"
proof (cases cs rule: rev_cases)
  case (snoc ds c)
  then obtain r where "walk_parent h cs = Inr r" "lookup h r \<noteq> None"
    using walk_parent_exists [of h ds c q] assms by auto
  then show ?thesis using assms(3) by (auto simp: os_mkdir_def split: option.split)
qed (use assms in \<open>simp add: os_mkdir_def split: option.split\<close>)

subsection \<open>\<open>MkdirAll\<close>\<close>

lemma mkdir_all_existing:
  assumes "host_wf h" "good_comps cs" "walk h Follow kernel_links [] cs = Inr q"
  shows "\<exists>e. mkdir_all_rev h (rev cs) pm = (h, e)"
  using assms(2,3)
proof (induction cs arbitrary: q rule: rev_induct)
  case (snoc c cs)
  obtain i0 where "lookup h [] = Some (DirN i0)" using wf_root [OF assms(1)] by blast
  then obtain r where "walk h Follow kernel_links [] cs = Inr r"
    using walk_through_dir [OF assms(1) snoc.prems(2), of cs c "[]"] snoc.prems(1) good_comp_plain by auto
  then obtain e where e: "mkdir_all_rev h (rev cs) pm = (h, e)" using snoc by auto
  obtain e' where e': "os_mkdir h (render True (cs @ [c])) pm = (h, Some e')"
    using os_mkdir_existing [OF assms(1) snoc.prems(2,1)] by blast
  show ?case by (cases e) (simp_all add: e e' Let_def split: sum.split)
qed (simp split: sum.split)

lemma walk_dirs_below:
  assumes "host_wf h" "walk h Follow kernel_links [] base = Inr B" "good_comps xs"
    and "walk h Follow kernel_links [] (base @ xs) = Inr q"
    and "\<And>ys n. prefix ys xs \<Longrightarrow> ys \<noteq> [] \<Longrightarrow> lookup h (B @ ys) = Some n \<Longrightarrow> is_dirN n"
  shows "q = B @ xs"
  using assms(3-5)
proof (induction xs arbitrary: q rule: rev_induct)
  case Nil
  then show ?case using assms(2) by simp
next
  case (snoc c ys)
  obtain i0 where "lookup h [] = Some (DirN i0)" using wf_root [OF assms(1)] by blast
  then obtain r j where r: "walk h Follow kernel_links [] (base @ ys) = Inr r" "lookup h r = Some (DirN j)"
    using walk_through_dir [OF assms(1) snoc.prems(2), of "base @ ys" c "[]"] snoc.prems(1) good_comp_plain
    by auto
  have "r = B @ ys"
  proof (rule snoc.IH [OF _ r(1)])
    show "is_dirN n" if "prefix zs ys" "zs \<noteq> []" "lookup h (B @ zs) = Some n" for zs n
      using snoc.prems(3) [of zs n] that by simp
  qed (use snoc.prems(1) in simp)
  moreover obtain k' where "walk h Follow kernel_links [] ((base @ ys) @ [c]) = walk h Follow k' r [c]"
    using walk_split [OF r(1) refl r(2)] by blast
  ultimately show ?case
    using snoc.prems(1,2) snoc.prems(3) [of "ys @ [c]"]
    by (auto simp: walk_last split: option.splits node.splits)
qed

text \<open>Directories are made below \<open>B\<close>, and the path leads to the last one.\<close>

lemma walk_new_child:
  assumes "walk h Follow k [] as = Inr r" "lookup h r = Some (DirN i)" "good_comp c"
    and "lookup h (r @ [c]) = Some (DirN j)"
  shows "walk h Follow k [] (as @ [c]) = Inr (r @ [c])"
proof -
  obtain k' where "walk h Follow k [] (as @ [c]) = walk h Follow k' r [c]"
    using walk_split [OF assms(1) refl assms(2)] by blast
  then show ?thesis using assms(3,4) by (simp add: walk_last)
qed

lemma os_lstat_dir_child:
  assumes "host_wf h" "os_lstat h (render True (as @ [c])) = Inr info" "fi_is_dir info"
    and "good_comps (as @ [c])" "walk h Follow kernel_links [] as = Inr r" "lookup h r = Some (DirN i)"
  shows "\<exists>j. lookup h (r @ [c]) = Some (DirN j)"
proof -
  obtain q n where q: "walk h NoFollow kernel_links [] (as @ [c]) = Inr q" "lookup h q = Some n"
    "info = info_of h (Base (render True (as @ [c]))) n"
    using os_lstat_Inr [OF assms(2,4)] by blast
  obtain k' where "walk h NoFollow kernel_links [] (as @ [c]) = walk h NoFollow k' r [c]"
    using walk_split [OF assms(5) refl assms(6)] by blast
  then have "q = r @ [c]"
    using q(1) assms(4) by (auto simp: walk_last split: option.splits node.splits)
  then show ?thesis using q assms(3) by (cases n) auto
qed

lemma mkdir_all_below:
  assumes wf: "host_wf h" and base: "walk h Follow kernel_links [] base = Inr B" "lookup h B = Some (DirN i)"
    and good: "good_comps (base @ xs)"
    and dirs: "\<And>ys n. prefix ys xs \<Longrightarrow> ys \<noteq> [] \<Longrightarrow> lookup h (B @ ys) = Some n \<Longrightarrow> is_dirN n"
    and run: "mkdir_all_rev h (rev (base @ xs)) pm = (h', e)"
  shows "host_wf h' \<and> confined B h h' \<and> extends h h' \<and>
    (\<forall>p. lookup h' p \<noteq> lookup h p \<longrightarrow> (\<exists>ys. prefix ys xs \<and> p = B @ ys)) \<and>
    (e = None \<longrightarrow> walk h' Follow kernel_links [] (base @ xs) = Inr (B @ xs) \<and>
      (\<exists>j. lookup h' (B @ xs) = Some (DirN j)))"
  using good dirs run
proof (induction xs arbitrary: h' e rule: rev_induct)
  case Nil
  then have "h' = h" using mkdir_all_existing [OF wf _ base(1), of pm] by auto
  then show ?case using wf base by simp
next
  case (snoc c ys)
  let ?p = "render True (base @ ys @ [c])"
  have gc: "good_comp c" "good_comps (base @ ys)" "good_comps (base @ ys @ [c])" "good_comps (ys @ [c])"
    using snoc.prems(1) by auto
  have rc: "rev (base @ ys @ [c]) = c # rev (base @ ys)" by simp
  have run: "mkdir_all_rev h (c # rev (base @ ys)) pm = (h', e)" using snoc.prems(3) unfolding rc .
  have rev: "render True (rev (c # rev (base @ ys))) = ?p" by simp
  show ?case
  proof (cases "os_stat h ?p")
    case (Inr info)
    then have h': "h' = h" "e = None \<longrightarrow> fi_is_dir info"
      using run by (auto simp: rev split: if_splits)
    obtain q n where q: "walk h Follow kernel_links [] (base @ ys @ [c]) = Inr q" "lookup h q = Some n"
      "info = info_of h (Base ?p) n"
      using os_stat_Inr [OF Inr gc(3)] by blast
    have "q = B @ ys @ [c]" by (rule walk_dirs_below [OF wf base(1) gc(4) q(1) snoc.prems(2)])
    then show ?thesis using h' q wf by (cases n) auto
  next
    case (Inl e0)
    obtain h1 e1 where m: "mkdir_all_rev h (rev (base @ ys)) pm = (h1, e1)" by fastforce
    have IH: "host_wf h1 \<and> confined B h h1 \<and> extends h h1 \<and>
        (\<forall>p. lookup h1 p \<noteq> lookup h p \<longrightarrow> (\<exists>zs. prefix zs ys \<and> p = B @ zs)) \<and>
        (e1 = None \<longrightarrow> walk h1 Follow kernel_links [] (base @ ys) = Inr (B @ ys) \<and>
          (\<exists>j. lookup h1 (B @ ys) = Some (DirN j)))"
      by (rule snoc.IH [OF gc(2) snoc.prems(2) m]) simp_all
    show ?thesis
    proof (cases e1)
      case (Some e')
      then have "h' = h1 \<and> e = Some e'" using run Inl m by (simp add: rev)
      moreover have "\<exists>zs. prefix zs (ys @ [c]) \<and> p = B @ zs" if "lookup h1 p \<noteq> lookup h p" for p
        using IH that by (metis prefix_prefix)
      ultimately show ?thesis using IH by blast
    next
      case None
      obtain j where w1: "walk h1 Follow kernel_links [] (base @ ys) = Inr (B @ ys)"
        "lookup h1 (B @ ys) = Some (DirN j)" using IH None by blast
      obtain h2 e2 where mk: "os_mkdir h1 ?p pm = (h2, e2)" by fastforce
      have h': "h' = h2" "e2 = None \<longrightarrow> e = None"
        "\<forall>x. e2 = Some x \<longrightarrow> e = None \<longrightarrow> (\<exists>info. os_lstat h2 ?p = Inr info \<and> fi_is_dir info)"
        using run Inl m None mk by (auto simp: rev split: option.splits sum.splits if_splits)
      have wp: "walk_parent h1 (base @ ys @ [c]) = Inr (B @ ys @ [c])"
        using w1 by (simp add: walk_parent_def butlast_append)
      have wf1: "host_wf h1" using IH by blast
      have wf2: "host_wf h2" by (rule os_mkdir_wf [OF mk gc(3) wf1])
      have c2: "confined B h1 h2"
        by (rule os_mkdir_confined [OF mk gc(3) wf1]) (use IH base(2) in \<open>auto simp: wp extends_def\<close>)
      have ext: "extends h1 h2 \<and> (\<forall>p. lookup h2 p \<noteq> lookup h1 p \<longrightarrow> p = B @ ys @ [c]) \<and>
          (e2 = None \<longrightarrow> (\<exists>k. lookup h2 (B @ ys @ [c]) = Some (DirN k))) \<and> (e2 \<noteq> None \<longrightarrow> h2 = h1)"
        using mk gc(3) wf1
      proof (cases rule: os_mkdir_cases)
        case (created q)
        then show ?thesis using wp by (simp add: extends_new vacant_def lookup_new_dir)
      qed auto
      have w2: "walk h2 Follow kernel_links [] (base @ ys) = Inr (B @ ys)" "lookup h2 (B @ ys) = Some (DirN j)"
        using walk_extends [OF w1(1) _ conjunct1 [OF ext]] conjunct1 [OF ext] w1(2)
        by (simp_all add: extends_def)
      have "\<exists>k. lookup h2 ((B @ ys) @ [c]) = Some (DirN k)" if en: "e = None"
      proof (cases e2)
        case None
        then show ?thesis using ext by simp
      next
        case (Some x)
        then obtain info where "os_lstat h2 (render True ((base @ ys) @ [c])) = Inr info" "fi_is_dir info"
          using h' en by auto
        then show ?thesis using os_lstat_dir_child [OF wf2 _ _ _ w2] gc by simp
      qed
      then have "walk h2 Follow kernel_links [] ((base @ ys) @ [c]) = Inr ((B @ ys) @ [c]) \<and>
          (\<exists>k. lookup h2 ((B @ ys) @ [c]) = Some (DirN k))" if "e = None"
        using walk_new_child [OF w2 gc(1)] that by blast
      moreover have "confined B h h2" by (rule confined_trans [OF _ c2]) (use IH in blast)
      moreover have "extends h h2" by (rule extends_trans [of _ h1]) (use IH ext in blast)+
      moreover have "\<exists>zs. prefix zs (ys @ [c]) \<and> p = B @ zs" if "lookup h2 p \<noteq> lookup h p" for p
      proof (cases "lookup h1 p = lookup h p")
        case True
        then show ?thesis using ext that by auto
      next
        case False
        then show ?thesis using IH by (metis prefix_prefix)
      qed
      ultimately show ?thesis using wf2 h'(1) by simp
    qed
  qed
qed

end
