(* ===== verification/FsFacts.thy ===== *)
theory FsFacts
  imports LocalFs HostOps
begin

text \<open>
  The sandboxed operations under the default treatment of links. \<open>fs_ok\<close> is the invariant
  of a constructed file system on a well-formed host. The lemmas say which entry each
  operation works on, that it changes nothing outside the physical root, and what it
  returns.
\<close>

definition fs_ok :: "host \<Rightarrow> local_fs \<Rightarrow> bool" where
  "fs_ok h f \<longleftrightarrow> host_wf h \<and> guard_ok h (lf_guard f) \<and> \<not> FollowSymlinks (pg_policy (lf_guard f))"

lemma fs_okD:
  assumes "fs_ok h f"
  shows fs_wf: "host_wf h" and fs_guard: "guard_ok h (lf_guard f)"
    and fs_nofollow: "\<not> FollowSymlinks (pg_policy (lf_guard f))"
  using assms by (auto simp: fs_ok_def)

abbreviation fs_root :: "local_fs \<Rightarrow> string list" where
  "fs_root f \<equiv> path_comps (pg_root (lf_guard f))"

abbreviation fs_eroot :: "local_fs \<Rightarrow> string list" where
  "fs_eroot f \<equiv> eroot (lf_guard f)"

subsection \<open>The entry an accepted path names\<close>

lemma reaches_walk_parent:
  assumes "host_wf h" "reaches h cs q" "good_comps cs" "cs \<noteq> []"
  shows "walk_parent h cs = Inr q"
proof -
  have cs: "cs = butlast cs @ [last cs]" using assms(4) by simp
  have c: "good_comp (last cs)" using assms(3,4) by (simp add: list_all_iff)
  have w: "walk h m kernel_links [] (butlast cs @ [last cs]) = Inr q" for m
    using assms(2) cs by (simp add: reaches_def)
  obtain i0 where "lookup h [] = Some (DirN i0)" using wf_root [OF assms(1)] by blast
  then obtain r j where r: "walk h Follow kernel_links [] (butlast cs) = Inr r" "lookup h r = Some (DirN j)"
    using walk_through_dir [OF assms(1) w [of Follow], of "butlast cs" "last cs" "[]"] c good_comp_plain
    by auto
  obtain k' where "walk h NoFollow kernel_links [] (butlast cs @ [last cs]) = walk h NoFollow k' r [last cs]"
    using walk_split [OF r(1) refl r(2)] by blast
  then have "q = r @ [last cs]"
    using w [of NoFollow] c by (auto simp: walk_last split: option.splits node.splits)
  then show ?thesis using r by (simp add: walk_parent_def)
qed

lemma resolvedD:
  assumes "resolved h g p bs" "guard_ok h g" "host_wf h"
  shows "p = render True (path_comps (pg_root g) @ bs)" "good_comps (path_comps (pg_root g) @ bs)"
    "walk h m kernel_links [] (path_comps (pg_root g) @ bs) = Inr (eroot g @ bs)"
    "\<exists>n. lookup h (eroot g @ bs) = Some n \<and> \<not> is_linkN n"
    "path_comps (pg_root g) @ bs \<noteq> [] \<Longrightarrow> walk_parent h (path_comps (pg_root g) @ bs) = Inr (eroot g @ bs)"
proof -
  show good: "good_comps (path_comps (pg_root g) @ bs)"
    using assms guard_good(1) by (simp add: resolved_def)
  have r: "reaches h (path_comps (pg_root g) @ bs) (eroot g @ bs)" using assms(1) by (simp add: resolved_def)
  then show "walk h m kernel_links [] (path_comps (pg_root g) @ bs) = Inr (eroot g @ bs)"
    by (simp add: reaches_def)
  show "walk_parent h (path_comps (pg_root g) @ bs) = Inr (eroot g @ bs)" if "path_comps (pg_root g) @ bs \<noteq> []"
    by (rule reaches_walk_parent [OF assms(3) r good that])
  show "\<exists>n. lookup h (eroot g @ bs) = Some n \<and> \<not> is_linkN n"
    using assms(1) link_free_exists by (simp add: resolved_def)
qed (use assms in \<open>simp add: resolved_def\<close>)

lemma creatable_walk:
  assumes "creatable h g p as c rest"
  obtains k' where "\<And>m bs. bs \<noteq> [] \<Longrightarrow>
    walk h m kernel_links [] (path_comps (pg_root g) @ as @ bs) = walk h m k' (eroot g @ as) bs"
proof -
  obtain i where "walk h Follow kernel_links [] (path_comps (pg_root g) @ as) = Inr (eroot g @ as)"
    "lookup h (eroot g @ as) = Some (DirN i)"
    using assms by (auto simp: creatable_def reaches_def)
  from walk_split [OF this(1) refl this(2)] show thesis using that by auto
qed

lemma creatable_missing:
  assumes "creatable h g p as c rest" "lookup h (eroot g @ as @ [c]) = None"
  shows "walk h m kernel_links [] (path_comps (pg_root g) @ as @ c # xs) =
    (if m = Create \<and> xs = [] then Inr (eroot g @ as @ [c]) else Inl ENOENT)"
proof -
  from creatable_walk [OF assms(1)] obtain k' where k': "\<And>m bs. bs \<noteq> [] \<Longrightarrow>
    walk h m kernel_links [] (path_comps (pg_root g) @ as @ bs) = walk h m k' (eroot g @ as) bs" by blast
  have "plain c" using assms(1) good_comp_plain by (auto simp: creatable_def)
  then show ?thesis using k' [of "c # xs" m] assms(2) by (simp add: walk_plain)
qed

lemma creatable_parent:
  assumes "creatable h g p as c rest" "host_wf h"
    "walk_parent h (path_comps (pg_root g) @ as @ c # rest) = Inr q"
  shows "rest = [] \<and> q = eroot g @ as @ [c]"
proof -
  obtain r where r: "walk h Follow kernel_links [] (butlast (path_comps (pg_root g) @ as @ c # rest)) = Inr r"
    "q = r @ [last (c # rest)]"
    using assms(3) by (auto simp: walk_parent_def split: sum.splits option.splits node.splits)
  have "rest = []"
  proof (rule ccontr)
    assume ne: "rest \<noteq> []"
    then have "lookup h (eroot g @ as @ [c]) = None" using assms(1) by (auto simp: creatable_def)
    from creatable_missing [OF assms(1) this, of Follow "butlast rest"] r(1) ne
    show False by (simp add: butlast_append)
  qed
  moreover have "walk h Follow kernel_links [] (path_comps (pg_root g) @ as) = Inr (eroot g @ as)"
    using assms(1) by (simp add: creatable_def reaches_def)
  ultimately show ?thesis using r by (simp add: butlast_append)
qed

text \<open>Whatever is opened, made or removed at an accepted path is below the root.\<close>

text \<open>The last component of the user path is a symbolic link (to something missing).\<close>

definition final_link :: "host \<Rightarrow> local_fs \<Rightarrow> string \<Rightarrow> bool" where
  "final_link h f u \<longleftrightarrow> (\<exists>i t. lookup h (fs_eroot f @ user_comps u) = Some (LinkN i t))"

lemma forcreate_parent:
  assumes "ResolveForCreate h (lf_guard f) u = Inr sp" "fs_ok h f"
  shows "\<exists>cs. sp_path sp = render True cs \<and> good_comps cs \<and> cs = fs_root f @ user_comps u \<and>
    (\<forall>q. cs \<noteq> [] \<longrightarrow> walk_parent h cs = Inr q \<longrightarrow> q = fs_eroot f @ user_comps u)"
  using assms(1) fs_guard [OF assms(2)] fs_wf [OF assms(2)] fs_nofollow [OF assms(2)]
proof (cases rule: ResolveForCreate_cases)
  case 1
  note r = resolvedD [OF 1 fs_guard [OF assms(2)] fs_wf [OF assms(2)]]
  then show ?thesis by (intro exI [of _ "fs_root f @ user_comps u"]) simp
next
  case (2 as c rest)
  have "good_comps (fs_root f)" by (rule guard_good(1) [OF fs_guard [OF assms(2)]])
  then show ?thesis
    using creatable_parent [OF 2(2) fs_wf [OF assms(2)]] 2
    by (intro exI [of _ "fs_root f @ user_comps u"]) (auto simp: creatable_def)
qed

lemma forcreate_open_at:
  assumes "ResolveForCreate h (lf_guard f) u = Inr sp" "fs_ok h f"
    and "o_excl fl \<or> \<not> final_link h f u"
    and "open_at h fl (fs_root f @ user_comps u) q"
  shows "q = fs_eroot f @ user_comps u"
proof (cases "o_excl fl")
  case True
  then show ?thesis
    using forcreate_parent [OF assms(1,2)] assms(4) by (auto simp: open_at_def)
next
  case False
  then have w: "walk h Create kernel_links [] (fs_root f @ user_comps u) = Inr q"
    using assms(4) by (simp add: open_at_def)
  show ?thesis
    using assms(1) fs_guard [OF assms(2)] fs_wf [OF assms(2)] fs_nofollow [OF assms(2)]
  proof (cases rule: ResolveForCreate_cases)
    case 1
    then show ?thesis
      using resolvedD(3) [OF 1 fs_guard [OF assms(2)] fs_wf [OF assms(2)], of Create] w by simp
  next
    case (2 as c rest)
    have "lookup h (fs_eroot f @ as @ [c]) = None"
      using 2 assms(3) False by (auto simp: creatable_def final_link_def)
    from creatable_missing [OF 2(2) this, of Create rest] w 2(1)
    show ?thesis by (auto split: if_splits)
  qed
qed

lemma existing_parent_at:
  assumes "ResolveExisting h (lf_guard f) u = Inr sp" "fs_ok h f"
  shows "\<exists>cs. sp_path sp = render True cs \<and> good_comps cs \<and> cs = fs_root f @ user_comps u \<and>
    (cs \<noteq> [] \<longrightarrow> walk_parent h cs = Inr (fs_eroot f @ user_comps u)) \<and>
    (\<forall>m. walk h m kernel_links [] cs = Inr (fs_eroot f @ user_comps u)) \<and>
    (\<exists>n. lookup h (fs_eroot f @ user_comps u) = Some n \<and> \<not> is_linkN n)"
proof -
  have "resolved h (lf_guard f) (sp_path sp) (user_comps u)"
    by (rule ResolveExisting_resolved [OF assms(1) fs_guard [OF assms(2)] fs_wf [OF assms(2)]
          fs_nofollow [OF assms(2)]])
  note r = resolvedD [OF this fs_guard [OF assms(2)] fs_wf [OF assms(2)]]
  then show ?thesis by (intro exI [of _ "fs_root f @ user_comps u"]) blast
qed

lemma fs_root_dir: "fs_ok h f \<Longrightarrow> \<exists>i. lookup h (fs_eroot f) = Some (DirN i)"
  by (simp add: fs_ok_def guard_dir)

subsection \<open>Nothing outside the root changes\<close>

lemma open_target_confined:
  assumes "open_target h (sp_path sp) ow pm = (h', r)" "ResolveForCreate h (lf_guard f) u = Inr sp" "fs_ok h f"
    and "\<not> ow \<or> \<not> final_link h f u"
  shows "host_wf h' \<and> confined (fs_eroot f) h h' \<and>
    (\<forall>i. r = Inr i \<longrightarrow> (\<exists>q. prefix (fs_eroot f) q \<and> lookup h' q = Some (RegN i)))"
proof -
  let ?cs = "fs_root f @ user_comps u"
  have cs: "sp_path sp = render True ?cs" "good_comps ?cs"
    using forcreate_parent [OF assms(2,3)] by auto
  obtain r' where r': "os_open_write h (render True ?cs) (write_flags ow) pm = (h', r')"
    "\<forall>i. r = Inr i \<longrightarrow> r' = Inr i"
    using assms(1) cs by (auto simp: open_target_def split: prod.splits sum.splits)
  have "prefix (fs_eroot f) q" if "open_at h (write_flags ow) ?cs q" for q
    using forcreate_open_at [OF assms(2,3) _ that] assms(4) by (auto simp: write_flags_def)
  then show ?thesis
    using os_open_write_confined [OF r'(1) cs(2) fs_wf [OF assms(3)]] os_open_write_wf [OF r'(1) cs(2) fs_wf [OF assms(3)]]
      fs_root_dir [OF assms(3)] r'(2) by fastforce
qed

lemma fs_Write_confined:
  assumes "fs_Write h f u d ow = (h', e)" "fs_ok h f" "\<not> ow \<or> \<not> final_link h f u"
  shows "host_wf h' \<and> confined (fs_eroot f) h h'"
proof (cases "h' = h")
  case True
  then show ?thesis using fs_wf [OF assms(2)] by simp
next
  case False
  then obtain sp h1 r where sp: "ResolveForCreate h (lf_guard f) u = Inr sp"
    and op: "open_target h (sp_path sp) ow 0x180 = (h1, r)"
    and wr: "h' = h1 \<or> (\<exists>i k e'. r = Inr i \<and> fd_write h1 i d = (h', k, e'))"
    using assms(1)
    by (auto simp: fs_Write_def Let_def sp_String_def split: sum.splits if_splits prod.splits option.splits)
  note o = open_target_confined [OF op sp assms(2,3)]
  from wr show ?thesis
  proof
    assume "\<exists>i k e'. r = Inr i \<and> fd_write h1 i d = (h', k, e')"
    then obtain i k e' q where i: "r = Inr i" "fd_write h1 i d = (h', k, e')"
      "prefix (fs_eroot f) q" "lookup h1 q = Some (RegN i)" using o by blast
    then show ?thesis
      using o fd_write_wf [OF i(2)] fd_write_confined [OF i(2,3,4)] confined_trans by blast
  qed (use o in simp)
qed

lemma fs_Copy_confined:
  assumes "fs_Copy h f s u ow = (h', e)" "fs_ok h f" "\<not> ow \<or> \<not> final_link h f u"
  shows "host_wf h' \<and> confined (fs_eroot f) h h'"
proof (cases "h' = h")
  case True
  then show ?thesis using fs_wf [OF assms(2)] by simp
next
  case False
  then obtain sp pm h1 r si where sp: "ResolveForCreate h (lf_guard f) u = Inr sp"
    and op: "open_target h (sp_path sp) ow pm = (h1, r)"
    and wr: "h' = h1 \<or> (\<exists>i k e'. r = Inr i \<and> fd_write h1 i (content h1 si) = (h', k, e'))"
    using assms(1)
    by (auto simp: fs_Copy_def sp_String_def split: sum.splits if_splits prod.splits option.splits) blast
  note o = open_target_confined [OF op sp assms(2,3)]
  from wr show ?thesis
  proof
    assume "\<exists>i k e'. r = Inr i \<and> fd_write h1 i (content h1 si) = (h', k, e')"
    then obtain i k e' q where i: "r = Inr i" "fd_write h1 i (content h1 si) = (h', k, e')"
      "prefix (fs_eroot f) q" "lookup h1 q = Some (RegN i)" using o by blast
    then show ?thesis
      using o fd_write_wf [OF i(2)] fd_write_confined [OF i(2,3,4)] confined_trans by blast
  qed (use o in simp)
qed

lemma fs_Delete_confined:
  assumes "fs_Delete h f u rec = (h', e)" "fs_ok h f"
  shows "host_wf h' \<and> confined (fs_eroot f) h h'"
proof (cases "h' = h")
  case True
  then show ?thesis using fs_wf [OF assms(2)] by simp
next
  case False
  let ?cs = "fs_root f @ user_comps u"
  obtain sp where sp: "ResolveExisting h (lf_guard f) u = Inr sp"
    and rm: "os_remove h (sp_path sp) = (h', e) \<or> os_remove_all h (sp_path sp) = (h', e)"
    using assms(1) False
    by (auto simp: fs_Delete_def sp_String_def split: sum.splits if_splits option.splits)
  have cs: "sp_path sp = render True ?cs" "good_comps ?cs"
    "\<And>q. ?cs \<noteq> [] \<Longrightarrow> walk_parent h ?cs = Inr q \<Longrightarrow> prefix (fs_eroot f) q"
    using existing_parent_at [OF sp assms(2)] by auto
  note wf = fs_wf [OF assms(2)]
  from rm show ?thesis
  proof
    assume r: "os_remove h (sp_path sp) = (h', e)"
    note r = r [unfolded cs(1)]
    show ?thesis
      using os_remove_wf [OF r cs(2) wf] os_remove_confined [OF r cs(2,3)] by blast
  next
    assume r: "os_remove_all h (sp_path sp) = (h', e)"
    note r = r [unfolded cs(1)]
    show ?thesis
      using os_remove_all_wf [OF r cs(2) wf] os_remove_all_confined [OF r cs(2,3)] by blast
  qed
qed

text \<open>The renaming step of an undisturbed move.\<close>

lemma fs_Move_rename:
  assumes "fs_Move h f s u ow = (h', e)" "h' \<noteq> h"
  obtains sp tp where "ResolveExisting h (lf_guard f) s = Inr sp" "ResolveForCreate h (lf_guard f) u = Inr tp"
    "os_rename h (sp_path sp) (sp_path tp) = (h', e) \<or>
     (\<exists>e'. os_rename h (sp_path sp) (sp_path tp) = (h', Some e'))"
proof -
  obtain sp tp si ti where st: "ResolveExisting h (lf_guard f) s = Inr sp"
    "ResolveForCreate h (lf_guard f) u = Inr tp"
    "move_checked (\<lambda>h. h) h (sp_path sp) (sp_path tp) si ti ow = (h', e)"
    using assms
    by (auto simp: fs_Move_def Move_during_def sp_String_def split: sum.splits if_splits)
  then obtain sv where "renameOnSameVolume h (sp_path sp) (sp_path tp) sv = (h', e)"
    using assms(2) by (auto simp: move_checked_def split: sum.splits if_splits option.splits)
  then have "os_rename h (sp_path sp) (sp_path tp) = (h', e) \<or>
     (\<exists>e'. os_rename h (sp_path sp) (sp_path tp) = (h', Some e'))"
    using assms(2) by (auto simp: renameOnSameVolume_def split: if_splits prod.splits option.splits)
  then show thesis using st that by blast
qed

lemma fs_Move_confined:
  assumes "fs_Move h f s u ow = (h', e)" "fs_ok h f"
  shows "host_wf h' \<and> confined (fs_eroot f) h h'"
proof (cases "h' = h")
  case True
  then show ?thesis using fs_wf [OF assms(2)] by simp
next
  case False
  let ?cs = "fs_root f @ user_comps s" and ?ds = "fs_root f @ user_comps u"
  from fs_Move_rename [OF assms(1) False] obtain sp tp e' where
    sp: "ResolveExisting h (lf_guard f) s = Inr sp" and tp: "ResolveForCreate h (lf_guard f) u = Inr tp"
    and rn: "os_rename h (sp_path sp) (sp_path tp) = (h', e')" by metis
  have cs: "sp_path sp = render True ?cs" "good_comps ?cs"
    "\<And>q. ?cs \<noteq> [] \<Longrightarrow> walk_parent h ?cs = Inr q \<Longrightarrow> prefix (fs_eroot f) q"
    using existing_parent_at [OF sp assms(2)] by auto
  have ds: "sp_path tp = render True ?ds" "good_comps ?ds"
    "\<And>q. ?ds \<noteq> [] \<Longrightarrow> walk_parent h ?ds = Inr q \<Longrightarrow> prefix (fs_eroot f) q"
    using forcreate_parent [OF tp assms(2)] by auto
  obtain i where root: "lookup h (fs_eroot f) = Some (DirN i)" using fs_root_dir [OF assms(2)] by blast
  note rn = rn [unfolded cs(1) ds(1)]
  show ?thesis
    using os_rename_wf [OF rn cs(2) ds(2) fs_wf [OF assms(2)]]
      os_rename_confined [OF rn cs(2) ds(2) cs(3) ds(3) root] by blast
qed

text \<open>An accepted path starts at the physical root, and its proper prefixes are directories or missing.\<close>

lemma root_reached:
  assumes "walk h Follow kernel_links [] (path_comps (pg_root g) @ as) = Inr q" "good_comps as"
    "guard_ok h g" "host_wf h"
  shows "walk h Follow kernel_links [] (path_comps (pg_root g)) = Inr (eroot g)"
proof -
  obtain r where r: "walk h Follow kernel_links [] (path_comps (pg_root g)) = Inr r"
  proof (cases as)
    case (Cons c cs)
    obtain i0 where "lookup h [] = Some (DirN i0)" using wf_root [OF assms(4)] by blast
    then show thesis
      using walk_through_dir [OF assms(4,1), of "path_comps (pg_root g)" c cs] assms(2) Cons
        good_comp_plain that by auto
  qed (use assms(1) that in simp)
  then show ?thesis using walk_eval_unique [OF r guard_walk [OF assms(3)]] by simp
qed

lemma forcreate_root:
  assumes "ResolveForCreate h (lf_guard f) u = Inr sp" "fs_ok h f"
  shows "walk h Follow kernel_links [] (fs_root f) = Inr (fs_eroot f)"
  using assms(1) fs_guard [OF assms(2)] fs_wf [OF assms(2)] fs_nofollow [OF assms(2)]
proof (cases rule: ResolveForCreate_cases)
  case 1
  then show ?thesis
    by (intro root_reached [of h "lf_guard f" "user_comps u"])
      (use fs_guard [OF assms(2)] fs_wf [OF assms(2)] in \<open>auto simp: resolved_def reaches_def\<close>)
next
  case (2 as c rest)
  then show ?thesis
    by (intro root_reached [of h "lf_guard f" as])
      (use fs_guard [OF assms(2)] fs_wf [OF assms(2)] in \<open>auto simp: creatable_def reaches_def\<close>)
qed

lemma below_missing:
  assumes "host_wf h" "lookup h p = None"
  shows "lookup h (p @ zs) = None"
proof (rule ccontr)
  assume "lookup h (p @ zs) \<noteq> None"
  then show False using wf_prefix_dir [OF assms(1), of p zs] assms(2) by (cases zs) auto
qed

lemma forcreate_dirs:
  assumes "ResolveForCreate h (lf_guard f) u = Inr sp" "fs_ok h f"
    and "prefix ys (butlast (user_comps u))" "ys \<noteq> []" "lookup h (fs_eroot f @ ys) = Some n"
  shows "is_dirN n"
  using assms(1) fs_guard [OF assms(2)] fs_wf [OF assms(2)] fs_nofollow [OF assms(2)]
proof (cases rule: ResolveForCreate_cases)
  case 1
  have "prefix ys (user_comps u)" using assms(3) prefixeq_butlast prefix_order.trans by blast
  moreover have "ys \<noteq> user_comps u" 
  proof
    assume "ys = user_comps u"
    then show False using prefix_length_le [OF assms(3)] assms(4) by (cases "user_comps u" rule: rev_cases) auto
  qed
  moreover have "link_free h (fs_eroot f) (user_comps u)" using 1 by (simp add: resolved_def)
  ultimately show ?thesis using assms(5) unfolding link_free_def by fastforce
next
  case (2 as c rest)
  have lf: "link_free h (fs_eroot f) as" "\<exists>i. lookup h (fs_eroot f @ as) = Some (DirN i)"
    using 2(2) by (auto simp: creatable_def)
  show ?thesis
  proof (cases "prefix ys as")
    case True
    then show ?thesis using lf assms(5) unfolding link_free_def by (cases "ys = as") fastforce+
  next
    case False
    have "prefix ys (as @ butlast (c # rest))" using assms(3) 2(1) by (simp add: butlast_append)
    then obtain zs where zs: "ys = as @ zs" "prefix zs (butlast (c # rest))" "zs \<noteq> []"
      using False by (auto simp: prefix_append)
    then obtain zs' where "zs = c # zs'" "rest \<noteq> []" by (cases zs) (auto split: if_splits)
    moreover from this(2) have "lookup h (fs_eroot f @ as @ [c]) = None" using 2(2) by (simp add: creatable_def)
    ultimately have "lookup h (fs_eroot f @ ys) = None"
      using below_missing [OF fs_wf [OF assms(2)], of "fs_eroot f @ as @ [c]" zs'] zs(1) by simp
    then show ?thesis using assms(5) by simp
  qed
qed

text \<open>Directories are made below the nearest existing ancestor of the path.\<close>

lemma fs_Mkdir_confined:
  assumes "fs_Mkdir h f u = (h', r)" "fs_ok h f"
  shows "host_wf h' \<and> confined (fs_eroot f) h h'"
proof (cases "h' = h")
  case True
  then show ?thesis using fs_wf [OF assms(2)] by simp
next
  case False
  let ?rs = "fs_root f" and ?us = "user_comps u"
  note wf = fs_wf [OF assms(2)] and g = fs_guard [OF assms(2)]
  obtain sp where sp: "ResolveForCreate h (lf_guard f) u = Inr sp"
    using assms(1) False by (auto simp: fs_Mkdir_def split: sum.splits)
  have cs: "sp_path sp = render True (?rs @ ?us)" "good_comps (?rs @ ?us)"
    using forcreate_parent [OF sp assms(2)] by auto
  have ne: "?us \<noteq> []"
  proof
    assume "?us = []"
    then have "sp_path sp = pg_root (lf_guard f)" using cs(1) guard_clean(1) [OF g] by (simp add: clean_abs_def)
    then show False using assms(1) sp False by (simp add: fs_Mkdir_def sp_String_def pathsEquivalent_def Root_def)
  qed
  have dir: "sp_Dir sp = render True (?rs @ butlast ?us)"
    using cs ne by (simp add: sp_Dir_def Dir_render butlast_append)
  obtain i where rd: "lookup h (fs_eroot f) = Some (DirN i)" using fs_root_dir [OF assms(2)] by blast
  note base = forcreate_root [OF sp assms(2)] and dirs = forcreate_dirs [OF sp assms(2)]
  have gb: "good_comps (?rs @ butlast ?us)" using cs(2) by (auto simp: list_all_iff dest: in_set_butlastD)
  obtain h1 e1 where m: "mkdir_all_rev h (rev (?rs @ butlast ?us)) 0x1C0 = (h1, e1)" by fastforce
  have all: "os_mkdir_all h (sp_Dir sp) 0x1C0 = (h1, e1)" using m gb by (simp add: os_mkdir_all_def dir)
  have M: "host_wf h1 \<and> confined (fs_eroot f) h h1 \<and> extends h h1 \<and>
      (\<forall>p. lookup h1 p \<noteq> lookup h p \<longrightarrow> (\<exists>ys. prefix ys (butlast ?us) \<and> p = fs_eroot f @ ys)) \<and>
      (e1 = None \<longrightarrow> walk h1 Follow kernel_links [] (?rs @ butlast ?us) = Inr (fs_eroot f @ butlast ?us) \<and>
        (\<exists>j. lookup h1 (fs_eroot f @ butlast ?us) = Some (DirN j)))"
    using mkdir_all_below [OF wf base rd gb dirs m] .
  show ?thesis
  proof (cases e1)
    case (Some e)
    then have "h' = h1" using assms(1) sp all False by (auto simp: fs_Mkdir_def split: if_splits)
    then show ?thesis using M by simp
  next
    case None
    obtain h2 e2 where mk: "os_mkdir h1 (render True (?rs @ ?us)) 0x1C0 = (h2, e2)" by fastforce
    have "h' = h2"
      using assms(1) sp all None mk cs(1) False
      by (auto simp: fs_Mkdir_def sp_String_def split: if_splits option.splits sum.splits)
    moreover have "host_wf h2" using os_mkdir_wf [OF mk cs(2)] M by blast
    moreover have "confined (fs_eroot f) h1 h2"
    proof (rule os_mkdir_confined [OF mk cs(2)])
      show "host_wf h1" using M by blast
      show "lookup h1 (fs_eroot f) \<noteq> None" using M rd by (auto simp: extends_def)
      show "prefix (fs_eroot f) q" if "walk_parent h1 (?rs @ ?us) = Inr q" for q
        using that M None ne by (auto simp: walk_parent_def butlast_append split: option.splits node.splits)
    qed
    ultimately show ?thesis using M confined_trans by blast
  qed
qed

subsection \<open>What the operations return\<close>

lemma existing_node:
  assumes "ResolveExisting h (lf_guard f) u = Inr sp" "fs_ok h f"
  obtains n where "lookup h (fs_eroot f @ user_comps u) = Some n" "\<not> is_linkN n"
    "fault h SStat (sp_path sp) = None \<Longrightarrow> os_stat h (sp_path sp) = Inr (info_of h (Base (sp_path sp)) n)"
    "\<And>i. os_stat h (sp_path sp) = Inr i \<Longrightarrow> i = info_of h (Base (sp_path sp)) n"
proof -
  obtain cs n where cs: "sp_path sp = render True cs" "good_comps cs"
    "walk h Follow kernel_links [] cs = Inr (fs_eroot f @ user_comps u)"
    "lookup h (fs_eroot f @ user_comps u) = Some n" "\<not> is_linkN n"
    using existing_parent_at [OF assms] by blast
  have "os_stat h (sp_path sp) = (case fault h SStat (sp_path sp) of Some e \<Rightarrow> Inl (Errno e)
      | None \<Rightarrow> Inr (info_of h (Base (sp_path sp)) n))"
    using cs by (simp add: os_stat_def stat_at_def split: option.split)
  then show thesis
    by (intro that [OF cs(4,5)]) (auto split: option.splits)
qed

lemma fs_Read_Inr:
  assumes "fs_Read h f u mx = Inr d" "fs_ok h f"
  obtains i where "lookup h (fs_eroot f @ user_comps u) = Some (RegN i)" "d = content h i"
    "int (length d) \<le> mx" "0 < mx"
proof -
  obtain sp info where sp: "ResolveExisting h (lf_guard f) u = Inr sp"
    and st: "os_stat h (sp_path sp) = Inr info"
    and c: "\<not> fi_is_dir info" "0 < mx" "fi_size info \<le> mx" "os_read_file h (sp_path sp) = Inr d"
    using assms(1) by (auto simp: fs_Read_def sp_String_def split: sum.splits if_splits)
  obtain n where n: "lookup h (fs_eroot f @ user_comps u) = Some n" "\<not> is_linkN n"
    "info = info_of h (Base (sp_path sp)) n"
    using existing_node [OF sp assms(2)] st by metis
  then obtain i where i: "n = RegN i" using c(1) by (cases n) auto
  obtain cs where cs: "sp_path sp = render True cs" "good_comps cs"
    "walk h Follow kernel_links [] cs = Inr (fs_eroot f @ user_comps u)"
    using existing_parent_at [OF sp assms(2)] by blast
  have "d = content h i" using c(4) cs n i by (auto simp: os_read_file_def split: option.splits)
  then show thesis using that n i c by simp
qed

text \<open>A host whose calls fail only for reasons the entry table explains.\<close>

definition quiet :: "host \<Rightarrow> bool" where
  "quiet h \<longleftrightarrow> (\<forall>op p. fault h op p = None) \<and> (\<forall>i d. write_fault h i d = None)"

lemma link_free_walk:
  assumes "walk h Follow k [] base = Inr r" "link_free h r bs" "good_comps bs" "bs \<noteq> []"
  shows "walk h m k [] (base @ bs) = Inr (r @ bs)"
  using assms(2-)
proof (induction bs arbitrary: m rule: rev_induct)
  case (snoc c bs)
  have lf: "link_free h r bs" using link_free_take [OF snoc.prems(1)] .
  have "prefix bs (bs @ [c])" "bs \<noteq> bs @ [c]" by simp_all
  then obtain n where n: "lookup h (r @ bs) = Some n" "is_dirN n"
    using snoc.prems(1) unfolding link_free_def by blast
  then obtain i where i: "lookup h (r @ bs) = Some (DirN i)" by (cases n) auto
  have "walk h Follow k [] (base @ bs) = Inr (r @ bs)"
    using snoc.IH [OF lf] snoc.prems(2) assms(1) by (cases "bs = []") auto
  from walk_split [OF this refl i] obtain k' where
    k': "walk h m k [] ((base @ bs) @ [c]) = walk h m k' (r @ bs) [c]" by blast
  obtain n' where "lookup h (r @ bs @ [c]) = Some n'" "\<not> is_linkN n'"
    using link_free_exists [OF snoc.prems(1)] by auto
  then show ?case using k' snoc.prems(2) by (cases n') (simp_all add: walk_last)
qed simp

text \<open>Without faults, the directories of a path pass the policy.\<close>

lemma link_free_validated:
  assumes "quiet h" "clean_abs (pg_root g)" "walk h Follow kernel_links [] (path_comps (pg_root g)) = Inr (eroot g)"
    "good_comps bs" "\<not> AllowHiddenFiles (pg_policy g) \<Longrightarrow> \<not> list_ex isHiddenName bs" "link_free h (eroot g) bs"
  shows "validate_components h (pg_policy g) (pg_root g) bs = None"
proof -
  let ?rs = "path_comps (pg_root g)"
  have good: "good_comps ?rs" using assms(2) by (simp add: clean_abs_good)
  have "validatePathMetadata h (render True (?rs @ as)) (pg_policy g) = None" if as: "as \<noteq> []" "prefix as bs" for as
  proof -
    obtain zs where zs: "bs = as @ zs" using as(2) unfolding prefix_def by blast
    have l: "link_free h (eroot g) as" using link_free_take [of h "eroot g" as zs] assms(6) zs by simp
    have ga: "good_comps as" using assms(4) zs by simp
    obtain n where "lookup h (eroot g @ as) = Some n" "\<not> is_linkN n" using link_free_exists [OF l] by blast
    then show ?thesis
      using link_free_walk [OF assms(3) l ga as(1), of NoFollow] assms(1) good ga
      by (simp add: validatePathMetadata_def os_lstat_def stat_at_def quiet_def)
  qed
  then show ?thesis
    using validate_components_None [OF good assms(4), of h "pg_policy g"] assms(2,5) by (simp add: clean_abs_def)
qed

lemma ResolveExisting_complete:
  assumes q: "quiet h" and g: "clean_abs (pg_root g)" "clean_abs (pg_effectiveRoot g)"
    and root: "walk h Follow kernel_links [] (path_comps (pg_root g)) = Inr (eroot g)"
    and lex: "resolveLexical h0 g u = Inr p" and lf: "link_free h (eroot g) (user_comps u)"
    and ne: "user_comps u \<noteq> []"
  shows "ResolveExisting h g u = Inr \<lparr>sp_path = p\<rparr>"
proof -
  let ?rs = "path_comps (pg_root g)" and ?us = "user_comps u"
  from resolveLexical_InrE [OF lex g(1)] have p: "p = render True (?rs @ ?us)" and us: "good_comps ?us"
    and hid: "\<not> AllowHiddenFiles (pg_policy g) \<Longrightarrow> \<not> list_ex isHiddenName ?us" by metis+
  have lex': "resolveLexical h g u = Inr p" using lex unfolding resolveLexical_eq [OF g(1)] .
  have good: "good_comps ?rs" "good_comps (eroot g)" using g by (simp_all add: clean_abs_good eroot_def)
  have "validate_components h (pg_policy g) (pg_root g) ?us = None"
    by (rule link_free_validated [OF q g(1) root us hid lf])
  then have val: "validateExistingPathPolicy h g p = None"
    using validateExistingPathPolicy_eq [OF g(1) us, of h] ne p by simp
  have "walk h Follow eval_links [] (?rs @ ?us) = Inr (eroot g @ ?us)"
    using walk_more_links [OF link_free_walk [OF root lf us ne, of Follow] _ kernel_le_eval] by simp
  then have ev: "evalEffectivePath h p = Inr (render True (eroot g @ ?us))"
    using q good us by (simp add: evalEffectivePath_def eval_symlinks_def quiet_def p)
  have "isInsideRoot (pg_effectiveRoot g) (render True (eroot g @ ?us))"
    using good us g(2) by (simp add: isInsideRoot_iff clean_abs_rooted eroot_def)
  then show ?thesis by (simp add: ResolveExisting_def lex' val ev)
qed

lemma link_free_extends: "link_free h r bs \<Longrightarrow> extends h h' \<Longrightarrow> link_free h' r bs"
  unfolding link_free_def extends_def by blast

lemma ResolveForCreate_lex: "ResolveForCreate h g u = Inr sp \<Longrightarrow> resolveLexical h g u = Inr (sp_path sp)"
  by (auto simp: ResolveForCreate_def split: sum.splits option.splits if_splits)

text \<open>An open for writing leaves the path pointing to the open file.\<close>

lemma open_target_Inr:
  assumes "open_target h (sp_path sp) ow pm = (h', Inr i)" "ResolveForCreate h (lf_guard f) u = Inr sp"
    "fs_ok h f" "\<not> ow \<or> \<not> final_link h f u"
  shows "lookup h' (fs_eroot f @ user_comps u) = Some (RegN i) \<and> link_free h' (fs_eroot f) (user_comps u) \<and>
    extends h h' \<and> content h' = (content h)(i := []) \<and> fault h' = fault h \<and> write_fault h' = write_fault h \<and>
    (if i < fresh h then ow \<and> lookup h (fs_eroot f @ user_comps u) = Some (RegN i)
     else i = fresh h \<and> lookup h (fs_eroot f @ user_comps u) = None)"
proof -
  let ?us = "user_comps u" and ?cs = "fs_root f @ user_comps u"
  note wf = fs_wf [OF assms(3)] and g = fs_guard [OF assms(3)]
  have cs: "sp_path sp = render True ?cs" "good_comps ?cs" using forcreate_parent [OF assms(2,3)] by auto
  have op: "os_open_write h (render True ?cs) (write_flags ow) pm = (h', Inr i)"
    using assms(1) cs by (auto simp: open_target_def split: prod.splits sum.splits)
  have at: "q = fs_eroot f @ ?us" if "open_at h (write_flags ow) ?cs q" for q
    using forcreate_open_at [OF assms(2,3) _ that] assms(4) by (auto simp: write_flags_def)
  show ?thesis
    using op cs(2) wf
  proof (cases rule: os_open_write_cases)
    case (created q)
    have q: "q = fs_eroot f @ ?us" by (rule at [OF created(1)])
    have none: "lookup h q = None" using created(2) by (simp add: vacant_def)
    have ext: "extends h h'" using extends_new(2) [OF none] created(3) by simp
    have new: "lookup h' q = Some (RegN i)" using created by (simp add: lookup_new_file)
    have "link_free h' (fs_eroot f) ?us"
      using assms(2) g wf fs_nofollow [OF assms(3)]
    proof (cases rule: ResolveForCreate_cases)
      case 1
      then show ?thesis using link_free_extends ext by (auto simp: resolved_def)
    next
      case (2 as c rest)
      obtain j where j: "lookup h (fs_eroot f @ as) = Some (DirN j)" and lf: "link_free h (fs_eroot f) as"
        using 2(2) by (auto simp: creatable_def)
      obtain k where "lookup h (butlast q) = Some (DirN k)" using created(2) by (auto simp: vacant_def)
      then have "lookup h (fs_eroot f @ as @ butlast (c # rest)) = Some (DirN k)"
        using q 2(1) by (simp add: butlast_append)
      moreover have "lookup h (fs_eroot f @ as @ [c]) = None" if "rest \<noteq> []"
        using 2(2) that by (simp add: creatable_def)
      ultimately have "rest = []"
        using below_missing [OF wf, of "fs_eroot f @ as @ [c]" "butlast rest"] by (cases "rest = []") auto
      then show ?thesis
        using link_free_snoc [OF link_free_extends [OF lf ext], of j c "RegN i"] j ext new q 2(1)
        by (simp add: extends_def)
    qed
    then show ?thesis using created q none ext new
      by (auto simp: new_file_def add_entry_def new_inode_def)
  next
    case (opened q j)
    have q: "q = fs_eroot f @ ?us" by (rule at [OF opened(1)])
    have ij: "i = j" "ow" "h' = h\<lparr>content := (content h)(i := [])\<rparr>"
      using opened by (auto simp: write_flags_def)
    have lf: "link_free h (fs_eroot f) ?us"
      using assms(2) g wf fs_nofollow [OF assms(3)]
    proof (cases rule: ResolveForCreate_cases)
      case 1
      then show ?thesis by (simp add: resolved_def)
    next
      case (2 as c rest)
      have "lookup h (fs_eroot f @ as @ c # rest) = Some (RegN j)" using q opened(3) 2(1) by simp
      moreover have "lookup h (fs_eroot f @ as @ [c]) = None \<or> rest = [] \<and>
          (\<exists>i t. lookup h (fs_eroot f @ as @ [c]) = Some (LinkN i t))"
        using 2(2) by (auto simp: creatable_def)
      ultimately show ?thesis
        using below_missing [OF wf, of "fs_eroot f @ as @ [c]" rest] by auto
    qed
    have "j < fresh h" using wf_fresh [OF wf opened(3)] by simp
    moreover have "extends h h'" by (simp add: extends_def ij(3))
    ultimately show ?thesis using ij opened(3) q lf by (simp add: link_free_def)
  qed simp
qed

lemma fs_Write_Inr:
  assumes "fs_Write h f u d ow = (h', None)" "fs_ok h f" "\<not> ow \<or> \<not> final_link h f u"
  obtains i where "lookup h' (fs_eroot f @ user_comps u) = Some (RegN i)" "content h' = (content h)(i := d)"
    "link_free h' (fs_eroot f) (user_comps u)" "extends h h'" "fault h' = fault h" "write_fault h' = write_fault h"
    "walk h' Follow kernel_links [] (fs_root f) = Inr (fs_eroot f)" "user_comps u \<noteq> []"
    "\<not> ow \<Longrightarrow> lookup h (fs_eroot f @ user_comps u) = None" "int (length d) \<le> MaxWriteBytes (lf_limits f)"
proof -
  obtain sp h1 i k where sp: "ResolveForCreate h (lf_guard f) u = Inr sp"
    and op: "open_target h (sp_path sp) ow 0x180 = (h1, Inr i)" and wr: "fd_write h1 i d = (h', k, None)"
    and len: "int (length d) \<le> MaxWriteBytes (lf_limits f)"
    using assms(1)
    by (auto simp: fs_Write_def Let_def sp_String_def split: sum.splits if_splits prod.splits option.splits)
  note o = open_target_Inr [OF op sp assms(2,3)]
  have h': "h' = h1\<lparr>content := (content h1)(i := d)\<rparr>"
    using wr o by (auto simp: fd_write_def Let_def split: option.splits)
  have ext: "extends h h'" using o by (simp add: h' extends_def)
  have "user_comps u \<noteq> []"
  proof
    assume "user_comps u = []"
    then have "lookup h1 (fs_eroot f) = Some (RegN i)" using o by simp
    moreover obtain j where "lookup h (fs_eroot f) = Some (DirN j)" using fs_root_dir [OF assms(2)] by blast
    ultimately show False using o by (simp add: extends_def)
  qed
  moreover have "walk h' Follow kernel_links [] (fs_root f) = Inr (fs_eroot f)"
    by (rule walk_extends [OF forcreate_root [OF sp assms(2)] _ ext]) simp
  moreover have "link_free h' (fs_eroot f) (user_comps u)" using o by (simp add: h' link_free_def)
  ultimately show thesis
    using that [of i] o ext len by (auto simp: h' split: if_splits)
qed

end
