(* ===== verification/FsResults.thy ===== *)
theory FsResults
  imports FsFacts
begin

text \<open>
  The effect of the changing operations when they succeed (which entries exist afterwards
  and with what content), the exact listing of a directory, and what a move does when
  another process changes the host during its validation.
\<close>

subsection \<open>Delete\<close>

lemma fs_Delete_None:
  assumes "fs_Delete h f u rec = (h', None)" "fs_ok h f"
  shows "h' = del_tree h (fs_eroot f @ user_comps u) \<and> fs_root f @ user_comps u \<noteq> []"
proof -
  let ?cs = "fs_root f @ user_comps u"
  obtain sp where sp: "ResolveExisting h (lf_guard f) u = Inr sp"
    and rm: "os_remove h (sp_path sp) = (h', None) \<or> os_remove_all h (sp_path sp) = (h', None)"
    using assms(1)
    by (auto simp: fs_Delete_def sp_String_def split: sum.splits if_splits option.splits)
  have cs: "sp_path sp = render True ?cs" "good_comps ?cs"
    "?cs \<noteq> [] \<longrightarrow> walk_parent h ?cs = Inr (fs_eroot f @ user_comps u)"
    using existing_parent_at [OF sp assms(2)] by auto
  from rm show ?thesis
  proof
    assume r: "os_remove h (sp_path sp) = (h', None)"
    show ?thesis using r [unfolded cs(1)] cs(2) by (cases rule: os_remove_cases) (use cs(3) in auto)
  next
    assume "os_remove_all h (sp_path sp) = (h', None)"
    then show ?thesis using cs by (auto simp: os_remove_all_def split: option.splits if_splits)
  qed
qed

lemma count_walk_None:
  "count_walk mx n qs = None \<longleftrightarrow> filter (\<lambda>q. q \<noteq> []) qs = [] \<or> n + int (length (filter (\<lambda>q. q \<noteq> []) qs)) \<le> mx"
proof (induction qs arbitrary: n)
  case (Cons q qs)
  show ?case
    by (cases "q = []"; cases "filter (\<lambda>q. q \<noteq> []) qs = []") (auto simp: Cons.IH)
qed simp

lemma count_walk_error: "count_walk mx n qs = Some e \<Longrightarrow> e = ErrLimitExceeded"
  by (induction mx n qs rule: count_walk.induct) (auto split: if_splits)

text \<open>The entries a recursive delete counts.\<close>

definition below_count :: "host \<Rightarrow> string list \<Rightarrow> nat" where
  "below_count h q = length (filter (\<lambda>(k, n). strict_prefix q k) (entries h))"

lemma os_walk_dir_count:
  assumes "os_walk_dir h (render True cs) = Inr qs" "good_comps cs"
    "walk h NoFollow kernel_links [] cs = Inr q" "lookup h q = Some (DirN i)"
  shows "length (filter (\<lambda>q. q \<noteq> []) qs) = below_count h q"
proof -
  let ?es = "filter (\<lambda>(k, n). strict_prefix q k) (entries h)"
  have qs: "qs = [] # map (\<lambda>(k, n). drop (length q) k) (sort_key fst ?es)"
    using assms by (simp add: os_walk_dir_def split: option.splits)
  have "drop (length q) k \<noteq> []" if "(k, n) \<in> set ?es" for k n
    using that by (auto simp: strict_prefix_def prefix_def)
  then have "\<forall>x \<in> set (map (\<lambda>(k, n). drop (length q) k) (sort_key fst ?es)). x \<noteq> []" by auto
  then have "filter (\<lambda>q. q \<noteq> []) qs = map (\<lambda>(k, n). drop (length q) k) (sort_key fst ?es)"
    unfolding qs by (simp add: filter_id_conv)
  then show ?thesis by (simp add: below_count_def)
qed

lemma fs_Delete_limit:
  assumes "fs_Delete h f u True = (h', None)" "fs_ok h f" "0 \<le> MaxDeleteEntries (lf_limits f)"
    "lookup h (fs_eroot f @ user_comps u) = Some (DirN i)"
  shows "int (below_count h (fs_eroot f @ user_comps u)) \<le> MaxDeleteEntries (lf_limits f)"
proof -
  obtain sp info where sp: "ResolveExisting h (lf_guard f) u = Inr sp"
    and st: "os_stat h (sp_path sp) = Inr info"
    and c: "fi_is_dir info \<longrightarrow> ensureRecursiveDeleteWithinLimit h f (sp_path sp) = None"
    using assms(1)
    by (auto simp: fs_Delete_def sp_String_def split: sum.splits if_splits option.splits)
  obtain cs where cs: "sp_path sp = render True cs" "good_comps cs"
    "walk h NoFollow kernel_links [] cs = Inr (fs_eroot f @ user_comps u)"
    using existing_parent_at [OF sp assms(2)] by blast
  have "fi_is_dir info"
    using existing_node [OF sp assms(2)] st assms(4) by (metis info_of_simps(6) is_dirN.simps(1) option.inject)
  then obtain qs where qs: "os_walk_dir h (sp_path sp) = Inr qs"
    "count_walk (MaxDeleteEntries (lf_limits f)) 0 qs = None"
    using c by (auto simp: ensureRecursiveDeleteWithinLimit_def split: sum.splits)
  have "length (filter (\<lambda>q. q \<noteq> []) qs) = below_count h (fs_eroot f @ user_comps u)"
    using os_walk_dir_count [OF _ cs(2,3) assms(4)] qs(1) cs(1) by simp
  then show ?thesis using qs(2) assms(3) unfolding count_walk_None by auto
qed

text \<open>Without \<open>recursive\<close>, a directory is deleted only when it is empty.\<close>

lemma fs_Delete_nonrecursive:
  assumes "fs_Delete h f u False = (h', None)" "fs_ok h f"
    "lookup h (fs_eroot f @ user_comps u) = Some (DirN i)"
  shows "lookup h (fs_eroot f @ user_comps u @ [c]) = None"
proof -
  obtain sp info where sp: "ResolveExisting h (lf_guard f) u = Inr sp"
    and st: "os_stat h (sp_path sp) = Inr info"
    and rm: "os_remove h (sp_path sp) = (h', None)"
    using assms(1)
    by (auto simp: fs_Delete_def sp_String_def split: sum.splits if_splits option.splits)
  let ?cs = "fs_root f @ user_comps u"
  have cs: "sp_path sp = render True ?cs" "good_comps ?cs"
    "?cs \<noteq> [] \<longrightarrow> walk_parent h ?cs = Inr (fs_eroot f @ user_comps u)"
    using existing_parent_at [OF sp assms(2)] by auto
  have "children h (fs_eroot f @ user_comps u) = []"
    using rm [unfolded cs(1)] cs(2) by (cases rule: os_remove_cases) (use cs(3) assms(3) in auto)
  then show ?thesis using children_Nil_iff [OF fs_wf [OF assms(2)]] by simp
qed

subsection \<open>Copy\<close>

lemma fs_Copy_Inr:
  assumes "fs_Copy h f s u ow = (h', None)" "fs_ok h f" "\<not> ow \<or> \<not> final_link h f u"
  obtains si ti where "lookup h (fs_eroot f @ user_comps s) = Some (RegN si)"
    "lookup h' (fs_eroot f @ user_comps u) = Some (RegN ti)"
    "content h' ti = (if ti = si then [] else content h si)" "\<And>j. j \<noteq> ti \<Longrightarrow> content h' j = content h j"
    "\<not> ow \<Longrightarrow> lookup h (fs_eroot f @ user_comps u) = None"
    "ti < fresh h \<Longrightarrow> lookup h (fs_eroot f @ user_comps u) = Some (RegN ti)"
    "extends h h'" "int (length (content h si)) \<le> MaxCopyBytes (lf_limits f)"
proof -
  have "\<exists>sp sp' info si pm h1 ti k. ResolveExisting h (lf_guard f) s = Inr sp' \<and>
    ResolveForCreate h (lf_guard f) u = Inr sp \<and> os_stat h (sp_path sp') = Inr info \<and>
    fi_size info \<le> MaxCopyBytes (lf_limits f) \<and>
    os_open_read h (sp_path sp') = Inr si \<and> open_target h (sp_path sp) ow pm = (h1, Inr ti) \<and>
    fd_write h1 ti (content h1 si) = (h', k, None)"
    using assms(1)
    by (auto simp: fs_Copy_def sp_String_def split: sum.splits if_splits prod.splits option.splits)
  then obtain sp sp' info si pm h1 ti k where sp': "ResolveExisting h (lf_guard f) s = Inr sp'"
    and sp: "ResolveForCreate h (lf_guard f) u = Inr sp" and st: "os_stat h (sp_path sp') = Inr info"
    "fi_size info \<le> MaxCopyBytes (lf_limits f)"
    and rd: "os_open_read h (sp_path sp') = Inr si" and op: "open_target h (sp_path sp) ow pm = (h1, Inr ti)"
    and wr: "fd_write h1 ti (content h1 si) = (h', k, None)" by blast
  note o = open_target_Inr [OF op sp assms(2,3)]
  obtain cs n where cs: "sp_path sp' = render True cs" "good_comps cs"
    "walk h Follow kernel_links [] cs = Inr (fs_eroot f @ user_comps s)"
    "lookup h (fs_eroot f @ user_comps s) = Some n" "\<not> is_linkN n"
    using existing_parent_at [OF sp' assms(2)] by blast
  have src: "lookup h (fs_eroot f @ user_comps s) = Some (RegN si)"
    using rd cs by (auto simp: os_open_read_def split: option.splits node.splits)
  have "fi_size info = int (length (content h si))"
    using existing_node [OF sp' assms(2)] st(1) src by (metis info_of_simps(3) node_size.simps(1) option.inject)
  moreover have h': "h' = h1\<lparr>content := (content h1)(ti := content h1 si)\<rparr>"
    using wr o by (auto simp: fd_write_def Let_def split: option.splits)
  moreover have "extends h h'" using o by (simp add: h' extends_def)
  ultimately show thesis
    using that [of si ti] src o st(2) by (auto split: if_splits)
qed

subsection \<open>Mkdir\<close>

lemma fs_Mkdir_Inr:
  assumes "fs_Mkdir h f u = (h', Inr b)" "fs_ok h f"
  shows "(\<exists>i. lookup h' (fs_eroot f @ user_comps u) = Some (DirN i)) \<and> extends h h' \<and>
    b = (lookup h (fs_eroot f @ user_comps u) = None)"
proof -
  let ?rs = "fs_root f" and ?us = "user_comps u"
  note wf = fs_wf [OF assms(2)] and g = fs_guard [OF assms(2)]
  obtain sp where sp: "ResolveForCreate h (lf_guard f) u = Inr sp"
    using assms(1) by (auto simp: fs_Mkdir_def split: sum.splits)
  have cs: "sp_path sp = render True (?rs @ ?us)" "good_comps (?rs @ ?us)"
    using forcreate_parent [OF sp assms(2)] by auto
  have gr: "good_comps ?rs" "clean_abs (pg_root (lf_guard f))" using g guard_good(1) guard_clean(1) by auto
  obtain i where rd: "lookup h (fs_eroot f) = Some (DirN i)" using fs_root_dir [OF assms(2)] by blast
  have eq: "pathsEquivalent (sp_path sp) (pg_root (lf_guard f)) \<longleftrightarrow> ?us = []"
    using cs gr by (simp add: pathsEquivalent_def clean_abs_Clean_id clean_abs_eq_iff)
  show ?thesis
  proof (cases "?us = []")
    case True
    then have "h' = h \<and> b = False"
      using assms(1) sp eq by (simp add: fs_Mkdir_def sp_String_def Root_def)
    then show ?thesis using True rd by simp
  next
    case False
    have dir: "sp_Dir sp = render True (?rs @ butlast ?us)"
      using cs False by (simp add: sp_Dir_def Dir_render butlast_append)
    have gb: "good_comps (?rs @ butlast ?us)" using cs(2) by (auto simp: list_all_iff dest: in_set_butlastD)
    have lc: "?us = butlast ?us @ [last ?us]" "good_comp (last ?us)" using cs(2) False by (auto simp: list_all_iff)
    obtain h1 e1 where m: "mkdir_all_rev h (rev (?rs @ butlast ?us)) 0x1C0 = (h1, e1)" by fastforce
    have all: "os_mkdir_all h (sp_Dir sp) 0x1C0 = (h1, e1)" using m gb by (simp add: os_mkdir_all_def dir)
    have e1: "e1 = None" using assms(1) sp all eq False
      by (cases e1) (auto simp: fs_Mkdir_def sp_String_def Root_def)
    have all1: "host_wf h1 \<and> confined (fs_eroot f) h h1 \<and> extends h h1 \<and>
      (\<forall>p. lookup h1 p \<noteq> lookup h p \<longrightarrow> (\<exists>ys. prefix ys (butlast ?us) \<and> p = fs_eroot f @ ys)) \<and>
      (e1 = None \<longrightarrow> walk h1 Follow kernel_links [] (?rs @ butlast ?us) = Inr (fs_eroot f @ butlast ?us) \<and>
        (\<exists>j. lookup h1 (fs_eroot f @ butlast ?us) = Some (DirN j)))"
      using mkdir_all_below [OF wf forcreate_root [OF sp assms(2)] rd gb forcreate_dirs [OF sp assms(2)] m] .
    have M: "host_wf h1" "extends h h1" "confined (fs_eroot f) h h1"
      "walk h1 Follow kernel_links [] (?rs @ butlast ?us) = Inr (fs_eroot f @ butlast ?us)"
      "\<exists>j. lookup h1 (fs_eroot f @ butlast ?us) = Some (DirN j)"
      using all1 e1 by auto
    have wp: "walk_parent h1 (?rs @ ?us) = Inr (fs_eroot f @ ?us)"
      using M(4,5) False by (auto simp: walk_parent_def butlast_append)
    obtain h2 e2 where mk: "os_mkdir h1 (render True (?rs @ ?us)) 0x1C0 = (h2, e2)" by fastforce
    have h': "h' = h2" "b = (e2 = None)"
      "e2 \<noteq> None \<longrightarrow> (\<exists>info. os_stat h2 (render True (?rs @ ?us)) = Inr info \<and> fi_is_dir info)"
      using assms(1) sp all e1 mk cs(1) eq False
      by (auto simp: fs_Mkdir_def sp_String_def Root_def split: if_splits option.splits sum.splits)
    have "\<not> prefix ?us (butlast ?us)"
      using prefix_length_le [of ?us "butlast ?us"] False by (cases ?us rule: rev_cases) auto
    then have same: "lookup h1 (fs_eroot f @ ?us) = lookup h (fs_eroot f @ ?us)"
      using all1 by fastforce
    show ?thesis
      using mk cs(2) M(1)
    proof (cases rule: os_mkdir_cases)
      case (created q)
      then show ?thesis using wp h' same M(2) extends_trans [OF M(2) extends_new(1)]
        by (auto simp: vacant_def lookup_new_dir)
    next
      case (failed e)
      then obtain info where info: "os_stat h1 (render True (?rs @ ?us)) = Inr info" "fi_is_dir info"
        using h'(3) by auto
      obtain q n where q: "walk h1 Follow kernel_links [] (?rs @ ?us) = Inr q" "lookup h1 q = Some n"
        "info = info_of h1 (Base (render True (?rs @ ?us))) n"
        using os_stat_Inr [OF info(1) cs(2)] by blast
      have notlink: "\<not> is_linkN l" if l: "lookup h (fs_eroot f @ ?us) = Some l" for l
        using sp g wf fs_nofollow [OF assms(2)]
      proof (cases rule: ResolveForCreate_cases)
        case 1
        then show ?thesis using link_free_exists l by (fastforce simp: resolved_def)
      next
        case (2 as c rest)
        have "walk h Follow kernel_links [] (?rs @ as) = Inr (fs_eroot f @ as)"
          using 2(2) by (simp add: creatable_def reaches_def)
        then have "h1 = h" if "rest = []"
          using mkdir_all_existing [OF wf gb, of "fs_eroot f @ as" "0x1C0"] m 2(1) that by auto
        moreover have "walk h Follow eval_links [] (?rs @ ?us) = Inr q" if "h1 = h"
          using q(1) that walk_more_links [OF _ _ kernel_le_eval] by blast
        ultimately show ?thesis
          using 2 l below_missing [OF wf, of "fs_eroot f @ as @ [c]" rest] by (auto simp: creatable_def)
      qed
      obtain r where r: "walk_parent h1 (?rs @ ?us) = Inr r" "lookup h1 r \<noteq> None"
        using walk_parent_exists [OF M(1), of "?rs @ butlast ?us" "last ?us" q] q(1) lc by auto
      then obtain l where l: "lookup h1 (fs_eroot f @ ?us) = Some l" "lookup h (fs_eroot f @ ?us) = Some l"
        using wp same by auto
      obtain j where j: "lookup h1 (fs_eroot f @ butlast ?us) = Some (DirN j)" using M(5) by blast
      obtain k' where "walk h1 Follow kernel_links [] ((?rs @ butlast ?us) @ [last ?us]) =
          walk h1 Follow k' (fs_eroot f @ butlast ?us) [last ?us]"
        using walk_split [OF M(4) refl j] by blast
      then have "q = fs_eroot f @ ?us"
        using q(1) l notlink [OF l(2)] lc by (cases l) (auto simp: walk_last)
      then have "is_dirN l" using q l info(2) by simp
      then show ?thesis using l failed h' M(2) by (cases l) auto
    qed
  qed
qed

subsection \<open>Move\<close>

lemma revalidate_ok:
  assumes "revalidateMoveState h s t es et = None"
  shows "\<exists>cs. os_stat h s = Inr cs \<and> SameFile es cs \<and> fi_is_dir es = fi_is_dir cs"
    and "et = None \<Longrightarrow> os_stat h t = Inl (Errno ENOENT)"
    and "et = Some ti \<Longrightarrow> \<exists>ct. os_stat h t = Inr ct \<and> SameFile ti ct \<and> fi_is_dir ti = fi_is_dir ct"
  using assms by (auto simp: revalidateMoveState_def is_not_exist_def split: sum.splits if_splits option.splits)

lemma revalidate_error:
  assumes "os_stat h t = Inr ct" "et = None"
  shows "revalidateMoveState h s t es et \<noteq> None"
  using assms by (auto simp: revalidateMoveState_def split: sum.splits)

lemma os_stat_fault_free:
  "os_stat h (render True cs) = Inl (Errno ENOENT) \<Longrightarrow> good_comps cs \<Longrightarrow> host_wf h \<Longrightarrow>
    walk h Follow kernel_links [] cs = Inr q \<Longrightarrow> lookup h q = None"
  using wf_fault [of h SStat "render True cs" ENOENT]
  by (auto simp: os_stat_def stat_at_def unforeseen_def split: option.splits)

text \<open>The checks of a move that got as far as the rename; \<open>ti\<close> is what it saw at the target.\<close>

definition seen :: "host \<Rightarrow> string \<Rightarrow> finfo option \<Rightarrow> bool" where
  "seen h t ti \<longleftrightarrow> (case ti of None \<Rightarrow> os_stat h t = Inl (Errno ENOENT) | Some i \<Rightarrow> os_stat h t = Inr i)"

lemma Move_during_checked:
  assumes "Move_during env h f s u ow = (h', None)"
  obtains sp tp si ti where "ResolveExisting h (lf_guard f) s = Inr sp" "ResolveForCreate h (lf_guard f) u = Inr tp"
    "\<not> pathsEquivalent (sp_path sp) (sp_path tp)" "os_stat h (sp_path sp) = Inr si"
    "seen h (sp_path tp) ti" "\<And>i. ti = Some i \<Longrightarrow> \<not> SameFile si i"
    "move_checked env h (sp_path sp) (sp_path tp) si ti ow = (h', None)"
proof -
  obtain sp where sp: "ResolveExisting h (lf_guard f) s = Inr sp"
    using assms by (auto simp: Move_during_def split: sum.splits)
  obtain tp where tp: "ResolveForCreate h (lf_guard f) u = Inr tp"
    using assms by (auto simp: Move_during_def sp split: sum.splits)
  have ne: "\<not> pathsEquivalent (sp_path sp) (sp_path tp)"
    using assms by (auto simp: Move_during_def sp tp sp_String_def)
  obtain si where si: "os_stat h (sp_path sp) = Inr si"
    using assms ne by (auto simp: Move_during_def sp tp sp_String_def split: sum.splits)
  show thesis
  proof (cases "os_stat h (sp_path tp)")
    case (Inl e)
    then have "e = Errno ENOENT" "move_checked env h (sp_path sp) (sp_path tp) si None ow = (h', None)"
      using assms ne by (auto simp: Move_during_def sp tp si sp_String_def is_not_exist_def split: if_splits)
    then show thesis using that [OF sp tp ne si, of None] Inl by (simp add: seen_def)
  next
    case (Inr i)
    then have "\<not> SameFile si i" "move_checked env h (sp_path sp) (sp_path tp) si (Some i) ow = (h', None)"
      using assms ne by (auto simp: Move_during_def sp tp si sp_String_def split: if_splits)
    then show thesis using that [OF sp tp ne si, of "Some i"] Inr by (simp add: seen_def)
  qed
qed

lemma move_checked_None:
  assumes "move_checked env h s t si ti ow = (h', None)"
  shows "os_rename (env h) s t = (h', None)" "revalidateMoveState (env h) s t si ti = None"
    "ti = Some i \<Longrightarrow> ow \<and> \<not> fi_is_dir si \<and> \<not> fi_is_dir i"
  using assms
  by (auto simp: move_checked_def renameOnSameVolume_def split: sum.splits if_splits option.splits prod.splits)

lemma fs_Move_moves:
  assumes "fs_Move h f s u ow = (h', None)" "fs_ok h f"
  shows "h' = move_tree h (fs_eroot f @ user_comps s) (fs_eroot f @ user_comps u) \<and>
    \<not> prefix (fs_eroot f @ user_comps s) (fs_eroot f @ user_comps u) \<and>
    (\<exists>n. lookup h (fs_eroot f @ user_comps s) = Some n \<and> \<not> is_linkN n) \<and>
    (lookup h (fs_eroot f @ user_comps u) = None \<or> final_link h f u \<or>
      ow \<and> (\<exists>i. lookup h (fs_eroot f @ user_comps u) = Some (RegN i)))"
proof -
  let ?S = "fs_eroot f @ user_comps s" and ?T = "fs_eroot f @ user_comps u"
  let ?cs = "fs_root f @ user_comps s" and ?ds = "fs_root f @ user_comps u"
  note wf = fs_wf [OF assms(2)] and g = fs_guard [OF assms(2)]
  from Move_during_checked [OF assms(1) [unfolded fs_Move_def]] obtain sp tp si ti where
    sp: "ResolveExisting h (lf_guard f) s = Inr sp"
    and tp: "ResolveForCreate h (lf_guard f) u = Inr tp" and st: "os_stat h (sp_path sp) = Inr si"
    and tt: "seen h (sp_path tp) ti" "\<And>i. ti = Some i \<Longrightarrow> \<not> SameFile si i"
    and mc: "move_checked (\<lambda>h. h) h (sp_path sp) (sp_path tp) si ti ow = (h', None)" by metis
  note rn = move_checked_None(1) [OF mc] and over = move_checked_None(3) [OF mc]
  have cs: "sp_path sp = render True ?cs" "good_comps ?cs" "?cs \<noteq> [] \<longrightarrow> walk_parent h ?cs = Inr ?S"
    "\<exists>n. lookup h ?S = Some n \<and> \<not> is_linkN n"
    using existing_parent_at [OF sp assms(2)] by blast+
  have ds: "sp_path tp = render True ?ds" "good_comps ?ds" "\<And>q. ?ds \<noteq> [] \<Longrightarrow> walk_parent h ?ds = Inr q \<Longrightarrow> q = ?T"
    using forcreate_parent [OF tp assms(2)] by blast+
  obtain n where n: "lookup h ?S = Some n" "\<not> is_linkN n" using cs(4) by blast
  \<comment> \<open>what is at the target, and that it is not the source\<close>
  have target: "lookup h ?T = None \<or> final_link h f u \<or>
      (\<exists>m i. lookup h ?T = Some m \<and> \<not> is_linkN m \<and> ti = Some i \<and> i = info_of h (Base (sp_path tp)) m)"
    using tp g wf fs_nofollow [OF assms(2)]
  proof (cases rule: ResolveForCreate_cases)
    case 1
    note r = resolvedD [OF 1 g wf]
    obtain m where m: "lookup h ?T = Some m" "\<not> is_linkN m" using r(4) by blast
    have "os_stat h (sp_path tp) \<noteq> Inl (Errno ENOENT)"
      using os_stat_fault_free [of h ?ds ?T] r(2,3) wf m ds(1) by auto
    then obtain i where i: "ti = Some i" "os_stat h (sp_path tp) = Inr i"
      using tt(1) by (auto simp: seen_def split: option.splits)
    obtain q m' where "walk h Follow kernel_links [] ?ds = Inr q" "lookup h q = Some m'"
      "i = info_of h (Base (sp_path tp)) m'"
      using os_stat_Inr [of h ?ds i] i(2) ds(1,2) by metis
    then show ?thesis using r(3) [of Follow] m i by auto
  next
    case (2 as c rest)
    then show ?thesis
      using below_missing [OF wf, of "fs_eroot f @ as @ [c]" rest]
      by (auto simp: creatable_def final_link_def)
  qed
  note rn = rn [unfolded cs(1) ds(1)]
  show ?thesis
    using rn cs(2) ds(2)
  proof (cases rule: os_rename_cases)
    case (same s' d' n' m')
    have "s' = ?S" "d' = ?T" using same cs(3) ds(3) by auto
    then have *: "lookup h ?T = Some m'" "node_ino m' = node_ino n" using same n(1) by auto
    then have "?T = ?S \<or> (\<exists>i. n = RegN i \<and> m' = RegN i)"
      using wf_ino [OF wf n(1), of ?T m'] by auto
    then have nl: "\<not> is_linkN m'" using * n by auto
    then obtain i where i: "ti = Some i" "i = info_of h (Base (sp_path tp)) m'"
      using target * by (auto simp: final_link_def)
    moreover have "si = info_of h (Base (sp_path sp)) n"
      using existing_node [OF sp assms(2)] st n(1) by (metis option.inject)
    ultimately have False using tt(2) * by (simp add: SameFile_def)
    then show ?thesis ..
  next
    case (moved s' d' n')
    have sd: "s' = ?S" "d' = ?T" using moved cs(3) ds(3) by auto
    have nn: "n' = n" using moved(5) n sd by simp
    have "\<not> prefix ?S ?T"
    proof
      assume p: "prefix ?S ?T"
      have "?S \<noteq> ?T" using moved(6) n nn sd by auto
      then have "strict_prefix ?S ?T" using p by (simp add: prefix_order.order_iff_strict)
      then show False using moved(6) wf_below_nondir [OF wf n(1), of ?T] sd nn by auto
    qed
    moreover have "lookup h ?T = None \<or> final_link h f u \<or> ow \<and> (\<exists>i. lookup h ?T = Some (RegN i))"
    proof -
      have "ow \<and> (\<exists>i. lookup h ?T = Some (RegN i))"
        if "lookup h ?T = Some m" "\<not> is_linkN m" "ti = Some (info_of h (Base (sp_path tp)) m)" for m
        using that over [OF that(3)] by (cases m) auto
      then show ?thesis using target by blast
    qed
    ultimately show ?thesis using moved sd n by blast
  qed auto
qed

text \<open>Another process at work between the checks and the rename.\<close>

lemma Move_during_race:
  assumes "Move_during env h f s u ow = (h', None)"
  obtains sp tp si where "ResolveExisting h (lf_guard f) s = Inr sp" "ResolveForCreate h (lf_guard f) u = Inr tp"
    "os_stat h (sp_path sp) = Inr si"
    "\<exists>ci. os_stat (env h) (sp_path sp) = Inr ci \<and> SameFile si ci \<and> fi_is_dir si = fi_is_dir ci"
    "os_stat h (sp_path tp) = Inl (Errno ENOENT) \<Longrightarrow> os_stat (env h) (sp_path tp) = Inl (Errno ENOENT)"
    "\<And>ti. os_stat h (sp_path tp) = Inr ti \<Longrightarrow> \<exists>ct. os_stat (env h) (sp_path tp) = Inr ct \<and> SameFile ti ct"
    "os_rename (env h) (sp_path sp) (sp_path tp) = (h', None)"
proof -
  from Move_during_checked [OF assms] obtain sp tp si ti where st: "ResolveExisting h (lf_guard f) s = Inr sp"
    "ResolveForCreate h (lf_guard f) u = Inr tp" "os_stat h (sp_path sp) = Inr si"
    and tt: "seen h (sp_path tp) ti"
    and mc: "move_checked env h (sp_path sp) (sp_path tp) si ti ow = (h', None)" by metis
  note rn = move_checked_None(1) [OF mc] and rv = move_checked_None(2) [OF mc]
  note r = revalidate_ok [OF rv]
  show thesis
  proof (rule that [OF st r(1) _ _ rn])
    show "os_stat (env h) (sp_path tp) = Inl (Errno ENOENT)" if "os_stat h (sp_path tp) = Inl (Errno ENOENT)"
      using that tt r(2) by (auto simp: seen_def split: option.splits)
    show "\<exists>ct. os_stat (env h) (sp_path tp) = Inr ct \<and> SameFile ti' ct" if "os_stat h (sp_path tp) = Inr ti'" for ti'
      using that tt r(3) by (auto simp: seen_def split: option.splits)
  qed
qed

subsection \<open>List\<close>

lemma list_loop_Inr:
  assumes "list_loop h f sp es acc = Inr r"
  shows "(\<forall>(name, n) \<in> set es. \<exists>b. AllowListEntry h (lf_guard f) sp name = Inr b) \<and>
    map (\<lambda>e. (e_name e, e_isDir e)) r = map (\<lambda>e. (e_name e, e_isDir e)) acc @
      map (\<lambda>(name, n). (name, is_dirN n))
        (filter (\<lambda>(name, n). AllowListEntry h (lf_guard f) sp name = Inr True) es) \<and>
    (int (length acc) \<le> MaxListEntries (lf_limits f) \<longrightarrow> int (length r) \<le> MaxListEntries (lf_limits f))"
  using assms
proof (induction h f sp es acc rule: list_loop.induct)
  case (2 h f sp name n es acc)
  obtain b where b: "AllowListEntry h (lf_guard f) sp name = Inr b"
    using "2.prems" by (auto split: sum.splits)
  show ?case
  proof (cases b)
    case False
    then show ?thesis using "2.IH"(1) [OF b] "2.prems" b by auto
  next
    case True
    then obtain info where info: "os_lstat h (Join (sp_String sp) name) = Inr info"
      and lim: "\<not> MaxListEntries (lf_limits f) \<le> int (length acc)"
      using "2.prems" b by (auto split: if_splits sum.splits)
    show ?thesis using "2.IH"(2) [OF b _ _ info] "2.prems" b True info lim by (auto simp: not_le)
  qed
qed simp

definition visible :: "policy \<Rightarrow> string \<times> node \<Rightarrow> bool" where
  "visible pol e \<longleftrightarrow> (AllowHiddenFiles pol \<or> \<not> isHiddenName (fst e)) \<and> \<not> is_linkN (snd e)"

lemma AllowListEntry_child:
  assumes ok: "fs_ok h f" and sp: "ResolveExisting h (lf_guard f) u = Inr sp"
    and dir: "lookup h (fs_eroot f @ user_comps u) = Some (DirN i)"
    and child: "lookup h (fs_eroot f @ user_comps u @ [name]) = Some n"
    and res: "AllowListEntry h (lf_guard f) sp name = Inr b"
  shows "b = visible (pg_policy (lf_guard f)) (name, n)"
proof (cases "\<not> AllowHiddenFiles (pg_policy (lf_guard f)) \<and> isHiddenName name")
  case True
  then show ?thesis using res by (simp add: AllowListEntry_def visible_def)
next
  case vis: False
  let ?us = "user_comps u" and ?g = "lf_guard f"
  note wf = fs_wf [OF ok] and g = fs_guard [OF ok] and nf = fs_nofollow [OF ok]
  have cs: "sp_path sp = render True (fs_root f @ ?us)" "good_comps (fs_root f @ ?us)"
    "walk h Follow kernel_links [] (fs_root f @ ?us) = Inr (fs_eroot f @ ?us)"
    using existing_parent_at [OF sp ok] by blast+
  have name: "good_comp name" using wf_good [OF wf child] by simp
  have gr: "good_comps (fs_eroot f)" by (rule guard_good(2) [OF g])
  define p where "p = render True ((fs_root f @ ?us) @ [name])"
  have join: "Join (sp_String sp) name = p"
    using cs name by (simp add: sp_String_def Join_comp p_def)
  have inside: "isInsideRoot (pg_root ?g) p"
    using cs(2) name guard_rooted(1) [OF g] by (simp add: p_def isInsideRoot_iff)
  obtain k' where k': "\<And>m. walk h m kernel_links [] ((fs_root f @ ?us) @ [name]) =
      walk h m k' (fs_eroot f @ ?us) [name]"
    using walk_split [OF cs(3) refl dir] by blast
  have lst: "os_lstat h p = (case fault h SLstat p of Some e \<Rightarrow> Inl (Errno e)
      | None \<Rightarrow> Inr (info_of h (Base p) n))"
    using cs(2) name k' [of NoFollow] child
    by (cases n) (simp_all add: p_def os_lstat_def stat_at_def walk_last split: option.split)
  have r0: "AllowListEntry h ?g sp name = (case validatePathMetadata h p (pg_policy ?g) of
          Some e \<Rightarrow> if e \<in> {ErrHiddenPathDenied, ErrSymlinkDenied, ErrReparsePointDenied} then Inr False else Inl e
        | None \<Rightarrow> (case evalEffectivePath h p of Inl e \<Rightarrow> Inl e
             | Inr effectivePath \<Rightarrow> Inr (isInsideRoot (pg_effectiveRoot ?g) effectivePath)))"
    unfolding AllowListEntry_def Let_def join using vis inside by auto
  show ?thesis
  proof (cases "is_linkN n")
    case True
    then show ?thesis using res nf lst unfolding r0
      by (auto simp: validatePathMetadata_def visible_def split: option.splits)
  next
    case False
    have "walk h Follow kernel_links [] ((fs_root f @ ?us) @ [name]) = Inr (fs_eroot f @ ?us @ [name])"
      using k' [of Follow] child name False by (cases n) (simp_all add: walk_last)
    then have ev: "walk h Follow eval_links [] ((fs_root f @ ?us) @ [name]) = Inr (fs_eroot f @ ?us @ [name])"
      by (rule walk_more_links [OF _ _ kernel_le_eval]) simp
    have "b" using res nf lst False
    proof -
      have "validatePathMetadata h p (pg_policy ?g) = None \<and>
          (\<exists>ep. evalEffectivePath h p = Inr ep \<and> b = isInsideRoot (pg_effectiveRoot ?g) ep)"
        using res lst False wf_fault [OF wf, of SLstat p] unfolding r0
        by (auto simp: validatePathMetadata_def split: option.splits sum.splits if_splits)
      then show ?thesis
        using ev cs(2) name gr guard_rooted(2) [OF g]
        by (auto simp: evalEffectivePath_def eval_symlinks_def p_def isInsideRoot_iff eroot_def
            split: option.splits)
    qed
    then show ?thesis using vis False by (simp add: visible_def)
  qed
qed

lemma children_lookup:
  assumes "host_wf h" "(name, n) \<in> set (children h q)"
  shows "lookup h (q @ [name]) = Some n"
proof -
  obtain k where "(k, n) \<in> set (entries h)" "k \<noteq> []" "butlast k = q" "last k = name"
    using assms(2) by (auto simp: children_def)
  then have "lookup h k = Some n" "k = q @ [name]"
    using entries_lookup [OF assms(1), of k n] append_butlast_last_id [of k] by simp_all
  then show ?thesis by simp
qed

lemma fs_List_Inr:
  assumes "fs_List h f u = Inr es" "fs_ok h f" "0 \<le> MaxListEntries (lf_limits f)"
  shows "map (\<lambda>e. (e_name e, e_isDir e)) es =
      map (\<lambda>(name, n). (name, is_dirN n))
        (filter (visible (pg_policy (lf_guard f))) (sort_key fst (children h (fs_eroot f @ user_comps u))))"
    and "int (length es) \<le> MaxListEntries (lf_limits f)"
proof -
  obtain sp ds where sp: "ResolveExisting h (lf_guard f) u = Inr sp"
    and ds: "os_read_dir h (sp_path sp) = Inr ds" and ll: "list_loop h f sp ds [] = Inr es"
    using assms(1) by (auto simp: fs_List_def sp_String_def split: sum.splits)
  obtain cs where cs: "sp_path sp = render True cs" "good_comps cs"
    "walk h Follow kernel_links [] cs = Inr (fs_eroot f @ user_comps u)"
    using existing_parent_at [OF sp assms(2)] by blast
  obtain i where i: "lookup h (fs_eroot f @ user_comps u) = Some (DirN i)"
    and d: "ds = sort_key fst (children h (fs_eroot f @ user_comps u))"
    using ds cs by (auto simp: os_read_dir_def split: option.splits node.splits)
  note L = list_loop_Inr [OF ll]
  have "AllowListEntry h (lf_guard f) sp (fst e) = Inr True \<longleftrightarrow> visible (pg_policy (lf_guard f)) e"
    if mem: "e \<in> set ds" for e
  proof -
    obtain name n where e: "e = (name, n)" by (cases e)
    obtain b where b: "AllowListEntry h (lf_guard f) sp name = Inr b" using conjunct1 [OF L] mem e by blast
    have "(name, n) \<in> set (children h (fs_eroot f @ user_comps u))" using that d e by simp
    then have "lookup h (fs_eroot f @ user_comps u @ [name]) = Some n"
      using children_lookup [OF fs_wf [OF assms(2)]] by fastforce
    from AllowListEntry_child [OF assms(2) sp i this b] show ?thesis using b e by simp
  qed
  then have "filter (\<lambda>(name, n). AllowListEntry h (lf_guard f) sp name = Inr True) ds =
      filter (visible (pg_policy (lf_guard f))) ds"
    by (intro filter_cong) (auto simp: case_prod_unfold)
  then show "map (\<lambda>e. (e_name e, e_isDir e)) es =
      map (\<lambda>(name, n). (name, is_dirN n))
        (filter (visible (pg_policy (lf_guard f))) (sort_key fst (children h (fs_eroot f @ user_comps u))))"
    using L d by simp
  show "int (length es) \<le> MaxListEntries (lf_limits f)" using L assms(3) by simp
qed

end
