(* ===== verification/Sandbox.thy ===== *)
theory Sandbox
  imports FsResults
begin

text \<open>
  The interface \<open>fs.FileSystem\<close> that the tools call, the contract its clients rely on
  (a locale: the invariant survives every operation and nothing outside the frame changes),
  and its interpretation by \<open>LocalFileSystem\<close>. The invariant also holds after the
  sandbox root itself has been deleted, when every operation fails.
\<close>

subsection \<open>The interface\<close>

record fsys =
  f_List :: "host \<Rightarrow> string \<Rightarrow> (goerr, entry list) result"
  f_Read :: "host \<Rightarrow> string \<Rightarrow> int \<Rightarrow> (goerr, string) result"
  f_Stat :: "host \<Rightarrow> string \<Rightarrow> (goerr, metadata) result"
  f_Write :: "host \<Rightarrow> string \<Rightarrow> string \<Rightarrow> bool \<Rightarrow> host \<times> goerr option"
  f_Mkdir :: "host \<Rightarrow> string \<Rightarrow> host \<times> (goerr, bool) result"
  f_Delete :: "host \<Rightarrow> string \<Rightarrow> bool \<Rightarrow> host \<times> goerr option"
  f_Move :: "host \<Rightarrow> string \<Rightarrow> string \<Rightarrow> bool \<Rightarrow> host \<times> goerr option"
  f_Copy :: "host \<Rightarrow> string \<Rightarrow> string \<Rightarrow> bool \<Rightarrow> host \<times> goerr option"

definition local_fsys :: "local_fs \<Rightarrow> fsys" where
  "local_fsys f =
     \<lparr>f_List = (\<lambda>h p. fs_List h f p), f_Read = (\<lambda>h p m. fs_Read h f p m),
      f_Stat = (\<lambda>h p. fs_Stat h f p), f_Write = (\<lambda>h p d ow. fs_Write h f p d ow),
      f_Mkdir = (\<lambda>h p. fs_Mkdir h f p), f_Delete = (\<lambda>h p rec. fs_Delete h f p rec),
      f_Move = (\<lambda>h s t ow. fs_Move h f s t ow), f_Copy = (\<lambda>h s t ow. fs_Copy h f s t ow)\<rparr>"

text \<open>What a client of the interface relies on.\<close>

locale sandboxed =
  fixes fsys :: fsys
    and inv :: "host \<Rightarrow> bool"
    and frame :: "host \<Rightarrow> host \<Rightarrow> bool"
  assumes frame_refl: "frame h h"
    and frame_trans: "frame h h1 \<Longrightarrow> frame h1 h2 \<Longrightarrow> frame h h2"
    and write_safe: "inv h \<Longrightarrow> f_Write fsys h p d ow = (h', e) \<Longrightarrow> inv h' \<and> frame h h'"
    and mkdir_safe: "inv h \<Longrightarrow> f_Mkdir fsys h p = (h', r) \<Longrightarrow> inv h' \<and> frame h h'"
    and delete_safe: "inv h \<Longrightarrow> f_Delete fsys h p rec = (h', e) \<Longrightarrow> inv h' \<and> frame h h'"
    and move_safe: "inv h \<Longrightarrow> f_Move fsys h s t ow = (h', e) \<Longrightarrow> inv h' \<and> frame h h'"
    and copy_safe: "inv h \<Longrightarrow> f_Copy fsys h s t ow = (h', e) \<Longrightarrow> inv h' \<and> frame h h'"

subsection \<open>The invariant of a local file system\<close>

text \<open>
  The root is given by its physical path and its parent is a directory; links are not
  followed and there are none below the root.
\<close>

definition sand_inv :: "local_fs \<Rightarrow> host \<Rightarrow> bool" where
  "sand_inv f h \<longleftrightarrow>
     host_wf h \<and> \<not> FollowSymlinks (pg_policy (lf_guard f)) \<and>
     clean_abs (pg_root (lf_guard f)) \<and> pg_effectiveRoot (lf_guard f) = pg_root (lf_guard f) \<and>
     (fs_root f = [] \<or> (\<exists>j. lookup h (butlast (fs_root f)) = Some (DirN j))) \<and>
     (lookup h (fs_root f) = None \<or> (\<exists>i. lookup h (fs_root f) = Some (DirN i))) \<and>
     (\<forall>p i t. prefix (fs_root f) p \<longrightarrow> lookup h p \<noteq> Some (LinkN i t))"

lemma sand_eroot: "sand_inv f h \<Longrightarrow> fs_eroot f = fs_root f"
  by (simp add: sand_inv_def eroot_def)

lemma walk_to_dir:
  assumes "host_wf h" "lookup h as = Some (DirN i)" "good_comps as"
  shows "walk h m k [] (as @ cs) = walk h m k as cs"
proof -
  have "walk h m k [] (as @ cs) = walk h m k ([] @ as) cs"
  proof (rule walk_along_dirs [OF assms(3)])
    fix bs assume pre: "prefix bs as" "bs \<noteq> []"
    then obtain zs where "as = bs @ zs" unfolding prefix_def by blast
    then show "\<exists>i. lookup h ([] @ bs) = Some (DirN i)"
      using wf_prefix_dir [OF assms(1), of bs zs] assms(2) by (cases "zs = []") auto
  qed
  then show ?thesis by simp
qed

lemma sand_fs_ok:
  assumes "sand_inv f h" "lookup h (fs_root f) \<noteq> None"
  shows "fs_ok h f"
proof -
  have wf: "host_wf h" and ca: "clean_abs (pg_root (lf_guard f))"
    and same: "pg_effectiveRoot (lf_guard f) = pg_root (lf_guard f)"
    using assms(1) by (simp_all add: sand_inv_def)
  obtain i where i: "lookup h (fs_root f) = Some (DirN i)" using assms by (auto simp: sand_inv_def)
  have "walk h Follow eval_links [] (fs_root f @ []) = walk h Follow eval_links (fs_root f) []"
    by (rule walk_to_dir [OF wf i clean_abs_good [OF ca]])
  then have "guard_ok h (lf_guard f)" using ca same i by (simp add: guard_ok_def eroot_def)
  then show ?thesis using assms(1) wf by (simp add: fs_ok_def sand_inv_def)
qed

text \<open>When the root is gone, nothing below it resolves.\<close>

lemma gone_walk:
  assumes "sand_inv f h" "lookup h (fs_root f) = None" "good_comps bs"
  shows "walk h Follow k [] (fs_root f @ bs) = Inl ENOENT"
proof -
  have wf: "host_wf h" and ca: "clean_abs (pg_root (lf_guard f))" using assms(1) by (simp_all add: sand_inv_def)
  have ne: "fs_root f \<noteq> []" using wf_root [OF wf] assms(2) by auto
  then obtain j where j: "lookup h (butlast (fs_root f)) = Some (DirN j)" using assms(1) by (auto simp: sand_inv_def)
  have g: "good_comps (butlast (fs_root f))" "good_comp (last (fs_root f))"
    using clean_abs_good [OF ca] ne by (auto simp: list_all_iff dest: in_set_butlastD)
  have "walk h Follow k [] (butlast (fs_root f) @ last (fs_root f) # bs) =
      walk h Follow k (butlast (fs_root f)) (last (fs_root f) # bs)"
    by (rule walk_to_dir [OF wf j g(1)])
  moreover have "butlast (fs_root f) @ last (fs_root f) # bs = fs_root f @ bs" using ne by simp
  moreover have "lookup h (butlast (fs_root f) @ [last (fs_root f)]) = None" using ne assms(2) by simp
  ultimately show ?thesis using g(2) good_comp_plain by (simp add: walk_plain)
qed

lemma gone_eval:
  assumes "sand_inv f h" "lookup h (fs_root f) = None" "good_comps bs"
  shows "evalEffectivePath h (render True (fs_root f @ bs)) \<noteq> Inr ep"
proof -
  have "good_comps (fs_root f @ bs)" using assms(1,3) by (simp add: sand_inv_def clean_abs_good)
  then show ?thesis
    using gone_walk [OF assms, of eval_links]
    by (auto simp: evalEffectivePath_def eval_symlinks_def split: option.splits)
qed

lemma gone_resolve:
  assumes "sand_inv f h" "lookup h (fs_root f) = None"
  shows "ResolveExisting h (lf_guard f) u \<noteq> Inr sp" "ResolveForCreate h (lf_guard f) u \<noteq> Inr sp"
proof -
  have ca: "clean_abs (pg_root (lf_guard f))" using assms(1) by (simp add: sand_inv_def)
  show "ResolveExisting h (lf_guard f) u \<noteq> Inr sp"
  proof
    assume "ResolveExisting h (lf_guard f) u = Inr sp"
    then obtain p ep where p: "resolveLexical h (lf_guard f) u = Inr p" "evalEffectivePath h p = Inr ep"
      by (auto simp: ResolveExisting_def split: sum.splits option.splits)
    from resolveLexical_InrE [OF p(1) ca] show False using gone_eval [OF assms] p(2) by metis
  qed
  show "ResolveForCreate h (lf_guard f) u \<noteq> Inr sp"
  proof
    assume r: "ResolveForCreate h (lf_guard f) u = Inr sp"
    then obtain p where p: "resolveLexical h (lf_guard f) u = Inr p"
      by (auto simp: ResolveForCreate_def split: sum.splits)
    from resolveLexical_InrE [OF p ca] obtain bs where
      bs: "p = render True (fs_root f @ bs)" "good_comps bs" by metis
    have good: "good_comps (fs_root f)" using ca by (rule clean_abs_good)
    have "evalEffectivePath h p \<noteq> Inr ep" for ep using gone_eval [OF assms bs(2)] bs(1) by simp
    then obtain ep where "resolveExistingParent h (lf_guard f) p = Inr ep"
      using r p by (auto simp: ResolveForCreate_def split: sum.splits if_splits)
    then have "existing_parent_loop h (lf_guard f) (render True (fs_root f @ bs)) = Inr ep"
      using good bs by (simp add: resolveExistingParent_def clean_abs_Clean_id)
    from existing_parent_loop_Inr [OF this ca bs(2)] obtain as c rest where
      "bs = as @ c # rest" "evalEffectivePath h (render True (fs_root f @ as)) = Inr ep" by blast
    then show False using gone_eval [OF assms, of as] bs(2) by auto
  qed
qed

lemma sand_inv_confined:
  assumes "sand_inv f h" "host_wf h'" "confined (fs_root f) h h'"
  shows "sand_inv f h'"
proof -
  have outside: "lookup h' p = lookup h p" if "\<not> prefix (fs_root f) p" for p
    using assms(3) that by (simp add: confined_def)
  have "\<not> prefix (fs_root f) (butlast (fs_root f))" if "fs_root f \<noteq> []"
    using that by (cases "fs_root f" rule: rev_cases) (auto dest: prefix_length_le)
  then have "fs_root f = [] \<or> (\<exists>j. lookup h' (butlast (fs_root f)) = Some (DirN j))"
    using assms(1) outside by (auto simp: sand_inv_def)
  moreover have "lookup h' (fs_root f) = lookup h (fs_root f) \<or> lookup h' (fs_root f) = None"
    using assms(3) by (simp add: confined_def)
  moreover have "lookup h' p \<noteq> Some (LinkN i t)" if "prefix (fs_root f) p" for p i t
    using assms(1,3) that unfolding sand_inv_def confined_def by blast
  ultimately show ?thesis using assms(1,2) unfolding sand_inv_def by auto
qed

lemma sand_no_final_link:
  assumes "sand_inv f h"
  shows "\<not> final_link h f u"
  using assms sand_eroot [OF assms] unfolding sand_inv_def final_link_def by (metis prefixI)

text \<open>Each operation keeps the invariant, root or no root.\<close>

lemma sand_step:
  assumes inv: "sand_inv f h"
    and gone: "lookup h (fs_root f) = None \<Longrightarrow> h' = h"
    and ok: "fs_ok h f \<Longrightarrow> host_wf h' \<and> confined (fs_eroot f) h h'"
  shows "sand_inv f h' \<and> confined (fs_eroot f) h h'"
proof (cases "lookup h (fs_root f) = None")
  case True
  then show ?thesis using inv gone by simp
next
  case False
  then have c: "host_wf h' \<and> confined (fs_eroot f) h h'" using ok sand_fs_ok [OF inv] by blast
  then show ?thesis using sand_inv_confined [OF inv] sand_eroot [OF inv] by simp
qed

lemma gone_ops:
  assumes "sand_inv f h" "lookup h (fs_root f) = None"
  shows "fst (fs_Write h f u d ow) = h" "fst (fs_Mkdir h f u) = h" "fst (fs_Delete h f u rec) = h"
    "fst (fs_Move h f s u ow) = h" "fst (fs_Copy h f s u ow) = h"
  using gone_resolve [OF assms]
  by (simp_all add: fs_Write_def fs_Mkdir_def fs_Delete_def fs_Move_def Move_during_def fs_Copy_def
      split: sum.split)

interpretation lfs: sandboxed "local_fsys f" "sand_inv f" "confined (fs_eroot f)" for f
proof
  fix h h1 h2
  show "confined (fs_eroot f) h h" by simp
  show "confined (fs_eroot f) h h1 \<Longrightarrow> confined (fs_eroot f) h1 h2 \<Longrightarrow> confined (fs_eroot f) h h2"
    by (rule confined_trans)
next
  fix h h' p d ow e
  assume inv: "sand_inv f h" and op: "f_Write (local_fsys f) h p d ow = (h', e)"
  show "sand_inv f h' \<and> confined (fs_eroot f) h h'"
  proof (rule sand_step [OF inv])
    show "h' = h" if "lookup h (fs_root f) = None"
      using gone_ops(1) [OF inv that, of p d ow] op by (simp add: local_fsys_def)
    show "host_wf h' \<and> confined (fs_eroot f) h h'" if "fs_ok h f"
      using fs_Write_confined [OF _ that] op sand_no_final_link [OF inv] by (simp add: local_fsys_def)
  qed
next
  fix h h' p r
  assume inv: "sand_inv f h" and op: "f_Mkdir (local_fsys f) h p = (h', r)"
  show "sand_inv f h' \<and> confined (fs_eroot f) h h'"
  proof (rule sand_step [OF inv])
    show "h' = h" if "lookup h (fs_root f) = None"
      using gone_ops(2) [OF inv that, of p] op by (simp add: local_fsys_def)
    show "host_wf h' \<and> confined (fs_eroot f) h h'" if "fs_ok h f"
      using fs_Mkdir_confined [OF _ that] op by (simp add: local_fsys_def)
  qed
next
  fix h h' p rec e
  assume inv: "sand_inv f h" and op: "f_Delete (local_fsys f) h p rec = (h', e)"
  show "sand_inv f h' \<and> confined (fs_eroot f) h h'"
  proof (rule sand_step [OF inv])
    show "h' = h" if "lookup h (fs_root f) = None"
      using gone_ops(3) [OF inv that, of p rec] op by (simp add: local_fsys_def)
    show "host_wf h' \<and> confined (fs_eroot f) h h'" if "fs_ok h f"
      using fs_Delete_confined [OF _ that] op by (simp add: local_fsys_def)
  qed
next
  fix h h' s t ow e
  assume inv: "sand_inv f h" and op: "f_Move (local_fsys f) h s t ow = (h', e)"
  show "sand_inv f h' \<and> confined (fs_eroot f) h h'"
  proof (rule sand_step [OF inv])
    show "h' = h" if "lookup h (fs_root f) = None"
      using gone_ops(4) [OF inv that, of s t ow] op by (simp add: local_fsys_def)
    show "host_wf h' \<and> confined (fs_eroot f) h h'" if "fs_ok h f"
      using fs_Move_confined [OF _ that] op by (simp add: local_fsys_def)
  qed
next
  fix h h' s t ow e
  assume inv: "sand_inv f h" and op: "f_Copy (local_fsys f) h s t ow = (h', e)"
  show "sand_inv f h' \<and> confined (fs_eroot f) h h'"
  proof (rule sand_step [OF inv])
    show "h' = h" if "lookup h (fs_root f) = None"
      using gone_ops(5) [OF inv that, of s t ow] op by (simp add: local_fsys_def)
    show "host_wf h' \<and> confined (fs_eroot f) h h'" if "fs_ok h f"
      using fs_Copy_confined [OF _ that] op sand_no_final_link [OF inv] by (simp add: local_fsys_def)
  qed
qed

end
