(* ===== verification/Sample.thy ===== *)
theory Sample
  imports Sandbox
begin

text \<open>
  A small host used by the witnesses: a sandbox \<open>/srv\<close> with files, a hidden file, a
  directory, and a symbolic link \<open>out\<close> to a missing file outside; and the same host
  without the link.
\<close>

definition sample_entries :: "(string list \<times> node) list" where
  "sample_entries =
     [([], DirN 0), ([''srv''], DirN 1), ([''srv'', ''a.txt''], RegN 2), ([''etc''], DirN 4),
      ([''srv'', ''.env''], RegN 5), ([''srv'', ''sub''], DirN 6), ([''srv'', ''sub'', ''b''], RegN 7),
      ([''etc'', ''passwd''], RegN 8)]"

definition clean_host :: host where
  "clean_host = \<lparr>
     entries = sample_entries,
     content = (\<lambda>i. if i = 2 then ''hello'' else if i = 5 then ''secret'' else if i = 8 then ''root'' else []),
     perm = (\<lambda>_. 0x1A4), device = (\<lambda>_. 1), dir_size = (\<lambda>_. 64), fresh = 9, wd = Some ''/'',
     umask = (\<lambda>m. m), fault = (\<lambda>_ _. None), write_fault = (\<lambda>_ _. None)\<rparr>"

definition sample_host :: host where
  "sample_host = clean_host\<lparr>entries := ([''srv'', ''out''], LinkN 3 ''/etc/new'') # sample_entries\<rparr>"

definition sample_guard :: path_guard where
  "sample_guard = \<lparr>pg_root = ''/srv'', pg_effectiveRoot = ''/srv'', pg_policy = DefaultPolicy\<rparr>"

definition sample_fs :: local_fs where
  "sample_fs = \<lparr>lf_guard = sample_guard, lf_limits = DefaultLimits\<rparr>"

definition link_policy :: policy where
  "link_policy = DefaultPolicy\<lparr>FollowSymlinks := True\<rparr>"

text \<open>Executable forms of the invariants.\<close>

definition wf_check :: "host \<Rightarrow> bool" where
  "wf_check h \<longleftrightarrow>
     distinct (map fst (entries h)) \<and>
     (case lookup h [] of Some n \<Rightarrow> is_dirN n | None \<Rightarrow> False) \<and>
     (\<forall>(q, n) \<in> set (entries h). good_comps q \<and> node_ino n < fresh h \<and>
        (q \<noteq> [] \<longrightarrow> (case lookup h (butlast q) of Some m \<Rightarrow> is_dirN m | None \<Rightarrow> False)) \<and>
        (\<forall>(p, m) \<in> set (entries h). node_ino n = node_ino m \<longrightarrow> p = q))"

lemma is_dirN_iff: "is_dirN n \<longleftrightarrow> (\<exists>i. n = DirN i)"
  by (cases n) simp_all

lemma wf_check_wf:
  assumes "wf_check h" "quiet h"
  shows "host_wf h"
proof (rule host_wfI)
  have ent: "(q, n) \<in> set (entries h)" if "lookup h q = Some n" for q n
    using that by (rule lookup_in_entries)
  show "distinct (map fst (entries h))" using assms(1) by (simp add: wf_check_def)
  show "\<exists>i. lookup h [] = Some (DirN i)"
    using assms(1) by (auto simp: wf_check_def is_dirN_iff split: option.splits)
  show "good_comps q" "node_ino n < fresh h" if "lookup h q = Some n" for q n
    using assms(1) ent [OF that] by (auto simp: wf_check_def)
  show "\<exists>i. lookup h q = Some (DirN i)" if "lookup h (q @ [c]) = Some n" for q c n
    using assms(1) ent [OF that] by (fastforce simp: wf_check_def is_dirN_iff split: option.splits)
  show "p = q \<or> (\<exists>i. n = RegN i \<and> m = RegN i)"
    if "lookup h p = Some n" "lookup h q = Some m" "node_ino n = node_ino m" for p q n m
    using assms(1) ent [OF that(1)] ent [OF that(2)] that(3) by (fastforce simp: wf_check_def)
  show "unforeseen e" if "fault h op p = Some e" for op p e
    using assms(2) that by (simp add: quiet_def)
qed

lemma sample_quiet: "quiet clean_host" "quiet sample_host"
  by (simp_all add: quiet_def clean_host_def sample_host_def)

lemma sample_wf: "host_wf clean_host" "host_wf sample_host"
  by (rule wf_check_wf [OF _ sample_quiet(1)], code_simp) (rule wf_check_wf [OF _ sample_quiet(2)], code_simp)

lemma sample_guard_ok: "guard_ok clean_host sample_guard" "guard_ok sample_host sample_guard"
proof -
  have "clean_abs ''/srv''" by code_simp
  moreover have "walk clean_host Follow eval_links [] [''srv''] = Inr [''srv'']"
    "walk sample_host Follow eval_links [] [''srv''] = Inr [''srv'']"
    "lookup clean_host [''srv''] = Some (DirN 1)" "lookup sample_host [''srv''] = Some (DirN 1)"
    "path_comps ''/srv'' = [''srv'']" by code_simp+
  ultimately show "guard_ok clean_host sample_guard" "guard_ok sample_host sample_guard"
    by (simp_all add: guard_ok_def sample_guard_def eroot_def)
qed

lemma sample_fs_ok: "fs_ok clean_host sample_fs" "fs_ok sample_host sample_fs"
  using sample_wf sample_guard_ok
  by (simp_all add: fs_ok_def sample_fs_def) (simp_all add: sample_guard_def DefaultPolicy_def)

lemma entries_no_link:
  assumes "host_wf h" "\<forall>(q, n) \<in> set (entries h). prefix r q \<longrightarrow> \<not> is_linkN n"
  shows "prefix r p \<Longrightarrow> lookup h p \<noteq> Some (LinkN i t)"
  using assms entries_lookup [OF assms(1), of p "LinkN i t"] by auto

lemma sample_sand: "sand_inv sample_fs clean_host"
proof -
  have r: "path_comps (pg_root (lf_guard sample_fs)) = [''srv'']" by code_simp
  have e: "\<forall>(q, n) \<in> set (entries clean_host). prefix [''srv''] q \<longrightarrow> \<not> is_linkN n" by code_simp
  have c: "clean_abs (pg_root (lf_guard sample_fs))" by code_simp
  have l: "lookup clean_host [''srv''] = Some (DirN 1)" "lookup clean_host [] = Some (DirN 0)" by code_simp+
  show ?thesis
    unfolding sand_inv_def r
    using sample_wf(1) c l entries_no_link [OF sample_wf(1) e]
    by (auto simp: sample_fs_def sample_guard_def DefaultPolicy_def)
qed

end
