(* ===== verification/LinkFacts.thy ===== *)
theory LinkFacts
  imports FsResults
begin

text \<open>
  A final component that is a symbolic link to something missing: what is accepted, what
  a write or a copy through it creates, and that it cannot be read back. Links are not
  followed by policy; the calls of the host follow them all the same.
\<close>

subsection \<open>Through a link\<close>

lemma walk_Create_existing:
  assumes "walk h m k cur cs = Inr q" "m = Create" "lookup h q = Some n"
  shows "walk h Follow k cur cs = Inr q"
  using assms
proof (induction h m k cur cs rule: walk_induct)
  case (link h m k cur c cs i t)
  have "walk h m k (if is_rooted t then [] else cur) (split_on sep t @ cs) = Inr q"
    using link.prems(1,2) walk_link [OF link.hyps(1,2), of m cs k] by simp
  then have "walk h Follow k (if is_rooted t then [] else cur) (split_on sep t @ cs) = Inr q"
    using link.IH link.prems by blast
  then show ?case using walk_link [OF link.hyps(1,2), of Follow cs k] by simp
qed (auto simp: walk_plain split: if_splits)

text \<open>Where the text \<open>t\<close> of a link at \<open>p\<close> leads a call that may create the last component.\<close>

definition link_leads :: "host \<Rightarrow> string list \<Rightarrow> string \<Rightarrow> string list \<Rightarrow> bool" where
  "link_leads h p t q \<longleftrightarrow>
     walk h Create kernel_links (if is_rooted t then [] else butlast p) (split_on sep t) = Inr q"

lemma forcreate_link:
  assumes "ResolveForCreate h (lf_guard f) u = Inr sp" "fs_ok h f"
    "lookup h (fs_eroot f @ user_comps u) = Some (LinkN i t)"
  obtains as c j where "user_comps u = as @ [c]" "good_comps (as @ [c])" "link_free h (fs_eroot f) as"
    "lookup h (fs_eroot f @ as) = Some (DirN j)" "reaches h (fs_root f @ as) (fs_eroot f @ as)"
    "walk h Follow eval_links [] (fs_root f @ user_comps u) = Inl ENOENT"
  using assms(1) fs_guard [OF assms(2)] fs_wf [OF assms(2)] fs_nofollow [OF assms(2)]
proof (cases rule: ResolveForCreate_cases)
  case 1
  then have "link_free h (fs_eroot f) (user_comps u)" by (simp add: resolved_def)
  then show thesis using link_free_exists assms(3) by fastforce
next
  case (2 as c rest)
  have "lookup h (fs_eroot f @ as @ [c]) \<noteq> None"
  proof
    assume "lookup h (fs_eroot f @ as @ [c]) = None"
    then have "lookup h (fs_eroot f @ as @ c # rest) = None"
      using below_missing [OF fs_wf [OF assms(2)], of "fs_eroot f @ as @ [c]" rest] by simp
    then show False using 2(1) assms(3) by simp
  qed
  then show thesis using 2 that [of as c] by (auto simp: creatable_def)
qed

text \<open>An overwriting open through a final link creates the file the link names.\<close>

lemma open_through_link:
  assumes "open_target h (sp_path sp) True pm = (h', Inr n)" "ResolveForCreate h (lf_guard f) u = Inr sp"
    "fs_ok h f" "lookup h (fs_eroot f @ user_comps u) = Some (LinkN i t)"
  shows "\<exists>q. link_leads h (fs_eroot f @ user_comps u) t q \<and> vacant h q \<and> h' = new_file h q pm \<and> n = fresh h"
proof -
  let ?us = "user_comps u" and ?cs = "fs_root f @ user_comps u"
  note wf = fs_wf [OF assms(3)]
  obtain as c j where us: "?us = as @ [c]" "good_comps (as @ [c])" and dir: "lookup h (fs_eroot f @ as) = Some (DirN j)"
    and re: "reaches h (fs_root f @ as) (fs_eroot f @ as)"
    and miss: "walk h Follow eval_links [] ?cs = Inl ENOENT"
    by (rule forcreate_link [OF assms(2-4)])
  have cs: "sp_path sp = render True ?cs" "good_comps ?cs" using forcreate_parent [OF assms(2,3)] by auto
  have op: "os_open_write h (render True ?cs) (write_flags True) pm = (h', Inr n)"
    using assms(1) cs by (auto simp: open_target_def split: prod.splits sum.splits)
  have none: "lookup h q = None" if "walk h Create kernel_links [] ?cs = Inr q" for q
  proof (rule ccontr)
    assume "lookup h q \<noteq> None"
    then have "walk h Follow kernel_links [] ?cs = Inr q" using walk_Create_existing [OF that refl] by blast
    then show False using walk_more_links [OF _ _ kernel_le_eval] miss by fastforce
  qed
  have leads: "link_leads h (fs_eroot f @ ?us) t q" if "walk h Create kernel_links [] ?cs = Inr q" for q
  proof -
    have F: "walk h Follow kernel_links [] (fs_root f @ as) = Inr (fs_eroot f @ as)" using re by (simp add: reaches_def)
    obtain k' where k': "k' \<le> kernel_links" "walk h Create kernel_links [] ((fs_root f @ as) @ [c]) = walk h Create k' (fs_eroot f @ as) [c]"
      using walk_split [OF F refl dir] by blast
    then have w: "walk h Create k' (fs_eroot f @ as) [c] = Inr q" using that us(1) by simp
    then have "walk h Create (k' - 1) (if is_rooted t then [] else fs_eroot f @ as) (split_on sep t) = Inr q"
      using us assms(4) by (simp add: walk_last split: if_splits)
    then have "walk h Create kernel_links (if is_rooted t then [] else fs_eroot f @ as) (split_on sep t) = Inr q"
      by (rule walk_more_links) (use k' in auto)
    then show ?thesis using us(1) by (simp add: link_leads_def butlast_append split: if_splits)
  qed
  show ?thesis
    using op cs(2) wf
  proof (cases rule: os_open_write_cases)
    case (created q)
    then have "walk h Create kernel_links [] ?cs = Inr q" by (simp add: open_at_def write_flags_def)
    then show ?thesis using created leads by auto
  next
    case (opened q j)
    then have "walk h Create kernel_links [] ?cs = Inr q" by (simp add: open_at_def write_flags_def)
    then show ?thesis using opened none by simp
  qed simp
qed

lemma fs_Write_link:
  assumes "fs_Write h f u d True = (h', None)" "fs_ok h f" "lookup h (fs_eroot f @ user_comps u) = Some (LinkN i t)"
  obtains q where "link_leads h (fs_eroot f @ user_comps u) t q" "lookup h q = None"
    "\<And>p. lookup h' p = (if p = q then Some (RegN (fresh h)) else lookup h p)"
    "content h' = (content h)(fresh h := d)" "fault h' = fault h" "write_fault h' = write_fault h"
proof -
  obtain sp h1 n k where sp: "ResolveForCreate h (lf_guard f) u = Inr sp"
    and op: "open_target h (sp_path sp) True 0x180 = (h1, Inr n)" and wr: "fd_write h1 n d = (h', k, None)"
    using assms(1)
    by (auto simp: fs_Write_def Let_def sp_String_def split: sum.splits if_splits prod.splits option.splits)
  obtain q where q: "link_leads h (fs_eroot f @ user_comps u) t q" "vacant h q" "h1 = new_file h q 0x180" "n = fresh h"
    using open_through_link [OF op sp assms(2,3)] by blast
  have h1: "content h1 = (content h)(n := [])" "fault h1 = fault h" "write_fault h1 = write_fault h"
    using q(3,4) by (simp_all add: new_file_def add_entry_def new_inode_def)
  then have h': "h' = h1\<lparr>content := (content h)(n := d)\<rparr>"
    using wr by (auto simp: fd_write_def Let_def split: option.splits)
  then have lk: "lookup h' p = (if p = q then Some (RegN (fresh h)) else lookup h p)" for p
    using q(3) lookup_new_file [where q = q and p = p] by (simp add: lookup_def)
  then show thesis using that q h1 h' lk by (simp add: vacant_def)
qed


text \<open>Copying through a final link.\<close>

lemma fs_Copy_link:
  assumes "fs_Copy h f s u True = (h', None)" "fs_ok h f" "lookup h (fs_eroot f @ user_comps u) = Some (LinkN i t)"
  obtains si q where "lookup h (fs_eroot f @ user_comps s) = Some (RegN si)"
    "link_leads h (fs_eroot f @ user_comps u) t q" "lookup h q = None"
    "\<And>p. lookup h' p = (if p = q then Some (RegN (fresh h)) else lookup h p)"
    "content h' = (content h)(fresh h := content h si)" "int (length (content h si)) \<le> MaxCopyBytes (lf_limits f)"
proof -
  have "\<exists>sp sp' info si pm h1 ti k. ResolveExisting h (lf_guard f) s = Inr sp' \<and>
    ResolveForCreate h (lf_guard f) u = Inr sp \<and> os_stat h (sp_path sp') = Inr info \<and>
    fi_size info \<le> MaxCopyBytes (lf_limits f) \<and>
    os_open_read h (sp_path sp') = Inr si \<and> open_target h (sp_path sp) True pm = (h1, Inr ti) \<and>
    fd_write h1 ti (content h1 si) = (h', k, None)"
    using assms(1)
    by (auto simp: fs_Copy_def sp_String_def split: sum.splits if_splits prod.splits option.splits)
  then obtain sp sp' info si pm h1 ti k where sp': "ResolveExisting h (lf_guard f) s = Inr sp'"
    and sp: "ResolveForCreate h (lf_guard f) u = Inr sp" and st: "os_stat h (sp_path sp') = Inr info"
    "fi_size info \<le> MaxCopyBytes (lf_limits f)"
    and rd: "os_open_read h (sp_path sp') = Inr si" and op: "open_target h (sp_path sp) True pm = (h1, Inr ti)"
    and wr: "fd_write h1 ti (content h1 si) = (h', k, None)" by blast
  obtain q where q: "link_leads h (fs_eroot f @ user_comps u) t q" "vacant h q" "h1 = new_file h q pm" "ti = fresh h"
    using open_through_link [OF op sp assms(2,3)] by blast
  obtain cs n where cs: "sp_path sp' = render True cs" "good_comps cs"
    "walk h Follow kernel_links [] cs = Inr (fs_eroot f @ user_comps s)"
    "lookup h (fs_eroot f @ user_comps s) = Some n" "\<not> is_linkN n"
    using existing_parent_at [OF sp' assms(2)] by blast
  have src: "lookup h (fs_eroot f @ user_comps s) = Some (RegN si)"
    using rd cs by (auto simp: os_open_read_def split: option.splits node.splits)
  have size: "fi_size info = int (length (content h si))"
    using existing_node [OF sp' assms(2)] st(1) src by (metis info_of_simps(3) node_size.simps(1) option.inject)
  have "si \<noteq> ti" using wf_fresh [OF fs_wf [OF assms(2)] src] q(4) by simp
  moreover have h1: "content h1 = (content h)(ti := [])" "write_fault h1 = write_fault h"
    using q(3,4) by (simp_all add: new_file_def add_entry_def new_inode_def)
  ultimately have h': "h' = h1\<lparr>content := (content h)(ti := content h si)\<rparr>"
    using wr by (auto simp: fd_write_def Let_def split: option.splits)
  then have lk: "lookup h' p = (if p = q then Some (RegN (fresh h)) else lookup h p)" for p
    using q(3) lookup_new_file [where q = q and p = p] by (simp add: lookup_def)
  then show thesis using that [of si q] q h' src st(2) size lk by (simp add: vacant_def)
qed

subsection \<open>Reading back\<close>

text \<open>A final link is refused where it has to exist.\<close>

lemma ResolveExisting_link:
  assumes q: "quiet h" and g: "clean_abs (pg_root g)" "\<not> FollowSymlinks (pg_policy g)"
    and root: "walk h Follow kernel_links [] (path_comps (pg_root g)) = Inr (eroot g)" "lookup h (eroot g) = Some (DirN k)"
    and lex: "resolveLexical h0 g u = Inr p" and us: "user_comps u = as @ [c]"
    and lf: "link_free h (eroot g) as" "lookup h (eroot g @ as) = Some (DirN j)" "lookup h (eroot g @ as @ [c]) = Some (LinkN i t)"
  shows "ResolveExisting h g u = Inl ErrSymlinkDenied"
proof -
  let ?rs = "path_comps (pg_root g)"
  from resolveLexical_InrE [OF lex g(1)] have p: "p = render True (?rs @ as @ [c])" and bs: "good_comps (as @ [c])"
    and hid: "\<not> AllowHiddenFiles (pg_policy g) \<Longrightarrow> \<not> list_ex isHiddenName (as @ [c])" using us by metis+
  have lex': "resolveLexical h g u = Inr p" using lex unfolding resolveLexical_eq [OF g(1)] .
  have good: "good_comps ?rs" using g by (simp add: clean_abs_good)
  have v: "validate_components h (pg_policy g) (pg_root g) as = None"
    by (rule link_free_validated [OF q g(1) root(1) _ _ lf(1)]) (use bs hid in auto)
  have F: "walk h Follow kernel_links [] (?rs @ as) = Inr (eroot g @ as)"
    using link_free_walk [OF root(1) lf(1)] root(1) bs by (cases "as = []") auto
  obtain k' where "walk h NoFollow kernel_links [] ((?rs @ as) @ [c]) = walk h NoFollow k' (eroot g @ as) [c]"
    using walk_split [OF F refl lf(2)] by blast
  then have "walk h NoFollow kernel_links [] (?rs @ as @ [c]) = Inr (eroot g @ as @ [c])"
    using bs lf(3) by (simp add: walk_last)
  then have "validatePathMetadata h (render True (?rs @ as @ [c])) (pg_policy g) = Some ErrSymlinkDenied"
    using q good bs lf(3) g(2)
    by (simp add: validatePathMetadata_def os_lstat_def stat_at_def quiet_def info_of_def fi_is_symlink_def)
  moreover have "AllowHiddenFiles (pg_policy g) \<or> \<not> isHiddenName c" using hid by auto
  ultimately have "validateExistingPathPolicy h g p = Some ErrSymlinkDenied"
    using validateExistingPathPolicy_eq [OF g(1) bs, of h] validate_components_snoc [OF good bs, of h "pg_policy g"] v g(1) p
    by (simp add: clean_abs_def)
  then show ?thesis by (simp add: ResolveExisting_def lex')
qed

lemma read_after_write_link:
  assumes "fs_Write h f u d True = (h', None)" "fs_ok h f" "quiet h" "final_link h f u"
  shows "fs_Read h' f u mx = Inl ErrSymlinkDenied"
proof -
  obtain i t where l: "lookup h (fs_eroot f @ user_comps u) = Some (LinkN i t)" using assms(4) by (auto simp: final_link_def)
  obtain sp where sp: "ResolveForCreate h (lf_guard f) u = Inr sp"
    using assms(1) by (auto simp: fs_Write_def split: sum.splits)
  obtain as c j where as: "user_comps u = as @ [c]" "link_free h (fs_eroot f) as" "lookup h (fs_eroot f @ as) = Some (DirN j)"
    by (rule forcreate_link [OF sp assms(2) l])
  obtain q where q: "lookup h q = None" "\<And>p. lookup h' p = (if p = q then Some (RegN (fresh h)) else lookup h p)"
    "fault h' = fault h" "write_fault h' = write_fault h"
    using fs_Write_link [OF assms(1,2) l] by metis
  have ext: "extends h h'" using q(1,2) by (auto simp: extends_def)
  obtain k where k: "lookup h (fs_eroot f) = Some (DirN k)" using fs_root_dir [OF assms(2)] by blast
  have "quiet h'" using assms(3) q(3,4) by (simp add: quiet_def)
  then have "ResolveExisting h' (lf_guard f) u = Inl ErrSymlinkDenied"
    by (rule ResolveExisting_link [OF _ guard_clean(1) [OF fs_guard [OF assms(2)]] fs_nofollow [OF assms(2)] _ _
          ResolveForCreate_lex [OF sp] as(1) link_free_extends [OF as(2) ext]])
      (use walk_extends [OF forcreate_root [OF sp assms(2)] _ ext] ext as l k in \<open>auto simp: extends_def\<close>)
  then show ?thesis by (simp add: fs_Read_def)
qed

subsection \<open>A dangling link is accepted\<close>

text \<open>A path along directories is walked as it stands.\<close>

lemma walk_dirs:
  assumes "host_wf h" "lookup h p = Some (DirN i)" "good_comps p"
  shows "walk h m k [] (p @ cs) = walk h m k p cs"
proof -
  have "\<exists>i. lookup h ([] @ bs) = Some (DirN i)" if bs: "prefix bs p" for bs
  proof -
    obtain zs where zs: "p = bs @ zs" using bs unfolding prefix_def by blast
    then show ?thesis using wf_prefix_dir [OF assms(1), of bs zs] assms(2) by (cases "zs = []") auto
  qed
  from walk_along_dirs [OF assms(3) this] show ?thesis by simp
qed

lemma link_free_dirs:
  assumes "host_wf h" "lookup h (r @ as) = Some (DirN i)"
  shows "link_free h r as"
  unfolding link_free_def
proof (intro allI impI)
  fix bs assume "prefix bs as"
  then obtain zs where zs: "as = bs @ zs" unfolding prefix_def by blast
  then have "\<exists>i. lookup h (r @ bs) = Some (DirN i)"
    using wf_prefix_dir [OF assms(1), of "r @ bs" zs] assms(2) by (cases "zs = []") auto
  then show "\<exists>n. lookup h (r @ bs) = Some n \<and> \<not> is_linkN n \<and> (bs \<noteq> as \<longrightarrow> is_dirN n)" by fastforce
qed

text \<open>A link to a missing file is accepted as a target for writing.\<close>

lemma ResolveForCreate_dangling:
  assumes ok: "fs_ok h f" "quiet h" and root: "fs_root f = fs_eroot f"
    and lex: "resolveLexical h (lf_guard f) u = Inr p" and us: "user_comps u = as @ [c]"
    and dir: "lookup h (fs_eroot f @ as) = Some (DirN j)"
    and miss: "walk h Follow eval_links [] (fs_root f @ user_comps u) = Inl ENOENT"
  shows "ResolveForCreate h (lf_guard f) u = Inr \<lparr>sp_path = p\<rparr>"
proof -
  let ?g = "lf_guard f" and ?rs = "fs_root f"
  note wf = fs_wf [OF ok(1)] and g = guard_clean [OF fs_guard [OF ok(1)]]
  from resolveLexical_InrE [OF lex g(1)] have p: "p = render True (?rs @ as @ [c])" and bs: "good_comps (as @ [c])"
    and hid: "\<not> AllowHiddenFiles (pg_policy ?g) \<Longrightarrow> \<not> list_ex isHiddenName (as @ [c])" using us by metis+
  have good: "good_comps ?rs" "good_comps (fs_eroot f)" using g by (simp_all add: clean_abs_good eroot_def)
  obtain k where rd: "lookup h (fs_eroot f) = Some (DirN k)" using fs_root_dir [OF ok(1)] by blast
  have w: "walk h m n [] (?rs @ cs) = walk h m n (fs_eroot f) cs" for m n cs
    using walk_dirs [OF wf rd good(2)] root by simp
  have R: "walk h m n [] ?rs = Inr (fs_eroot f)" for m n using w [of m n "[]"] by simp
  have lf: "link_free h (fs_eroot f) as" by (rule link_free_dirs [OF wf dir])
  have A: "walk h m n [] (?rs @ as) = Inr (fs_eroot f @ as)" for m n
    using link_free_walk [OF R lf] R bs by (cases "as = []") auto
  have parent: "Dir p = render True (?rs @ as)" using p good bs by (simp add: Dir_render butlast_append)
  have ne: "Dir p \<noteq> p" using parent p good bs render_inj [of "?rs @ as" "?rs @ as @ [c]"] by auto
  have "validateExistingPathPolicy h ?g (render True (?rs @ as)) = None"
  proof (cases "as = []")
    case True
    have "validatePathMetadata h (render True ?rs) (pg_policy ?g) = None"
      using R ok(2) good rd by (simp add: validatePathMetadata_def os_lstat_def stat_at_def quiet_def info_of_def fi_is_symlink_def)
    then show ?thesis using True validateExistingPathPolicy_eq [OF g(1), of "[]" h] g(1) by (simp add: clean_abs_def)
  next
    case False
    then show ?thesis
      using validateExistingPathPolicy_eq [OF g(1), of as h] link_free_validated [OF ok(2) g(1) R _ _ lf] bs hid by auto
  qed
  moreover have "evalEffectivePath h (render True (?rs @ as)) = Inr (render True (fs_eroot f @ as))"
    using A ok(2) good bs by (simp add: evalEffectivePath_def eval_symlinks_def quiet_def)
  moreover have "isInsideRoot (pg_root ?g) (render True (?rs @ as))"
    using isInsideRoot_iff [OF clean_abs_rooted [OF g(1)], of "render True (?rs @ as)"] good bs by simp
  ultimately have "existing_parent_loop h ?g p = Inr (render True (fs_eroot f @ as))"
    using ne parent by (subst existing_parent_loop.simps) (simp add: Let_def)
  moreover have "Clean p = p" using p good bs by (simp add: clean_abs_Clean_id)
  ultimately have "resolveExistingParent h ?g p = Inr (render True (fs_eroot f @ as))"
    by (simp add: resolveExistingParent_def)
  moreover have "evalEffectivePath h p = Inl (Errno ENOENT)"
    using miss ok(2) p us good bs by (simp add: evalEffectivePath_def eval_symlinks_def quiet_def)
  moreover have "isInsideRoot (pg_effectiveRoot ?g) (render True (fs_eroot f @ as))"
    using isInsideRoot_iff [OF clean_abs_rooted [OF g(2)], of "render True (fs_eroot f @ as)"] good bs
    by (simp add: eroot_def)
  ultimately show ?thesis by (simp add: ResolveForCreate_def lex is_not_exist_def)
qed

end
