(* ===== verification/FsProperties.thy ===== *)
theory FsProperties
  imports Sample LinkFacts
begin

text \<open>
  The properties of the path guard and of the sandboxed file operations, each with a
  witness on the sample host where it has hypotheses.
\<close>

subsection \<open>Runs of operations\<close>

text \<open>The calls a client can make through \<open>fs.FileSystem\<close> that may change the host.\<close>

datatype fs_call = WriteC string string bool | MkdirC string | DeleteC string bool
  | MoveC string string bool | CopyC string string bool

fun fs_exec :: "fsys \<Rightarrow> fs_call \<Rightarrow> host \<Rightarrow> host" where
  "fs_exec F (WriteC p d ow) h = fst (f_Write F h p d ow)"
| "fs_exec F (MkdirC p) h = fst (f_Mkdir F h p)"
| "fs_exec F (DeleteC p rec) h = fst (f_Delete F h p rec)"
| "fs_exec F (MoveC s t ow) h = fst (f_Move F h s t ow)"
| "fs_exec F (CopyC s t ow) h = fst (f_Copy F h s t ow)"

inductive fs_runs :: "fsys \<Rightarrow> host \<Rightarrow> host \<Rightarrow> bool" for F h where
  start: "fs_runs F h h"
| call: "fs_runs F h h1 \<Longrightarrow> fs_runs F h (fs_exec F c h1)"

context sandboxed begin

lemma exec_safe:
  assumes "inv h"
  shows "inv (fs_exec fsys c h) \<and> frame h (fs_exec fsys c h)"
proof (cases c)
  case (WriteC p d ow)
  then show ?thesis using write_safe [OF assms, of p d ow] by (metis fs_exec.simps(1) prod.collapse)
next
  case (MkdirC p)
  then show ?thesis using mkdir_safe [OF assms, of p] by (metis fs_exec.simps(2) prod.collapse)
next
  case (DeleteC p rec)
  then show ?thesis using delete_safe [OF assms, of p rec] by (metis fs_exec.simps(3) prod.collapse)
next
  case (MoveC s t ow)
  then show ?thesis using move_safe [OF assms, of s t ow] by (metis fs_exec.simps(4) prod.collapse)
next
  case (CopyC s t ow)
  then show ?thesis using copy_safe [OF assms, of s t ow] by (metis fs_exec.simps(5) prod.collapse)
qed

lemma runs_safe:
  assumes "fs_runs fsys h h'" "inv h"
  shows "inv h' \<and> frame h h'"
  using assms
proof (induction rule: fs_runs.induct)
  case start
  then show ?case using frame_refl by simp
next
  case (call h1 c)
  then show ?case using exec_safe [of h1 c] frame_trans by blast
qed

end

text \<open>What confinement says about single paths and files.\<close>

lemma confined_outside:
  assumes "sand_inv f h" "confined (fs_eroot f) h h'"
  shows "(\<forall>p. \<not> prefix (fs_root f) p \<longrightarrow> lookup h' p = lookup h p) \<and>
    (\<forall>p i. lookup h p = Some (RegN i) \<longrightarrow>
       (\<forall>q. prefix (fs_root f) q \<longrightarrow> lookup h q \<noteq> Some (RegN i)) \<longrightarrow> content h' i = content h i)"
proof (intro conjI allI impI)
  have r: "confined (fs_root f) h h'" using assms sand_eroot by metis
  show "lookup h' p = lookup h p" if "\<not> prefix (fs_root f) p" for p
    using r that by (simp add: confined_def)
  show "content h' i = content h i"
    if "lookup h p = Some (RegN i)" "\<forall>q. prefix (fs_root f) q \<longrightarrow> lookup h q \<noteq> Some (RegN i)" for p i
  proof -
    have "i < fresh h" using wf_fresh [of h p "RegN i"] assms(1) that(1) by (simp add: sand_inv_def)
    then show ?thesis using r that(2) unfolding confined_def by (meson not_less)
  qed
qed

subsection \<open>Properties\<close>

text \<open>
  C3: confinement. However many operations are run against a sandbox that contains no
  symbolic link, with links not followed, every entry outside the root is as it was, and
  so are the bytes of every file that has no hard link below the root.
\<close>

theorem sandbox_confinement:
  assumes "sand_inv f h" "fs_runs (local_fsys f) h h'"
  shows "sand_inv f h' \<and>
    (\<forall>p. \<not> prefix (fs_root f) p \<longrightarrow> lookup h' p = lookup h p) \<and>
    (\<forall>p i. lookup h p = Some (RegN i) \<longrightarrow>
       (\<forall>q. prefix (fs_root f) q \<longrightarrow> lookup h q \<noteq> Some (RegN i)) \<longrightarrow> content h' i = content h i)"
  using lfs.runs_safe [OF assms(2,1)] confined_outside [OF assms(1)] by blast

lemma sandbox_confinement_witness:
  "let h' = fs_exec (local_fsys sample_fs) (CopyC ''a.txt'' ''sub/c'' True)
              (fs_exec (local_fsys sample_fs) (DeleteC ''sub'' True) clean_host)
   in lookup h' [''etc'', ''passwd''] = lookup clean_host [''etc'', ''passwd''] \<and> content h' 8 = ''root''"
proof -
  let ?h = "fs_exec (local_fsys sample_fs) (CopyC ''a.txt'' ''sub/c'' True)
      (fs_exec (local_fsys sample_fs) (DeleteC ''sub'' True) clean_host)"
  have run: "fs_runs (local_fsys sample_fs) clean_host ?h" by (intro fs_runs.intros)
  have r: "fs_root sample_fs = [''srv'']" by code_simp
  have p: "lookup clean_host [''etc'', ''passwd''] = Some (RegN 8)" by code_simp
  have "lookup clean_host q \<noteq> Some (RegN 8)" if "prefix [''srv''] q" for q
    using wf_ino [OF sample_wf(1) p, of q "RegN 8"] that
    by (auto simp: lookup_def clean_host_def sample_entries_def split: if_splits)
  with sandbox_confinement [OF sample_sand run] p
  have "lookup ?h [''etc'', ''passwd''] = lookup clean_host [''etc'', ''passwd'']"
    "content ?h 8 = content clean_host 8"
    unfolding r by (simp, blast)
  then show ?thesis by (simp add: Let_def clean_host_def)
qed

text \<open>
  C39: the exception. In a sandbox whose root is reached without links and whose policy
  does not follow them, let the last component of an acceptable path be a symbolic link with
  an absolute target that does not exist, in a directory that does. Without faults of the
  host, a write with \<open>overwrite\<close> within the size limit succeeds: it creates the target
  of the link with the data, wherever it is - nothing ties it to the root - and changes no
  other entry; the link stays.
\<close>

theorem dangling_link_escape:
  assumes "fs_ok h f" "quiet h" "fs_root f = fs_eroot f"
    and "resolveLexical h (lf_guard f) u = Inr p"
    and "lookup h (fs_eroot f @ user_comps u) = Some (LinkN i (render True (ds @ [e])))"
    and "good_comps (ds @ [e])" "lookup h ds = Some (DirN j)" "lookup h (ds @ [e]) = None"
    and "int (length d) \<le> MaxWriteBytes (lf_limits f)"
  shows "\<exists>h'. fs_Write h f u d True = (h', None) \<and>
    (\<forall>q. lookup h' q = (if q = ds @ [e] then Some (RegN (fresh h)) else lookup h q)) \<and>
    content h' = (content h)(fresh h := d)"
proof -
  let ?g = "lf_guard f" and ?rs = "fs_root f" and ?t = "render True (ds @ [e])"
  note wf = fs_wf [OF assms(1)] and g = guard_clean [OF fs_guard [OF assms(1)]]
  obtain k where rd: "lookup h (fs_eroot f) = Some (DirN k)" using fs_root_dir [OF assms(1)] by blast
  obtain as c where us: "user_comps u = as @ [c]" using assms(5) rd by (cases "user_comps u" rule: rev_cases) auto
  from resolveLexical_InrE [OF assms(4) g(1)] have p: "p = render True (?rs @ as @ [c])" and bs: "good_comps (as @ [c])"
    using us by metis+
  have good: "good_comps ?rs" "good_comps (fs_eroot f)" using g by (simp_all add: clean_abs_good eroot_def)
  obtain l where dir: "lookup h (fs_eroot f @ as) = Some (DirN l)"
    using wf_prefix_dir [OF wf, of "fs_eroot f @ as" "[c]"] assms(5) us by auto
  have target: "walk h m n [] (split_on sep ?t) = walk h m n ds [e]" for m n
    using walk_dirs [OF wf assms(7), of m n "[e]"] assms(6) by (simp add: split_render_True)
  have w: "walk h m (Suc n) [] (?rs @ user_comps u) = (if m = Create then Inr (ds @ [e]) else Inl ENOENT)" if "m \<noteq> NoFollow" for m n
  proof -
    have "walk h m (Suc n) [] (?rs @ user_comps u) = walk h m (Suc n) (fs_eroot f @ as) [c]"
      using walk_dirs [OF wf dir, of m "Suc n" "[c]"] good bs us assms(3) by simp
    also have "\<dots> = walk h m n [] (split_on sep ?t)"
      using bs assms(5) us that by (simp add: walk_last is_rooted_render)
    finally show ?thesis using assms(6,8) by (simp add: target walk_last)
  qed
  have links: "eval_links = Suc 254" "kernel_links = Suc 39" by (simp_all add: eval_links_def kernel_links_def)
  have miss: "walk h Follow eval_links [] (?rs @ user_comps u) = Inl ENOENT"
    and stat: "walk h Follow kernel_links [] (?rs @ user_comps u) = Inl ENOENT"
    and op: "walk h Create kernel_links [] (?rs @ user_comps u) = Inr (ds @ [e])" using w [of Follow 254] w [of Follow 39] w [of Create 39] unfolding links by simp_all
  have sp: "ResolveForCreate h ?g u = Inr \<lparr>sp_path = p\<rparr>"
    by (rule ResolveForCreate_dangling [OF assms(1-4) us dir miss])
  have k: "kpath h p = ?rs @ user_comps u" using p us good bs by simp
  let ?h = "new_file h (ds @ [e]) 0x180"
  have o: "open_target h p True 0x180 = (?h, Inr (fresh h))"
    using assms(2,8) op by (simp add: open_target_def os_open_write_def write_flags_def quiet_def k)
  have new: "content ?h = (content h)(fresh h := [])" "write_fault ?h = write_fault h"
    by (simp_all add: new_file_def add_entry_def new_inode_def)
  have "os_stat h p = Inl (Errno ENOENT)" using assms(2) stat by (simp add: os_stat_def stat_at_def quiet_def k)
  then have "fs_Write h f u d True = (?h\<lparr>content := (content h)(fresh h := d)\<rparr>, None)"
    using assms(2,9) sp o new
    by (simp add: fs_Write_def sp_String_def Let_def is_not_exist_def fd_write_def quiet_def)
  moreover have "lookup (?h\<lparr>content := (content h)(fresh h := d)\<rparr>) q = lookup ?h q" for q by (simp add: lookup_def)
  ultimately show ?thesis by (simp add: lookup_new_file)
qed

lemma dangling_link_escape_witness:
  "\<exists>h'. fs_Write sample_host sample_fs ''out'' ''data'' True = (h', None) \<and>
    lookup h' [''etc'', ''new''] = Some (RegN 9) \<and> content h' 9 = ''data'' \<and>
    lookup h' [''srv'', ''out''] = Some (LinkN 3 ''/etc/new'')"
proof -
  have r: "fs_root sample_fs = fs_eroot sample_fs" "user_comps ''out'' = [''out'']" "fs_eroot sample_fs = [''srv'']" by code_simp+
  have l: "resolveLexical sample_host (lf_guard sample_fs) ''out'' = Inr ''/srv/out''" by code_simp
  have n: "lookup sample_host [''srv'', ''out''] = Some (LinkN 3 (render True ([''etc''] @ [''new''])))"
    "lookup sample_host [''etc''] = Some (DirN 4)" "lookup sample_host ([''etc''] @ [''new'']) = None"
    "good_comps ([''etc''] @ [''new''])" "int (length ''data'') \<le> MaxWriteBytes (lf_limits sample_fs)" by code_simp+
  have x: "render True ([''etc''] @ [''new'']) = ''/etc/new''" by code_simp
  have "fresh sample_host = 9" by (simp add: sample_host_def clean_host_def)
  then show ?thesis
    using dangling_link_escape [OF sample_fs_ok(2) sample_quiet(2) r(1) l, of 3 "[''etc'']" "''new''" 4 "''data''"] n
    unfolding r by (auto simp: x [simplified])
qed

text \<open>
  C12: lexical resolution is exactly this: refused UNC paths, rooted paths, paths that
  climb above the root, paths with a hidden component; otherwise the root followed by the
  components of the cleaned path.
\<close>

theorem lexical_resolution_exact:
  assumes "clean_abs (pg_root g)"
  shows "resolveLexical h g u =
    (if \<not> AllowUNCPaths (pg_policy g) \<and> isUNCPath (normalizeUserPath u) then Inl ErrUNCPathDenied
     else if is_rooted u then Inl ErrAbsolutePath
     else if ''..'' \<in> set (user_comps u) then Inl ErrPathTraversal
     else if \<not> AllowHiddenFiles (pg_policy g) \<and> list_ex isHiddenName (user_comps u)
       then Inl ErrHiddenPathDenied
     else Inr (render True (path_comps (pg_root g) @ user_comps u)))"
  by (rule resolveLexical_eq [OF assms])

lemma lexical_resolution_exact_witness:
  "resolveLexical clean_host sample_guard ''sub/../a.txt'' = Inr ''/srv/a.txt'' \<and>
   resolveLexical clean_host sample_guard ''../etc'' = Inl ErrPathTraversal"
proof -
  have c: "clean_abs (pg_root sample_guard)" by code_simp
  show ?thesis unfolding lexical_resolution_exact [OF c] by code_simp
qed

text \<open>
  C16: an existing path that the guard accepts, under any policy, leads to an entry below
  the physical root when every link on the way is followed.
\<close>

theorem resolved_path_inside:
  assumes "ResolveExisting h g u = Inr sp" "guard_ok h g"
  shows "\<exists>q. walk h Follow eval_links [] (path_comps (sp_path sp)) = Inr q \<and> prefix (eroot g) q"
  using ResolveExisting_inside [OF assms] by metis

lemma resolved_path_inside_witness:
  "\<exists>q. walk sample_host Follow eval_links [] (path_comps ''/srv/sub/b'') = Inr q \<and> prefix (eroot sample_guard) q"
proof -
  have "ResolveExisting sample_host sample_guard ''sub/b'' = Inr \<lparr>sp_path = ''/srv/sub/b''\<rparr>" by code_simp
  from resolved_path_inside [OF this sample_guard_ok(2)] show ?thesis by simp
qed

text \<open>
  C23: constructing a guard establishes the invariant the other properties assume: a clean
  absolute root whose walk ends at an existing directory, the recorded effective root.
\<close>

theorem guard_construction:
  assumes "NewPathGuardWithPolicy h r pol = Inr g" "host_wf h" "\<forall>w. wd h = Some w \<longrightarrow> is_rooted w"
  shows "guard_ok h g \<and> pg_policy g = pol"
  by (rule NewPathGuard_ok [OF assms])

lemma guard_construction_witness: "guard_ok clean_host sample_guard \<and> pg_policy sample_guard = DefaultPolicy"
proof -
  have n: "NewPathGuardWithPolicy clean_host ''srv/'' DefaultPolicy = Inr sample_guard" by code_simp
  have w: "\<forall>w. wd clean_host = Some w \<longrightarrow> is_rooted w" by (simp add: clean_host_def)
  show ?thesis by (rule guard_construction [OF n sample_wf(1) w])
qed

text \<open>
  C24: what \<open>ResolveForCreate\<close> accepts when links are not followed: an existing path
  without links, or a path whose first missing component lies in a directory reached
  without links, or, last, a link to something missing.
\<close>

theorem create_target_cases:
  assumes "ResolveForCreate h g u = Inr sp" "guard_ok h g" "host_wf h" "\<not> FollowSymlinks (pg_policy g)"
  shows "(\<exists>n. link_free h (eroot g) (user_comps u) \<and> lookup h (eroot g @ user_comps u) = Some n \<and> \<not> is_linkN n) \<or>
    (\<exists>as c rest i. user_comps u = as @ c # rest \<and> link_free h (eroot g) as \<and>
       lookup h (eroot g @ as) = Some (DirN i) \<and>
       (lookup h (eroot g @ as @ [c]) = None \<or>
        rest = [] \<and> (\<exists>j t. lookup h (eroot g @ as @ [c]) = Some (LinkN j t))))"
  using assms
proof (cases rule: ResolveForCreate_cases)
  case 1
  then show ?thesis using link_free_exists by (auto simp: resolved_def)
next
  case (2 as c rest)
  then show ?thesis unfolding creatable_def by blast
qed

lemma create_target_cases_witness:
  "lookup sample_host [''srv'', ''sub''] = Some (DirN 6) \<and> lookup sample_host [''srv'', ''sub'', ''new''] = None \<and>
   ((\<exists>n. link_free sample_host [''srv''] [''sub'', ''new'', ''x''] \<and>
       lookup sample_host [''srv'', ''sub'', ''new'', ''x''] = Some n \<and> \<not> is_linkN n) \<or>
    (\<exists>as c rest i. [''sub'', ''new'', ''x''] = as @ c # rest \<and> link_free sample_host [''srv''] as \<and>
       lookup sample_host (''srv'' # as) = Some (DirN i) \<and>
       (lookup sample_host (''srv'' # as @ [c]) = None \<or>
        rest = [] \<and> (\<exists>j t. lookup sample_host (''srv'' # as @ [c]) = Some (LinkN j t)))))"
proof -
  have r: "ResolveForCreate sample_host sample_guard ''sub/new/x'' = Inr \<lparr>sp_path = ''/srv/sub/new/x''\<rparr>"
    by code_simp
  have u: "user_comps ''sub/new/x'' = [''sub'', ''new'', ''x'']" "eroot sample_guard = [''srv'']" by code_simp+
  have f: "\<not> FollowSymlinks (pg_policy sample_guard)" by code_simp
  have l: "lookup sample_host [''srv'', ''sub''] = Some (DirN 6)"
    "lookup sample_host [''srv'', ''sub'', ''new''] = None" by code_simp+
  from create_target_cases [OF r sample_guard_ok(2) sample_wf(2) f] show ?thesis
    unfolding u append_Cons append_Nil using l by blast
qed

end
