(* ===== verification/FsProperties2.thy ===== *)
theory FsProperties2
  imports FsProperties
begin

text \<open>
  The properties of each sandboxed operation: what it returns, what it leaves behind, its
  limits, and the cases where the code does not do what its callers expect.
\<close>

lemma sample_final_link: "final_link sample_host sample_fs ''out''"
proof -
  have "lookup sample_host (fs_eroot sample_fs @ user_comps ''out'') = Some (LinkN 3 ''/etc/new'')" by code_simp
  then show ?thesis by (auto simp: final_link_def)
qed

lemma read_after_write:
  assumes "fs_Write h f u d ow = (h', None)" "fs_ok h f" "quiet h" "\<not> ow \<or> \<not> final_link h f u"
    and "0 < mx" "int (length d) \<le> mx"
  shows "fs_Read h' f u mx = Inr d"
proof -
  from fs_Write_Inr [OF assms(1,2,4)] obtain i where
    i: "lookup h' (fs_eroot f @ user_comps u) = Some (RegN i)" "content h' = (content h)(i := d)"
    "link_free h' (fs_eroot f) (user_comps u)" "fault h' = fault h" "write_fault h' = write_fault h"
    "walk h' Follow kernel_links [] (fs_root f) = Inr (fs_eroot f)" "user_comps u \<noteq> []" by metis
  have q: "quiet h'" using assms(3) i(4,5) by (simp add: quiet_def)
  obtain sp where sp: "ResolveForCreate h (lf_guard f) u = Inr sp"
    using assms(1) by (auto simp: fs_Write_def split: sum.splits)
  note lex = ResolveForCreate_lex [OF sp]
  note g = guard_clean [OF fs_guard [OF assms(2)]]
  have r: "ResolveExisting h' (lf_guard f) u = Inr \<lparr>sp_path = sp_path sp\<rparr>"
    by (rule ResolveExisting_complete [OF q g i(6) lex i(3,7)])
  from resolveLexical_InrE [OF lex g(1)] have p: "sp_path sp = render True (fs_root f @ user_comps u)"
    and us: "good_comps (user_comps u)" by metis+
  have good: "good_comps (fs_root f @ user_comps u)" using us g(1) by (simp add: clean_abs_good)
  have "walk h' Follow kernel_links [] (fs_root f @ user_comps u) = Inr (fs_eroot f @ user_comps u)"
    by (rule link_free_walk [OF i(6,3) us i(7)])
  then show ?thesis
    using r q i(1,2) assms(5,6) p good
    by (simp add: fs_Read_def sp_String_def os_stat_def stat_at_def os_read_file_def quiet_def)
qed

text \<open>
  C17: what was written is what is read, with one exception. Links are not followed, and the
  host has no faults. After a successful write, a read of the same path with a
  sufficient limit returns exactly the data - unless the write overwrote through a final
  symbolic link: then the data is not at the path, and the read is refused.
\<close>

theorem write_then_read:
  assumes "fs_Write h f u d ow = (h', None)" "fs_ok h f" "quiet h" "0 < mx" "int (length d) \<le> mx"
  shows "fs_Read h' f u mx = (if ow \<and> final_link h f u then Inl ErrSymlinkDenied else Inr d)"
proof (cases "ow \<and> final_link h f u")
  case True
  then show ?thesis using read_after_write_link [OF _ assms(2,3)] assms(1) by simp
next
  case False
  then show ?thesis using read_after_write [OF assms(1-3) _ assms(4,5)] by auto
qed

lemma write_then_read_witness:
  "fs_Read (fst (fs_Write clean_host sample_fs ''sub/new.txt'' ''data'' False)) sample_fs ''sub/new.txt'' 10
    = Inr ''data'' \<and>
   snd (fs_Write sample_host sample_fs ''out'' ''data'' True) = None \<and>
   fs_Read (fst (fs_Write sample_host sample_fs ''out'' ''data'' True)) sample_fs ''out'' 10 = Inl ErrSymlinkDenied"
proof -
  have e: "snd (fs_Write clean_host sample_fs ''sub/new.txt'' ''data'' False) = None"
    "snd (fs_Write sample_host sample_fs ''out'' ''data'' True) = None" by code_simp+
  then have w: "fs_Write clean_host sample_fs ''sub/new.txt'' ''data'' False =
      (fst (fs_Write clean_host sample_fs ''sub/new.txt'' ''data'' False), None)"
    "fs_Write sample_host sample_fs ''out'' ''data'' True = (fst (fs_Write sample_host sample_fs ''out'' ''data'' True), None)"
    by (simp_all add: prod_eq_iff)
  show ?thesis
    using write_then_read [OF w(1) sample_fs_ok(1) sample_quiet(1), of 10]
      write_then_read [OF w(2) sample_fs_ok(2) sample_quiet(2), of 10] sample_final_link e(2) by simp
qed

text \<open>
  C27: a read returns the whole content of the regular file the path names, and never more
  than \<open>maxBytes\<close> bytes.
\<close>

theorem read_bounded:
  assumes "fs_Read h f u mx = Inr d" "fs_ok h f"
  shows "int (length d) \<le> mx \<and>
    (\<exists>i. lookup h (fs_eroot f @ user_comps u) = Some (RegN i) \<and> d = content h i)"
  using fs_Read_Inr [OF assms] by metis

lemma read_bounded_witness:
  "int (length ''hello'') \<le> 5 \<and>
    (\<exists>i. lookup sample_host (fs_eroot sample_fs @ user_comps ''./a.txt'') = Some (RegN i) \<and> ''hello'' = content sample_host i)"
proof -
  have "fs_Read sample_host sample_fs ''./a.txt'' 5 = Inr ''hello''" by code_simp
  from read_bounded [OF this sample_fs_ok(2)] show ?thesis .
qed

text \<open>
  C22: a listing has exactly the entries of the directory that are neither symbolic links
  nor (unless the policy allows them) hidden, sorted by name, and at most \<open>MaxListEntries\<close>.
\<close>

theorem list_exact:
  assumes "fs_List h f u = Inr es" "fs_ok h f" "0 \<le> MaxListEntries (lf_limits f)"
  shows "map (\<lambda>e. (e_name e, e_isDir e)) es =
      map (\<lambda>(name, n). (name, is_dirN n))
        (filter (visible (pg_policy (lf_guard f))) (sort_key fst (children h (fs_eroot f @ user_comps u)))) \<and>
    int (length es) \<le> MaxListEntries (lf_limits f)"
  using fs_List_Inr [OF assms] by simp

lemma list_exact_witness:
  "map (\<lambda>(name, n). (name, is_dirN n))
     (filter (visible DefaultPolicy) (sort_key fst (children sample_host [''srv''])))
   = [(''a.txt'', False), (''sub'', True)]"
proof -
  have l: "fs_List sample_host sample_fs ''.'' = Inr [\<lparr>e_name = ''a.txt'', e_isDir = False, e_size = 5\<rparr>,
      \<lparr>e_name = ''sub'', e_isDir = True, e_size = 64\<rparr>]" by code_simp
  have m: "0 \<le> MaxListEntries (lf_limits sample_fs)" by code_simp
  have e: "fs_eroot sample_fs @ user_comps ''.'' = [''srv'']" "pg_policy (lf_guard sample_fs) = DefaultPolicy"
    by code_simp (simp add: sample_fs_def sample_guard_def)
  from list_exact [OF l sample_fs_ok(2) m] show ?thesis unfolding e by simp
qed

text \<open>
  C18: a successful delete removes exactly the entry and what is below it. A directory is
  removed only when it is empty or, with \<open>recursive\<close>, when at most
  \<open>MaxDeleteEntries\<close> entries are below it.
\<close>

theorem delete_result:
  assumes "fs_Delete h f u rec = (h', None)" "fs_ok h f" "0 \<le> MaxDeleteEntries (lf_limits f)"
  shows "(\<forall>p. lookup h' p = (if prefix (fs_eroot f @ user_comps u) p then None else lookup h p)) \<and>
    (\<forall>i. lookup h (fs_eroot f @ user_comps u) = Some (DirN i) \<longrightarrow>
       (if rec then int (below_count h (fs_eroot f @ user_comps u)) \<le> MaxDeleteEntries (lf_limits f)
        else \<forall>c. lookup h (fs_eroot f @ user_comps u @ [c]) = None))"
proof (intro conjI allI impI)
  show "lookup h' p = (if prefix (fs_eroot f @ user_comps u) p then None else lookup h p)" for p
    using fs_Delete_None [OF assms(1,2)] by (simp add: lookup_del_tree)
  fix i assume d: "lookup h (fs_eroot f @ user_comps u) = Some (DirN i)"
  show "if rec then int (below_count h (fs_eroot f @ user_comps u)) \<le> MaxDeleteEntries (lf_limits f)
        else \<forall>c. lookup h (fs_eroot f @ user_comps u @ [c]) = None"
    using fs_Delete_limit [of h f u h' i] fs_Delete_nonrecursive [of h f u h' i] assms d by (cases rec) auto
qed

lemma delete_result_witness:
  "lookup (fst (fs_Delete clean_host sample_fs ''sub'' True)) [''srv'', ''sub'', ''b''] = None"
proof -
  have "snd (fs_Delete clean_host sample_fs ''sub'' True) = None" by code_simp
  then have d: "fs_Delete clean_host sample_fs ''sub'' True = (fst (fs_Delete clean_host sample_fs ''sub'' True), None)"
    by (simp add: prod_eq_iff)
  have m: "0 \<le> MaxDeleteEntries (lf_limits sample_fs)" by code_simp
  have u: "fs_eroot sample_fs @ user_comps ''sub'' = [''srv'', ''sub'']" by code_simp
  from delete_result [OF d sample_fs_ok(1) m] show ?thesis unfolding u by simp
qed

text \<open>
  A delete of \<open>.\<close> is not refused: with \<open>recursive\<close> it removes the sandbox root itself.
\<close>

lemma delete_removes_root:
  "lookup clean_host [''srv''] = Some (DirN 1) \<and>
   (case fs_Delete clean_host sample_fs ''.'' True of (h', e) \<Rightarrow> e = None \<and> lookup h' [''srv''] = None) \<and>
   snd (fs_Mkdir (fst (fs_Delete clean_host sample_fs ''.'' True)) sample_fs ''x'') = Inl ErrOutsideRoot"
  by code_simp

text \<open>
  C19: a successful move takes the source's subtree to the target and leaves nothing at the
  source. The source is no link, the target is not below the source, and without
  \<open>overwrite\<close> the target was missing or a link to something missing.
\<close>

theorem move_result:
  assumes "fs_Move h f s t ow = (h', None)" "fs_ok h f"
  shows "(\<forall>xs. lookup h (fs_eroot f @ user_comps s @ xs) \<noteq> None \<longrightarrow>
       lookup h' (fs_eroot f @ user_comps t @ xs) = lookup h (fs_eroot f @ user_comps s @ xs)) \<and>
    (\<forall>xs. \<not> prefix (fs_eroot f @ user_comps t) (fs_eroot f @ user_comps s @ xs) \<longrightarrow>
       lookup h' (fs_eroot f @ user_comps s @ xs) = None) \<and>
    (\<forall>p. \<not> prefix (fs_eroot f @ user_comps s) p \<longrightarrow> \<not> prefix (fs_eroot f @ user_comps t) p \<longrightarrow>
       lookup h' p = lookup h p) \<and>
    \<not> prefix (fs_eroot f @ user_comps s) (fs_eroot f @ user_comps t) \<and>
    (\<not> ow \<longrightarrow> lookup h (fs_eroot f @ user_comps t) = None \<or> final_link h f t)"
proof -
  let ?S = "fs_eroot f @ user_comps s" and ?T = "fs_eroot f @ user_comps t"
  note m = fs_Move_moves [OF assms]
  have lk: "lookup h' p = (if prefix ?T p then (if prefix ?T (?S @ drop (length ?T) p) then None
        else lookup h (?S @ drop (length ?T) p)) else if prefix ?S p then None else lookup h p)" for p
    using m lookup_move_tree [of h ?S ?T p] by simp
  have "lookup h' (?T @ xs) = lookup h (?S @ xs)" if "lookup h (?S @ xs) \<noteq> None" for xs
  proof -
    have "\<not> prefix ?T (?S @ xs)"
    proof
      assume p: "prefix ?T (?S @ xs)"
      then have "prefix ?T ?S \<or> prefix ?S ?T" by (meson prefix_same_cases prefixI)
      then have "prefix ?T ?S" using m by blast
      moreover have "?T \<noteq> ?S" using m by auto
      ultimately obtain zs where "?S = ?T @ zs" "zs \<noteq> []" by (auto simp: prefix_def)
      moreover obtain n where "lookup h ?S = Some n" using m by blast
      ultimately obtain i where "lookup h ?T = Some (DirN i)"
        using wf_prefix_dir [OF fs_wf [OF assms(2)], of ?T zs n] by auto
      then show False using m by (auto simp: final_link_def)
    qed
    then show ?thesis using lk [of "?T @ xs"] by simp
  qed
  moreover have "lookup h' (?S @ xs) = None" if "\<not> prefix ?T (?S @ xs)" for xs
    using lk [of "?S @ xs"] that by simp
  moreover have "lookup h' p = lookup h p" if "\<not> prefix ?S p" "\<not> prefix ?T p" for p
    using lk [of p] that by simp
  ultimately show ?thesis using m by (simp, blast)
qed

lemma move_result_witness:
  "lookup (fst (fs_Move clean_host sample_fs ''sub'' ''new'' False)) [''srv'', ''new'', ''b'']
    = lookup clean_host [''srv'', ''sub'', ''b'']"
proof -
  have "snd (fs_Move clean_host sample_fs ''sub'' ''new'' False) = None" by code_simp
  then have m: "fs_Move clean_host sample_fs ''sub'' ''new'' False =
      (fst (fs_Move clean_host sample_fs ''sub'' ''new'' False), None)" by (simp add: prod_eq_iff)
  have u: "fs_eroot sample_fs = [''srv'']" "user_comps ''sub'' = [''sub'']" "user_comps ''new'' = [''new'']"
    by code_simp+
  have l: "lookup clean_host [''srv'', ''sub'', ''b''] = Some (RegN 7)" by code_simp
  from move_result [OF m sample_fs_ok(1)] l show ?thesis
    unfolding u by (metis append_Cons append_Nil option.distinct(1))
qed

text \<open>
  Here \<open>overwrite\<close> is false and the target exists as a link to something missing: the
  move still succeeds and replaces the link.
\<close>

lemma move_replaces_dangling_link:
  "lookup sample_host [''srv'', ''out''] = Some (LinkN 3 ''/etc/new'') \<and>
   (case fs_Move sample_host sample_fs ''a.txt'' ''out'' False of
      (h', e) \<Rightarrow> e = None \<and> lookup h' [''srv'', ''out''] = Some (RegN 2))"
  by code_simp

text \<open>
  C30: a race is noticed. If another process acts between the checks and the rename, a move
  succeeds only when the source is still the same file and the target is still missing or
  still the same file.
\<close>

theorem move_revalidates:
  assumes "Move_during env h f s t ow = (h', None)"
  shows "\<exists>sp tp si ci. ResolveExisting h (lf_guard f) s = Inr sp \<and> ResolveForCreate h (lf_guard f) t = Inr tp \<and>
    os_stat h (sp_path sp) = Inr si \<and> os_stat (env h) (sp_path sp) = Inr ci \<and> SameFile si ci \<and>
    (os_stat h (sp_path tp) = Inl (Errno ENOENT) \<longrightarrow> os_stat (env h) (sp_path tp) = Inl (Errno ENOENT)) \<and>
    (\<forall>ti. os_stat h (sp_path tp) = Inr ti \<longrightarrow>
       (\<exists>ct. os_stat (env h) (sp_path tp) = Inr ct \<and> SameFile ti ct))"
  by (rule Move_during_race [OF assms]) blast

lemma move_revalidates_witness:
  "(\<exists>sp tp si ci. ResolveExisting clean_host sample_guard ''a.txt'' = Inr sp \<and>
      ResolveForCreate clean_host sample_guard ''c'' = Inr tp \<and>
      os_stat clean_host (sp_path sp) = Inr si \<and> os_stat sample_host (sp_path sp) = Inr ci \<and> SameFile si ci) \<and>
   snd (Move_during (\<lambda>h. del_tree h [''srv'', ''a.txt'']) clean_host sample_fs ''a.txt'' ''c'' False) = Some ErrNotFound \<and>
   snd (Move_during (\<lambda>h. new_file h [''srv'', ''c''] 0) clean_host sample_fs ''a.txt'' ''c'' False) = Some ErrMovePathChanged"
proof -
  have "snd (Move_during (\<lambda>h. sample_host) clean_host sample_fs ''a.txt'' ''c'' False) = None" by code_simp
  then have m: "Move_during (\<lambda>h. sample_host) clean_host sample_fs ''a.txt'' ''c'' False =
      (fst (Move_during (\<lambda>h. sample_host) clean_host sample_fs ''a.txt'' ''c'' False), None)"
    by (simp add: prod_eq_iff)
  have g: "lf_guard sample_fs = sample_guard" by (simp add: sample_fs_def)
  have "snd (Move_during (\<lambda>h. del_tree h [''srv'', ''a.txt'']) clean_host sample_fs ''a.txt'' ''c'' False) = Some ErrNotFound"
    "snd (Move_during (\<lambda>h. new_file h [''srv'', ''c''] 0) clean_host sample_fs ''a.txt'' ''c'' False) = Some ErrMovePathChanged"
    by code_simp+
  moreover note move_revalidates [OF m, unfolded g]
  ultimately show ?thesis by blast
qed

text \<open>
  C28: after a successful Mkdir the directory exists, every old entry is still there, and the
  result says whether the directory is new.
\<close>

theorem mkdir_result:
  assumes "fs_Mkdir h f u = (h', Inr b)" "fs_ok h f"
  shows "(\<exists>i. lookup h' (fs_eroot f @ user_comps u) = Some (DirN i)) \<and>
    (\<forall>p n. lookup h p = Some n \<longrightarrow> lookup h' p = Some n) \<and>
    b = (lookup h (fs_eroot f @ user_comps u) = None)"
  using fs_Mkdir_Inr [OF assms] by (simp add: extends_def)

lemma mkdir_result_witness:
  "\<exists>i. lookup (fst (fs_Mkdir clean_host sample_fs ''x/y'')) [''srv'', ''x'', ''y''] = Some (DirN i)"
proof -
  have "snd (fs_Mkdir clean_host sample_fs ''x/y'') = Inr True" by code_simp
  then have m: "fs_Mkdir clean_host sample_fs ''x/y'' = (fst (fs_Mkdir clean_host sample_fs ''x/y''), Inr True)"
    by (simp add: prod_eq_iff)
  have u: "fs_eroot sample_fs @ user_comps ''x/y'' = [''srv'', ''x'', ''y'']" by code_simp
  from mkdir_result [OF m sample_fs_ok(1)] show ?thesis unfolding u by blast
qed

text \<open>
  C29: a successful copy, where links are not followed. The source is a regular file within
  the copy limit. If the target is no link, it is afterwards a regular file with the
  bytes of the source - or empty, when both names are the same file, because opening the
  target truncated the source - and no other content changes. If the target is a link
  (to something missing), the link stays as it is and the bytes are in a new file where
  its text leads. Without \<open>overwrite\<close> the target was missing.
\<close>

theorem copy_result:
  assumes "fs_Copy h f s t ow = (h', None)" "fs_ok h f"
  shows "\<exists>si. lookup h (fs_eroot f @ user_comps s) = Some (RegN si) \<and>
    int (length (content h si)) \<le> MaxCopyBytes (lf_limits f) \<and>
    (case lookup h (fs_eroot f @ user_comps t) of
       Some (LinkN i l) \<Rightarrow> ow \<and>
         (\<exists>q. link_leads h (fs_eroot f @ user_comps t) l q \<and> lookup h q = None \<and>
            (\<forall>p. lookup h' p = (if p = q then Some (RegN (fresh h)) else lookup h p)) \<and>
            content h' = (content h)(fresh h := content h si))
     | target \<Rightarrow> (target \<noteq> None \<longrightarrow> ow) \<and>
         (\<exists>ti. lookup h' (fs_eroot f @ user_comps t) = Some (RegN ti) \<and>
            content h' ti = (if ti = si then [] else content h si) \<and>
            (\<forall>j. j \<noteq> ti \<longrightarrow> content h' j = content h j)))"
proof (cases "ow \<and> final_link h f t")
  case True
  then obtain i l where l: "lookup h (fs_eroot f @ user_comps t) = Some (LinkN i l)" by (auto simp: final_link_def)
  have "fs_Copy h f s t True = (h', None)" using assms(1) True by simp
  then obtain si q where c: "lookup h (fs_eroot f @ user_comps s) = Some (RegN si)"
    "link_leads h (fs_eroot f @ user_comps t) l q" "lookup h q = None"
    "\<forall>p. lookup h' p = (if p = q then Some (RegN (fresh h)) else lookup h p)"
    "content h' = (content h)(fresh h := content h si)" "int (length (content h si)) \<le> MaxCopyBytes (lf_limits f)"
    by (rule fs_Copy_link [OF _ assms(2) l]) blast
  then show ?thesis using True unfolding l option.case node.case by blast
next
  case False
  then have nl: "\<not> ow \<or> \<not> final_link h f t" by blast
  obtain si ti where c: "lookup h (fs_eroot f @ user_comps s) = Some (RegN si)"
    "lookup h' (fs_eroot f @ user_comps t) = Some (RegN ti)"
    "content h' ti = (if ti = si then [] else content h si)" "\<forall>j. j \<noteq> ti \<longrightarrow> content h' j = content h j"
    "int (length (content h si)) \<le> MaxCopyBytes (lf_limits f)" "\<not> ow \<longrightarrow> lookup h (fs_eroot f @ user_comps t) = None"
    by (rule fs_Copy_Inr [OF assms nl]) blast
  then show ?thesis using nl by (auto simp: final_link_def split: option.split node.split)
qed

lemma copy_result_witness:
  "(\<exists>ti. lookup (fst (fs_Copy clean_host sample_fs ''a.txt'' ''c'' False)) [''srv'', ''c''] = Some (RegN ti) \<and>
     content (fst (fs_Copy clean_host sample_fs ''a.txt'' ''c'' False)) ti \<in> {[], ''hello''}) \<and>
   lookup (fst (fs_Copy sample_host sample_fs ''a.txt'' ''out'' True)) [''srv'', ''out''] = Some (LinkN 3 ''/etc/new'')"
proof -
  let ?c = "fs_Copy clean_host sample_fs ''a.txt'' ''c'' False" and ?l = "fs_Copy sample_host sample_fs ''a.txt'' ''out'' True"
  have "snd ?c = None" "snd ?l = None" by code_simp+
  then have m: "?c = (fst ?c, None)" "?l = (fst ?l, None)" by (simp_all add: prod_eq_iff)
  have u: "fs_eroot sample_fs @ user_comps ''a.txt'' = [''srv'', ''a.txt'']" "fs_eroot sample_fs @ user_comps ''c'' = [''srv'', ''c'']"
    "fs_eroot sample_fs @ user_comps ''out'' = [''srv'', ''out'']" by code_simp+
  have l: "lookup clean_host [''srv'', ''a.txt''] = Some (RegN 2)" "lookup clean_host [''srv'', ''c''] = None"
    "lookup sample_host [''srv'', ''out''] = Some (LinkN 3 ''/etc/new'')" "content clean_host 2 = ''hello''" by code_simp+
  have "\<exists>ti. lookup (fst ?c) [''srv'', ''c''] = Some (RegN ti) \<and> content (fst ?c) ti \<in> {[], ''hello''}"
    using copy_result [OF m(1) sample_fs_ok(1)] l unfolding u by auto
  moreover have "lookup (fst ?l) [''srv'', ''out''] = Some (LinkN 3 ''/etc/new'')"
    using copy_result [OF m(2) sample_fs_ok(2)] l unfolding u by auto
  ultimately show ?thesis by simp
qed

text \<open>
  Copying a file onto itself with \<open>overwrite\<close> succeeds and loses its content.
\<close>

lemma self_copy_truncates:
  assumes "fs_Copy h f s s True = (h', None)" "fs_ok h f" "\<not> final_link h f s"
  shows "\<exists>i. lookup h (fs_eroot f @ user_comps s) = Some (RegN i) \<and> content h' i = []"
proof -
  from fs_Copy_Inr [OF assms(1,2)] assms(3) obtain si ti where
    st: "lookup h (fs_eroot f @ user_comps s) = Some (RegN si)"
    "lookup h' (fs_eroot f @ user_comps s) = Some (RegN ti)"
    "content h' ti = (if ti = si then [] else content h si)" "extends h h'" by metis
  then have "ti = si" by (simp add: extends_def)
  then show ?thesis using st by auto
qed

lemma self_copy_truncates_witness:
  "content clean_host 2 = ''hello'' \<and>
   (\<exists>i. lookup clean_host [''srv'', ''a.txt''] = Some (RegN i) \<and>
     content (fst (fs_Copy clean_host sample_fs ''a.txt'' ''a.txt'' True)) i = [])"
proof -
  have "snd (fs_Copy clean_host sample_fs ''a.txt'' ''a.txt'' True) = None" by code_simp
  then have m: "fs_Copy clean_host sample_fs ''a.txt'' ''a.txt'' True =
      (fst (fs_Copy clean_host sample_fs ''a.txt'' ''a.txt'' True), None)" by (simp add: prod_eq_iff)
  have u: "fs_eroot sample_fs @ user_comps ''a.txt'' = [''srv'', ''a.txt'']" by code_simp
  from self_copy_truncates [OF m sample_fs_ok(1) sand_no_final_link [OF sample_sand]]
  show ?thesis unfolding u by (simp add: clean_host_def)
qed

end
