(* ===== verification/GoJson.thy ===== *)
theory GoJson
  imports GoStrings "HOL-Library.Char_ord"
begin

text \<open>
  The part of Go's \<open>encoding/json\<close> the program uses, on byte strings: the scanner behind
  \<open>json.Valid\<close>, splitting an object into raw members as \<open>Unmarshal\<close> into
  \<open>map[string]json.RawMessage\<close> does, decoding into structs (case-insensitive keys,
  \<open>DisallowUnknownFields\<close>, type errors), \<open>Compact\<close>, and \<open>Marshal\<close> with its HTML
  escaping. The nesting limit of the scanner is 10000.
\<close>

subsection \<open>Bytes\<close>

abbreviation byte :: "char \<Rightarrow> nat" where "byte c \<equiv> of_char c"

abbreviation dquote :: char where "dquote \<equiv> CHR 0x22"
abbreviation bslash :: char where "bslash \<equiv> CHR 0x5C"
abbreviation lbrace :: char where "lbrace \<equiv> CHR 0x7B"
abbreviation rbrace :: char where "rbrace \<equiv> CHR 0x7D"
abbreviation lbrack :: char where "lbrack \<equiv> CHR 0x5B"
abbreviation rbrack :: char where "rbrack \<equiv> CHR 0x5D"
abbreviation comma :: char where "comma \<equiv> CHR 0x2C"
abbreviation colon :: char where "colon \<equiv> CHR 0x3A"
abbreviation newline :: char where "newline \<equiv> CHR 0x0A"

definition json_ws :: "char \<Rightarrow> bool" where
  "json_ws c \<longleftrightarrow> c \<in> {CHR 0x20, CHR 0x09, CHR 0x0A, CHR 0x0D}"

definition skip_ws :: "string \<Rightarrow> string" where
  "skip_ws s = dropWhile json_ws s"

definition is_hex :: "char \<Rightarrow> bool" where
  "is_hex c \<longleftrightarrow> is_digit c \<or> 97 \<le> byte c \<and> byte c \<le> 102 \<or> 65 \<le> byte c \<and> byte c \<le> 70"

definition hex_val :: "char \<Rightarrow> nat" where
  "hex_val c = (if is_digit c then byte c - 48 else if 97 \<le> byte c then byte c - 87 else byte c - 55)"

subsection \<open>The scanner\<close>

text \<open>After the opening quote, to after the closing one.\<close>

definition simple_escape :: "char \<Rightarrow> bool" where
  "simple_escape c \<longleftrightarrow> c \<in> {dquote, bslash, CHR ''/'', CHR ''b'', CHR ''f'', CHR ''n'', CHR ''r'', CHR ''t''}"

function scan_string :: "string \<Rightarrow> string option" where
  "scan_string [] = None"
| "scan_string (c # s) =
     (if c = dquote then Some s
      else if c = bslash then
        (if s = [] then None
         else if simple_escape (hd s) then scan_string (tl s)
         else if hd s = CHR ''u'' \<and> 5 \<le> length s \<and> list_all is_hex (take 4 (tl s))
           then scan_string (drop 5 s)
         else None)
      else if byte c < 32 then None
      else scan_string s)"
  by pat_completeness auto
termination
  by (relation "measure length") auto

declare scan_string.simps [simp del]

definition scan_exp :: "string \<Rightarrow> string option" where
  "scan_exp s =
     (case s of [] \<Rightarrow> Some []
      | c # t \<Rightarrow>
          if c = CHR ''e'' \<or> c = CHR ''E'' then
            (let u = (if t \<noteq> [] \<and> (hd t = CHR ''+'' \<or> hd t = CHR ''-'') then tl t else t)
             in if u \<noteq> [] \<and> is_digit (hd u) then Some (dropWhile is_digit u) else None)
          else Some s)"

definition scan_frac :: "string \<Rightarrow> string option" where
  "scan_frac s =
     (case s of [] \<Rightarrow> Some []
      | c # t \<Rightarrow>
          if c = CHR ''.'' then
            (if t \<noteq> [] \<and> is_digit (hd t) then scan_exp (dropWhile is_digit t) else None)
          else scan_exp s)"

definition scan_number :: "string \<Rightarrow> string option" where
  "scan_number s =
     (let t = (if s \<noteq> [] \<and> hd s = CHR ''-'' then tl s else s)
      in case t of [] \<Rightarrow> None
        | c # u \<Rightarrow>
            if c = CHR ''0'' then scan_frac u
            else if is_digit c then scan_frac (dropWhile is_digit u)
            else None)"

definition scan_word :: "string \<Rightarrow> string \<Rightarrow> string option" where
  "scan_word w s = (if prefix w s then Some (drop (length w) s) else None)"

definition starts_with :: "char \<Rightarrow> string \<Rightarrow> bool" where
  "starts_with c s \<longleftrightarrow> s \<noteq> [] \<and> hd s = c"

definition scan_leaf :: "char \<Rightarrow> string \<Rightarrow> string option" where
  "scan_leaf c t =
     (if c = dquote then scan_string t
      else if c = CHR ''t'' then scan_word ''true'' (c # t)
      else if c = CHR ''f'' then scan_word ''false'' (c # t)
      else if c = CHR ''n'' then scan_word ''null'' (c # t)
      else scan_number (c # t))"

text \<open>
  Values, members and elements. The first argument is fuel: every call consumes a byte
  except the one from an element list to its first value, so twice the length and two is
  enough. The second is the nesting still allowed.
\<close>

function (sequential) scan_val :: "nat \<Rightarrow> nat \<Rightarrow> string \<Rightarrow> string option"
  and scan_members :: "nat \<Rightarrow> nat \<Rightarrow> string \<Rightarrow> string option"
  and scan_elems :: "nat \<Rightarrow> nat \<Rightarrow> string \<Rightarrow> string option" where
  "scan_val 0 d s = None"
| "scan_val (Suc n) d s =
     (case skip_ws s of [] \<Rightarrow> None
      | c # t \<Rightarrow>
          if c = lbrace then
            (if d = 0 then None
             else if starts_with rbrace (skip_ws t) then Some (tl (skip_ws t))
             else scan_members n (d - 1) t)
          else if c = lbrack then
            (if d = 0 then None
             else if starts_with rbrack (skip_ws t) then Some (tl (skip_ws t))
             else scan_elems n (d - 1) t)
          else scan_leaf c t)"
| "scan_members 0 d s = None"
| "scan_members (Suc n) d s =
     (case skip_ws s of [] \<Rightarrow> None
      | c # t \<Rightarrow>
          if c \<noteq> dquote then None
          else case scan_string t of None \<Rightarrow> None
            | Some r \<Rightarrow>
                if \<not> starts_with colon (skip_ws r) then None
                else case scan_val n d (tl (skip_ws r)) of None \<Rightarrow> None
                  | Some v \<Rightarrow>
                      (case skip_ws v of [] \<Rightarrow> None
                       | e # w \<Rightarrow>
                           if e = comma then scan_members n d w
                           else if e = rbrace then Some w else None))"
| "scan_elems 0 d s = None"
| "scan_elems (Suc n) d s =
     (case scan_val n d s of None \<Rightarrow> None
      | Some v \<Rightarrow>
          (case skip_ws v of [] \<Rightarrow> None
           | e # w \<Rightarrow>
               if e = comma then scan_elems n d w
               else if e = rbrack then Some w else None))"
  by pat_completeness auto
termination
  by (relation "measure (case_sum fst (case_sum fst fst))") auto

definition max_depth :: nat where "max_depth = 10000"

definition scan_fuel :: "string \<Rightarrow> nat" where
  "scan_fuel s = 2 * length s + 2"

definition json_valid :: "string \<Rightarrow> bool" where
  "json_valid s \<longleftrightarrow>
     (case scan_val (scan_fuel s) max_depth s of None \<Rightarrow> False | Some r \<Rightarrow> skip_ws r = [])"

text \<open>The bytes between two positions of one text.\<close>

definition upto_rest :: "string \<Rightarrow> string \<Rightarrow> string" where
  "upto_rest s rest = take (length s - length rest) s"

subsection \<open>Strings in and out\<close>

text \<open>The number of bytes of the well-formed UTF-8 sequence a string starts with, or 0.\<close>

definition cont :: "nat \<Rightarrow> nat \<Rightarrow> char \<Rightarrow> bool" where
  "cont lo hi c \<longleftrightarrow> lo \<le> byte c \<and> byte c \<le> hi"

definition rune_len :: "string \<Rightarrow> nat" where
  "rune_len s =
     (case s of [] \<Rightarrow> 0
      | a # s1 \<Rightarrow>
          if byte a < 0x80 then 1
          else if s1 = [] then 0
          else if cont 0xC2 0xDF a then (if cont 0x80 0xBF (hd s1) then 2 else 0)
          else if length s1 < 2 then 0
          else if cont 0xE0 0xEF a then
            (if cont (if byte a = 0xE0 then 0xA0 else 0x80) (if byte a = 0xED then 0x9F else 0xBF) (hd s1)
                \<and> cont 0x80 0xBF (s1 ! 1) then 3 else 0)
          else if length s1 < 3 then 0
          else if cont 0xF0 0xF4 a then
            (if cont (if byte a = 0xF0 then 0x90 else 0x80) (if byte a = 0xF4 then 0x8F else 0xBF) (hd s1)
                \<and> cont 0x80 0xBF (s1 ! 1) \<and> cont 0x80 0xBF (s1 ! 2) then 4 else 0)
          else 0)"

definition replacement :: string where
  "replacement = [CHR 0xEF, CHR 0xBF, CHR 0xBD]"

text \<open>\<open>utf8.EncodeRune\<close>; surrogates and values out of range become the replacement character.\<close>

definition encode_rune :: "nat \<Rightarrow> string" where
  "encode_rune r =
     (if r < 0x80 then [char_of r]
      else if r < 0x800 then [char_of (0xC0 + r div 64), char_of (0x80 + r mod 64)]
      else if 0xD800 \<le> r \<and> r < 0xE000 \<or> 0x110000 \<le> r then replacement
      else if r < 0x10000 then
        [char_of (0xE0 + r div 4096), char_of (0x80 + r div 64 mod 64), char_of (0x80 + r mod 64)]
      else [char_of (0xF0 + r div 262144), char_of (0x80 + r div 4096 mod 64),
            char_of (0x80 + r div 64 mod 64), char_of (0x80 + r mod 64)])"

definition hex4 :: "string \<Rightarrow> nat" where
  "hex4 s = foldl (\<lambda>n c. 16 * n + hex_val c) 0 (take 4 s)"

definition unescape :: "char \<Rightarrow> char" where
  "unescape c =
     (if c = CHR ''b'' then CHR 0x08 else if c = CHR ''f'' then CHR 0x0C
      else if c = CHR ''n'' then CHR 0x0A else if c = CHR ''r'' then CHR 0x0D
      else if c = CHR ''t'' then CHR 0x09 else c)"

text \<open>The low surrogate an escaped pair continues with.\<close>

definition low_surrogate :: "string \<Rightarrow> nat option" where
  "low_surrogate s =
     (if 6 \<le> length s \<and> hd s = bslash \<and> s ! 1 = CHR ''u'' \<and> list_all is_hex (take 4 (drop 2 s))
         \<and> 0xDC00 \<le> hex4 (drop 2 s) \<and> hex4 (drop 2 s) < 0xE000
      then Some (hex4 (drop 2 s)) else None)"

text \<open>
  The bytes between the quotes of a scanned string, decoded: escapes are replaced, and so
  are bytes that are no UTF-8.
\<close>

function unquote :: "string \<Rightarrow> string" where
  "unquote [] = []"
| "unquote (c # s) =
     (if c = bslash then
        (if s = [] then []
         else if hd s = CHR ''u'' then
           (let r = hex4 (tl s) in
            if 0xD800 \<le> r \<and> r < 0xDC00 then
              (case low_surrogate (drop 5 s) of
                 Some r1 \<Rightarrow> encode_rune (0x10000 + (r - 0xD800) * 1024 + (r1 - 0xDC00)) @ unquote (drop 11 s)
               | None \<Rightarrow> replacement @ unquote (drop 5 s))
            else encode_rune r @ unquote (drop 5 s))
         else unescape (hd s) # unquote (tl s))
      else if rune_len (c # s) = 0 then replacement @ unquote s
      else take (rune_len (c # s)) (c # s) @ unquote (drop (rune_len (c # s)) (c # s)))"
  by pat_completeness auto
termination
  by (relation "measure length") auto

declare unquote.simps [simp del]

text \<open>\<open>Marshal\<close> of a string: quotes, escapes, and the HTML-unsafe bytes as \<open>\u00XX\<close>.\<close>

definition hex_digit :: "nat \<Rightarrow> char" where
  "hex_digit n = (if n < 10 then char_of (48 + n) else char_of (87 + n))"

definition u00 :: "char \<Rightarrow> string" where
  "u00 c = [bslash, CHR ''u'', CHR ''0'', CHR ''0'', hex_digit (byte c div 16), hex_digit (byte c mod 16)]"

definition escape_byte :: "char \<Rightarrow> string" where
  "escape_byte c =
     (if c = bslash \<or> c = dquote then [bslash, c]
      else if c = CHR 0x08 then [bslash, CHR ''b''] else if c = CHR 0x0C then [bslash, CHR ''f'']
      else if c = CHR 0x0A then [bslash, CHR ''n''] else if c = CHR 0x0D then [bslash, CHR ''r'']
      else if c = CHR 0x09 then [bslash, CHR ''t'']
      else if byte c < 32 \<or> c \<in> {CHR ''<'', CHR ''>'', CHR ''&''} then u00 c
      else [c])"

definition line_sep :: "string \<Rightarrow> bool" where
  "line_sep s \<longleftrightarrow> 3 \<le> length s \<and> s ! 0 = CHR 0xE2 \<and> s ! 1 = CHR 0x80 \<and> (s ! 2 = CHR 0xA8 \<or> s ! 2 = CHR 0xA9)"

definition u202 :: "char \<Rightarrow> string" where
  "u202 c = [bslash, CHR ''u'', CHR ''2'', CHR ''0'', CHR ''2'', hex_digit (byte c mod 16)]"

function quote_body :: "string \<Rightarrow> string" where
  "quote_body [] = []"
| "quote_body (c # s) =
     (if byte c < 0x80 then escape_byte c @ quote_body s
      else if rune_len (c # s) = 0 then [bslash, CHR ''u'', CHR ''f'', CHR ''f'', CHR ''f'', CHR ''d''] @ quote_body s
      else if line_sep (c # s) then u202 (s ! 1) @ quote_body (drop 2 s)
      else take (rune_len (c # s)) (c # s) @ quote_body (drop (rune_len (c # s)) (c # s)))"
  by pat_completeness auto
termination
  by (relation "measure length") auto

declare quote_body.simps [simp del]

definition quote_string :: "string \<Rightarrow> string" where
  "quote_string s = dquote # quote_body s @ [dquote]"

end
