(* ===== verification/JsonData.thy ===== *)
theory JsonData
  imports GoJson
begin

text \<open>
  Objects as Go sees them: \<open>Unmarshal\<close> into raw members, decoding into a struct with
  \<open>Decoder.Decode\<close>, \<open>Compact\<close>, and \<open>Marshal\<close> of the values the program writes.
\<close>

subsection \<open>Raw members\<close>

text \<open>
  The members of a valid object, from behind its opening brace: decoded keys with the exact
  bytes of their values, in the order of the text.
\<close>

fun raw_members :: "nat \<Rightarrow> string \<Rightarrow> (string \<times> string) list" where
  "raw_members 0 s = []"
| "raw_members (Suc n) s =
     (case skip_ws s of [] \<Rightarrow> []
      | c # t \<Rightarrow>
          if c \<noteq> dquote then []
          else case scan_string t of None \<Rightarrow> []
            | Some r \<Rightarrow>
                let key = unquote (butlast (upto_rest t r));
                    v = skip_ws (tl (skip_ws r))
                in case scan_val (scan_fuel v) max_depth v of None \<Rightarrow> []
                  | Some v' \<Rightarrow>
                      (key, upto_rest v v') #
                        (case skip_ws v' of [] \<Rightarrow> []
                         | e # w \<Rightarrow> if e = comma then raw_members n w else []))"

text \<open>\<open>json.Unmarshal(raw, &fields)\<close> for \<open>map[string]json.RawMessage\<close>: the last of equal
  keys wins, \<open>null\<close> leaves the map empty, other values are type errors.\<close>

definition unmarshal_members :: "string \<Rightarrow> (string \<times> string) list option" where
  "unmarshal_members raw =
     (if \<not> json_valid raw then None
      else case skip_ws raw of [] \<Rightarrow> None
        | c # t \<Rightarrow>
            if c = lbrace then Some (raw_members (length raw) t)
            else if prefix ''null'' (c # t) then Some []
            else None)"

definition unmarshal_fields :: "string \<Rightarrow> (string \<rightharpoonup> string) option" where
  "unmarshal_fields raw = map_option (\<lambda>ms. map_of (rev ms)) (unmarshal_members raw)"

text \<open>\<open>json.Unmarshal(raw, &s)\<close> for a string: \<open>null\<close> leaves it empty.\<close>

definition unmarshal_string :: "string \<Rightarrow> string option" where
  "unmarshal_string raw =
     (if \<not> json_valid raw then None
      else case skip_ws raw of [] \<Rightarrow> None
        | c # t \<Rightarrow>
            if c = dquote then
              (case scan_string t of None \<Rightarrow> None | Some r \<Rightarrow> Some (unquote (butlast (upto_rest t r))))
            else if prefix ''null'' (c # t) then Some []
            else None)"

text \<open>
  A number literal as \<open>float64\<close>: the only error is a magnitude that rounds to infinity,
  from half an ulp above the largest finite value. The literal is split into its digits and
  its decimal exponent.
\<close>

definition number_digits :: "string \<Rightarrow> string" where
  "number_digits s = filter is_digit (takeWhile (\<lambda>c. c \<noteq> CHR ''e'' \<and> c \<noteq> CHR ''E'') s)"

definition number_exp10 :: "string \<Rightarrow> int" where
  "number_exp10 s =
     (let mant = takeWhile (\<lambda>c. c \<noteq> CHR ''e'' \<and> c \<noteq> CHR ''E'') s;
          ex = tl (dropWhile (\<lambda>c. c \<noteq> CHR ''e'' \<and> c \<noteq> CHR ''E'') s);
          frac = length (tl (dropWhile (\<lambda>c. c \<noteq> CHR ''.'') mant));
          e = (if ex = [] then 0
               else if hd ex = CHR ''-'' then - int (decimal (tl ex))
               else if hd ex = CHR ''+'' then int (decimal (tl ex))
               else int (decimal ex))
      in e - int frac)"

definition float_limit :: int where
  "float_limit = 2 ^ 1024 - 2 ^ 970"

definition float64_ok :: "string \<Rightarrow> bool" where
  "float64_ok s \<longleftrightarrow>
     (let m = int (decimal (number_digits s)); e = number_exp10 s
      in m = 0 \<or> (if e \<ge> 0 then (e \<le> 400 \<and> m * 10 ^ nat e < float_limit)
                   else m < float_limit * 10 ^ nat (- e)))"

subsection \<open>Decoding into structs\<close>

text \<open>The field types of the program's argument structs.\<close>

datatype jkind = KStr | KBool | KInt64 | KRaw | KObj "(string \<times> jkind) list"

datatype jval = VStr string | VBool bool | VInt int | VRaw string | VObj "(string \<times> jval) list"

text \<open>
  Keys match a field name exactly or after folding case: ASCII letters, and the two other
  runes that fold to an ASCII letter (long s and the Kelvin sign).
\<close>

definition upper :: "char \<Rightarrow> char" where
  "upper c = (if 97 \<le> byte c \<and> byte c \<le> 122 then char_of (byte c - 32) else c)"

function fold_name :: "string \<Rightarrow> string" where
  "fold_name [] = []"
| "fold_name (c # s) =
     (if byte c < 0x80 then upper c # fold_name s
      else if c = CHR 0xC5 \<and> s \<noteq> [] \<and> hd s = CHR 0xBF then CHR ''S'' # fold_name (tl s)
      else if c = CHR 0xE2 \<and> 2 \<le> length s \<and> hd s = CHR 0x84 \<and> s ! 1 = CHR 0xAA
        then CHR ''K'' # fold_name (drop 2 s)
      else c # fold_name s)"
  by pat_completeness auto
termination
  by (relation "measure length") auto

declare fold_name.simps [simp del]

definition find_field :: "(string \<times> jkind) list \<Rightarrow> string \<Rightarrow> (string \<times> jkind) option" where
  "find_field fs key =
     (case find (\<lambda>(n, k). n = key) fs of
        Some f \<Rightarrow> Some f
      | None \<Rightarrow> find (\<lambda>(n, k). fold_name n = fold_name key) fs)"

text \<open>
  One raw value into a field: \<open>None\<close> is a type error, \<open>Some None\<close> leaves the field as it
  is (\<open>null\<close>), \<open>Some (Some v)\<close> sets it. The first argument is the nesting of structs.
\<close>

definition raw_null :: "string \<Rightarrow> bool" where
  "raw_null raw \<longleftrightarrow> raw \<noteq> [] \<and> hd raw = CHR ''n''"

definition number_start :: "string \<Rightarrow> bool" where
  "number_start raw \<longleftrightarrow> raw \<noteq> [] \<and> (hd raw = CHR ''-'' \<or> is_digit (hd raw))"

fun decode_value :: "nat \<Rightarrow> jkind \<Rightarrow> string \<Rightarrow> jval option option"
  and decode_members :: "nat \<Rightarrow> bool \<Rightarrow> (string \<times> jkind) list \<Rightarrow> (string \<times> string) list
    \<Rightarrow> (string \<times> jval) list \<Rightarrow> (string \<times> jval) list option" where
  "decode_value n KRaw raw = Some (Some (VRaw raw))"
| "decode_value n KStr raw =
     (if raw_null raw then Some None
      else if raw \<noteq> [] \<and> hd raw = dquote then Some (Some (VStr (unquote (butlast (tl raw)))))
      else None)"
| "decode_value n KBool raw =
     (if raw_null raw then Some None
      else if raw = ''true'' then Some (Some (VBool True))
      else if raw = ''false'' then Some (Some (VBool False))
      else None)"
| "decode_value n KInt64 raw =
     (if raw_null raw then Some None
      else if number_start raw then map_option (\<lambda>i. Some (VInt i)) (parse_int 64 raw)
      else None)"
| "decode_value 0 (KObj fs) raw = None"
| "decode_value (Suc n) (KObj fs) raw =
     (if raw_null raw then Some None
      else if raw \<noteq> [] \<and> hd raw = lbrace then
        map_option (\<lambda>vs. Some (VObj vs)) (decode_members n False fs (raw_members (length raw) (tl raw)) [])
      else None)"
| "decode_members n strict fs [] acc = Some acc"
| "decode_members n strict fs ((key, raw) # ms) acc =
     (case find_field fs key of
        None \<Rightarrow> if strict then None else decode_members n strict fs ms acc
      | Some (name, k) \<Rightarrow>
          (case decode_value n k raw of
             None \<Rightarrow> None
           | Some None \<Rightarrow> decode_members n strict fs ms acc
           | Some (Some v) \<Rightarrow> decode_members n strict fs ms (acc @ [(name, v)])))"

text \<open>Later settings of a field replace earlier ones; a field never set has Go's zero value.\<close>

definition field_val :: "(string \<times> jval) list \<Rightarrow> string \<Rightarrow> jval option" where
  "field_val vs name = map_of (rev vs) name"

definition str_field :: "(string \<times> jval) list \<Rightarrow> string \<Rightarrow> string" where
  "str_field vs name = (case field_val vs name of Some (VStr s) \<Rightarrow> s | _ \<Rightarrow> [])"

definition str_ptr_field :: "(string \<times> jval) list \<Rightarrow> string \<Rightarrow> string option" where
  "str_ptr_field vs name = (case field_val vs name of Some (VStr s) \<Rightarrow> Some s | _ \<Rightarrow> None)"

definition bool_field :: "(string \<times> jval) list \<Rightarrow> string \<Rightarrow> bool" where
  "bool_field vs name = (case field_val vs name of Some (VBool b) \<Rightarrow> b | _ \<Rightarrow> False)"

definition int_ptr_field :: "(string \<times> jval) list \<Rightarrow> string \<Rightarrow> int option" where
  "int_ptr_field vs name = (case field_val vs name of Some (VInt i) \<Rightarrow> Some i | _ \<Rightarrow> None)"

subsection \<open>Compact\<close>

text \<open>White space outside strings is dropped; with \<open>esc\<close> the HTML-unsafe bytes are escaped.\<close>

function compact_bytes :: "bool \<Rightarrow> bool \<Rightarrow> string \<Rightarrow> string" where
  "compact_bytes esc in_str [] = []"
| "compact_bytes esc in_str (c # s) =
     (if esc \<and> c \<in> {CHR ''<'', CHR ''>'', CHR ''&''} then u00 c @ compact_bytes esc in_str s
      else if esc \<and> line_sep (c # s) then u202 (s ! 1) @ compact_bytes esc in_str (drop 2 s)
      else if in_str then
        (if c = bslash \<and> s \<noteq> [] then c # hd s # compact_bytes esc True (tl s)
         else c # compact_bytes esc (c \<noteq> dquote) s)
      else if json_ws c then compact_bytes esc False s
      else c # compact_bytes esc (c = dquote) s)"
  by pat_completeness auto
termination
  by (relation "measure (\<lambda>(e, i, s). length s)") auto

declare compact_bytes.simps [simp del]

definition compact :: "bool \<Rightarrow> string \<Rightarrow> string option" where
  "compact esc raw = (if json_valid raw then Some (compact_bytes esc False raw) else None)"

subsection \<open>Marshal\<close>

text \<open>
  The values the program marshals. Struct fields are listed in declaration order, the
  entries of a Go map in the order of their keys. A raw message is compacted.
\<close>

datatype gojson = GNull | GBool bool | GInt int | GStr string | GArr "gojson list"
  | GObj "(string \<times> gojson) list" | GRaw string

definition sep_join :: "string list \<Rightarrow> string" where
  "sep_join ws = join_with [comma] ws"

fun sequence_opt :: "'a option list \<Rightarrow> 'a list option" where
  "sequence_opt [] = Some []"
| "sequence_opt (None # xs) = None"
| "sequence_opt (Some x # xs) = map_option ((#) x) (sequence_opt xs)"

fun marshal :: "gojson \<Rightarrow> string option" where
  "marshal GNull = Some ''null''"
| "marshal (GBool b) = Some (if b then ''true'' else ''false'')"
| "marshal (GInt i) = Some (itoa i)"
| "marshal (GStr s) = Some (quote_string s)"
| "marshal (GArr vs) =
     map_option (\<lambda>ts. lbrack # sep_join ts @ [rbrack]) (sequence_opt (map marshal vs))"
| "marshal (GObj ms) =
     map_option (\<lambda>ts. lbrace # sep_join ts @ [rbrace])
       (sequence_opt (map (\<lambda>(k, v). map_option (\<lambda>t. quote_string k @ colon # t) (marshal v)) ms))"
| "marshal (GRaw raw) = compact True raw"

end
