(* ===== verification/JsonFacts.thy ===== *)
theory JsonFacts
  imports JsonData
begin

text \<open>
  What the scanner consumes, and what \<open>Compact\<close> and \<open>Marshal\<close> produce: one line of text
  that scans back, is left alone by a second \<open>Compact\<close>, and stands for the same string
  contents.
\<close>

named_theorems json_bytes "bytes that are no white space, quote or unsafe byte"

subsection \<open>White space\<close>

lemma skip_ws_Nil [simp]: "skip_ws [] = []"
  by (simp add: skip_ws_def)

lemma skip_ws_idem [simp]: "skip_ws (skip_ws s) = skip_ws s"
  unfolding skip_ws_def by (induction s) auto

lemma skip_ws_Cons: "\<not> json_ws c \<Longrightarrow> skip_ws (c # s) = c # s"
  by (simp add: skip_ws_def)

lemma skip_ws_hd: "skip_ws s = c # t \<Longrightarrow> \<not> json_ws c"
  by (auto simp: skip_ws_def dropWhile_eq_Cons_conv)

lemma skip_ws_split: "\<exists>w. s = w @ skip_ws s \<and> list_all json_ws w"
  unfolding skip_ws_def
  by (rule exI [of _ "takeWhile json_ws s"]) (auto simp: list_all_iff dest: set_takeWhileD)

lemma length_skip_ws: "length (skip_ws s) \<le> length s"
  by (simp add: skip_ws_def length_dropWhile_le)

lemma json_ws_bytes [json_bytes]:
  "\<not> json_ws lbrace" "\<not> json_ws rbrace" "\<not> json_ws lbrack" "\<not> json_ws rbrack"
  "\<not> json_ws comma" "\<not> json_ws colon" "\<not> json_ws dquote"
  by (simp_all add: json_ws_def)

subsection \<open>Numbers and words\<close>

definition num_char :: "char \<Rightarrow> bool" where
  "num_char c \<longleftrightarrow> is_digit c \<or> c \<in> {CHR ''.'', CHR ''e'', CHR ''E'', CHR ''+'', CHR ''-''}"

text \<open>What may follow a value.\<close>

definition stops :: "string \<Rightarrow> bool" where
  "stops t \<longleftrightarrow> t = [] \<or> \<not> num_char (hd t)"

lemma stops_Nil [simp]: "stops []" by (simp add: stops_def)

lemma not_num_char [json_bytes]:
  "\<not> num_char rbrace" "\<not> num_char rbrack" "\<not> num_char comma" "\<not> num_char newline"
  "json_ws c \<Longrightarrow> \<not> num_char c"
  by (auto simp: num_char_def is_digit_def json_ws_def)

lemma stops_byte [simp]: "stops (rbrace # t)" "stops (rbrack # t)" "stops (comma # t)" "stops (newline # t)"
  by (simp_all add: stops_def json_bytes)

lemma stops_digits: "stops t \<Longrightarrow> list_all is_digit p \<Longrightarrow> dropWhile is_digit (p @ t) = t"
  by (induction p) (auto simp: stops_def num_char_def dropWhile_eq_self_iff)

lemma digits_split: "\<exists>p. s = p @ dropWhile is_digit s \<and> list_all is_digit p"
  by (rule exI [of _ "takeWhile is_digit s"]) (auto simp: list_all_iff dest: set_takeWhileD)

lemma digits_split_ne:
  assumes "s \<noteq> []" "is_digit (hd s)"
  shows "\<exists>p. s = p @ dropWhile is_digit s \<and> list_all is_digit p \<and> p \<noteq> [] \<and> is_digit (hd p)"
  using assms by (cases s)
    (auto simp: list_all_iff dest: set_takeWhileD intro!: exI [of _ "takeWhile is_digit s"])

text \<open>\<open>p\<close> is scanned by \<open>f\<close>, whatever follows it.\<close>

definition eats :: "(string \<Rightarrow> string option) \<Rightarrow> string \<Rightarrow> bool" where
  "eats f p \<longleftrightarrow> (\<forall>t. stops t \<longrightarrow> f (p @ t) = Some t)"

lemma scan_exp_eats:
  assumes "scan_exp s = Some r"
  shows "\<exists>p. s = p @ r \<and> list_all num_char p \<and> eats scan_exp p"
proof (cases "s \<noteq> [] \<and> (hd s = CHR ''e'' \<or> hd s = CHR ''E'')")
  case False
  then have "r = s" using assms by (cases s) (auto simp: scan_exp_def)
  moreover have "eats scan_exp []"
    unfolding eats_def by (auto simp: scan_exp_def stops_def num_char_def split: list.split)
  ultimately show ?thesis by auto
next
  case True
  then obtain c t where s: "s = c # t" and c: "c = CHR ''e'' \<or> c = CHR ''E''" by (cases s) auto
  define g where "g = (if t \<noteq> [] \<and> (hd t = CHR ''+'' \<or> hd t = CHR ''-'') then [hd t] else [])"
  define u where "u = (if t \<noteq> [] \<and> (hd t = CHR ''+'' \<or> hd t = CHR ''-'') then tl t else t)"
  have t: "t = g @ u" by (auto simp: g_def u_def)
  have u: "u \<noteq> []" "is_digit (hd u)" "r = dropWhile is_digit u"
    using assms c unfolding s scan_exp_def by (auto simp: u_def [symmetric] Let_def split: if_splits)
  obtain p where p: "u = p @ r" "list_all is_digit p" and pne: "p \<noteq> []" and hp: "is_digit (hd p)"
    using digits_split_ne [OF u(1,2)] u(3) by blast
  have "scan_exp ((c # g @ p) @ t') = Some t'" if "stops t'" for t'
  proof -
    have "hd p \<noteq> CHR ''+''" "hd p \<noteq> CHR ''-''" using hp by (auto simp: is_digit_def)
    then have "(if (g @ p @ t') \<noteq> [] \<and> (hd (g @ p @ t') = CHR ''+'' \<or> hd (g @ p @ t') = CHR ''-'')
        then tl (g @ p @ t') else g @ p @ t') = p @ t'"
      using pne by (auto simp: g_def)
    then show ?thesis using c hp pne stops_digits [OF that p(2)] by (auto simp: scan_exp_def Let_def)
  qed
  moreover have "list_all num_char (c # g @ p)"
    using c p(2) by (auto simp: num_char_def g_def list_all_iff)
  ultimately show ?thesis using s t p(1) unfolding eats_def by (intro exI [of _ "c # g @ p"]) auto
qed

lemma scan_frac_eats:
  assumes "scan_frac s = Some r"
  shows "\<exists>p. s = p @ r \<and> list_all num_char p \<and> eats scan_frac p"
proof (cases "s \<noteq> [] \<and> hd s = CHR ''.''")
  case False
  then have "scan_exp s = Some r" using assms by (cases s) (auto simp: scan_frac_def scan_exp_def)
  then obtain p where p: "s = p @ r" "list_all num_char p" "eats scan_exp p" using scan_exp_eats by blast
  have "scan_frac (p @ t) = Some t" if "stops t" for t
  proof (cases "p @ t")
    case Nil then show ?thesis by (simp add: scan_frac_def)
  next
    case (Cons c u)
    then have "c \<noteq> CHR ''.''" using False p(1) that by (cases p) (auto simp: stops_def num_char_def)
    moreover have "scan_exp (p @ t) = Some t" using p(3) that by (simp add: eats_def)
    ultimately show ?thesis using Cons by (simp add: scan_frac_def)
  qed
  then show ?thesis using p unfolding eats_def by blast
next
  case True
  then obtain t where s: "s = CHR ''.'' # t" by (cases s) auto
  then have t: "t \<noteq> []" "is_digit (hd t)" "scan_exp (dropWhile is_digit t) = Some r"
    using assms by (auto simp: scan_frac_def split: if_splits)
  obtain q where q: "t = q @ dropWhile is_digit t" "list_all is_digit q" and qne: "q \<noteq> []" and hq: "is_digit (hd q)"
    using digits_split_ne [OF t(1,2)] by blast
  obtain p where p: "dropWhile is_digit t = p @ r" "list_all num_char p" "eats scan_exp p"
    using scan_exp_eats [OF t(3)] by blast
  have hpd: "p \<noteq> [] \<Longrightarrow> \<not> is_digit (hd p)"
    using p(1) hd_dropWhile [of is_digit t] by (cases "dropWhile is_digit t = []") auto
  have "scan_frac ((CHR ''.'' # q @ p) @ t') = Some t'" if st: "stops t'" for t'
  proof -
    have "dropWhile is_digit (q @ p @ t') = p @ t'"
    proof -
      have "dropWhile is_digit (p @ t') = p @ t'"
        using hpd st by (cases p) (auto simp: stops_def num_char_def dropWhile_eq_self_iff)
      then show ?thesis using q(2) by (simp add: dropWhile_append2 list_all_iff)
    qed
    then show ?thesis using hq qne p(3) st by (auto simp: scan_frac_def eats_def)
  qed
  moreover have "list_all num_char (CHR ''.'' # q @ p)" using q(2) p(2) by (auto simp: num_char_def list_all_iff)
  ultimately show ?thesis using s q(1) p(1) unfolding eats_def
    by (intro exI [of _ "CHR ''.'' # q @ p"]) auto
qed

lemma scan_number_eats:
  assumes "scan_number s = Some r"
  shows "\<exists>p. s = p @ r \<and> list_all num_char p \<and> eats scan_number p \<and> p \<noteq> []"
proof -
  define g where "g = (if s \<noteq> [] \<and> hd s = CHR ''-'' then [hd s] else [])"
  define v where "v = (if s \<noteq> [] \<and> hd s = CHR ''-'' then tl s else s)"
  have s: "s = g @ v" by (cases s) (auto simp: g_def v_def)
  obtain c u where v: "v = c # u" using assms by (cases v) (auto simp: scan_number_def v_def [symmetric])
  have c: "is_digit c" and r: "scan_frac (if c = CHR ''0'' then u else dropWhile is_digit u) = Some r"
    using assms unfolding scan_number_def
    by (auto simp: v_def [symmetric] v is_digit_def split: if_splits)
  obtain p where p: "(if c = CHR ''0'' then u else dropWhile is_digit u) = p @ r" "list_all num_char p"
    "eats scan_frac p" using scan_frac_eats [OF r] by blast
  obtain q where q: "u = q @ p @ r" "list_all is_digit q" "c = CHR ''0'' \<Longrightarrow> q = []"
    using p(1) digits_split [of u] by (cases "c = CHR ''0''") auto
  have hpd: "c \<noteq> CHR ''0'' \<Longrightarrow> p \<noteq> [] \<Longrightarrow> \<not> is_digit (hd p)"
    using p(1) hd_dropWhile [of is_digit u] by (cases "dropWhile is_digit u = []") auto
  have "scan_number ((g @ c # q @ p) @ t) = Some t" if st: "stops t" for t
  proof -
    have c': "c \<noteq> CHR ''-''" using c by (auto simp: is_digit_def)
    have "dropWhile is_digit (q @ p @ t) = p @ t" if "c \<noteq> CHR ''0''"
    proof -
      have "dropWhile is_digit (p @ t) = p @ t"
        using hpd [OF that] st by (cases p) (auto simp: stops_def num_char_def dropWhile_eq_self_iff)
      then show ?thesis using q(2) by (simp add: dropWhile_append2 list_all_iff)
    qed
    moreover have "scan_frac (p @ t) = Some t" using p(3) st by (simp add: eats_def)
    ultimately show ?thesis using c c' q(3) by (auto simp: scan_number_def g_def)
  qed
  moreover have "list_all num_char (g @ c # q @ p)"
    using p(2) q(2) c by (auto simp: num_char_def g_def list_all_iff)
  ultimately show ?thesis using s v q(1) unfolding eats_def by (intro exI [of _ "g @ c # q @ p"]) auto
qed

lemma scan_word_eats:
  assumes "scan_word w s = Some r"
  shows "s = w @ r \<and> eats (scan_word w) w"
  using assms by (auto simp: scan_word_def eats_def prefix_def split: if_splits)

subsection \<open>Strings\<close>

lemma scan_string_bslash:
  "scan_string (bslash # e # s) =
     (if simple_escape e then scan_string s
      else if e = CHR ''u'' \<and> 4 \<le> length s \<and> list_all is_hex (take 4 s) then scan_string (drop 4 s)
      else None)"
  by (simp add: scan_string.simps(2) numeral_eq_Suc)

lemma scan_string_dquote [simp]: "scan_string (dquote # s) = Some s"
  by (simp add: scan_string.simps(2))

lemma scan_string_plain:
  "c \<noteq> dquote \<Longrightarrow> c \<noteq> bslash \<Longrightarrow> 32 \<le> byte c \<Longrightarrow> scan_string (c # s) = scan_string s"
  by (simp add: scan_string.simps(2))

lemma take4_list_all:
  assumes "4 \<le> length s" "list_all P (take 4 s)"
  obtains a b c d t where "s = a # b # c # d # t" "P a" "P b" "P c" "P d" "drop 4 s = t"
  using assms by (auto simp: numeral_eq_Suc Suc_le_length_iff)

text \<open>The three ways a string goes on, and how it ends.\<close>

lemma scan_string_cases:
  assumes "scan_string s = Some r"
  obtains (close) "s = dquote # r"
  | (escape) e t where "s = bslash # e # t" "simple_escape e" "scan_string t = Some r"
  | (hex) a b c d t where "s = [bslash, CHR ''u'', a, b, c, d] @ t" "list_all is_hex [a, b, c, d]" "scan_string t = Some r"
  | (plain) c t where "s = c # t" "c \<noteq> dquote" "c \<noteq> bslash" "32 \<le> byte c" "scan_string t = Some r"
proof (cases s)
  case Nil then show thesis using assms by (simp add: scan_string.simps)
next
  case (Cons c t)
  consider "c = dquote" | "c = bslash" | "c \<noteq> dquote" "c \<noteq> bslash" by blast
  then show thesis
  proof cases
    case 1 then show thesis using assms Cons close by simp
  next
    case 2
    then obtain e u where t: "t = e # u" using assms Cons by (cases t) (auto simp: scan_string.simps)
    show thesis
    proof (cases "simple_escape e")
      case True then show thesis using escape assms Cons 2 t by (simp add: scan_string_bslash)
    next
      case False
      then have h: "e = CHR ''u''" "4 \<le> length u" "list_all is_hex (take 4 u)" "scan_string (drop 4 u) = Some r"
        using assms Cons 2 t by (auto simp: scan_string_bslash split: if_splits)
      from h(2,3) obtain a b x d w where "u = a # b # x # d # w" "is_hex a" "is_hex b" "is_hex x" "is_hex d"
        "drop 4 u = w" by (rule take4_list_all)
      then show thesis using hex [of a b x d w] h(1,4) Cons 2 t by simp
    qed
  next
    case 3
    then show thesis using plain assms Cons by (auto simp: scan_string.simps(2) split: if_splits)
  qed
qed

lemma scan_string_hex:
  "list_all is_hex [a, b, c, d] \<Longrightarrow> scan_string (bslash # CHR ''u'' # a # b # c # d # t) = scan_string t"
  by (simp add: scan_string_bslash simple_escape_def numeral_eq_Suc)

lemma scan_string_eats:
  "scan_string s = Some r \<Longrightarrow> \<exists>p. s = p @ r \<and> p \<noteq> [] \<and> last p = dquote \<and> (\<forall>t. scan_string (p @ t) = Some t)"
proof (induction s rule: length_induct)
  case (1 s)
  have IH: "\<exists>p. u = p @ r \<and> p \<noteq> [] \<and> last p = dquote \<and> (\<forall>t. scan_string (p @ t) = Some t)"
    if "length u < length s" "scan_string u = Some r" for u using 1(1) that by blast
  from 1(2) show ?case
  proof (cases rule: scan_string_cases)
    case close then show ?thesis by (intro exI [of _ "[dquote]"]) simp
  next
    case (escape e t)
    then obtain p where p: "t = p @ r" "p \<noteq> []" "last p = dquote" "\<forall>t. scan_string (p @ t) = Some t" using IH [of t] by auto
    then show ?thesis using escape by (intro exI [of _ "bslash # e # p"]) (simp add: scan_string_bslash)
  next
    case (hex a b c d t)
    then obtain p where p: "t = p @ r" "p \<noteq> []" "last p = dquote" "\<forall>t. scan_string (p @ t) = Some t" using IH [of t] by auto
    then show ?thesis using hex by (intro exI [of _ "[bslash, CHR ''u'', a, b, c, d] @ p"]) (simp add: scan_string_hex)
  next
    case (plain c t)
    then obtain p where p: "t = p @ r" "p \<noteq> []" "last p = dquote" "\<forall>t. scan_string (p @ t) = Some t" using IH [of t] by auto
    then show ?thesis using plain by (intro exI [of _ "c # p"]) (simp add: scan_string_plain)
  qed
qed

subsection \<open>Values\<close>

lemma skip_ws_append: "list_all json_ws w \<Longrightarrow> skip_ws (w @ s) = skip_ws s"
  unfolding skip_ws_def by (simp add: dropWhile_append2 list_all_iff)

lemma skip_ws_at: "list_all json_ws w \<Longrightarrow> \<not> json_ws c \<Longrightarrow> skip_ws (w @ c # s) = c # s"
  by (simp add: skip_ws_append skip_ws_Cons)

lemma skip_ws_ConsE:
  assumes "skip_ws s = c # t"
  obtains w where "s = w @ c # t" "list_all json_ws w" "\<not> json_ws c"
  using assms skip_ws_split [of s] skip_ws_hd [OF assms] by auto

lemma starts_with_ConsE:
  assumes "starts_with c (skip_ws s)" "\<not> json_ws c"
  obtains w t where "s = w @ c # t" "list_all json_ws w" "tl (skip_ws s) = t"
proof -
  obtain t where t: "skip_ws s = c # t" using assms by (cases "skip_ws s") (auto simp: starts_with_def)
  then show thesis using that by (metis skip_ws_ConsE list.sel(3))
qed

lemma starts_with_Cons [simp]: "starts_with c (d # s) \<longleftrightarrow> c = d"
  by (auto simp: starts_with_def)

lemma stops_ws: "list_all json_ws w \<Longrightarrow> stops (c # t) \<Longrightarrow> stops (w @ c # t)"
  by (cases w) (auto simp: stops_def json_bytes)

lemma scan_leaf_eats:
  assumes "scan_leaf c t = Some r"
  shows "\<exists>p. c # t = p @ r \<and> p \<noteq> [] \<and> hd p = c \<and> eats (\<lambda>s. scan_leaf (hd s) (tl s)) p \<and>
    (c \<noteq> dquote \<longrightarrow> list_all num_char p \<or> p \<in> {''true'', ''false'', ''null''})"
proof -
  have word: ?thesis if "scan_word (c # w) (c # t) = Some r" "c # w \<in> {''true'', ''false'', ''null''}"
    "\<And>s. scan_leaf c s = scan_word (c # w) (c # s)" for w
    using scan_word_eats [OF that(1)] that(2,3) by (intro exI [of _ "c # w"]) (auto simp: eats_def)
  consider "c = dquote" | "c = CHR ''t''" | "c = CHR ''f''" | "c = CHR ''n''"
    | "c \<notin> {dquote, CHR ''t'', CHR ''f'', CHR ''n''}" by auto
  then show ?thesis
  proof cases
    case 1
    then obtain p where "t = p @ r" "\<forall>t. scan_string (p @ t) = Some t"
      using assms scan_string_eats [of t r] by (auto simp: scan_leaf_def)
    then show ?thesis using 1 by (auto simp: eats_def scan_leaf_def intro!: exI [of _ "dquote # p"])
  next
    case 2 then show ?thesis using word [of "''rue''"] assms by (simp add: scan_leaf_def)
  next
    case 3 then show ?thesis using word [of "''alse''"] assms by (simp add: scan_leaf_def)
  next
    case 4 then show ?thesis using word [of "''ull''"] assms by (simp add: scan_leaf_def)
  next
    case 5
    then have "scan_number (c # t) = Some r" using assms by (simp add: scan_leaf_def)
    then obtain p where p: "c # t = p @ r" "list_all num_char p" "eats scan_number p" "p \<noteq> []"
      using scan_number_eats by blast
    then obtain p' where "p = c # p'" by (cases p) auto
    then show ?thesis using p 5 by (intro exI [of _ p]) (auto simp: eats_def scan_leaf_def)
  qed
qed

lemma members_start: "scan_members n d s = Some r \<Longrightarrow> \<not> starts_with rbrace (skip_ws s)"
  by (cases n) (auto simp: starts_with_def split: list.splits if_splits)

lemma val_start: "scan_val n d s = Some r \<Longrightarrow> \<not> starts_with rbrack (skip_ws s)"
proof
  assume v: "scan_val n d s = Some r" and "starts_with rbrack (skip_ws s)"
  then obtain t where "skip_ws s = rbrack # t" by (cases "skip_ws s") (auto simp: starts_with_def)
  moreover have "scan_leaf rbrack t = None" by (simp add: scan_leaf_def scan_number_def is_digit_def)
  ultimately show False using v by (cases n) auto
qed

lemma elems_start: "scan_elems n d s = Some r \<Longrightarrow> \<not> starts_with rbrack (skip_ws s)"
  by (cases n) (auto dest: val_start split: option.splits)

text \<open>A scanned value, member list or element list is a piece of the text that scans anywhere.\<close>

lemma scan_eats:
  "scan_val n d s = Some r \<Longrightarrow> \<exists>p. s = p @ r \<and> p \<noteq> [] \<and> eats (scan_val n d) p"
  "scan_members n d s = Some r \<Longrightarrow> \<exists>p. s = p @ r \<and> p \<noteq> [] \<and> eats (scan_members n d) p"
  "scan_elems n d s = Some r \<Longrightarrow> \<exists>p. s = p @ r \<and> p \<noteq> [] \<and> eats (scan_elems n d) p"
proof (induction n d s and n d s and n d s arbitrary: r and r and r
    rule: scan_val_scan_members_scan_elems.induct)
  case (2 n d s)
  obtain c t where ct: "skip_ws s = c # t" using 2(3) by (cases "skip_ws s") auto
  then obtain w where w: "s = w @ c # t" "list_all json_ws w" "\<not> json_ws c" by (rule skip_ws_ConsE)
  have wrap: "\<exists>p. s = p @ r \<and> p \<noteq> [] \<and> eats (scan_val (Suc n) d) p"
    if "t = p @ r" "\<forall>u. stops u \<longrightarrow> scan_val (Suc n) d (w @ c # p @ u) = Some u" for p
    using that w by (intro exI [of _ "w @ c # p"]) (auto simp: eats_def)
  note simp = skip_ws_at [OF w(2,3)] skip_ws_at [OF w(2)] json_bytes
  consider (obj0) "c = lbrace" "starts_with rbrace (skip_ws t)" | (obj) "c = lbrace" "\<not> starts_with rbrace (skip_ws t)"
    | (arr0) "c = lbrack" "starts_with rbrack (skip_ws t)" | (arr) "c = lbrack" "\<not> starts_with rbrack (skip_ws t)"
    | (leaf) "c \<noteq> lbrace" "c \<noteq> lbrack" by blast
  then show ?case
  proof cases
    case obj0
    obtain w1 t1 where t1: "t = w1 @ rbrace # t1" "list_all json_ws w1" "tl (skip_ws t) = t1"
      by (rule starts_with_ConsE [OF obj0(2) json_ws_bytes(2)])
    have "r = t1" "d \<noteq> 0" using 2(3) ct obj0 t1 by (auto split: if_splits)
    then show ?thesis using obj0 t1
      by (intro wrap [of "w1 @ [rbrace]"]) (simp_all add: simp skip_ws_at json_bytes)
  next
    case arr0
    obtain w1 t1 where t1: "t = w1 @ rbrack # t1" "list_all json_ws w1" "tl (skip_ws t) = t1"
      by (rule starts_with_ConsE [OF arr0(2) json_ws_bytes(4)])
    have "r = t1" "d \<noteq> 0" using 2(3) ct arr0 t1 by (auto split: if_splits)
    then show ?thesis using arr0 t1
      by (intro wrap [of "w1 @ [rbrack]"]) (simp_all add: simp skip_ws_at json_bytes)
  next
    case obj
    then have m: "d \<noteq> 0" "scan_members n (d - 1) t = Some r" using 2(3) ct by (auto split: if_splits)
    obtain p where p: "t = p @ r" "p \<noteq> []" "eats (scan_members n (d - 1)) p"
      using 2(1) [OF ct obj(1) m(1) obj(2) m(2)] by blast
    have ps: "scan_members n (d - 1) (p @ u) = Some u" if "stops u" for u using p(3) that by (simp add: eats_def)
    show ?thesis using p(1) obj m(1) ps members_start [OF ps]
      by (intro wrap [of p]) (simp_all add: simp)
  next
    case arr
    then have m: "d \<noteq> 0" "scan_elems n (d - 1) t = Some r" using 2(3) ct by (auto split: if_splits)
    have "c \<noteq> lbrace" using arr(1) by simp
    then obtain p where p: "t = p @ r" "p \<noteq> []" "eats (scan_elems n (d - 1)) p"
      using 2(2) [OF ct _ arr(1) m(1) arr(2) m(2)] by blast
    have ps: "scan_elems n (d - 1) (p @ u) = Some u" if "stops u" for u using p(3) that by (simp add: eats_def)
    show ?thesis using p(1) arr m(1) ps elems_start [OF ps]
      by (intro wrap [of p]) (simp_all add: simp)
  next
    case leaf
    then have l: "scan_leaf c t = Some r" using 2(3) ct by simp
    obtain p where p: "c # t = p @ r" "p \<noteq> []" "hd p = c" "eats (\<lambda>s. scan_leaf (hd s) (tl s)) p"
      using scan_leaf_eats [OF l] by blast
    then obtain p' where p': "p = c # p'" by (cases p) auto
    show ?thesis using p p' leaf by (intro wrap [of p']) (simp_all add: simp eats_def)
  qed
next
  case (4 n d s)
  obtain t where ct: "skip_ws s = dquote # t"
    using 4(3) by (cases "skip_ws s") (auto split: if_splits)
  then obtain w where w: "s = w @ dquote # t" "list_all json_ws w" by (rule skip_ws_ConsE)
  obtain r1 where r1: "scan_string t = Some r1" using 4(3) ct by (auto split: option.splits)
  obtain p1 where p1: "t = p1 @ r1" "\<forall>t. scan_string (p1 @ t) = Some t" using scan_string_eats [OF r1] by blast
  have st: "starts_with colon (skip_ws r1)" using 4(3) ct r1 by (auto split: if_splits)
  obtain w1 t1 where w1: "r1 = w1 @ colon # t1" "list_all json_ws w1" "tl (skip_ws r1) = t1"
    by (rule starts_with_ConsE [OF st json_ws_bytes(6)])
  obtain v where v: "scan_val n d t1 = Some v" using 4(3) ct r1 st w1(3) by (auto split: option.splits)
  obtain p2 where p2: "t1 = p2 @ v" "eats (scan_val n d) p2" using 4(1) ct r1 st w1(3) v by fastforce
  obtain e u where eu: "skip_ws v = e # u" using 4(3) ct r1 st w1(3) v by (cases "skip_ws v") auto
  then obtain w2 where w2: "v = w2 @ e # u" "list_all json_ws w2" "\<not> json_ws e" by (rule skip_ws_ConsE)
  have e: "(e = comma \<and> scan_members n d u = Some r) \<or> (e = rbrace \<and> u = r)"
    using 4(3) ct r1 st w1(3) v eu by (auto split: if_splits)
  have scan: "scan_members (Suc n) d ((w @ dquote # p1 @ w1 @ colon # p2 @ w2 @ e # q) @ z) =
      (if e = comma then scan_members n d (q @ z) else if e = rbrace then Some (q @ z) else None)"
    for q z
  proof -
    have "stops (w2 @ e # q @ z)" using e w2(2) by (intro stops_ws) auto
    then have "scan_val n d (p2 @ w2 @ e # q @ z) = Some (w2 @ e # q @ z)" using p2(2) by (simp add: eats_def)
    then show ?thesis using w w1 w2 p1(2) by (simp add: skip_ws_at json_bytes)
  qed
  from e show ?case
  proof
    assume c: "e = comma \<and> scan_members n d u = Some r"
    then obtain p3 where p3: "u = p3 @ r" "eats (scan_members n d) p3" using 4(2) ct r1 st w1(3) v eu by fastforce
    show ?thesis using c p3 scan [of p3] w w1 w2 p1 p2
      by (intro exI [of _ "w @ dquote # p1 @ w1 @ colon # p2 @ w2 @ e # p3"]) (simp add: eats_def)
  next
    assume c: "e = rbrace \<and> u = r"
    show ?thesis using c scan [of "[]"] w w1 w2 p1 p2
      by (intro exI [of _ "w @ dquote # p1 @ w1 @ colon # p2 @ w2 @ [e]"]) (simp add: eats_def)
  qed
next
  case (6 n d s)
  obtain v where v: "scan_val n d s = Some v" using 6(3) by (auto split: option.splits)
  obtain p2 where p2: "s = p2 @ v" "p2 \<noteq> []" "eats (scan_val n d) p2" using 6(1) v by fastforce
  obtain e u where eu: "skip_ws v = e # u" using 6(3) v by (cases "skip_ws v") auto
  then obtain w2 where w2: "v = w2 @ e # u" "list_all json_ws w2" "\<not> json_ws e" by (rule skip_ws_ConsE)
  have e: "(e = comma \<and> scan_elems n d u = Some r) \<or> (e = rbrack \<and> u = r)"
    using 6(3) v eu by (auto split: if_splits)
  have scan: "scan_elems (Suc n) d ((p2 @ w2 @ e # q) @ z) =
      (if e = comma then scan_elems n d (q @ z) else if e = rbrack then Some (q @ z) else None)"
    for q z
  proof -
    have "stops (w2 @ e # q @ z)" using e w2(2) by (intro stops_ws) auto
    then have "scan_val n d (p2 @ w2 @ e # q @ z) = Some (w2 @ e # q @ z)" using p2(3) by (simp add: eats_def)
    then show ?thesis using w2 by (simp add: skip_ws_at)
  qed
  from e show ?case
  proof
    assume c: "e = comma \<and> scan_elems n d u = Some r"
    then obtain p3 where p3: "u = p3 @ r" "eats (scan_elems n d) p3" using 6(2) v eu by fastforce
    show ?thesis using c p3 scan [of p3] w2 p2
      by (intro exI [of _ "p2 @ w2 @ e # p3"]) (simp add: eats_def)
  next
    assume c: "e = rbrack \<and> u = r"
    show ?thesis using c scan [of "[]"] w2 p2
      by (intro exI [of _ "p2 @ w2 @ [e]"]) (simp add: eats_def)
  qed
qed simp_all

subsection \<open>Enough fuel\<close>

lemma scan_string_shorter: "scan_string s = Some r \<Longrightarrow> length r < length s"
  by (auto dest: scan_string_eats)

lemma scan_val_shorter: "scan_val n d s = Some r \<Longrightarrow> length r < length s"
  by (auto dest: scan_eats)

lemma skip_ws_shorter: "skip_ws s = c # t \<Longrightarrow> length t < length s"
  using length_skip_ws [of s] by simp

lemma tl_skip_ws_shorter: "length (tl (skip_ws s)) \<le> length s"
  using length_skip_ws [of s] by simp

text \<open>Any result is the result of more fuel, of the fuel \<open>scan_fuel\<close> provides, and of more
  nesting allowed.\<close>

lemma enough_fuel:
  "scan_val n d s = Some r \<Longrightarrow> n \<le> m \<or> 2 * length s + 1 \<le> m \<Longrightarrow> d \<le> d' \<Longrightarrow> scan_val m d' s = Some r"
  "scan_members n d s = Some r \<Longrightarrow> n \<le> m \<or> 2 * length s + 1 \<le> m \<Longrightarrow> d \<le> d' \<Longrightarrow> scan_members m d' s = Some r"
  "scan_elems n d s = Some r \<Longrightarrow> n \<le> m \<or> 2 * length s + 2 \<le> m \<Longrightarrow> d \<le> d' \<Longrightarrow> scan_elems m d' s = Some r"
proof (induction n d s and n d s and n d s arbitrary: r m d' and r m d' and r m d'
    rule: scan_val_scan_members_scan_elems.induct)
  case (2 n d s)
  obtain c t where ct: "skip_ws s = c # t" using 2(3) by (cases "skip_ws s") auto
  obtain k where m: "m = Suc k" using 2(4) by (cases m) auto
  have k: "n \<le> k \<or> 2 * length t + 1 \<le> k" "n \<le> k \<or> 2 * length t + 2 \<le> k"
    using 2(4) m skip_ws_shorter [OF ct] by auto
  have d: "d - 1 \<le> d' - 1" "d \<noteq> 0 \<Longrightarrow> d' \<noteq> 0" using 2(5) by auto
  consider (obj) "c = lbrace" "\<not> starts_with rbrace (skip_ws t)"
    | (arr) "c \<noteq> lbrace" "c = lbrack" "\<not> starts_with rbrack (skip_ws t)"
    | (empty) "c = lbrace \<and> starts_with rbrace (skip_ws t) \<or> c = lbrack \<and> starts_with rbrack (skip_ws t)"
    | (leaf) "c \<noteq> lbrace" "c \<noteq> lbrack" by blast
  then show ?case
  proof cases
    case obj
    then have "d \<noteq> 0" "scan_members n (d - 1) t = Some r" using 2(3) ct by (auto split: if_splits)
    then show ?thesis using 2(1) [OF ct obj(1) _ obj(2) _ k(1) d(1)] obj ct d(2) m by simp
  next
    case arr
    then have "d \<noteq> 0" "scan_elems n (d - 1) t = Some r" using 2(3) ct by (auto split: if_splits)
    then show ?thesis using 2(2) [OF ct arr(1,2) _ arr(3) _ k(2) d(1)] arr ct d(2) m by simp
  next
    case empty
    then have "d \<noteq> 0" "r = tl (skip_ws t)" using 2(3) ct by (auto split: if_splits)
    then show ?thesis using empty ct d(2) m by auto
  next
    case leaf
    then show ?thesis using 2(3) ct m by simp
  qed
next
  case (4 n d s)
  obtain t where ct: "skip_ws s = dquote # t" using 4(3) by (cases "skip_ws s") (auto split: if_splits)
  obtain r1 where r1: "scan_string t = Some r1" using 4(3) ct by (auto split: option.splits)
  have st: "starts_with colon (skip_ws r1)" using 4(3) ct r1 by (auto split: if_splits)
  obtain v where v: "scan_val n d (tl (skip_ws r1)) = Some v" using 4(3) ct r1 st by (auto split: option.splits)
  obtain e u where eu: "skip_ws v = e # u" using 4(3) ct r1 st v by (cases "skip_ws v") auto
  obtain k where m: "m = Suc k" using 4(4) by (cases m) auto
  have k: "n \<le> k \<or> 2 * length (tl (skip_ws r1)) + 1 \<le> k" "n \<le> k \<or> 2 * length u + 1 \<le> k"
    using 4(4) m skip_ws_shorter [OF ct] scan_string_shorter [OF r1] tl_skip_ws_shorter [of r1]
      scan_val_shorter [OF v] skip_ws_shorter [OF eu] by auto
  have v': "scan_val k d' (tl (skip_ws r1)) = Some v"
    using 4(1) [OF ct _ r1 _ v k(1) 4(5)] st by simp
  have next_member: "scan_members k d' u = Some r" if "e = comma"
    using 4(2) [OF ct _ r1 _ v eu that _ k(2) 4(5)] st 4(3) ct r1 v eu that by simp
  show ?case using 4(3) ct r1 st v v' eu next_member unfolding m by (simp split: if_splits)
next
  case (6 n d s)
  obtain v where v: "scan_val n d s = Some v" using 6(3) by (auto split: option.splits)
  obtain e u where eu: "skip_ws v = e # u" using 6(3) v by (cases "skip_ws v") auto
  obtain k where m: "m = Suc k" using 6(4) by (cases m) auto
  have k: "n \<le> k \<or> 2 * length s + 1 \<le> k" "n \<le> k \<or> 2 * length u + 2 \<le> k"
    using 6(4) m scan_val_shorter [OF v] skip_ws_shorter [OF eu] by auto
  have v': "scan_val k d' s = Some v" using 6(1) [OF v k(1) 6(5)] .
  have next_elem: "scan_elems k d' u = Some r" if "e = comma"
    using 6(2) [OF v eu that _ k(2) 6(5)] 6(3) v eu that by simp
  show ?case using 6(3) v v' eu next_elem unfolding m by (simp split: if_splits)
qed simp_all

lemma scan_val_fuel: "scan_val n d s = Some r \<Longrightarrow> d \<le> d' \<Longrightarrow> scan_val (scan_fuel s) d' s = Some r"
  by (erule enough_fuel) (simp_all add: scan_fuel_def)

text \<open>A value cut out of a text is a text of its own.\<close>

lemma upto_rest_append [simp]: "upto_rest (p @ r) r = p"
  by (simp add: upto_rest_def)

lemma scan_val_piece:
  assumes "scan_val n d s = Some r"
  obtains p where "s = p @ r" "p \<noteq> []" "upto_rest s r = p" "eats (scan_val n d) p"
    "scan_val (scan_fuel p) d p = Some []"
proof -
  obtain p where p: "s = p @ r" "p \<noteq> []" "eats (scan_val n d) p" using scan_eats(1) [OF assms] by blast
  then have "scan_val n d (p @ []) = Some []" by (simp add: eats_def del: append_Nil2)
  then have "scan_val (scan_fuel p) d p = Some []" by (simp add: scan_val_fuel)
  then show thesis using that p by simp
qed

lemma json_validI: "scan_val n d s = Some r \<Longrightarrow> d \<le> max_depth \<Longrightarrow> skip_ws r = [] \<Longrightarrow> json_valid s"
  by (drule (1) scan_val_fuel) (simp add: json_valid_def)

end
