(* ===== verification/JsonText.thy ===== *)
theory JsonText
  imports JsonFacts
begin

text \<open>
  \<open>Compact\<close> keeps the value: its output scans like its input, has no white space outside
  strings and no line feed, and compacting again changes nothing.
\<close>

subsection \<open>Compacting a string\<close>

text \<open>\<open>X\<close> is what compacting a string makes of it, up to and with the closing quote.\<close>

definition str_out :: "bool \<Rightarrow> string \<Rightarrow> bool" where
  "str_out esc X \<longleftrightarrow> X \<noteq> [] \<and> last X = dquote \<and> newline \<notin> set X \<and>
     (\<forall>t. scan_string (X @ t) = Some t) \<and>
     (\<forall>e t. (e \<longrightarrow> esc) \<longrightarrow> compact_bytes e True (X @ t) = X @ compact_bytes e False t)"

text \<open>Bytes above 0x7F at its start were there before.\<close>

definition heads_from :: "string \<Rightarrow> string \<Rightarrow> bool" where
  "heads_from X s \<longleftrightarrow>
     (X \<noteq> [] \<and> 128 \<le> byte (hd X) \<longrightarrow> s \<noteq> [] \<and> hd s = hd X \<and>
       (2 \<le> length X \<and> 128 \<le> byte (X ! 1) \<longrightarrow> 2 \<le> length s \<and> s ! 1 = X ! 1))"

definition unsafe :: "char \<Rightarrow> bool" where
  "unsafe c \<longleftrightarrow> c \<in> {CHR ''<'', CHR ''>'', CHR ''&''}"

lemma compact_bytes_Cons:
  "compact_bytes esc in_str (c # s) =
     (if esc \<and> unsafe c then u00 c @ compact_bytes esc in_str s
      else if esc \<and> line_sep (c # s) then u202 (s ! 1) @ compact_bytes esc in_str (drop 2 s)
      else if in_str then
        (if c = bslash \<and> s \<noteq> [] then c # hd s # compact_bytes esc True (tl s)
         else c # compact_bytes esc (c \<noteq> dquote) s)
      else if json_ws c then compact_bytes esc False s
      else c # compact_bytes esc (c = dquote) s)"
  by (simp add: compact_bytes.simps(2) unsafe_def)

lemma compact_bytes_Nil [simp]: "compact_bytes esc i [] = []"
  by (simp add: compact_bytes.simps)

lemma line_sep_low [simp]: "byte c < 128 \<Longrightarrow> \<not> line_sep (c # s)"
  by (auto simp: line_sep_def)

definition plain_byte :: "char \<Rightarrow> bool" where
  "plain_byte c \<longleftrightarrow> 32 \<le> byte c \<and> byte c < 128 \<and> \<not> unsafe c \<and> c \<noteq> dquote \<and> c \<noteq> bslash"

lemma plain_byteD: "plain_byte c \<Longrightarrow> scan_string (c # s) = scan_string s"
  "plain_byte c \<Longrightarrow> compact_bytes esc True (c # s) = c # compact_bytes esc True s" "plain_byte c \<Longrightarrow> c \<noteq> newline"
  by (auto simp: plain_byte_def scan_string_plain compact_bytes_Cons)

lemma hex_digit_plain: "n < 16 \<Longrightarrow> plain_byte (hex_digit n) \<and> is_hex (hex_digit n)"
proof -
  assume n: "n < 16"
  have b: "byte (hex_digit n) = (if n < 10 then 48 + n else 87 + n)"
    using n by (simp add: hex_digit_def)
  have "hex_digit n \<noteq> c" if "byte c \<notin> {48..57} \<union> {97..102}" for c
    using b that n by (auto split: if_splits)
  then show ?thesis using b n by (auto simp: plain_byte_def unsafe_def is_hex_def is_digit_def split: if_splits)
qed

lemma is_hex_plain: "is_hex c \<Longrightarrow> plain_byte c"
  by (auto simp: is_hex_def is_digit_def plain_byte_def unsafe_def)

text \<open>A backslash and five hexadecimal bytes in front.\<close>

lemma str_out_u:
  assumes "list_all is_hex [a, b, c, d]" "str_out esc X"
  shows "str_out esc ([bslash, CHR ''u'', a, b, c, d] @ X)"
  using assms plain_byteD(3) is_hex_plain
  by (auto simp: str_out_def scan_string_hex compact_bytes_Cons [of _ True bslash] unsafe_def
      plain_byteD(2))

lemma u00_shape: "\<exists>a b. u00 c = [bslash, CHR ''u'', CHR ''0'', CHR ''0'', a, b] \<and> is_hex a \<and> is_hex b"
proof -
  have "byte c < 256" by simp
  then have "byte c div 16 < 16" "byte c mod 16 < 16" by (simp_all add: less_mult_imp_div_less)
  then show ?thesis using hex_digit_plain by (auto simp: u00_def)
qed

lemma is_hex_lit [simp]: "is_hex (CHR ''0'')" "is_hex (CHR ''2'')" "is_hex (CHR ''f'')" "is_hex (CHR ''d'')"
  by (simp_all add: is_hex_def is_digit_def)

lemma str_out_u00: "str_out esc X \<Longrightarrow> str_out esc (u00 c @ X)"
  using u00_shape [of c] str_out_u [of "CHR ''0''" "CHR ''0''" _ _ esc X] by fastforce

lemma str_out_u202: "str_out esc X \<Longrightarrow> str_out esc (u202 c @ X)"
  using hex_digit_plain [of "byte c mod 16"] str_out_u [of "CHR ''2''" "CHR ''0''" "CHR ''2''" _ esc X]
  by (simp add: u202_def)

lemma str_out_close: "str_out esc [dquote]"
  by (simp add: str_out_def compact_bytes_Cons unsafe_def)

lemma str_out_escape:
  "simple_escape e \<Longrightarrow> str_out esc X \<Longrightarrow> str_out esc (bslash # e # X)"
  by (auto simp: str_out_def scan_string_bslash compact_bytes_Cons [of _ True bslash] unsafe_def
      simple_escape_def)

lemma str_out_byte:
  assumes c: "32 \<le> byte c" "c \<noteq> dquote" "c \<noteq> bslash" "esc \<Longrightarrow> \<not> unsafe c"
    and X: "str_out esc X" and ls: "\<And>t. esc \<Longrightarrow> \<not> line_sep (c # X @ t)"
  shows "str_out esc (c # X)"
proof -
  have "compact_bytes e True (c # X @ t) = c # compact_bytes e True (X @ t)" if "e \<longrightarrow> esc" for e t
    using that c ls [of t] by (auto simp: compact_bytes_Cons)
  then show ?thesis using X c by (auto simp: str_out_def scan_string_plain)
qed

text \<open>One byte kept: it must not complete an unsafe sequence.\<close>

lemma str_out_keep:
  assumes c: "32 \<le> byte c" "c \<noteq> dquote" "c \<noteq> bslash" "esc \<Longrightarrow> \<not> unsafe c"
    and X: "str_out esc X" and h: "heads_from X s" and ls: "esc \<Longrightarrow> \<not> line_sep (c # s)"
  shows "str_out esc (c # X)" "heads_from (c # X) (c # s)"
proof -
  have ne: "X \<noteq> []" "last X = dquote" using X by (simp_all add: str_out_def)
  have nls: "\<not> line_sep (c # X @ t)" if esc for t
  proof
    assume l: "line_sep (c # X @ t)"
    have x1: "hd X = CHR 0x80" using l ne by (cases X) (auto simp: line_sep_def)
    have "length X \<noteq> 1" using ne x1 by (cases X) auto
    then have x2: "2 \<le> length X" using ne by (cases X) (auto simp: Suc_le_eq)
    then have "X ! 1 = CHR 0xA8 \<or> X ! 1 = CHR 0xA9" using l by (auto simp: line_sep_def nth_append)
    then have "line_sep (c # s)"
      using h x1 x2 ne l by (cases s) (auto simp: heads_from_def line_sep_def)
    then show False using ls that by blast
  qed
  then show "str_out esc (c # X)" using str_out_byte [OF c X] by blast
  show "heads_from (c # X) (c # s)" using h ne by (cases X; cases s) (auto simp: heads_from_def)
qed

lemma heads_low: "byte c < 128 \<Longrightarrow> heads_from (c # X) s"
  by (simp add: heads_from_def)

lemma compact_u:
  assumes "list_all is_hex [a, b, c, d]"
  shows "compact_bytes esc True ([bslash, CHR ''u'', a, b, c, d] @ s) =
    [bslash, CHR ''u'', a, b, c, d] @ compact_bytes esc True s"
  using assms is_hex_plain by (simp add: compact_bytes_Cons [of _ True bslash] unsafe_def plain_byteD(2))

lemma unsafe_low: "unsafe c \<Longrightarrow> byte c < 128"
  by (auto simp: unsafe_def)

lemma scan_string_drop2:
  assumes "line_sep (c # s)" "scan_string (c # s) = Some r"
  shows "scan_string (drop 2 s) = Some r"
proof -
  obtain a b t where "s = a # b # t" "c = CHR 0xE2" "a = CHR 0x80" "b = CHR 0xA8 \<or> b = CHR 0xA9"
    using assms(1) by (auto simp: line_sep_def Suc_le_length_iff numeral_eq_Suc)
  then show ?thesis using assms(2) by (auto simp: scan_string_plain)
qed

lemma compact_string:
  "scan_string s = Some r \<Longrightarrow>
    \<exists>X. str_out esc X \<and> heads_from X s \<and> compact_bytes esc True s = X @ compact_bytes esc False r"
proof (induction s rule: length_induct)
  case (1 s)
  have IH: "\<exists>X. str_out esc X \<and> heads_from X u \<and> compact_bytes esc True u = X @ compact_bytes esc False r"
    if "length u < length s" "scan_string u = Some r" for u using 1(1) that by blast
  from 1(2) show ?case
  proof (cases rule: scan_string_cases)
    case close
    then show ?thesis
      by (intro exI [of _ "[dquote]"]) (simp add: str_out_close heads_low compact_bytes_Cons unsafe_def)
  next
    case (escape e t)
    then obtain X where X: "str_out esc X" "compact_bytes esc True t = X @ compact_bytes esc False r"
      using IH [of t] by auto
    have "compact_bytes esc True (bslash # e # t) = bslash # e # compact_bytes esc True t"
      by (simp add: compact_bytes_Cons [of _ True bslash] unsafe_def)
    then show ?thesis using X escape(1) str_out_escape [OF escape(2) X(1)]
      by (intro exI [of _ "bslash # e # X"]) (simp add: heads_low)
  next
    case (hex a b c d t)
    then obtain X where X: "str_out esc X" "compact_bytes esc True t = X @ compact_bytes esc False r"
      using IH [of t] by auto
    then show ?thesis using hex(1) str_out_u [OF hex(2) X(1)] compact_u [OF hex(2), of esc t]
      by (intro exI [of _ "[bslash, CHR ''u'', a, b, c, d] @ X"]) (simp add: heads_low)
  next
    case (plain c t)
    consider (us) "esc" "unsafe c" | (ls) "esc" "\<not> unsafe c" "line_sep (c # t)"
      | (keep) "esc \<Longrightarrow> \<not> unsafe c" "esc \<Longrightarrow> \<not> line_sep (c # t)" by blast
    then show ?thesis
    proof cases
      case us
      obtain X where X: "str_out esc X" "compact_bytes esc True t = X @ compact_bytes esc False r"
        using IH [of t] plain by auto
      have "heads_from (u00 c @ X) s" by (simp add: u00_def heads_low)
      then show ?thesis using us X plain str_out_u00 [OF X(1), of c]
        by (intro exI [of _ "u00 c @ X"]) (simp add: compact_bytes_Cons)
    next
      case ls
      have "scan_string (drop 2 t) = Some r" using scan_string_drop2 [OF ls(3)] 1(2) plain(1) by simp
      then obtain X where X: "str_out esc X" "compact_bytes esc True (drop 2 t) = X @ compact_bytes esc False r"
        using IH [of "drop 2 t"] plain(1) by (auto simp: less_Suc_eq_le)
      have "heads_from (u202 (t ! 1) @ X) s" by (simp add: u202_def heads_low)
      then show ?thesis using ls X plain str_out_u202 [OF X(1), of "t ! 1"]
        by (intro exI [of _ "u202 (t ! 1) @ X"]) (simp add: compact_bytes_Cons)
    next
      case keep
      obtain X where X: "str_out esc X" "heads_from X t" "compact_bytes esc True t = X @ compact_bytes esc False r"
        using IH [of t] plain by auto
      have "compact_bytes esc True s = c # compact_bytes esc True t"
        using keep plain by (auto simp: compact_bytes_Cons)
      then show ?thesis
        using X plain(1) str_out_keep [OF plain(4,2,3) keep(1) X(1,2) keep(2)]
        by (intro exI [of _ "c # X"]) simp
    qed
  qed
qed

subsection \<open>Compacting a value\<close>

text \<open>\<open>X\<close> is a compact text that \<open>f\<close> scans.\<close>

definition tok :: "bool \<Rightarrow> (string \<Rightarrow> string option) \<Rightarrow> string \<Rightarrow> bool" where
  "tok esc f X \<longleftrightarrow> X \<noteq> [] \<and> newline \<notin> set X \<and> \<not> json_ws (hd X) \<and> eats f X \<and>
     (\<forall>e t. (e \<longrightarrow> esc) \<longrightarrow> compact_bytes e False (X @ t) = X @ compact_bytes e False t)"

lemma compact_skip_ws: "compact_bytes esc False s = compact_bytes esc False (skip_ws s)"
proof (induction s)
  case (Cons c s)
  show ?case
  proof (cases "json_ws c")
    case True
    then have "\<not> unsafe c" "byte c < 128" by (auto simp: json_ws_def unsafe_def)
    then show ?thesis using True Cons by (simp add: compact_bytes_Cons skip_ws_def)
  next
    case False then show ?thesis by (simp add: skip_ws_Cons)
  qed
qed simp

text \<open>Bytes outside strings that are neither white space nor quotes nor unsafe.\<close>

definition struct_byte :: "char \<Rightarrow> bool" where
  "struct_byte c \<longleftrightarrow> 32 < byte c \<and> byte c < 128 \<and> \<not> unsafe c \<and> c \<noteq> dquote"

lemma struct_byteD: "struct_byte c \<Longrightarrow> compact_bytes esc False (c # s) = c # compact_bytes esc False s"
  "struct_byte c \<Longrightarrow> c \<noteq> newline" "struct_byte c \<Longrightarrow> \<not> json_ws c"
  by (auto simp: struct_byte_def compact_bytes_Cons json_ws_def)

lemma compact_struct:
  "list_all struct_byte p \<Longrightarrow> compact_bytes esc False (p @ s) = p @ compact_bytes esc False s"
  by (induction p) (simp_all add: struct_byteD)

lemma struct_bytes [json_bytes]:
  "struct_byte lbrace" "struct_byte rbrace" "struct_byte lbrack" "struct_byte rbrack"
  "struct_byte comma" "struct_byte colon" "num_char c \<Longrightarrow> struct_byte c"
  by (auto simp: struct_byte_def unsafe_def num_char_def is_digit_def)

lemma tok_struct: "list_all struct_byte p \<Longrightarrow> p \<noteq> [] \<Longrightarrow> eats f p \<Longrightarrow> tok esc f p"
  unfolding tok_def
  using compact_struct [of p] struct_byteD(2,3)
  by (intro conjI allI impI) (auto simp: list_all_iff dest: hd_in_set)

lemma compact_dquote: "compact_bytes esc False (dquote # s) = dquote # compact_bytes esc True s"
  by (simp add: compact_bytes_Cons unsafe_def json_bytes)

text \<open>A quoted string is a value, and the first part of a member.\<close>

lemma str_out_tok:
  "str_out esc X \<Longrightarrow> tok esc (\<lambda>s. scan_leaf (hd s) (tl s)) (dquote # X)"
  by (auto simp: tok_def str_out_def eats_def scan_leaf_def compact_dquote json_bytes)

lemma struct_words [json_bytes]:
  "list_all struct_byte ''true''" "list_all struct_byte ''false''" "list_all struct_byte ''null''"
  by (simp_all add: struct_byte_def unsafe_def)

lemma compact_leaf:
  assumes "scan_leaf c t = Some r"
  shows "\<exists>X. tok esc (\<lambda>s. scan_leaf (hd s) (tl s)) X \<and> hd X = c \<and>
    compact_bytes esc False (c # t) = X @ compact_bytes esc False r"
proof (cases "c = dquote")
  case True
  then have "scan_string t = Some r" using assms by (simp add: scan_leaf_def)
  then show ?thesis using compact_string [of t r esc] str_out_tok True by (fastforce simp: compact_dquote)
next
  case False
  obtain p where p: "c # t = p @ r" "p \<noteq> []" "hd p = c" "eats (\<lambda>s. scan_leaf (hd s) (tl s)) p"
    "list_all num_char p \<or> p \<in> {''true'', ''false'', ''null''}"
    using scan_leaf_eats [OF assms] False by blast
  have st: "list_all struct_byte p" using p(5) json_bytes by (auto simp: list_all_iff)
  then show ?thesis using p tok_struct [OF st p(2,4)] compact_struct [OF st] by auto
qed

lemma tokD:
  assumes "tok esc f X"
  shows "X \<noteq> []" "newline \<notin> set X" "\<not> json_ws (hd X)" "stops t \<Longrightarrow> f (X @ t) = Some t"
    "e \<longrightarrow> esc \<Longrightarrow> compact_bytes e False (X @ t) = X @ compact_bytes e False t"
  using assms by (auto simp: tok_def eats_def)

lemma str_outD:
  assumes "str_out esc X"
  shows "newline \<notin> set X" "scan_string (X @ t) = Some t"
    "e \<longrightarrow> esc \<Longrightarrow> compact_bytes e True (X @ t) = X @ compact_bytes e False t"
  using assms by (auto simp: str_out_def)

lemma skip_ws_tok: "tok esc f X \<Longrightarrow> skip_ws (X @ t) = X @ t"
  by (cases X) (auto simp: skip_ws_Cons dest: tokD(1,3))

text \<open>Building larger tokens.\<close>

lemma tok_object:
  assumes "tok esc (scan_members n d) X"
  shows "tok esc (scan_val (Suc n) (Suc d)) (lbrace # X)"
proof -
  note X = tokD [OF assms]
  have "scan_val (Suc n) (Suc d) (lbrace # X @ t) = Some t" if "stops t" for t
    using X(4) [OF that] members_start [OF X(4) [OF that]] by (simp add: skip_ws_Cons json_bytes)
  then show ?thesis using X(2,5) struct_byteD(1) struct_bytes(1) by (auto simp: tok_def eats_def json_bytes)
qed

lemma tok_array:
  assumes "tok esc (scan_elems n d) X"
  shows "tok esc (scan_val (Suc n) (Suc d)) (lbrack # X)"
proof -
  note X = tokD [OF assms]
  have "scan_val (Suc n) (Suc d) (lbrack # X @ t) = Some t" if "stops t" for t
    using X(4) [OF that] elems_start [OF X(4) [OF that]] by (simp add: skip_ws_Cons json_bytes)
  then show ?thesis using X(2,5) struct_byteD(1) struct_bytes(3) by (auto simp: tok_def eats_def json_bytes)
qed

lemma tok_empty:
  "tok esc (scan_val (Suc n) (Suc d)) [lbrace, rbrace]" "tok esc (scan_val (Suc n) (Suc d)) [lbrack, rbrack]"
  by (rule tok_struct; simp add: eats_def skip_ws_Cons json_bytes)+

lemma tok_leaf:
  assumes "tok esc (\<lambda>s. scan_leaf (hd s) (tl s)) X" "hd X \<noteq> lbrace" "hd X \<noteq> lbrack"
  shows "tok esc (scan_val (Suc n) d) X"
proof -
  note X = tokD [OF assms(1)]
  obtain c X' where c: "X = c # X'" using X(1) by (cases X) auto
  have "scan_val (Suc n) d (X @ t) = Some t" if "stops t" for t
    using X(3) X(4) [OF that] assms(2,3) c by (simp add: skip_ws_Cons)
  then show ?thesis using assms(1) by (simp add: tok_def eats_def)
qed

lemma tok_member:
  assumes k: "str_out esc K" and v: "tok esc (scan_val n d) V"
  shows tok_last_member: "tok esc (scan_members (Suc n) d) (dquote # K @ colon # V @ [rbrace])"
    and tok_more_members: "tok esc (scan_members n d) M \<Longrightarrow>
      tok esc (scan_members (Suc n) d) (dquote # K @ colon # V @ comma # M)"
proof -
  note K = str_outD [OF k] and V = tokD [OF v]
  note simp = skip_ws_Cons json_bytes K(2) V(4) K(1) V(2) compact_dquote K(3) V(5) struct_byteD(1)
  show "tok esc (scan_members (Suc n) d) (dquote # K @ colon # V @ [rbrace])"
    unfolding tok_def eats_def by (intro conjI allI impI) (simp_all add: simp)
  assume "tok esc (scan_members n d) M"
  note M = tokD [OF this]
  show "tok esc (scan_members (Suc n) d) (dquote # K @ colon # V @ comma # M)"
    unfolding tok_def eats_def by (intro conjI allI impI) (simp_all add: simp M(2,4,5))
qed

lemma tok_elem:
  assumes v: "tok esc (scan_val n d) V"
  shows tok_last_elem: "tok esc (scan_elems (Suc n) d) (V @ [rbrack])"
    and tok_more_elems: "tok esc (scan_elems n d) E \<Longrightarrow> tok esc (scan_elems (Suc n) d) (V @ comma # E)"
proof -
  note V = tokD [OF v]
  note simp = skip_ws_Cons json_bytes V(1-4) V(5) struct_byteD(1)
  show "tok esc (scan_elems (Suc n) d) (V @ [rbrack])"
    unfolding tok_def eats_def by (intro conjI allI impI) (simp_all add: simp)
  assume "tok esc (scan_elems n d) E"
  note E = tokD [OF this]
  show "tok esc (scan_elems (Suc n) d) (V @ comma # E)"
    unfolding tok_def eats_def by (intro conjI allI impI) (simp_all add: simp E(2,4,5))
qed

text \<open>What \<open>Compact\<close> makes of a scanned piece of text.\<close>

lemma compact_after: "\<not> json_ws c \<Longrightarrow> struct_byte c \<Longrightarrow> skip_ws s = c # t \<Longrightarrow>
    compact_bytes esc False s = c # compact_bytes esc False t"
  by (subst compact_skip_ws) (simp add: struct_byteD)

lemma compact_starts: "starts_with c (skip_ws s) \<Longrightarrow> struct_byte c \<Longrightarrow>
    compact_bytes esc False s = c # compact_bytes esc False (tl (skip_ws s))"
  by (subst compact_skip_ws) (cases "skip_ws s"; auto simp: starts_with_def struct_byteD)

lemma compact_scan:
  "scan_val n d s = Some r \<Longrightarrow>
     \<exists>X. tok esc (scan_val n d) X \<and> compact_bytes esc False s = X @ compact_bytes esc False r"
  "scan_members n d s = Some r \<Longrightarrow>
     \<exists>X. tok esc (scan_members n d) X \<and> compact_bytes esc False s = X @ compact_bytes esc False r"
  "scan_elems n d s = Some r \<Longrightarrow>
     \<exists>X. tok esc (scan_elems n d) X \<and> compact_bytes esc False s = X @ compact_bytes esc False r"
proof (induction n d s and n d s and n d s arbitrary: r and r and r
    rule: scan_val_scan_members_scan_elems.induct)
  case (2 n d s)
  obtain c t where ct: "skip_ws s = c # t" using 2(3) by (cases "skip_ws s") auto
  have cs: "compact_bytes esc False s = compact_bytes esc False (c # t)"
    using ct by (subst compact_skip_ws) simp
  consider (obj0) "c = lbrace" "starts_with rbrace (skip_ws t)" | (obj) "c = lbrace" "\<not> starts_with rbrace (skip_ws t)"
    | (arr0) "c = lbrack" "starts_with rbrack (skip_ws t)"
    | (arr) "c \<noteq> lbrace" "c = lbrack" "\<not> starts_with rbrack (skip_ws t)"
    | (leaf) "c \<noteq> lbrace" "c \<noteq> lbrack" by auto
  then show ?case
  proof cases
    case obj0
    then obtain d' where "d = Suc d'" "r = tl (skip_ws t)" using 2(3) ct by (cases d) (auto split: if_splits)
    then show ?thesis using obj0 cs compact_starts [OF obj0(2)] tok_empty(1)
      by (intro exI [of _ "[lbrace, rbrace]"]) (simp add: struct_byteD json_bytes del: scan_val.simps)
  next
    case arr0
    then obtain d' where "d = Suc d'" "r = tl (skip_ws t)" using 2(3) ct by (cases d) (auto split: if_splits)
    then show ?thesis using arr0 cs compact_starts [OF arr0(2)] tok_empty(2)
      by (intro exI [of _ "[lbrack, rbrack]"]) (simp add: struct_byteD json_bytes del: scan_val.simps)
  next
    case obj
    then obtain d' where d: "d = Suc d'" "d \<noteq> 0" "scan_members n (d - 1) t = Some r"
      using 2(3) ct by (cases d) (auto split: if_splits)
    then obtain X where "tok esc (scan_members n (d - 1)) X"
      "compact_bytes esc False t = X @ compact_bytes esc False r"
      using 2(1) [OF ct obj(1) d(2) obj(2) d(3)] by blast
    then show ?thesis using obj cs d(1) tok_object [of esc n d' X]
      by (intro exI [of _ "lbrace # X"]) (simp add: struct_byteD json_bytes del: scan_val.simps)
  next
    case arr
    then obtain d' where d: "d = Suc d'" "d \<noteq> 0" "scan_elems n (d - 1) t = Some r"
      using 2(3) ct by (cases d) (auto split: if_splits)
    then obtain X where "tok esc (scan_elems n (d - 1)) X"
      "compact_bytes esc False t = X @ compact_bytes esc False r"
      using 2(2) [OF ct arr(1,2) d(2) arr(3) d(3)] by blast
    then show ?thesis using arr cs d(1) tok_array [of esc n d' X]
      by (intro exI [of _ "lbrack # X"]) (simp add: struct_byteD json_bytes del: scan_val.simps)
  next
    case leaf
    then have "scan_leaf c t = Some r" using 2(3) ct by simp
    then obtain X where "tok esc (\<lambda>s. scan_leaf (hd s) (tl s)) X" "hd X = c"
      "compact_bytes esc False (c # t) = X @ compact_bytes esc False r" using compact_leaf by blast
    then show ?thesis using tok_leaf leaf cs by (auto simp del: scan_val.simps)
  qed
next
  case (4 n d s)
  obtain t where ct: "skip_ws s = dquote # t" using 4(3) by (cases "skip_ws s") (auto split: if_splits)
  obtain r1 where r1: "scan_string t = Some r1" using 4(3) ct by (auto split: option.splits)
  have st: "starts_with colon (skip_ws r1)" using 4(3) ct r1 by (auto split: if_splits)
  obtain v where v: "scan_val n d (tl (skip_ws r1)) = Some v" using 4(3) ct r1 st by (auto split: option.splits)
  obtain e u where eu: "skip_ws v = e # u" using 4(3) ct r1 st v by (cases "skip_ws v") auto
  obtain K where K: "str_out esc K" "compact_bytes esc True t = K @ compact_bytes esc False r1"
    using compact_string [OF r1] by blast
  obtain V where V: "tok esc (scan_val n d) V"
    "compact_bytes esc False (tl (skip_ws r1)) = V @ compact_bytes esc False v"
    using 4(1) [OF ct _ r1 _ v] st by blast
  have cs: "compact_bytes esc False s = dquote # K @ colon # V @ compact_bytes esc False v"
    using ct K(2) V(2) compact_starts [OF st] by (subst compact_skip_ws) (simp add: compact_dquote json_bytes)
  consider "e = rbrace" "r = u" | "e = comma" "scan_members n d u = Some r"
    using 4(3) ct r1 st v eu by (auto split: if_splits)
  then show ?case
  proof cases
    case 1
    then show ?thesis using cs tok_last_member [OF K(1) V(1)] compact_after [OF _ _ eu]
      by (intro exI [of _ "dquote # K @ colon # V @ [rbrace]"]) (simp add: json_bytes del: scan_members.simps scan_elems.simps)
  next
    case 2
    then obtain M where M: "tok esc (scan_members n d) M" "compact_bytes esc False u = M @ compact_bytes esc False r"
      using 4(2) [OF ct _ r1 _ v eu 2(1) 2(2)] st by blast
    then show ?thesis using 2 cs tok_more_members [OF K(1) V(1) M(1)] compact_after [OF _ _ eu]
      by (intro exI [of _ "dquote # K @ colon # V @ comma # M"]) (simp add: json_bytes del: scan_members.simps scan_elems.simps)
  qed
next
  case (6 n d s)
  obtain v where v: "scan_val n d s = Some v" using 6(3) by (auto split: option.splits)
  obtain e u where eu: "skip_ws v = e # u" using 6(3) v by (cases "skip_ws v") auto
  obtain V where V: "tok esc (scan_val n d) V" "compact_bytes esc False s = V @ compact_bytes esc False v"
    using 6(1) [OF v] by blast
  consider "e = rbrack" "r = u" | "e = comma" "scan_elems n d u = Some r"
    using 6(3) v eu by (auto split: if_splits)
  then show ?case
  proof cases
    case 1
    then show ?thesis using V(2) tok_last_elem [OF V(1)] compact_after [OF _ _ eu]
      by (intro exI [of _ "V @ [rbrack]"]) (simp add: json_bytes del: scan_members.simps scan_elems.simps)
  next
    case 2
    then obtain E where E: "tok esc (scan_elems n d) E" "compact_bytes esc False u = E @ compact_bytes esc False r"
      using 6(2) [OF v eu 2(1) 2(2)] by blast
    then show ?thesis using 2 V(2) tok_more_elems [OF V(1) E(1)] compact_after [OF _ _ eu]
      by (intro exI [of _ "V @ comma # E"]) (simp add: json_bytes del: scan_members.simps scan_elems.simps)
  qed
qed simp_all

lemma tok_mono:
  "tok esc (scan_val n d) X \<Longrightarrow> n \<le> m \<Longrightarrow> tok esc (scan_val m d) X"
  "tok esc (scan_members n d) X \<Longrightarrow> n \<le> m \<Longrightarrow> tok esc (scan_members m d) X"
  "tok esc (scan_elems n d) X \<Longrightarrow> n \<le> m \<Longrightarrow> tok esc (scan_elems m d) X"
  by (auto simp: tok_def eats_def intro: enough_fuel)

lemma tok_json:
  assumes "tok esc (scan_val n d) X" "d \<le> max_depth"
  shows "json_valid X" "(e \<longrightarrow> esc) \<Longrightarrow> compact e X = Some X"
proof -
  have "scan_val n d (X @ []) = Some []" by (rule tokD(4) [OF assms(1)]) simp
  then show v: "json_valid X" by (auto intro: json_validI [OF _ assms(2)])
  assume "e \<longrightarrow> esc"
  then have "compact_bytes e False (X @ []) = X @ compact_bytes e False []" by (rule tokD(5) [OF assms(1)])
  then show "compact e X = Some X" using v by (simp add: compact_def)
qed

text \<open>A valid text compacts to one line.\<close>

definition valid_at :: "nat \<Rightarrow> string \<Rightarrow> bool" where
  "valid_at d s \<longleftrightarrow> (\<exists>n r. scan_val n d s = Some r \<and> skip_ws r = [])"

lemma json_valid_at: "json_valid s \<longleftrightarrow> valid_at max_depth s"
proof
  assume "json_valid s"
  then show "valid_at max_depth s" by (auto simp: json_valid_def valid_at_def split: option.splits)
next
  assume "valid_at max_depth s"
  then show "json_valid s" by (auto simp: valid_at_def intro: json_validI)
qed

lemma compact_ws_only: "skip_ws r = [] \<Longrightarrow> compact_bytes esc False r = []"
  by (subst compact_skip_ws) simp

lemma compact_tok:
  assumes "valid_at d s"
  obtains n where "tok esc (scan_val n d) (compact_bytes esc False s)"
  using assms compact_scan(1) unfolding valid_at_def by (metis append_Nil2 compact_ws_only)

lemma compact_valid:
  assumes "json_valid s"
  obtains X where "compact esc s = Some X" "json_valid X" "newline \<notin> set X" "compact esc X = Some X"
proof -
  obtain n where t: "tok esc (scan_val n max_depth) (compact_bytes esc False s)"
    using compact_tok assms json_valid_at by blast
  show thesis
    by (rule that [of "compact_bytes esc False s"]) (use assms tok_json [OF t] tokD(2) [OF t] in \<open>simp_all add: compact_def\<close>)
qed

end
