(* ===== verification/JsonMarshal.thy ===== *)
theory JsonMarshal
  imports JsonText
begin

text \<open>
  \<open>Marshal\<close>: strings survive a round trip through their quoted form (up to the replacement
  of bytes that are no UTF-8), and a marshalled value is one line of valid, compact text.
\<close>

subsection \<open>Runes\<close>

lemma rune_len_ascii: "byte c < 128 \<Longrightarrow> rune_len (c # s) = 1"
  by (simp add: rune_len_def)

lemma len2: "2 \<le> length s \<Longrightarrow> \<exists>a b t. s = a # b # t"
  by (cases s; cases "tl s") auto

lemma len3: "3 \<le> length s \<Longrightarrow> \<exists>a b d t. s = a # b # d # t"
  by (cases s; cases "tl s"; cases "tl (tl s)") auto

lemma rune_cases:
  assumes "rune_len (c # s) \<noteq> 0" "128 \<le> byte c"
  obtains (two) a t where "s = a # t" "cont 0xC2 0xDF c" "cont 0x80 0xBF a" "rune_len (c # s) = 2"
  | (three) a b t where "s = a # b # t" "cont 0xE0 0xEF c" "cont 0x80 0xBF a" "cont 0x80 0xBF b" "rune_len (c # s) = 3"
  | (four) a b d t where "s = a # b # d # t" "cont 0xF0 0xF4 c" "cont 0x80 0xBF a" "cont 0x80 0xBF b" "cont 0x80 0xBF d"
      "rune_len (c # s) = 4"
proof -
  have ne: "s \<noteq> []" using assms by (auto simp: rune_len_def)
  consider "cont 0xC2 0xDF c" | "cont 0xE0 0xEF c" | "cont 0xF0 0xF4 c"
    using assms by (auto simp: rune_len_def split: if_splits)
  then show thesis
  proof cases
    case 1
    then show thesis using assms ne two [of "hd s" "tl s"]
      by (auto simp: rune_len_def cont_def split: if_splits)
  next
    case 2
    then have "\<not> cont 0xC2 0xDF c" by (simp add: cont_def)
    then have "2 \<le> length s" using assms ne by (auto simp: rune_len_def split: if_splits)
    then obtain a b t where s: "s = a # b # t" using len2 by blast
    then show thesis using 2 assms three [of a b t]
      by (auto simp: rune_len_def cont_def split: if_splits)
  next
    case 3
    then have "\<not> cont 0xC2 0xDF c" "\<not> cont 0xE0 0xEF c" by (simp_all add: cont_def)
    then have "3 \<le> length s" using assms ne by (auto simp: rune_len_def split: if_splits)
    then obtain a b d t where s: "s = a # b # d # t" using len3 by blast
    then show thesis using 3 assms four [of a b d t]
      by (auto simp: rune_len_def cont_def split: if_splits)
  qed
qed

text \<open>A rune is recognised whatever follows it.\<close>

lemma rune_len_local:
  "rune_len (c # s) \<noteq> 0 \<Longrightarrow> 128 \<le> byte c \<Longrightarrow>
    rune_len (take (rune_len (c # s)) (c # s) @ t) = rune_len (c # s) \<and>
    rune_len (c # s) \<le> length (c # s) \<and> 2 \<le> rune_len (c # s)"
  by (erule (1) rune_cases) (simp_all add: rune_len_def cont_def split: if_splits)

lemma cont_keep:
  assumes "cont 0x80 0xBF a" "str_out esc X"
  shows "str_out esc (a # X)"
proof (rule str_out_byte [OF _ _ _ _ assms(2)])
  show "32 \<le> byte a" "a \<noteq> dquote" "a \<noteq> bslash" "\<not> unsafe a"
    using assms(1) by (auto simp: cont_def unsafe_def)
  show "\<not> line_sep (a # X @ t)" for t using assms(1) by (auto simp: cont_def line_sep_def)
qed

lemma lead_keep:
  assumes "128 \<le> byte c" "str_out esc X" "\<And>t. esc \<Longrightarrow> \<not> line_sep (c # X @ t)"
  shows "str_out esc (c # X)"
  by (rule str_out_byte [OF _ _ _ _ assms(2,3)]) (use assms(1) in \<open>auto simp: unsafe_def\<close>)

lemma str_out_rune:
  assumes "rune_len (c # s) \<noteq> 0" "128 \<le> byte c" "\<not> line_sep (c # s)" "str_out esc X"
  shows "str_out esc (take (rune_len (c # s)) (c # s) @ X)"
  using assms(1,2)
proof (cases rule: rune_cases)
  case (two a t)
  have "c \<noteq> CHR 0xE2" using two(2) by (auto simp: cont_def)
  then have "str_out esc (c # a # X)"
    by (intro lead_keep [OF assms(2)] cont_keep [OF two(3) assms(4)]) (auto simp: line_sep_def)
  then show ?thesis using two by simp
next
  case (three a b t)
  have "\<not> line_sep (c # (a # b # X) @ u)" for u
    using assms(3) three(1) by (auto simp: line_sep_def)
  then have "str_out esc (c # a # b # X)"
    by (intro lead_keep [OF assms(2)] cont_keep three assms(4))
  then show ?thesis using three by simp
next
  case (four a b d t)
  have "c \<noteq> CHR 0xE2" using four(2) by (auto simp: cont_def)
  then have "str_out esc (c # a # b # d # X)"
    by (intro lead_keep [OF assms(2)] cont_keep four assms(4)) (auto simp: line_sep_def)
  then show ?thesis using four by simp
qed

subsection \<open>Quoting\<close>

function utf8_clean :: "string \<Rightarrow> string" where
  "utf8_clean [] = []"
| "utf8_clean (c # s) =
     (if rune_len (c # s) = 0 then replacement @ utf8_clean s
      else take (rune_len (c # s)) (c # s) @ utf8_clean (drop (rune_len (c # s)) (c # s)))"
  by pat_completeness auto
termination
  by (relation "measure length") auto

declare utf8_clean.simps [simp del]

lemma utf8_clean_plain: "list_all (\<lambda>c. byte c < 128) s \<Longrightarrow> utf8_clean s = s"
  by (induction s) (simp_all add: utf8_clean.simps rune_len_ascii)

lemma escape_byte_cases:
  obtains (hex) "escape_byte c = u00 c"
  | (escape) e where "escape_byte c = [bslash, e]" "simple_escape e"
  | (plain) "escape_byte c = [c]" "32 \<le> byte c" "\<not> unsafe c" "c \<noteq> bslash" "c \<noteq> dquote"
proof -
  consider "c = bslash \<or> c = dquote" | "c = CHR 0x08" | "c = CHR 0x0C" | "c = CHR 0x0A" | "c = CHR 0x0D" | "c = CHR 0x09"
    | "c \<notin> {bslash, dquote, CHR 0x08, CHR 0x0C, CHR 0x0A, CHR 0x0D, CHR 0x09}" by auto
  then show thesis
  proof cases
    case 1
    then show thesis using escape [of c] by (auto simp: escape_byte_def simple_escape_def)
  next
    case 2
    then show thesis using escape [of "CHR ''b''"] by (simp add: escape_byte_def simple_escape_def)
  next
    case 3
    then show thesis using escape [of "CHR ''f''"] by (simp add: escape_byte_def simple_escape_def)
  next
    case 4
    then show thesis using escape [of "CHR ''n''"] by (simp add: escape_byte_def simple_escape_def)
  next
    case 5
    then show thesis using escape [of "CHR ''r''"] by (simp add: escape_byte_def simple_escape_def)
  next
    case 6
    then show thesis using escape [of "CHR ''t''"] by (simp add: escape_byte_def simple_escape_def)
  next
    case 7
    then have "escape_byte c = (if byte c < 32 \<or> unsafe c then u00 c else [c])"
      by (simp add: escape_byte_def unsafe_def)
    then show thesis using hex plain 7 by (auto split: if_splits)
  qed
qed

lemma escape_byte_out:
  assumes "byte c < 128" "str_out True X"
  shows "str_out True (escape_byte c @ X)"
proof (cases c rule: escape_byte_cases)
  case hex then show ?thesis using str_out_u00 [OF assms(2)] by simp
next
  case (escape e) then show ?thesis using str_out_escape [OF _ assms(2)] by simp
next
  case plain
  have "str_out True (c # X)" by (rule str_out_byte) (use plain assms in \<open>simp_all\<close>)
  then show ?thesis using plain by simp
qed

lemma quote_body_out: "str_out True (quote_body s @ [dquote])"
proof (induction s rule: quote_body.induct)
  case 1 show ?case by (simp add: quote_body.simps str_out_close)
next
  case (2 c s)
  have fffd: "str_out True ([bslash, CHR ''u'', CHR ''f'', CHR ''f'', CHR ''f'', CHR ''d''] @ X)" if "str_out True X" for X
    by (rule str_out_u [OF _ that]) simp
  consider "byte c < 128" | "128 \<le> byte c" "rune_len (c # s) = 0"
    | "128 \<le> byte c" "rune_len (c # s) \<noteq> 0" "line_sep (c # s)"
    | "128 \<le> byte c" "rune_len (c # s) \<noteq> 0" "\<not> line_sep (c # s)" by linarith
  then show ?case
  proof cases
    case 1 then show ?thesis using 2(1) escape_byte_out by (simp add: quote_body.simps(2))
  next
    case c2: 2 then show ?thesis using 2(2) fffd by (simp add: quote_body.simps(2))
  next
    case 3 then show ?thesis using 2(3) str_out_u202 by (simp add: quote_body.simps(2))
  next
    case 4 then show ?thesis using 2(4) str_out_rune [OF 4(2,1,3)] by (simp add: quote_body.simps(2))
  qed
qed

lemma hex4_eq: "hex4 (a # b # c # d # t) = 16 * (16 * (16 * hex_val a + hex_val b) + hex_val c) + hex_val d"
  by (simp add: hex4_def)

lemma unquote_u:
  "\<not> (0xD800 \<le> hex4 [a, b, c, d] \<and> hex4 [a, b, c, d] < 0xDC00) \<Longrightarrow>
    unquote ([bslash, CHR ''u'', a, b, c, d] @ y) = encode_rune (hex4 [a, b, c, d]) @ unquote y"
  by (auto simp: unquote.simps(2) hex4_eq Let_def)

lemma hex_val_digit: "n < 16 \<Longrightarrow> hex_val (hex_digit n) = n"
  by (auto simp: hex_val_def hex_digit_def is_digit_def)

lemma hex_val_zero: "hex_val (CHR ''0'') = 0"
  by (simp add: hex_val_def is_digit_def)

lemma unquote_escape: "byte c < 128 \<Longrightarrow> unquote (escape_byte c @ y) = c # unquote y"
proof -
  assume c: "byte c < 128"
  have "hex4 [CHR ''0'', CHR ''0'', hex_digit (byte c div 16), hex_digit (byte c mod 16)] = byte c"
    using c by (simp add: hex4_eq hex_val_digit less_mult_imp_div_less hex_val_zero)
  then have u: "unquote (u00 c @ y) = c # unquote y"
    using c unquote_u [of "CHR ''0''" "CHR ''0''" "hex_digit (byte c div 16)" "hex_digit (byte c mod 16)" y]
    by (simp add: u00_def encode_rune_def)
  have e: "unquote (bslash # e # y) = unescape e # unquote y" if "e \<noteq> CHR ''u''" for e
    using that by (simp add: unquote.simps(2))
  have p: "unquote (c # y) = c # unquote y" if "c \<noteq> bslash"
    using that c by (simp add: unquote.simps(2) rune_len_ascii)
  show ?thesis using u p by (auto simp: escape_byte_def e unescape_def)
qed

theorem unquote_quote_body: "unquote (quote_body s) = utf8_clean s"
proof (induction s rule: quote_body.induct)
  case 1 show ?case by (simp add: quote_body.simps unquote.simps utf8_clean.simps)
next
  case (2 c s)
  consider "byte c < 128" | "128 \<le> byte c" "rune_len (c # s) = 0"
    | "128 \<le> byte c" "rune_len (c # s) \<noteq> 0" "line_sep (c # s)"
    | "128 \<le> byte c" "rune_len (c # s) \<noteq> 0" "\<not> line_sep (c # s)" by linarith
  then show ?case
  proof cases
    case 1 then show ?thesis using 2(1)
      by (simp add: quote_body.simps(2) unquote_escape utf8_clean.simps(2) rune_len_ascii)
  next
    case c2: 2
    have h: "hex4 [CHR ''f'', CHR ''f'', CHR ''f'', CHR ''d''] = 0xFFFD"
      by (simp add: hex4_eq hex_val_def is_digit_def)
    have "encode_rune 0xFFFD = replacement" by (simp add: encode_rune_def replacement_def char_of_def bit_0)
    then show ?thesis using c2 2(2) h unquote_u [of "CHR ''f''" "CHR ''f''" "CHR ''f''" "CHR ''d''" "quote_body s"]
      by (simp add: quote_body.simps(2) utf8_clean.simps(2))
  next
    case 3
    then obtain b t where s: "s = CHR 0x80 # b # t" and c: "c = CHR 0xE2" and b: "b = CHR 0xA8 \<or> b = CHR 0xA9"
      using len2 [of s] by (auto simp: line_sep_def)
    have r: "rune_len (c # s) = 3" using b by (auto simp: s c rune_len_def cont_def)
    have "unquote (u202 b @ y) = [c, CHR 0x80, b] @ unquote y" for y
    proof -
      have "hex4 ''2028'' = 0x2028" "hex4 ''2029'' = 0x2029"
        by (simp_all add: hex4_eq hex_val_def is_digit_def)
      moreover have "encode_rune 0x2028 = [CHR 0xE2, CHR 0x80, CHR 0xA8]"
        "encode_rune 0x2029 = [CHR 0xE2, CHR 0x80, CHR 0xA9]"
        by (simp_all add: encode_rune_def char_of_def bit_0)
      moreover have "u202 (CHR 0xA8) = bslash # ''u2028''" "u202 (CHR 0xA9) = bslash # ''u2029''"
        by (simp_all add: u202_def hex_digit_def char_of_def bit_0)
      ultimately show ?thesis using b
          unquote_u [of "CHR ''2''" "CHR ''0''" "CHR ''2''" "CHR ''8''" y]
          unquote_u [of "CHR ''2''" "CHR ''0''" "CHR ''2''" "CHR ''9''" y] by (auto simp: c)
    qed
    then show ?thesis using 2(3) 3 s r
      by (simp add: quote_body.simps(2) utf8_clean.simps(2))
  next
    case 4
    have loc: "rune_len (take (rune_len (c # s)) (c # s) @ y) = rune_len (c # s)"
      "2 \<le> rune_len (c # s)" for y using rune_len_local [OF 4(2,1)] by simp_all
    have "unquote (take (rune_len (c # s)) (c # s) @ y) = take (rune_len (c # s)) (c # s) @ unquote y" for y
    proof -
      obtain k where k: "rune_len (c # s) = Suc k" using loc(2) by (cases "rune_len (c # s)") auto
      have "c \<noteq> bslash" using 4(1) by auto
      moreover have "length (take k s) = k"
        using rune_len_local [OF 4(2,1)] k by simp
      ultimately show ?thesis using loc(1) [of y] k by (simp add: unquote.simps(2))
    qed
    then show ?thesis using 4 2(4) by (simp add: quote_body.simps(2) utf8_clean.simps(2))
  qed
qed

text \<open>A quoted string is a value that decodes to what was quoted.\<close>

lemma quote_tok: "tok True (scan_val (Suc n) d) (quote_string s)"
proof -
  have "tok True (scan_val (Suc n) d) (dquote # quote_body s @ [dquote])"
    by (rule tok_leaf [OF str_out_tok [OF quote_body_out]]) simp_all
  then show ?thesis by (simp add: quote_string_def del: scan_val.simps)
qed

lemma scan_quote: "scan_string (quote_body s @ dquote # t) = Some t"
  using str_outD(2) [OF quote_body_out, of s t] by simp

lemma unmarshal_quote: "unmarshal_string (quote_string s) = Some (utf8_clean s)"
proof -
  have "json_valid (quote_string s)" by (rule tok_json(1) [OF quote_tok [of 0 0]]) simp
  moreover have "upto_rest (quote_body s @ [dquote]) [] = quote_body s @ [dquote]" by (simp add: upto_rest_def)
  ultimately show ?thesis using scan_quote [of s "[]"]
    by (simp add: unmarshal_string_def quote_string_def skip_ws_Cons json_bytes unquote_quote_body)
qed

subsection \<open>Numbers\<close>

lemma digits_of_head: "digits_of n = CHR ''0'' # s \<Longrightarrow> n = 0 \<and> s = []"
proof (induction n arbitrary: s rule: digits_of.induct)
  case (1 n)
  show ?case
  proof (cases "n < 10")
    case True
    then have "char_of (48 + n) = CHR ''0''" "s = []" using 1(2) by (simp_all add: digits_of.simps [of n])
    then have "byte (char_of (48 + n)) = byte (CHR ''0'')" by simp
    then have "n = 0" using True by simp
    then show ?thesis using \<open>s = []\<close> by simp
  next
    case False
    then have d: "digits_of n = digits_of (n div 10) @ [char_of (48 + n mod 10)]" by (simp add: digits_of.simps [of n])
    then obtain u where "digits_of (n div 10) = CHR ''0'' # u"
      using 1(2) digits_of_digits [of "n div 10"] by (cases "digits_of (n div 10)") auto
    then have "n div 10 = 0" using 1(1) [OF False] by blast
    then show ?thesis using False by (simp add: div_eq_0_iff)
  qed
qed

lemma scan_frac_stop: "stops t \<Longrightarrow> scan_frac t = Some t"
  by (cases t) (auto simp: scan_frac_def scan_exp_def stops_def num_char_def)

lemma scan_digits_of: "stops t \<Longrightarrow> scan_number (digits_of n @ t) = Some t \<and> scan_number (CHR ''-'' # digits_of n @ t) = Some t"
proof -
  assume st: "stops t"
  obtain c u where cu: "digits_of n = c # u" and c: "is_digit c" and u: "list_all is_digit u"
    using digits_of_digits [of n] by (cases "digits_of n") auto
  have "c \<noteq> CHR ''-''" using c by (auto simp: is_digit_def)
  moreover have "c = CHR ''0'' \<Longrightarrow> u = []" using digits_of_head cu by blast
  moreover have "dropWhile is_digit (u @ t) = t" by (rule stops_digits [OF st u])
  ultimately show ?thesis using cu c scan_frac_stop [OF st] by (auto simp: scan_number_def)
qed

lemma itoa_tok: "tok True (scan_val (Suc n) d) (itoa i)"
proof -
  obtain c u where cu: "itoa i = c # u" and n: "is_digit c \<or> c = CHR ''-''"
    using digits_of_digits [of "nat i"] by (cases "itoa i") (auto simp: itoa_def split: if_splits)
  have c: "c \<notin> {dquote, CHR ''t'', CHR ''f'', CHR ''n'', lbrace, lbrack}" using n by (auto simp: is_digit_def)
  have sc: "scan_number (itoa i @ t) = Some t" if "stops t" for t
    using scan_digits_of [OF that] by (simp add: itoa_def)
  have "eats (\<lambda>s. scan_leaf (hd s) (tl s)) (itoa i)"
    using sc cu c by (simp add: eats_def scan_leaf_def)
  moreover have "list_all struct_byte (itoa i)"
    using digits_of_digits [of "nat i"] digits_of_digits [of "nat (- i)"] json_bytes
    by (auto simp: itoa_def list_all_iff num_char_def)
  ultimately have "tok True (\<lambda>s. scan_leaf (hd s) (tl s)) (itoa i)" using cu by (intro tok_struct) auto
  then show ?thesis using cu c by (intro tok_leaf) auto
qed

subsection \<open>Values\<close>

text \<open>Nesting at most \<open>d\<close>, and raw messages that are texts of at most that nesting.\<close>

fun json_ok :: "nat \<Rightarrow> gojson \<Rightarrow> bool" where
  "json_ok d (GArr vs) \<longleftrightarrow> d \<noteq> 0 \<and> (\<forall>v \<in> set vs. json_ok (d - 1) v)"
| "json_ok d (GObj ms) \<longleftrightarrow> d \<noteq> 0 \<and> (\<forall>m \<in> set ms. json_ok (d - 1) (snd m))"
| "json_ok d (GRaw s) \<longleftrightarrow> valid_at d s"
| "json_ok d v \<longleftrightarrow> True"

text \<open>Values without raw messages.\<close>

primrec no_raw :: "gojson \<Rightarrow> bool" where
  "no_raw GNull = True" | "no_raw (GBool b) = True" | "no_raw (GInt i) = True" | "no_raw (GStr s) = True"
| "no_raw (GArr vs) = list_all (\<lambda>b. b) (map no_raw vs)"
| "no_raw (GObj ms) = list_all (\<lambda>(k, b). b) (map (map_prod (\<lambda>k. k) no_raw) ms)"
| "no_raw (GRaw r) = False"

definition text_of :: "nat \<Rightarrow> gojson \<Rightarrow> string \<Rightarrow> bool" where
  "text_of d v X \<longleftrightarrow> marshal v = Some X \<and> (\<exists>n. tok True (scan_val n d) X)"

lemma sequence_opt_length: "sequence_opt xs = Some ys \<Longrightarrow> length ys = length xs"
  by (induction xs arbitrary: ys rule: sequence_opt.induct) auto

lemma elems_text:
  "vs \<noteq> [] \<Longrightarrow> \<forall>v \<in> set vs. \<exists>X. text_of d v X \<Longrightarrow>
    \<exists>ts n. sequence_opt (map marshal vs) = Some ts \<and> tok True (scan_elems n d) (sep_join ts @ [rbrack])"
proof (induction vs rule: list_nonempty_induct)
  case (single v)
  then obtain X n where "marshal v = Some X" "tok True (scan_val n d) X" by (auto simp: text_of_def)
  then show ?case using tok_last_elem by (fastforce simp: sep_join_def simp del: scan_elems.simps)
next
  case (cons v vs)
  then obtain X n where X: "marshal v = Some X" "tok True (scan_val n d) X" by (auto simp: text_of_def)
  obtain ts m where ts: "sequence_opt (map marshal vs) = Some ts" "tok True (scan_elems m d) (sep_join ts @ [rbrack])"
    using cons by auto
  have "ts \<noteq> []" using sequence_opt_length [OF ts(1)] cons(1) by auto
  then have j: "sep_join (X # ts) = X @ comma # sep_join ts" by (cases ts) (simp_all add: sep_join_def)
  have "tok True (scan_elems (Suc (max n m)) d) (X @ comma # sep_join ts @ [rbrack])"
    using tok_mono(1) [OF X(2), of "max n m"] tok_mono(3) [OF ts(2), of "max n m"] by (intro tok_more_elems) simp_all
  then show ?case using X(1) ts(1) j by (intro exI [of _ "X # ts"] exI [of _ "Suc (max n m)"]) (simp del: scan_elems.simps)
qed

lemma members_text:
  "ms \<noteq> [] \<Longrightarrow> \<forall>m \<in> set ms. \<exists>X. text_of d (snd m) X \<Longrightarrow>
    \<exists>ts n. sequence_opt (map (\<lambda>(k, v). map_option (\<lambda>t. quote_string k @ colon # t) (marshal v)) ms) = Some ts \<and>
      tok True (scan_members n d) (sep_join ts @ [rbrace])"
proof (induction ms rule: list_nonempty_induct)
  case (single m)
  obtain k v where m: "m = (k, v)" by (cases m)
  then obtain X n where X: "marshal v = Some X" "tok True (scan_val n d) X" using single by (auto simp: text_of_def)
  have "tok True (scan_members (Suc n) d) (dquote # (quote_body k @ [dquote]) @ colon # X @ [rbrace])"
    by (rule tok_last_member [OF quote_body_out X(2)])
  then show ?case using X(1) m
    by (intro exI [of _ "[quote_string k @ colon # X]"] exI [of _ "Suc n"])
      (simp add: sep_join_def quote_string_def del: scan_members.simps)
next
  case (cons m ms)
  obtain k v where m: "m = (k, v)" by (cases m)
  then obtain X n where X: "marshal v = Some X" "tok True (scan_val n d) X" using cons by (auto simp: text_of_def)
  obtain ts l where ts: "sequence_opt (map (\<lambda>(k, v). map_option (\<lambda>t. quote_string k @ colon # t) (marshal v)) ms) = Some ts"
    "tok True (scan_members l d) (sep_join ts @ [rbrace])" using cons by auto
  have "ts \<noteq> []" using sequence_opt_length [OF ts(1)] cons(1) by auto
  then have j: "sep_join (t # ts) = t @ comma # sep_join ts" for t by (cases ts) (simp_all add: sep_join_def)
  have "tok True (scan_members (Suc (max n l)) d)
      (dquote # (quote_body k @ [dquote]) @ colon # X @ comma # sep_join ts @ [rbrace])"
    using tok_mono(1) [OF X(2), of "max n l"] tok_mono(2) [OF ts(2), of "max n l"]
    by (intro tok_more_members [OF quote_body_out]) simp_all
  then show ?case using X(1) ts(1) j m
    by (intro exI [of _ "(quote_string k @ colon # X) # ts"] exI [of _ "Suc (max n l)"])
      (simp add: quote_string_def del: scan_members.simps)
qed

lemma word_tok:
  assumes "w \<in> {''true'', ''false'', ''null''}"
  shows "tok True (scan_val (Suc n) d) w"
proof -
  have "eats (\<lambda>s. scan_leaf (hd s) (tl s)) w"
    using assms by (auto simp: eats_def scan_leaf_def scan_word_def)
  then have "tok True (\<lambda>s. scan_leaf (hd s) (tl s)) w"
    using assms struct_words by (intro tok_struct) auto
  then show ?thesis using assms by (intro tok_leaf) auto
qed

lemma marshal_text: "json_ok d v \<Longrightarrow> d \<le> max_depth \<Longrightarrow> \<exists>X. text_of d v X"
proof (induction v arbitrary: d)
  case (GArr vs)
  then obtain d' where d: "d = Suc d'" by (cases d) auto
  show ?case
  proof (cases "vs = []")
    case True
    then show ?thesis using tok_empty(2) d by (auto simp: text_of_def sep_join_def simp del: scan_val.simps)
  next
    case False
    then obtain ts n where ts: "sequence_opt (map marshal vs) = Some ts" "tok True (scan_elems n d') (sep_join ts @ [rbrack])"
      using elems_text [of vs d'] GArr d by fastforce
    show ?thesis using ts(1) tok_array [OF ts(2)] d by (auto simp: text_of_def simp del: scan_val.simps)
  qed
next
  case (GObj ms)
  then obtain d' where d: "d = Suc d'" by (cases d) auto
  show ?case
  proof (cases "ms = []")
    case True
    then show ?thesis using tok_empty(1) d by (auto simp: text_of_def sep_join_def simp del: scan_val.simps)
  next
    case False
    have "\<forall>m \<in> set ms. \<exists>X. text_of d' (snd m) X" using GObj d by (fastforce simp: snds.simps)
    then obtain ts n where ts: "sequence_opt (map (\<lambda>(k, v). map_option (\<lambda>t. quote_string k @ colon # t) (marshal v)) ms) = Some ts"
      "tok True (scan_members n d') (sep_join ts @ [rbrace])"
      using members_text [OF False] by blast
    show ?thesis using ts(1) tok_object [OF ts(2)] d by (auto simp: text_of_def simp del: scan_val.simps)
  qed
next
  case (GRaw s)
  then have "valid_at d s" by simp
  then obtain n where "tok True (scan_val n d) (compact_bytes True False s)" by (rule compact_tok)
  moreover have "json_valid s" using \<open>valid_at d s\<close> GRaw(2) by (auto simp: valid_at_def intro: json_validI)
  ultimately show ?case by (auto simp: text_of_def compact_def)
next
  case (GStr s)
  then show ?case using quote_tok [of 0 d s] unfolding text_of_def by auto
next
  case (GInt i)
  then show ?case using itoa_tok [of 0 d i] unfolding text_of_def by auto
next
  case (GBool b)
  show ?case using word_tok [of "''true''" 0 d] word_tok [of "''false''" 0 d] unfolding text_of_def by auto
next
  case GNull
  show ?case using word_tok [of "''null''" 0 d] unfolding text_of_def by auto
qed

text \<open>A marshalled value is one line of valid text that \<open>Compact\<close> leaves as it is.\<close>

lemma text_of_facts:
  assumes "text_of d v X" "d \<le> max_depth"
  shows "marshal v = Some X" "json_valid X" "newline \<notin> set X" "compact e X = Some X" "valid_at d X"
    "X \<noteq> []" "\<not> json_ws (hd X)"
proof -
  obtain n where t: "tok True (scan_val n d) X" and m: "marshal v = Some X" using assms(1) by (auto simp: text_of_def)
  show "marshal v = Some X" by (rule m)
  show "json_valid X" "compact e X = Some X" using tok_json [OF t assms(2)] by auto
  show "newline \<notin> set X" "X \<noteq> []" "\<not> json_ws (hd X)" using tokD [OF t] by auto
  have "scan_val n d (X @ []) = Some []" by (rule tokD(4) [OF t]) simp
  then have "scan_val n d X = Some []" by (simp del: scan_val.simps)
  then show "valid_at d X" unfolding valid_at_def by (intro exI [of _ n] exI [of _ "[]"]) simp
qed

lemma marshal_ok:
  assumes "json_ok d v" "d \<le> max_depth"
  obtains X where "text_of d v X" "marshal v = Some X"
  using marshal_text [OF assms] text_of_facts(1) assms(2) by blast

lemma marshal_object:
  "marshal (GObj ms) = Some X \<Longrightarrow> 2 \<le> length X \<and> hd X = lbrace \<and> last X = rbrace"
  by auto

subsection \<open>Members of an object\<close>

lemma raw_members_valid:
  "(k, raw) \<in> set (raw_members n s) \<Longrightarrow> json_valid raw \<and> raw \<noteq> [] \<and> \<not> json_ws (hd raw)"
proof (induction n s rule: raw_members.induct)
  case (2 n s)
  obtain c t where ct: "skip_ws s = c # t" using 2(2) by (cases "skip_ws s") auto
  have c: "c = dquote" using 2(2) ct by (auto split: if_splits)
  obtain r where r: "scan_string t = Some r" using 2(2) ct c by (cases "scan_string t") auto
  define v where "v = skip_ws (tl (skip_ws r))"
  obtain v' where v': "scan_val (scan_fuel v) max_depth v = Some v'"
    using 2(2) ct c r by (cases "scan_val (scan_fuel v) max_depth v") (auto simp: v_def [symmetric] Let_def)
  from v' obtain p where p: "v = p @ v'" "p \<noteq> []" "upto_rest v v' = p" "scan_val (scan_fuel p) max_depth p = Some []"
    by (rule scan_val_piece)
  have "\<not> json_ws (hd p)"
  proof -
    obtain a p' where "p = a # p'" using p(2) by (cases p) auto
    then show ?thesis using p(1) skip_ws_hd [of "tl (skip_ws r)" a "p' @ v'"] by (simp add: v_def)
  qed
  then have piece: "json_valid p \<and> p \<noteq> [] \<and> \<not> json_ws (hd p)" using p(2,4) by (simp add: json_valid_def)
  have cases: "raw = p \<or> (\<exists>w. skip_ws v' = comma # w \<and> (k, raw) \<in> set (raw_members n w))"
    using 2(2) ct c r v' p(3) by (auto simp: v_def [symmetric] Let_def split: list.splits if_splits)
  have "json_valid raw \<and> raw \<noteq> [] \<and> \<not> json_ws (hd raw)"
    if w: "skip_ws v' = comma # w" "(k, raw) \<in> set (raw_members n w)" for w
    using 2(1) [OF ct _ r refl refl v' [unfolded v_def] w(1) refl w(2)] c by (simp add: v_def)
  then show ?case using cases piece by blast
qed simp

lemma unmarshal_fields_valid:
  assumes "unmarshal_fields raw = Some fields" "fields k = Some v"
  shows "json_valid v" "v \<noteq> []" "\<not> json_ws (hd v)"
proof -
  obtain ms where "unmarshal_members raw = Some ms" "map_of (rev ms) k = Some v"
    using assms by (auto simp: unmarshal_fields_def)
  then have "\<exists>s. (k, v) \<in> set (raw_members (length raw) s)"
    by (auto simp: unmarshal_members_def split: if_splits list.splits dest!: map_of_SomeD)
  then show "json_valid v" "v \<noteq> []" "\<not> json_ws (hd v)" using raw_members_valid by blast+
qed

end
