(* ===== verification/Protocol.thy ===== *)
theory Protocol
  imports JsonMarshal "HOL-Library.List_Lexorder"
begin

text \<open>
  Package \<open>internal/protocol\<close>: the JSON-RPC and MCP data and the texts they marshal to.
  A Go map is a list of entries that the encoder sorts by key; a struct is an object whose
  members come in the order of its fields, leaving out empty \<open>omitempty\<close> ones.
\<close>

subsection \<open>Constants\<close>

definition ErrParseError :: int where "ErrParseError = -32700"
definition ErrInvalidRequest :: int where "ErrInvalidRequest = -32600"
definition ErrMethodNotFound :: int where "ErrMethodNotFound = -32601"
definition ErrInvalidParams :: int where "ErrInvalidParams = -32602"
definition ErrInternalError :: int where "ErrInternalError = -32603"

lemmas error_codes = ErrParseError_def ErrInvalidRequest_def ErrMethodNotFound_def
  ErrInvalidParams_def ErrInternalError_def

definition JSONRPCVersion :: string where "JSONRPCVersion = ''2.0''"
definition ProtocolVersion :: string where "ProtocolVersion = ''2025-11-25''"

subsection \<open>Objects\<close>

definition go_map :: "(string \<times> gojson) list \<Rightarrow> gojson" where
  "go_map ms = GObj (sort_key fst ms)"

text \<open>\<open>json.RawMessage\<close> marshals as itself, a nil one as \<open>null\<close>.\<close>

definition raw_json :: "string \<Rightarrow> gojson" where
  "raw_json raw = (if raw = [] then GNull else GRaw raw)"

record rpc_error =
  er_Code :: int
  er_Message :: string

definition error_json :: "rpc_error \<Rightarrow> gojson" where
  "error_json e = GObj [(''code'', GInt (er_Code e)), (''message'', GStr (er_Message e))]"

subsection \<open>Tools\<close>

record tool_def =
  td_Name :: string
  td_Title :: string
  td_Description :: string
  td_InputSchema :: gojson
  td_OutputSchema :: "(string \<times> gojson) list"

definition tool_json :: "tool_def \<Rightarrow> gojson" where
  "tool_json t = GObj
     ([(''name'', GStr (td_Name t))] @
      (if td_Title t = [] then [] else [(''title'', GStr (td_Title t))]) @
      [(''description'', GStr (td_Description t)), (''inputSchema'', td_InputSchema t)] @
      (if td_OutputSchema t = [] then [] else [(''outputSchema'', go_map (td_OutputSchema t))]))"

record text_content =
  tc_Type :: string
  tc_Text :: string

definition NewTextContent :: "string \<Rightarrow> text_content" where
  "NewTextContent text = \<lparr>tc_Type = ''text'', tc_Text = text\<rparr>"

definition text_content_json :: "text_content \<Rightarrow> gojson" where
  "text_content_json c = GObj [(''type'', GStr (tc_Type c)), (''text'', GStr (tc_Text c))]"

record call_tool_result =
  ct_Content :: "text_content list"
  ct_StructuredContent :: string
  ct_IsError :: bool

definition call_tool_result_json :: "call_tool_result \<Rightarrow> gojson" where
  "call_tool_result_json r = GObj
     ([(''content'', GArr (map text_content_json (ct_Content r))),
       (''structuredContent'', raw_json (ct_StructuredContent r))] @
      (if ct_IsError r then [(''isError'', GBool True)] else []))"

text \<open>The only errors are "structured content must be a JSON object": \<open>None\<close>.\<close>

definition NewCallToolResult :: "string \<Rightarrow> call_tool_result option" where
  "NewCallToolResult structuredContent =
     (case compact False structuredContent of
        None \<Rightarrow> None
      | Some content \<Rightarrow>
          if length content < 2 \<or> hd content \<noteq> lbrace \<or> last content \<noteq> rbrace then None
          else Some \<lparr>ct_Content = [NewTextContent content], ct_StructuredContent = content, ct_IsError = False\<rparr>)"

subsection \<open>Results and responses\<close>

text \<open>
  A value of Go's type \<open>any\<close> as a handler or a tool returns it: one that marshals as plain
  data, or a call result.
\<close>

datatype go_any = Plain gojson | CallResult call_tool_result

fun any_json :: "go_any \<Rightarrow> gojson" where
  "any_json (Plain v) = v"
| "any_json (CallResult r) = call_tool_result_json r"

record response =
  rs_JSONRPC :: string
  rs_ID :: string
  rs_Result :: "go_any option"
  rs_Error :: "rpc_error option"

definition response_json :: "response \<Rightarrow> gojson" where
  "response_json r = GObj
     ([(''jsonrpc'', GStr (rs_JSONRPC r)), (''id'', raw_json (rs_ID r))] @
      (case rs_Result r of None \<Rightarrow> [] | Some v \<Rightarrow> [(''result'', any_json v)]) @
      (case rs_Error r of None \<Rightarrow> [] | Some e \<Rightarrow> [(''error'', error_json e)]))"

subsection \<open>What marshals\<close>

named_theorems json_ok_simps "values of bounded nesting"

lemma go_map_ok [json_ok_simps]: "json_ok (Suc d) (go_map ms) \<longleftrightarrow> (\<forall>m \<in> set ms. json_ok d (snd m))"
  by (simp add: go_map_def)

lemma error_ok [json_ok_simps]: "json_ok (Suc (Suc d)) (error_json e)" "json_ok (Suc 0) (error_json e)"
  by (simp_all add: error_json_def)

lemma text_content_ok [json_ok_simps]: "json_ok (Suc d) (text_content_json c)"
  by (simp add: text_content_json_def)

lemma raw_ok [json_ok_simps]: "raw \<noteq> [] \<Longrightarrow> json_ok d (raw_json raw) \<longleftrightarrow> valid_at d raw"
  by (simp add: raw_json_def)

text \<open>A call result is made of any object, and is that object as text and as data.\<close>

lemma NewCallToolResult_Some:
  assumes "text_of d (GObj ms) X" "d \<le> max_depth"
  shows "NewCallToolResult X =
    Some \<lparr>ct_Content = [NewTextContent X], ct_StructuredContent = X, ct_IsError = False\<rparr>"
  using text_of_facts(1,4) [OF assms] marshal_object [of ms X]
  by (auto simp: NewCallToolResult_def not_less)

lemma valid_at_mono: "valid_at d s \<Longrightarrow> d \<le> d' \<Longrightarrow> valid_at d' s"
  unfolding valid_at_def by (elim exE conjE) (drule enough_fuel(1) [OF _ disjI1]; auto)

lemma json_ok_mono: "json_ok d v \<Longrightarrow> d \<le> d' \<Longrightarrow> json_ok d' v"
proof (induction v arbitrary: d d')
  case (GRaw s)
  then show ?case by (auto simp del: scan_val.simps intro: valid_at_mono)
next
  case (GArr vs)
  have "json_ok (d' - 1) v" if "v \<in> set vs" for v
    using that GArr(2,3) by (intro GArr(1) [of v "d - 1" "d' - 1"]) auto
  then show ?case using GArr(2,3) by simp
next
  case (GObj ms)
  have "json_ok (d' - 1) (snd m)" if "m \<in> set ms" for m
  proof (rule GObj(1) [OF that])
    show "snd m \<in> Basic_BNFs.snds m" by (cases m) (simp add: snds.intros)
    show "json_ok (d - 1) (snd m)" using that GObj(2) by simp
    show "d - 1 \<le> d' - 1" using GObj(3) by simp
  qed
  then show ?case using GObj(2,3) by simp
qed simp_all

end
