(* ===== verification/Params.thy ===== *)
theory Params
  imports Protocol Sandbox
begin

text \<open>
  \<open>internal/mcp/tools/params_validation.go\<close>, the tool errors of
  \<open>tool_list_directory.go\<close> and the output schemas: what all tools share.
\<close>

subsection \<open>Validation of parameters\<close>

definition invalidParamsError :: rpc_error where
  "invalidParamsError = \<lparr>er_Code = ErrInvalidParams, er_Message = ''invalid params''\<rparr>"

definition isNonBlank :: "string \<Rightarrow> bool" where
  "isNonBlank v \<longleftrightarrow> trim_space v \<noteq> []"

definition isJSONObject :: "string \<Rightarrow> bool" where
  "isJSONObject raw \<longleftrightarrow> (let trimmed = trim_space raw in 0 < length trimmed \<and> hd trimmed = lbrace)"

definition isJSONNull :: "string \<Rightarrow> bool" where
  "isJSONNull raw \<longleftrightarrow> trim_space raw = ''null''"

definition isMissingNullOrObject :: "string \<Rightarrow> bool" where
  "isMissingNullOrObject raw \<longleftrightarrow>
     (let trimmed = trim_space raw in length trimmed = 0 \<or> trimmed = ''null'' \<or> isJSONObject raw)"

text \<open>The \<open>stringField\<close> of the tools refuses blank strings.\<close>

definition stringField :: "(string \<rightharpoonup> string) \<Rightarrow> string \<Rightarrow> string option" where
  "stringField flds key =
     (case flds key of
        None \<Rightarrow> None
      | Some raw \<Rightarrow>
          (case unmarshal_string raw of
             None \<Rightarrow> None
           | Some v \<Rightarrow> if trim_space v = [] then None else Some v))"

text \<open>
  \<open>decodeStrictArguments\<close> into a struct with the given fields. After \<open>Unmarshal\<close> the text
  is one valid value, so that the second \<open>Decode\<close>, which looks for more, finds the end.
\<close>

definition decodeStrictArguments :: "(string \<times> jkind) list \<Rightarrow> string \<Rightarrow> (rpc_error, (string \<times> jval) list) result" where
  "decodeStrictArguments target raw =
     (if \<not> isJSONObject raw then Inl invalidParamsError
      else case unmarshal_members raw of
        None \<Rightarrow> Inl invalidParamsError
      | Some ms \<Rightarrow>
          let flds = map_of (rev ms) in
          if list_ex (\<lambda>(key, _). case flds key of None \<Rightarrow> False | Some v \<Rightarrow> isJSONNull v) ms
          then Inl invalidParamsError
          else case decode_members 0 True target ms [] of
            None \<Rightarrow> Inl invalidParamsError
          | Some vs \<Rightarrow> Inr vs)"

lemma decodeStrictArguments_Inl: "decodeStrictArguments target raw = Inl e \<Longrightarrow> e = invalidParamsError"
  by (auto simp: decodeStrictArguments_def Let_def split: if_splits option.splits)

subsection \<open>File system errors\<close>

datatype filesystemErrorCategory = categoryNotFound | categoryAlreadyExists | categoryAccessDenied
  | categoryInvalidPath | categoryUnsupportedPathType | categoryUnsupportedOperation
  | categoryLimitExceeded | categoryIOError

fun category_text :: "filesystemErrorCategory \<Rightarrow> string" where
  "category_text categoryNotFound = ''not_found''"
| "category_text categoryAlreadyExists = ''already_exists''"
| "category_text categoryAccessDenied = ''access_denied''"
| "category_text categoryInvalidPath = ''invalid_path''"
| "category_text categoryUnsupportedPathType = ''unsupported_path_type''"
| "category_text categoryUnsupportedOperation = ''unsupported_operation''"
| "category_text categoryLimitExceeded = ''limit_exceeded''"
| "category_text categoryIOError = ''io_error''"

definition classifyFilesystemError :: "goerr \<Rightarrow> filesystemErrorCategory" where
  "classifyFilesystemError err =
     (if err \<in> {ErrAbsolutePath, ErrPathTraversal, ErrOutsideRoot, ErrHiddenPathDenied, ErrUNCPathDenied,
         ErrSymlinkDenied, ErrReparsePointDenied, ErrSamePath, ErrMoveIntoSelf, ErrMovePathChanged}
      then categoryInvalidPath
      else if err = ErrNotFound \<or> is_not_exist err then categoryNotFound
      else if err = ErrFileExists \<or> is_exist err then categoryAlreadyExists
      else if is_permission err then categoryAccessDenied
      else if err \<in> {ErrPathIsDirectory, ErrPathIsNotDirectory, ErrCopyDirectoryUnsupported,
         ErrMoveTypeMismatch, ErrDirectoryNotEmpty} then categoryUnsupportedPathType
      else if err = ErrCrossVolumeMoveUnsupported then categoryUnsupportedOperation
      else if err = ErrFileTooLarge \<or> err = ErrLimitExceeded then categoryLimitExceeded
      else categoryIOError)"

definition mapFilesystemError :: "goerr \<Rightarrow> rpc_error" where
  "mapFilesystemError err =
     (let category = classifyFilesystemError err
      in \<lparr>er_Code = (if category = categoryIOError then ErrInternalError else ErrInvalidParams),
          er_Message = ''filesystem error: '' @
            map (\<lambda>c. if c = CHR ''_'' then CHR '' '' else c) (category_text category)\<rparr>)"

subsection \<open>Schemas\<close>

definition go_type :: "string \<Rightarrow> gojson" where
  "go_type t = go_map [(''type'', GStr t)]"

definition go_strings :: "string list \<Rightarrow> gojson" where
  "go_strings ws = GArr (map GStr ws)"

definition objectOutputSchema :: "(string \<times> gojson) list \<Rightarrow> string list \<Rightarrow> (string \<times> gojson) list" where
  "objectOutputSchema properties required =
     [(''type'', GStr ''object''), (''properties'', go_map properties),
      (''required'', go_strings required), (''additionalProperties'', GBool False)]"

definition listDirectoryToolName :: string where "listDirectoryToolName = ''list_directory''"
definition readFileToolName :: string where "readFileToolName = ''read_file''"
definition getPathInfoToolName :: string where "getPathInfoToolName = ''get_path_info''"
definition writeFileToolName :: string where "writeFileToolName = ''write_file''"
definition createDirectoryToolName :: string where "createDirectoryToolName = ''create_directory''"
definition deletePathToolName :: string where "deletePathToolName = ''delete_path''"
definition copyPathToolName :: string where "copyPathToolName = ''copy_path''"
definition movePathToolName :: string where "movePathToolName = ''move_path''"

lemmas tool_names = listDirectoryToolName_def readFileToolName_def getPathInfoToolName_def
  writeFileToolName_def createDirectoryToolName_def deletePathToolName_def copyPathToolName_def
  movePathToolName_def

text \<open>The nil map of the default case is the empty list, which \<open>omitempty\<close> treats alike.\<close>

definition filesystemOutputSchema :: "string \<Rightarrow> (string \<times> gojson) list" where
  "filesystemOutputSchema toolName =
     (if toolName = listDirectoryToolName then
        objectOutputSchema
          [(''entries'', go_map
             [(''type'', GStr ''array''),
              (''items'', go_map (objectOutputSchema
                 [(''name'', go_type ''string''), (''isDir'', go_type ''boolean''), (''size'', go_type ''integer'')]
                 [''name'', ''isDir'', ''size'']))])]
          [''entries'']
      else if toolName = readFileToolName then
        objectOutputSchema [(''content'', go_type ''string''), (''size'', go_type ''integer'')] [''content'', ''size'']
      else if toolName = getPathInfoToolName then
        [(''type'', GStr ''object''),
         (''oneOf'', GArr
           [go_map (objectOutputSchema
              [(''path'', go_type ''string''), (''exists'', go_map [(''const'', GBool False)])]
              [''path'', ''exists'']),
            go_map (objectOutputSchema
              [(''path'', go_type ''string''), (''exists'', go_map [(''const'', GBool True)]),
               (''name'', go_type ''string''), (''isDir'', go_type ''boolean''), (''size'', go_type ''integer'')]
              [''path'', ''exists'', ''name'', ''isDir'', ''size''])])]
      else if toolName = writeFileToolName then
        objectOutputSchema
          [(''path'', go_type ''string''), (''size'', go_type ''integer''), (''written'', go_type ''boolean'')]
          [''path'', ''size'', ''written'']
      else if toolName = createDirectoryToolName then
        objectOutputSchema [(''path'', go_type ''string''), (''created'', go_type ''boolean'')] [''path'', ''created'']
      else if toolName = deletePathToolName then
        objectOutputSchema [(''path'', go_type ''string''), (''deleted'', go_type ''boolean'')] [''path'', ''deleted'']
      else if toolName = copyPathToolName then
        objectOutputSchema
          [(''source'', go_type ''string''), (''target'', go_type ''string''), (''copied'', go_type ''boolean'')]
          [''source'', ''target'', ''copied'']
      else if toolName = movePathToolName then
        objectOutputSchema
          [(''source'', go_type ''string''), (''target'', go_type ''string''), (''moved'', go_type ''boolean'')]
          [''source'', ''target'', ''moved'']
      else [])"

lemma go_type_ok [json_ok_simps]: "json_ok (Suc d) (go_type t)"
  by (simp add: go_type_def json_ok_simps)

lemma go_strings_ok [json_ok_simps]: "json_ok (Suc d) (go_strings ws)"
  by (simp add: go_strings_def)

lemma objectOutputSchema_ok [json_ok_simps]:
  "(\<forall>m \<in> set (objectOutputSchema ps req). json_ok (Suc d) (snd m)) \<longleftrightarrow> (\<forall>m \<in> set ps. json_ok d (snd m))"
  by (simp add: objectOutputSchema_def json_ok_simps)

lemma filesystemOutputSchema_ok: "\<forall>m \<in> set (filesystemOutputSchema t). json_ok 6 (snd m)"
  unfolding filesystemOutputSchema_def
  by (auto simp: objectOutputSchema_def json_ok_simps numeral_eq_Suc split: if_splits)

end
