(* ===== verification/ToolSchemas.thy ===== *)
theory ToolSchemas
  imports Params
begin

text \<open>
  What \<open>tools/list\<close> says of each tool: its title, its description, the schema of its
  arguments and its definition, one group per \<open>tool_*.go\<close>.
\<close>

definition ListDirectoryTool_Title :: string where "ListDirectoryTool_Title = ''List Directory''"

definition ListDirectoryTool_Description :: string where
  "ListDirectoryTool_Description = ''Lists files and directories below the configured filesystem root.''"

definition ListDirectoryTool_InputSchema :: gojson where
  "ListDirectoryTool_InputSchema = go_map
     [(''type'', GStr ''object''),
      (''properties'', go_map
        [(''path'', go_map
           [(''type'', GStr ''string''),
            (''minLength'', GInt 1),
            (''description'', GStr (''Relative directory path below the configured filesystem root. Defaults to '' @ [CHR 0x27] @ ''.'' @ [CHR 0x27] @ '' when omitted.''))])]),
      (''additionalProperties'', GBool False)]"

definition ListDirectoryTool_Definition :: tool_def where
  "ListDirectoryTool_Definition =
     \<lparr>td_Name = listDirectoryToolName, td_Title = ListDirectoryTool_Title, td_Description = ListDirectoryTool_Description,
      td_InputSchema = ListDirectoryTool_InputSchema, td_OutputSchema = filesystemOutputSchema listDirectoryToolName\<rparr>"

definition ReadFileTool_Title :: string where "ReadFileTool_Title = ''Read File''"

definition ReadFileTool_Description :: string where
  "ReadFileTool_Description = ''Reads a text file below the configured filesystem root.''"

definition ReadFileTool_InputSchema :: gojson where
  "ReadFileTool_InputSchema = go_map
     [(''type'', GStr ''object''),
      (''properties'', go_map
        [(''path'', go_map
           [(''type'', GStr ''string''),
            (''minLength'', GInt 1),
            (''description'', GStr ''Relative file path below the configured filesystem root.'')]),
         (''maxBytes'', go_map
           [(''type'', GStr ''integer''),
            (''description'', GStr ''Maximum number of bytes to read. Defaults to the configured maximum file size.''),
            (''minimum'', GInt 1)])]),
      (''required'', go_strings [''path'']),
      (''additionalProperties'', GBool False)]"

definition ReadFileTool_Definition :: tool_def where
  "ReadFileTool_Definition =
     \<lparr>td_Name = readFileToolName, td_Title = ReadFileTool_Title, td_Description = ReadFileTool_Description,
      td_InputSchema = ReadFileTool_InputSchema, td_OutputSchema = filesystemOutputSchema readFileToolName\<rparr>"

definition GetPathInfoTool_Title :: string where "GetPathInfoTool_Title = ''Get Path Info''"

definition GetPathInfoTool_Description :: string where
  "GetPathInfoTool_Description = ''Returns existence and metadata for a file or directory below the configured filesystem root.''"

definition GetPathInfoTool_InputSchema :: gojson where
  "GetPathInfoTool_InputSchema = go_map
     [(''type'', GStr ''object''),
      (''properties'', go_map
        [(''path'', go_map
           [(''type'', GStr ''string''),
            (''minLength'', GInt 1),
            (''description'', GStr ''Relative file or directory path below the configured filesystem root.'')])]),
      (''required'', go_strings [''path'']),
      (''additionalProperties'', GBool False)]"

definition GetPathInfoTool_Definition :: tool_def where
  "GetPathInfoTool_Definition =
     \<lparr>td_Name = getPathInfoToolName, td_Title = GetPathInfoTool_Title, td_Description = GetPathInfoTool_Description,
      td_InputSchema = GetPathInfoTool_InputSchema, td_OutputSchema = filesystemOutputSchema getPathInfoToolName\<rparr>"

definition WriteFileTool_Title :: string where "WriteFileTool_Title = ''Write File''"

definition WriteFileTool_Description :: string where
  "WriteFileTool_Description = ''Writes a text file below the configured filesystem root.''"

definition WriteFileTool_InputSchema :: gojson where
  "WriteFileTool_InputSchema = go_map
     [(''type'', GStr ''object''),
      (''properties'', go_map
        [(''path'', go_map
           [(''type'', GStr ''string''),
            (''minLength'', GInt 1),
            (''description'', GStr ''Relative file path below the configured filesystem root.'')]),
         (''content'', go_map
           [(''type'', GStr ''string''),
            (''description'', GStr ''Text content to write. An empty string is allowed.'')]),
         (''overwrite'', go_map
           [(''type'', GStr ''boolean''),
            (''description'', GStr ''Whether an existing file may be overwritten. Defaults to false.'')])]),
      (''required'', go_strings [''path'']),
      (''additionalProperties'', GBool False)]"

definition WriteFileTool_Definition :: tool_def where
  "WriteFileTool_Definition =
     \<lparr>td_Name = writeFileToolName, td_Title = WriteFileTool_Title, td_Description = WriteFileTool_Description,
      td_InputSchema = WriteFileTool_InputSchema, td_OutputSchema = filesystemOutputSchema writeFileToolName\<rparr>"

definition CreateDirectoryTool_Title :: string where "CreateDirectoryTool_Title = ''Create Directory''"

definition CreateDirectoryTool_Description :: string where
  "CreateDirectoryTool_Description = ''Creates a directory and any missing parents below the configured filesystem root.''"

definition CreateDirectoryTool_InputSchema :: gojson where
  "CreateDirectoryTool_InputSchema = go_map
     [(''type'', GStr ''object''),
      (''properties'', go_map
        [(''path'', go_map
           [(''type'', GStr ''string''),
            (''minLength'', GInt 1),
            (''description'', GStr ''Relative directory path below the configured filesystem root.'')])]),
      (''required'', go_strings [''path'']),
      (''additionalProperties'', GBool False)]"

definition CreateDirectoryTool_Definition :: tool_def where
  "CreateDirectoryTool_Definition =
     \<lparr>td_Name = createDirectoryToolName, td_Title = CreateDirectoryTool_Title, td_Description = CreateDirectoryTool_Description,
      td_InputSchema = CreateDirectoryTool_InputSchema, td_OutputSchema = filesystemOutputSchema createDirectoryToolName\<rparr>"

definition DeletePathTool_Title :: string where "DeletePathTool_Title = ''Delete Path''"

definition DeletePathTool_Description :: string where
  "DeletePathTool_Description = ''Deletes a file or directory below the configured filesystem root.''"

definition DeletePathTool_InputSchema :: gojson where
  "DeletePathTool_InputSchema = go_map
     [(''type'', GStr ''object''),
      (''properties'', go_map
        [(''path'', go_map
           [(''type'', GStr ''string''),
            (''minLength'', GInt 1),
            (''description'', GStr ''Relative file or directory path below the configured filesystem root.'')]),
         (''recursive'', go_map
           [(''type'', GStr ''boolean''),
            (''description'', GStr ''Whether a non-empty directory may be deleted recursively. Defaults to false.'')])]),
      (''required'', go_strings [''path'']),
      (''additionalProperties'', GBool False)]"

definition DeletePathTool_Definition :: tool_def where
  "DeletePathTool_Definition =
     \<lparr>td_Name = deletePathToolName, td_Title = DeletePathTool_Title, td_Description = DeletePathTool_Description,
      td_InputSchema = DeletePathTool_InputSchema, td_OutputSchema = filesystemOutputSchema deletePathToolName\<rparr>"

definition CopyPathTool_Title :: string where "CopyPathTool_Title = ''Copy Path''"

definition CopyPathTool_Description :: string where
  "CopyPathTool_Description = ''Copies a file below the configured filesystem root. Directory copy is not supported.''"

definition CopyPathTool_InputSchema :: gojson where
  "CopyPathTool_InputSchema = go_map
     [(''type'', GStr ''object''),
      (''properties'', go_map
        [(''source'', go_map
           [(''type'', GStr ''string''),
            (''minLength'', GInt 1),
            (''description'', GStr ''Relative source file path below the configured filesystem root.'')]),
         (''target'', go_map
           [(''type'', GStr ''string''),
            (''minLength'', GInt 1),
            (''description'', GStr ''Relative target file path below the configured filesystem root.'')]),
         (''overwrite'', go_map
           [(''type'', GStr ''boolean''),
            (''description'', GStr ''Whether an existing target may be overwritten. Defaults to false.'')])]),
      (''required'', go_strings [''source'', ''target'']),
      (''additionalProperties'', GBool False)]"

definition CopyPathTool_Definition :: tool_def where
  "CopyPathTool_Definition =
     \<lparr>td_Name = copyPathToolName, td_Title = CopyPathTool_Title, td_Description = CopyPathTool_Description,
      td_InputSchema = CopyPathTool_InputSchema, td_OutputSchema = filesystemOutputSchema copyPathToolName\<rparr>"

definition MovePathTool_Title :: string where "MovePathTool_Title = ''Move Path''"

definition MovePathTool_Description :: string where
  "MovePathTool_Description = ''Moves or renames a file or directory on the same volume below the configured filesystem root.''"

definition MovePathTool_InputSchema :: gojson where
  "MovePathTool_InputSchema = go_map
     [(''type'', GStr ''object''),
      (''properties'', go_map
        [(''source'', go_map
           [(''type'', GStr ''string''),
            (''minLength'', GInt 1),
            (''description'', GStr ''Relative source file or directory path below the configured filesystem root.'')]),
         (''target'', go_map
           [(''type'', GStr ''string''),
            (''minLength'', GInt 1),
            (''description'', GStr ''Relative target file or directory path below the configured filesystem root.'')]),
         (''overwrite'', go_map
           [(''type'', GStr ''boolean''),
            (''description'', GStr ''Whether an existing target may be overwritten. Defaults to false.'')])]),
      (''required'', go_strings [''source'', ''target'']),
      (''additionalProperties'', GBool False)]"

definition MovePathTool_Definition :: tool_def where
  "MovePathTool_Definition =
     \<lparr>td_Name = movePathToolName, td_Title = MovePathTool_Title, td_Description = MovePathTool_Description,
      td_InputSchema = MovePathTool_InputSchema, td_OutputSchema = filesystemOutputSchema movePathToolName\<rparr>"

lemmas tool_definition_defs = ListDirectoryTool_Definition_def
  ReadFileTool_Definition_def
  GetPathInfoTool_Definition_def
  WriteFileTool_Definition_def
  CreateDirectoryTool_Definition_def
  DeletePathTool_Definition_def
  CopyPathTool_Definition_def
  MovePathTool_Definition_def

lemmas tool_schema_defs = ListDirectoryTool_InputSchema_def
  ReadFileTool_InputSchema_def
  GetPathInfoTool_InputSchema_def
  WriteFileTool_InputSchema_def
  CreateDirectoryTool_InputSchema_def
  DeletePathTool_InputSchema_def
  CopyPathTool_InputSchema_def
  MovePathTool_InputSchema_def

lemma input_schemas_ok:
  "json_ok 4 ListDirectoryTool_InputSchema"
  "json_ok 4 ReadFileTool_InputSchema"
  "json_ok 4 GetPathInfoTool_InputSchema"
  "json_ok 4 WriteFileTool_InputSchema"
  "json_ok 4 CreateDirectoryTool_InputSchema"
  "json_ok 4 DeletePathTool_InputSchema"
  "json_ok 4 CopyPathTool_InputSchema"
  "json_ok 4 MovePathTool_InputSchema"
  unfolding tool_schema_defs by (simp_all add: json_ok_simps numeral_eq_Suc)

text \<open>A definition marshals within nesting eight.\<close>

lemma tool_json_ok:
  assumes "json_ok 4 (td_InputSchema t)" "td_OutputSchema t = filesystemOutputSchema n"
  shows "json_ok 8 (tool_json t)"
proof -
  have "json_ok 7 (go_map (td_OutputSchema t))"
    using filesystemOutputSchema_ok [of n] assms(2) json_ok_simps(1) [of 6 "td_OutputSchema t"] by simp
  moreover have "json_ok 7 (td_InputSchema t)" using json_ok_mono [OF assms(1), of 7] by simp
  ultimately show ?thesis by (auto simp: tool_json_def)
qed

lemma definitions_ok:
  "json_ok 8 (tool_json ListDirectoryTool_Definition)"
  "json_ok 8 (tool_json ReadFileTool_Definition)"
  "json_ok 8 (tool_json GetPathInfoTool_Definition)"
  "json_ok 8 (tool_json WriteFileTool_Definition)"
  "json_ok 8 (tool_json CreateDirectoryTool_Definition)"
  "json_ok 8 (tool_json DeletePathTool_Definition)"
  "json_ok 8 (tool_json CopyPathTool_Definition)"
  "json_ok 8 (tool_json MovePathTool_Definition)"
  unfolding tool_definition_defs
  by - (rule tool_json_ok, simp add: input_schemas_ok, simp)+

end
