(* ===== verification/Tools.thy ===== *)
theory Tools
  imports ToolSchemas
begin

text \<open>
  The eight file system tools of \<open>internal/mcp/tools\<close> over an interface \<open>fsys\<close>: each
  decodes its arguments strictly, checks them, calls one operation and maps its error.
  A tool is the record of its methods; \<open>Execute\<close> threads the host.
\<close>

record tool =
  t_Name :: string
  t_Definition :: tool_def
  t_Execute :: "host \<Rightarrow> string \<Rightarrow> host \<times> (rpc_error, go_any) result"

subsection \<open>Tools that read\<close>

definition entry_json :: "entry \<Rightarrow> gojson" where
  "entry_json e = GObj [(''name'', GStr (e_name e)), (''isDir'', GBool (e_isDir e)), (''size'', GInt (e_size e))]"

definition ListDirectoryTool_Execute :: "fsys \<Rightarrow> host \<Rightarrow> string \<Rightarrow> host \<times> (rpc_error, go_any) result" where
  "ListDirectoryTool_Execute filesystem h rawArguments =
     (case decodeStrictArguments [(''path'', KStr)] rawArguments of
        Inl rpcErr \<Rightarrow> (h, Inl rpcErr)
      | Inr arguments \<Rightarrow>
          let p = str_ptr_field arguments ''path'' in
          if p \<noteq> None \<and> \<not> isNonBlank (the p) then (h, Inl invalidParamsError)
          else case f_List filesystem h (case p of None \<Rightarrow> ''.'' | Some q \<Rightarrow> q) of
            Inl err \<Rightarrow> (h, Inl (mapFilesystemError err))
          | Inr es \<Rightarrow> (h, Inr (Plain (GObj [(''entries'', GArr (map entry_json es))]))))"

definition ReadFileTool_Execute :: "fsys \<Rightarrow> int \<Rightarrow> host \<Rightarrow> string \<Rightarrow> host \<times> (rpc_error, go_any) result" where
  "ReadFileTool_Execute filesystem serverMaxBytes h rawArguments =
     (case decodeStrictArguments [(''path'', KStr), (''maxBytes'', KInt64)] rawArguments of
        Inl rpcErr \<Rightarrow> (h, Inl rpcErr)
      | Inr arguments \<Rightarrow>
          let p = str_field arguments ''path''; asked = int_ptr_field arguments ''maxBytes'' in
          if \<not> isNonBlank p then (h, Inl invalidParamsError)
          else if asked \<noteq> None \<and> the asked < 1 then (h, Inl invalidParamsError)
          else
            let maxBytes = (case asked of None \<Rightarrow> serverMaxBytes | Some m \<Rightarrow> m);
                maxBytes = (if maxBytes > serverMaxBytes then serverMaxBytes else maxBytes)
            in case f_Read filesystem h p maxBytes of
                 Inl err \<Rightarrow> (h, Inl (mapFilesystemError err))
               | Inr data \<Rightarrow>
                   (h, Inr (Plain (GObj [(''content'', GStr data), (''size'', GInt (int (length data)))]))))"

definition GetPathInfoTool_Execute :: "fsys \<Rightarrow> host \<Rightarrow> string \<Rightarrow> host \<times> (rpc_error, go_any) result" where
  "GetPathInfoTool_Execute filesystem h rawArguments =
     (case decodeStrictArguments [(''path'', KStr)] rawArguments of
        Inl rpcErr \<Rightarrow> (h, Inl invalidParamsError)
      | Inr arguments \<Rightarrow>
          let p = str_field arguments ''path'' in
          if \<not> isNonBlank p then (h, Inl invalidParamsError)
          else case f_Stat filesystem h p of
            Inl err \<Rightarrow>
              (h, if err = ErrNotFound
                  then Inr (Plain (GObj [(''path'', GStr p), (''exists'', GBool False)]))
                  else Inl (mapFilesystemError err))
          | Inr md \<Rightarrow>
              (h, Inr (Plain (GObj [(''path'', GStr p), (''exists'', GBool True), (''name'', GStr (m_name md)),
                 (''isDir'', GBool (m_isDir md)), (''size'', GInt (m_size md))]))))"

subsection \<open>Tools that write\<close>

definition WriteFileTool_Execute :: "fsys \<Rightarrow> host \<Rightarrow> string \<Rightarrow> host \<times> (rpc_error, go_any) result" where
  "WriteFileTool_Execute filesystem h rawArguments =
     (case decodeStrictArguments [(''path'', KStr), (''content'', KStr), (''overwrite'', KBool)] rawArguments of
        Inl rpcErr \<Rightarrow> (h, Inl rpcErr)
      | Inr arguments \<Rightarrow>
          let p = str_field arguments ''path'' in
          if \<not> isNonBlank p then (h, Inl invalidParamsError)
          else let data = str_field arguments ''content'' in
            case f_Write filesystem h p data (bool_field arguments ''overwrite'') of
              (h', Some err) \<Rightarrow> (h', Inl (mapFilesystemError err))
            | (h', None) \<Rightarrow>
                (h', Inr (Plain (GObj [(''path'', GStr p), (''size'', GInt (int (length data))),
                   (''written'', GBool True)]))))"

definition CreateDirectoryTool_Execute :: "fsys \<Rightarrow> host \<Rightarrow> string \<Rightarrow> host \<times> (rpc_error, go_any) result" where
  "CreateDirectoryTool_Execute filesystem h rawArguments =
     (case decodeStrictArguments [(''path'', KStr)] rawArguments of
        Inl rpcErr \<Rightarrow> (h, Inl invalidParamsError)
      | Inr arguments \<Rightarrow>
          let p = str_field arguments ''path'' in
          if \<not> isNonBlank p then (h, Inl invalidParamsError)
          else case f_Mkdir filesystem h p of
            (h', Inl err) \<Rightarrow> (h', Inl (mapFilesystemError err))
          | (h', Inr created) \<Rightarrow>
              (h', Inr (Plain (GObj [(''path'', GStr p), (''created'', GBool created)]))))"

definition DeletePathTool_Execute :: "fsys \<Rightarrow> host \<Rightarrow> string \<Rightarrow> host \<times> (rpc_error, go_any) result" where
  "DeletePathTool_Execute filesystem h rawArguments =
     (case decodeStrictArguments [(''path'', KStr), (''recursive'', KBool)] rawArguments of
        Inl rpcErr \<Rightarrow> (h, Inl rpcErr)
      | Inr arguments \<Rightarrow>
          let p = str_field arguments ''path'' in
          if \<not> isNonBlank p then (h, Inl invalidParamsError)
          else case f_Delete filesystem h p (bool_field arguments ''recursive'') of
            (h', Some err) \<Rightarrow> (h', Inl (mapFilesystemError err))
          | (h', None) \<Rightarrow> (h', Inr (Plain (GObj [(''path'', GStr p), (''deleted'', GBool True)]))))"

definition CopyPathTool_Execute :: "fsys \<Rightarrow> host \<Rightarrow> string \<Rightarrow> host \<times> (rpc_error, go_any) result" where
  "CopyPathTool_Execute filesystem h rawArguments =
     (case decodeStrictArguments [(''source'', KStr), (''target'', KStr), (''overwrite'', KBool)] rawArguments of
        Inl rpcErr \<Rightarrow> (h, Inl rpcErr)
      | Inr arguments \<Rightarrow>
          let s = str_field arguments ''source''; t = str_field arguments ''target'' in
          if \<not> isNonBlank s \<or> \<not> isNonBlank t then (h, Inl invalidParamsError)
          else case f_Copy filesystem h s t (bool_field arguments ''overwrite'') of
            (h', Some err) \<Rightarrow> (h', Inl (mapFilesystemError err))
          | (h', None) \<Rightarrow>
              (h', Inr (Plain (GObj [(''source'', GStr s), (''target'', GStr t), (''copied'', GBool True)]))))"

definition MovePathTool_Execute :: "fsys \<Rightarrow> host \<Rightarrow> string \<Rightarrow> host \<times> (rpc_error, go_any) result" where
  "MovePathTool_Execute filesystem h rawArguments =
     (case decodeStrictArguments [(''source'', KStr), (''target'', KStr), (''overwrite'', KBool)] rawArguments of
        Inl rpcErr \<Rightarrow> (h, Inl rpcErr)
      | Inr arguments \<Rightarrow>
          let s = str_field arguments ''source''; t = str_field arguments ''target'' in
          if \<not> isNonBlank s \<or> \<not> isNonBlank t then (h, Inl invalidParamsError)
          else case f_Move filesystem h s t (bool_field arguments ''overwrite'') of
            (h', Some err) \<Rightarrow> (h', Inl (mapFilesystemError err))
          | (h', None) \<Rightarrow>
              (h', Inr (Plain (GObj [(''source'', GStr s), (''target'', GStr t), (''moved'', GBool True)]))))"

lemmas execute_defs = ListDirectoryTool_Execute_def ReadFileTool_Execute_def GetPathInfoTool_Execute_def
  WriteFileTool_Execute_def CreateDirectoryTool_Execute_def DeletePathTool_Execute_def
  CopyPathTool_Execute_def MovePathTool_Execute_def

subsection \<open>Constructors\<close>

definition NewListDirectoryTool :: "fsys \<Rightarrow> tool" where
  "NewListDirectoryTool filesystem =
     \<lparr>t_Name = listDirectoryToolName, t_Definition = ListDirectoryTool_Definition,
      t_Execute = ListDirectoryTool_Execute filesystem\<rparr>"

definition NewReadFileTool :: "fsys \<Rightarrow> int \<Rightarrow> tool" where
  "NewReadFileTool filesystem serverMaxBytes =
     \<lparr>t_Name = readFileToolName, t_Definition = ReadFileTool_Definition,
      t_Execute = ReadFileTool_Execute filesystem serverMaxBytes\<rparr>"

definition NewGetPathInfoTool :: "fsys \<Rightarrow> tool" where
  "NewGetPathInfoTool filesystem =
     \<lparr>t_Name = getPathInfoToolName, t_Definition = GetPathInfoTool_Definition,
      t_Execute = GetPathInfoTool_Execute filesystem\<rparr>"

definition NewWriteFileTool :: "fsys \<Rightarrow> tool" where
  "NewWriteFileTool filesystem =
     \<lparr>t_Name = writeFileToolName, t_Definition = WriteFileTool_Definition,
      t_Execute = WriteFileTool_Execute filesystem\<rparr>"

definition NewCreateDirectoryTool :: "fsys \<Rightarrow> tool" where
  "NewCreateDirectoryTool filesystem =
     \<lparr>t_Name = createDirectoryToolName, t_Definition = CreateDirectoryTool_Definition,
      t_Execute = CreateDirectoryTool_Execute filesystem\<rparr>"

definition NewDeletePathTool :: "fsys \<Rightarrow> tool" where
  "NewDeletePathTool filesystem =
     \<lparr>t_Name = deletePathToolName, t_Definition = DeletePathTool_Definition,
      t_Execute = DeletePathTool_Execute filesystem\<rparr>"

definition NewCopyPathTool :: "fsys \<Rightarrow> tool" where
  "NewCopyPathTool filesystem =
     \<lparr>t_Name = copyPathToolName, t_Definition = CopyPathTool_Definition,
      t_Execute = CopyPathTool_Execute filesystem\<rparr>"

definition NewMovePathTool :: "fsys \<Rightarrow> tool" where
  "NewMovePathTool filesystem =
     \<lparr>t_Name = movePathToolName, t_Definition = MovePathTool_Definition,
      t_Execute = MovePathTool_Execute filesystem\<rparr>"

lemmas tool_defs = NewListDirectoryTool_def NewReadFileTool_def NewGetPathInfoTool_def
  NewWriteFileTool_def NewCreateDirectoryTool_def NewDeletePathTool_def NewCopyPathTool_def
  NewMovePathTool_def

subsection \<open>What a tool promises\<close>

text \<open>A result is an object of small nesting.\<close>

definition result_ok :: "(rpc_error, go_any) result \<Rightarrow> bool" where
  "result_ok r = (case r of Inl e \<Rightarrow> True | Inr v \<Rightarrow> (\<exists>ms. v = Plain (GObj ms) \<and> json_ok 3 (GObj ms)))"

lemma entry_json_ok: "json_ok 1 (entry_json e)"
  by (simp add: entry_json_def)

lemma execute_result:
  "result_ok (snd (ListDirectoryTool_Execute fs h raw))" "result_ok (snd (ReadFileTool_Execute fs m h raw))"
  "result_ok (snd (GetPathInfoTool_Execute fs h raw))" "result_ok (snd (WriteFileTool_Execute fs h raw))"
  "result_ok (snd (CreateDirectoryTool_Execute fs h raw))" "result_ok (snd (DeletePathTool_Execute fs h raw))"
  "result_ok (snd (CopyPathTool_Execute fs h raw))" "result_ok (snd (MovePathTool_Execute fs h raw))"
  unfolding execute_defs using entry_json_ok
  by (auto simp: Let_def result_ok_def split: sum.split prod.split option.split)

text \<open>The tools that only read leave the host alone.\<close>

lemma execute_reads:
  "fst (ListDirectoryTool_Execute fs h raw) = h" "fst (ReadFileTool_Execute fs m h raw) = h"
  "fst (GetPathInfoTool_Execute fs h raw) = h"
  by (auto simp: execute_defs Let_def split: sum.split)

context sandboxed
begin

text \<open>The tools that write stay within the contract of the file system.\<close>

lemma execute_write_safe:
  "inv h \<Longrightarrow> WriteFileTool_Execute fsys h raw = (h', r) \<Longrightarrow> inv h' \<and> frame h h'"
  "inv h \<Longrightarrow> CreateDirectoryTool_Execute fsys h raw = (h', r) \<Longrightarrow> inv h' \<and> frame h h'"
  "inv h \<Longrightarrow> DeletePathTool_Execute fsys h raw = (h', r) \<Longrightarrow> inv h' \<and> frame h h'"
  "inv h \<Longrightarrow> CopyPathTool_Execute fsys h raw = (h', r) \<Longrightarrow> inv h' \<and> frame h h'"
  "inv h \<Longrightarrow> MovePathTool_Execute fsys h raw = (h', r) \<Longrightarrow> inv h' \<and> frame h h'"
  by (auto simp: execute_defs Let_def frame_refl
      split: sum.splits prod.splits option.splits if_splits
      dest: write_safe mkdir_safe delete_safe copy_safe move_safe)

end

end
