(* ===== verification/Handlers.thy ===== *)
theory Handlers
  imports Tools
begin

text \<open>
  The registry of tools, the router of methods, and the handlers of \<open>initialize\<close>,
  \<open>tools/list\<close> and \<open>tools/call\<close>. The locks around the maps are not modelled: the server
  handles one request at a time.
\<close>

subsection \<open>Registry\<close>

record registry =
  rg_tools :: "string \<rightharpoonup> tool"
  rg_order :: "string list"

definition NewRegistry :: registry where
  "NewRegistry = \<lparr>rg_tools = (\<lambda>_. None), rg_order = []\<rparr>"

definition RegisterTool :: "registry \<Rightarrow> tool \<Rightarrow> registry" where
  "RegisterTool r tool =
     (let name = t_Name tool in
      \<lparr>rg_tools = (rg_tools r)(name := Some tool),
       rg_order = (if rg_tools r name = None then rg_order r @ [name] else rg_order r)\<rparr>)"

definition GetTool :: "registry \<Rightarrow> string \<Rightarrow> tool option" where
  "GetTool r name = rg_tools r name"

definition ListTools :: "registry \<Rightarrow> tool list" where
  "ListTools r = List.map_filter (\<lambda>name. rg_tools r name) (rg_order r)"

text \<open>The order lists each registered name once.\<close>

definition registry_ok :: "registry \<Rightarrow> bool" where
  "registry_ok r \<longleftrightarrow> distinct (rg_order r) \<and> (\<forall>n. n \<in> set (rg_order r) \<longleftrightarrow> rg_tools r n \<noteq> None) \<and>
     (\<forall>n t. rg_tools r n = Some t \<longrightarrow> t_Name t = n)"

lemma NewRegistry_ok: "registry_ok NewRegistry"
  by (simp add: registry_ok_def NewRegistry_def)

lemma RegisterTool_ok: "registry_ok r \<Longrightarrow> registry_ok (RegisterTool r t)"
  by (auto simp: registry_ok_def RegisterTool_def Let_def split: if_splits)

lemma ListTools_names:
  assumes "registry_ok r" shows "map t_Name (ListTools r) = rg_order r"
proof -
  have "map t_Name (List.map_filter (\<lambda>n. rg_tools r n) ns) = ns" if "set ns \<subseteq> set (rg_order r)" for ns
    using that assms by (induction ns) (auto simp: map_filter_simps registry_ok_def split: option.split)
  then show ?thesis by (simp add: ListTools_def)
qed

lemma ListTools_mem:
  assumes "registry_ok r" shows "t \<in> set (ListTools r) \<longleftrightarrow> GetTool r (t_Name t) = Some t"
proof -
  have "t \<in> set (ListTools r) \<longleftrightarrow> (\<exists>n \<in> set (rg_order r). rg_tools r n = Some t)"
    unfolding ListTools_def map_filter_def by force
  then show ?thesis using assms unfolding registry_ok_def GetTool_def by (metis option.distinct(1))
qed

subsection \<open>Router\<close>

text \<open>A handler returns a result, a JSON-RPC error, or panics.\<close>

datatype outcome = Result "go_any option" | Failed rpc_error | Panicked

record handler =
  hd_Method :: string
  hd_Handle :: "host \<Rightarrow> string \<Rightarrow> host \<times> outcome"

type_synonym router = "string \<rightharpoonup> handler"

definition NewRouter :: router where
  "NewRouter = (\<lambda>_. None)"

definition RegisterHandler :: "router \<Rightarrow> handler \<Rightarrow> router" where
  "RegisterHandler r handler = r(hd_Method handler := Some handler)"

definition Dispatch :: "router \<Rightarrow> string \<Rightarrow> host \<Rightarrow> string \<Rightarrow> host \<times> outcome" where
  "Dispatch r method h params =
     (case r method of
        None \<Rightarrow> (h, Failed \<lparr>er_Code = ErrMethodNotFound, er_Message = ''method not found''\<rparr>)
      | Some handler \<Rightarrow> hd_Handle handler h params)"

subsection \<open>\<open>initialize\<close>\<close>

definition initialize_method :: string where "initialize_method = ''initialize''"

definition implementation_fields :: "(string \<times> jkind) list" where
  "implementation_fields = [(''name'', KStr), (''version'', KStr)]"

definition requestParams_fields :: "(string \<times> jkind) list" where
  "requestParams_fields =
     [(''protocolVersion'', KStr), (''capabilities'', KRaw), (''clientInfo'', KObj implementation_fields)]"

text \<open>\<open>Unmarshal\<close> into the struct: unknown members are skipped, \<open>null\<close> leaves it empty.\<close>

definition unmarshal_requestParams :: "string \<Rightarrow> (string \<times> jval) list option" where
  "unmarshal_requestParams raw =
     (case unmarshal_members raw of
        None \<Rightarrow> None
      | Some ms \<Rightarrow> decode_members 1 False requestParams_fields ms [])"

definition implementation_json :: "string \<Rightarrow> string \<Rightarrow> gojson" where
  "implementation_json name version = GObj [(''name'', GStr name), (''version'', GStr version)]"

definition initialize_response :: "string \<Rightarrow> string \<Rightarrow> gojson" where
  "initialize_response serverName serverVersion =
     GObj [(''protocolVersion'', GStr ProtocolVersion),
           (''capabilities'', GObj [(''tools'', GObj [])]),
           (''serverInfo'', implementation_json serverName serverVersion)]"

definition initialize_Handle :: "string \<Rightarrow> string \<Rightarrow> host \<Rightarrow> string \<Rightarrow> host \<times> outcome" where
  "initialize_Handle serverName serverVersion h rawParams =
     (case unmarshal_requestParams rawParams of
        None \<Rightarrow> (h, Failed \<lparr>er_Code = ErrInvalidParams, er_Message = ''invalid initialize params''\<rparr>)
      | Some params \<Rightarrow>
          if str_field params ''protocolVersion'' = []
          then (h, Failed \<lparr>er_Code = ErrInvalidParams, er_Message = ''missing protocol version''\<rparr>)
          else (h, Result (Some (Plain (initialize_response serverName serverVersion)))))"

definition NewInitializeHandler :: "string \<Rightarrow> string \<Rightarrow> handler" where
  "NewInitializeHandler serverName serverVersion =
     \<lparr>hd_Method = initialize_method, hd_Handle = initialize_Handle serverName serverVersion\<rparr>"

subsection \<open>\<open>tools/list\<close>\<close>

definition ListHandler_Handle :: "registry \<Rightarrow> host \<Rightarrow> string \<Rightarrow> host \<times> outcome" where
  "ListHandler_Handle registry h rawParams =
     (if \<not> isMissingNullOrObject rawParams then (h, Failed invalidParamsError)
      else (h, Result (Some (Plain (go_map
             [(''tools'', GArr (map (\<lambda>t. tool_json (t_Definition t)) (ListTools registry)))])))))"

definition NewListHandler :: "registry \<Rightarrow> handler" where
  "NewListHandler registry = \<lparr>hd_Method = ''tools/list'', hd_Handle = ListHandler_Handle registry\<rparr>"

subsection \<open>\<open>tools/call\<close>\<close>

definition toolsCallMethod :: string where "toolsCallMethod = ''tools/call''"

definition validateCallParams :: "string \<Rightarrow> (rpc_error, string \<times> string) result" where
  "validateCallParams rawParams =
     (if \<not> isJSONObject rawParams then Inl invalidParamsError
      else case unmarshal_fields rawParams of
        None \<Rightarrow> Inl invalidParamsError
      | Some flds \<Rightarrow>
          (case stringField flds ''name'' of
             None \<Rightarrow> Inl invalidParamsError
           | Some name \<Rightarrow>
               (case flds ''arguments'' of
                  None \<Rightarrow> Inr (name, [lbrace, rbrace])
                | Some arguments \<Rightarrow>
                    if isJSONNull arguments then Inr (name, [lbrace, rbrace])
                    else if \<not> isJSONObject arguments then Inl invalidParamsError
                    else Inr (name, arguments))))"

definition internalToolResultError :: rpc_error where
  "internalToolResultError = \<lparr>er_Code = ErrInternalError, er_Message = ''internal error''\<rparr>"

definition wrapSuccessfulToolResult :: "go_any \<Rightarrow> (rpc_error, call_tool_result) result" where
  "wrapSuccessfulToolResult v =
     (case v of
        CallResult r \<Rightarrow> Inl internalToolResultError
      | Plain j \<Rightarrow>
          (case marshal j of
             None \<Rightarrow> Inl internalToolResultError
           | Some encoded \<Rightarrow>
               (case NewCallToolResult encoded of
                  None \<Rightarrow> Inl internalToolResultError
                | Some wrapped \<Rightarrow> Inr wrapped)))"

definition CallHandler_Handle :: "registry \<Rightarrow> host \<Rightarrow> string \<Rightarrow> host \<times> outcome" where
  "CallHandler_Handle registry h rawParams =
     (case validateCallParams rawParams of
        Inl rpcErr \<Rightarrow> (h, Failed rpcErr)
      | Inr (name, arguments) \<Rightarrow>
          (case GetTool registry name of
             None \<Rightarrow> (h, Failed invalidParamsError)
           | Some tool \<Rightarrow>
               (case t_Execute tool h arguments of
                  (h', Inl rpcErr) \<Rightarrow> (h', Failed rpcErr)
                | (h', Inr v) \<Rightarrow>
                    (case wrapSuccessfulToolResult v of
                       Inl rpcErr \<Rightarrow> (h', Failed rpcErr)
                     | Inr wrapped \<Rightarrow> (h', Result (Some (CallResult wrapped)))))))"

definition NewCallHandler :: "registry \<Rightarrow> handler" where
  "NewCallHandler registry = \<lparr>hd_Method = toolsCallMethod, hd_Handle = CallHandler_Handle registry\<rparr>"

subsection \<open>Facts\<close>

text \<open>A tool's result is always wrapped: it is the text and the data of the call result.\<close>

lemma wrap_ok:
  assumes "result_ok (Inr v)"
  obtains ms X where "v = Plain (GObj ms)" "text_of 3 (GObj ms) X"
    "wrapSuccessfulToolResult v =
      Inr \<lparr>ct_Content = [NewTextContent X], ct_StructuredContent = X, ct_IsError = False\<rparr>"
proof -
  obtain ms where v: "v = Plain (GObj ms)" "json_ok 3 (GObj ms)" using assms by (auto simp: result_ok_def)
  have d: "3 \<le> max_depth" by (simp add: max_depth_def)
  obtain X where X: "text_of 3 (GObj ms) X" using marshal_text [OF v(2) d] by blast
  show thesis
    by (rule that [OF v(1) X])
      (simp add: wrapSuccessfulToolResult_def v(1) text_of_facts(1) [OF X d] NewCallToolResult_Some [OF X d]
        del: marshal.simps)
qed

lemma call_result_ok:
  assumes "text_of d (GObj ms) X" "d \<le> max_depth"
  shows "json_ok (Suc (Suc (Suc d))) (call_tool_result_json
    \<lparr>ct_Content = [NewTextContent X], ct_StructuredContent = X, ct_IsError = False\<rparr>)"
proof -
  have "valid_at (Suc (Suc d)) X" using text_of_facts(5) [OF assms] by (rule valid_at_mono) simp
  then show ?thesis using text_of_facts(6) [OF assms]
    by (simp add: call_tool_result_json_def raw_json_def text_content_json_def)
qed

end
