(* ===== verification/RequestValidation.thy ===== *)
theory RequestValidation
  imports Handlers
begin

text \<open>
  \<open>internal/mcp/server/request_validation.go\<close>: from the bytes of a message to a request,
  a notification, or the error to answer with.
\<close>

record validated_request =
  vr_id :: string
  vr_method :: string
  vr_params :: string
  vr_notification :: bool

record validation_error =
  ve_id :: string
  ve_code :: int
  ve_message :: string

definition nullID :: string where "nullID = ''null''"

definition newRequestValidationError :: "string \<Rightarrow> int \<Rightarrow> string \<Rightarrow> validation_error" where
  "newRequestValidationError rid code message =
     \<lparr>ve_id = (if length rid = 0 then nullID else rid), ve_code = code, ve_message = message\<rparr>"

definition exceedsLimit :: "string \<Rightarrow> int \<Rightarrow> bool" where
  "exceedsLimit raw limit \<longleftrightarrow> limit > 0 \<and> int (length (trim_space raw)) > limit"

text \<open>The \<open>stringField\<close> of the server; blank strings pass.\<close>

definition server_stringField :: "(string \<rightharpoonup> string) \<Rightarrow> string \<Rightarrow> string option" where
  "server_stringField flds key =
     (case flds key of None \<Rightarrow> None | Some raw \<Rightarrow> unmarshal_string raw)"

text \<open>A string or a number that is a \<open>float64\<close>; other values decode to other types.\<close>

definition isValidID :: "string \<Rightarrow> bool" where
  "isValidID raw \<longleftrightarrow>
     (let trimmed = trim_space raw
      in trimmed = ''null'' \<or>
         (json_valid trimmed \<and>
           (case skip_ws trimmed of [] \<Rightarrow> False
            | c # t \<Rightarrow> c = dquote \<or> number_start (c # t) \<and> float64_ok (c # t))))"

text \<open>\<open>None\<close>: the id is there and not valid; \<open>Some None\<close>: there is none.\<close>

definition requestID :: "(string \<rightharpoonup> string) \<Rightarrow> string option option" where
  "requestID flds =
     (case flds ''id'' of
        None \<Rightarrow> Some None
      | Some raw \<Rightarrow> if \<not> isValidID raw then None else Some (Some raw))"

definition requestIDOrNull :: "(string \<rightharpoonup> string) \<Rightarrow> string" where
  "requestIDOrNull flds =
     (case requestID flds of Some (Some rid) \<Rightarrow> rid | _ \<Rightarrow> nullID)"

definition idForInvalidRequest :: "string option \<Rightarrow> string" where
  "idForInvalidRequest rid = (case rid of None \<Rightarrow> nullID | Some raw \<Rightarrow> raw)"

definition invalid_params :: validation_error where
  "invalid_params = newRequestValidationError [] ErrInvalidParams ''invalid params''"

text \<open>
  With \<open>arguments\<close> missing or null the members are marshalled again, as a Go map: each key
  once, in order, with \<open>{}\<close> for the arguments.
\<close>

definition normalized_fields :: "(string \<times> string) list \<Rightarrow> gojson" where
  "normalized_fields ms =
     (let flds = (map_of (rev ms))(''arguments'' := Some [lbrace, rbrace])
      in go_map (map (\<lambda>k. (k, raw_json (the (flds k)))) (remdups (''arguments'' # map fst ms))))"

definition validateToolsCallParams :: "string \<Rightarrow> int \<Rightarrow> (validation_error, string) result" where
  "validateToolsCallParams params maxArgumentBytes =
     (if \<not> isJSONObject params then Inl invalid_params
      else if exceedsLimit params maxArgumentBytes then Inl invalid_params
      else case unmarshal_members params of
        None \<Rightarrow> Inl invalid_params
      | Some ms \<Rightarrow>
          let flds = map_of (rev ms) in
          case server_stringField flds ''name'' of
            None \<Rightarrow> Inl invalid_params
          | Some name \<Rightarrow>
              if trim_space name = [] then Inl invalid_params
              else if flds ''arguments'' = None \<or> isJSONNull (the (flds ''arguments'')) then
                (case marshal (normalized_fields ms) of
                   None \<Rightarrow> Inl (newRequestValidationError [] ErrInternalError ''internal error'')
                 | Some normalized \<Rightarrow> Inr normalized)
              else if \<not> isJSONObject (the (flds ''arguments'')) then Inl invalid_params
              else if exceedsLimit (the (flds ''arguments'')) maxArgumentBytes then Inl invalid_params
              else Inr params)"

definition validateMethodParams :: "string \<Rightarrow> string \<Rightarrow> int \<Rightarrow> (validation_error, string) result" where
  "validateMethodParams method params maxArgumentBytes =
     (if method = ''initialize'' then
        (if \<not> isJSONObject params then Inl invalid_params
         else case unmarshal_fields params of
           None \<Rightarrow> Inl invalid_params
         | Some flds \<Rightarrow>
             (case server_stringField flds ''protocolVersion'' of
                None \<Rightarrow> Inl invalid_params
              | Some version \<Rightarrow> if version = [] then Inl invalid_params else Inr params))
      else if method = ''tools/list'' then
        (if length (trim_space params) = 0 \<or> isJSONNull params \<or> isJSONObject params then Inr params
         else Inl invalid_params)
      else if method = ''tools/call'' then validateToolsCallParams params maxArgumentBytes
      else Inr params)"

text \<open>A missing member is a nil raw message, the empty string.\<close>

definition field_raw :: "(string \<rightharpoonup> string) \<Rightarrow> string \<Rightarrow> string" where
  "field_raw flds key = (case flds key of None \<Rightarrow> [] | Some raw \<Rightarrow> raw)"

definition parse_error :: validation_error where
  "parse_error = newRequestValidationError nullID ErrParseError ''parse error''"

definition invalid_request :: "string \<Rightarrow> validation_error" where
  "invalid_request rid = newRequestValidationError rid ErrInvalidRequest ''invalid request''"

definition validateRequestMessageWithLimits :: "string \<Rightarrow> int \<Rightarrow> (validation_error, validated_request) result" where
  "validateRequestMessageWithLimits message maxArgumentBytes =
     (if \<not> json_valid message then Inl parse_error
      else let trimmed = trim_space message in
      if length trimmed = 0 then Inl parse_error
      else if hd trimmed \<noteq> lbrace then Inl (invalid_request nullID)
      else case unmarshal_fields trimmed of
        None \<Rightarrow> Inl (invalid_request nullID)
      | Some flds \<Rightarrow>
          if server_stringField flds ''jsonrpc'' \<noteq> Some JSONRPCVersion
          then Inl (invalid_request (requestIDOrNull flds))
          else case requestID flds of
            None \<Rightarrow> Inl (invalid_request nullID)
          | Some rid \<Rightarrow>
              (case server_stringField flds ''method'' of
                 None \<Rightarrow> Inl (invalid_request (idForInvalidRequest rid))
               | Some method \<Rightarrow>
                   if trim_space method = [] then Inl (invalid_request (idForInvalidRequest rid))
                   else case rid of
                     None \<Rightarrow> Inr \<lparr>vr_id = [], vr_method = method, vr_params = field_raw flds ''params'',
                               vr_notification = True\<rparr>
                   | Some i \<Rightarrow>
                       (case validateMethodParams method (field_raw flds ''params'') maxArgumentBytes of
                          Inl paramsErr \<Rightarrow> Inl (paramsErr\<lparr>ve_id := i\<rparr>)
                        | Inr params \<Rightarrow> Inr \<lparr>vr_id = i, vr_method = method, vr_params = params,
                                        vr_notification = False\<rparr>)))"

subsection \<open>Facts\<close>

text \<open>An id that passes marshals: it is a text without nesting.\<close>

lemma valid_id_text:
  assumes "json_valid raw" "raw \<noteq> []" "\<not> json_ws (hd raw)" "hd raw \<noteq> lbrace" "hd raw \<noteq> lbrack"
  shows "valid_at 0 raw"
proof -
  obtain c t where ct: "raw = c # t" using assms(2) by (cases raw) auto
  obtain r where "scan_leaf c t = Some r" "skip_ws r = []"
    using assms ct by (auto simp: json_valid_def scan_fuel_def skip_ws_Cons numeral_eq_Suc split: option.splits)
  then have "scan_val (Suc 0) 0 raw = Some r" using assms ct by (simp add: skip_ws_Cons)
  then show ?thesis using \<open>skip_ws r = []\<close> unfolding valid_at_def by blast
qed

end
