(* ===== verification/Transport.thy ===== *)
theory Transport
  imports Protocol
begin

text \<open>
  Package \<open>internal/mcp/transport\<close>: messages as lines over a reader and a writer. The
  reader is the bytes it will still deliver and how it ends; the writer is the bytes it got
  and how many more it takes. Both are buffered, and every message is flushed, so that only
  complete messages pass unless the writer fails in the middle of one.
\<close>

subsection \<open>State and errors\<close>

datatype read_end = AtEOF | ReadFails

datatype transport_error = ErrMessageTooLarge | ErrResponseTooLarge | EOF | ReadFailed
  | WriteFailed | MarshalFailed

record transport =
  tp_in :: string
  tp_end :: read_end
  tp_out :: string
  tp_room :: "nat option"
  tp_maxReadBytes :: int
  tp_maxWriteBytes :: int

definition NewWithLimits :: "string \<Rightarrow> read_end \<Rightarrow> nat option \<Rightarrow> int \<Rightarrow> int \<Rightarrow> transport" where
  "NewWithLimits input fin room maxReadBytes maxWriteBytes =
     \<lparr>tp_in = input, tp_end = fin, tp_out = [], tp_room = room,
      tp_maxReadBytes = maxReadBytes, tp_maxWriteBytes = maxWriteBytes\<rparr>"

definition New :: "string \<Rightarrow> read_end \<Rightarrow> nat option \<Rightarrow> transport" where
  "New input fin room = NewWithLimits input fin room 0 0"

subsection \<open>Reading\<close>

text \<open>What \<open>discardLine\<close> leaves of the input; a read error just ends it.\<close>

fun discardLine :: "string \<Rightarrow> string" where
  "discardLine [] = []"
| "discardLine (c # s) = (if c = newline then s else discardLine s)"

definition read_error :: "read_end \<Rightarrow> transport_error" where
  "read_error e = (case e of AtEOF \<Rightarrow> EOF | ReadFails \<Rightarrow> ReadFailed)"

text \<open>The loop of \<open>ReadMessage\<close>: the limit, the line so far, and the input.\<close>

fun read_loop :: "int \<Rightarrow> transport_error \<Rightarrow> string \<Rightarrow> string \<Rightarrow> (transport_error, string) result \<times> string" where
  "read_loop m fin line [] = (Inl fin, [])"
| "read_loop m fin line (c # s) =
     (if m > 0 \<and> int (length (line @ [c])) > m then (Inl ErrMessageTooLarge, discardLine s)
      else if c = newline then (Inr (line @ [c]), s)
      else read_loop m fin (line @ [c]) s)"

definition ReadMessage :: "transport \<Rightarrow> transport \<times> (transport_error, string) result" where
  "ReadMessage t =
     (case read_loop (tp_maxReadBytes t) (read_error (tp_end t)) [] (tp_in t) of
        (r, rest) \<Rightarrow> (t\<lparr>tp_in := rest\<rparr>, r))"

subsection \<open>Writing\<close>

definition emit :: "transport \<Rightarrow> string \<Rightarrow> transport \<times> transport_error option" where
  "emit t bytes =
     (case tp_room t of
        None \<Rightarrow> (t\<lparr>tp_out := tp_out t @ bytes\<rparr>, None)
      | Some n \<Rightarrow>
          if length bytes \<le> n then (t\<lparr>tp_out := tp_out t @ bytes, tp_room := Some (n - length bytes)\<rparr>, None)
          else (t\<lparr>tp_out := tp_out t @ take n bytes, tp_room := Some 0\<rparr>, Some WriteFailed))"

definition writeMessage :: "transport \<Rightarrow> gojson \<Rightarrow> bool \<Rightarrow> transport \<times> transport_error option" where
  "writeMessage t v enforceLimit =
     (case marshal v of
        None \<Rightarrow> (t, Some MarshalFailed)
      | Some payload \<Rightarrow>
          if enforceLimit \<and> tp_maxWriteBytes t > 0 \<and> int (length payload + 1) > tp_maxWriteBytes t
          then (t, Some ErrResponseTooLarge)
          else emit t (payload @ [newline]))"

definition WriteMessage :: "transport \<Rightarrow> gojson \<Rightarrow> transport \<times> transport_error option" where
  "WriteMessage t v = writeMessage t v True"

definition WriteMessageUnbounded :: "transport \<Rightarrow> gojson \<Rightarrow> transport \<times> transport_error option" where
  "WriteMessageUnbounded t v = writeMessage t v False"

subsection \<open>Facts about reading\<close>

lemma discardLine_line: "newline \<notin> set l \<Longrightarrow> discardLine (l @ newline # s) = s"
  by (induction l) auto

lemma discardLine_open: "newline \<notin> set l \<Longrightarrow> discardLine l = []"
  by (induction l) auto

lemma suffix_discardLine: "suffix (discardLine s) s"
  by (induction s) (auto intro: suffix_ConsI suffixI)

lemma read_loop_short:
  "newline \<notin> set l \<Longrightarrow> m \<le> 0 \<or> int (length line + length l) < m \<Longrightarrow>
    read_loop m fin line (l @ newline # s) = (Inr (line @ l @ [newline]), s)"
  by (induction l arbitrary: line) auto

lemma read_loop_long:
  "newline \<notin> set l \<Longrightarrow> 0 < m \<Longrightarrow> int (length line) \<le> m \<Longrightarrow> m < int (length line + length l) \<Longrightarrow>
    read_loop m fin line (l @ newline # s) = (Inl ErrMessageTooLarge, s)"
proof (induction l arbitrary: line)
  case (Cons c l)
  show ?case
  proof (cases "int (length line) = m")
    case True
    then show ?thesis using Cons.prems by (simp add: discardLine_line)
  next
    case False
    then have "read_loop m fin (line @ [c]) (l @ newline # s) = (Inl ErrMessageTooLarge, s)"
      using Cons.prems by (intro Cons.IH) auto
    then show ?thesis using Cons.prems False by auto
  qed
qed simp

lemma read_loop_exact:
  "newline \<notin> set l \<Longrightarrow> 0 < m \<Longrightarrow> m = int (length line + length l) \<Longrightarrow>
    read_loop m fin line (l @ newline # s) = (Inl ErrMessageTooLarge, discardLine s)"
  by (induction l arbitrary: line) auto

text \<open>Every read consumes input or reports its end.\<close>

lemma read_loop_suffix:
  "read_loop m fin line s = (r, rest) \<Longrightarrow> suffix rest s \<and> (s \<noteq> [] \<longrightarrow> length rest < length s)"
proof (induction s arbitrary: line)
  case (Cons c s)
  have d: "suffix (discardLine s) s" by (rule suffix_discardLine)
  then have "length (discardLine s) \<le> length s" by (rule suffix_length_le)
  then show ?case using Cons d
    by (fastforce split: if_splits intro: suffix_ConsI dest: suffix_length_le)
qed simp

lemma ReadMessage_consumes:
  "ReadMessage t = (t', r) \<Longrightarrow> tp_in t \<noteq> [] \<Longrightarrow> length (tp_in t') < length (tp_in t)"
  by (auto simp: ReadMessage_def dest: read_loop_suffix split: prod.splits)

lemma ReadMessage_end: "tp_in t = [] \<Longrightarrow> ReadMessage t = (t, Inl (read_error (tp_end t)))"
  by (simp add: ReadMessage_def)

lemma ReadMessage_out:
  "ReadMessage t = (t', r) \<Longrightarrow> tp_out t' = tp_out t \<and> tp_room t' = tp_room t \<and> tp_end t' = tp_end t \<and>
     tp_maxReadBytes t' = tp_maxReadBytes t \<and> tp_maxWriteBytes t' = tp_maxWriteBytes t"
  by (auto simp: ReadMessage_def split: prod.splits)

subsection \<open>Facts about writing\<close>

lemma emit_frame:
  "emit t b = (t', e) \<Longrightarrow> tp_in t' = tp_in t \<and> tp_end t' = tp_end t \<and>
     tp_maxReadBytes t' = tp_maxReadBytes t \<and> tp_maxWriteBytes t' = tp_maxWriteBytes t"
  by (auto simp: emit_def split: option.splits if_splits)

lemma emit_unbounded: "tp_room t = None \<Longrightarrow> emit t b = (t\<lparr>tp_out := tp_out t @ b\<rparr>, None)"
  by (simp add: emit_def)

lemma writeMessage_frame:
  "writeMessage t v b = (t', e) \<Longrightarrow> tp_in t' = tp_in t \<and> tp_end t' = tp_end t \<and>
     tp_maxReadBytes t' = tp_maxReadBytes t \<and> tp_maxWriteBytes t' = tp_maxWriteBytes t"
  by (auto simp: writeMessage_def dest: emit_frame split: option.splits if_splits)

end
