(* ===== verification/Server.thy ===== *)
theory Server
  imports RequestValidation Transport
begin

text \<open>
  \<open>internal/mcp/server/server.go\<close>: the request loop over a transport and a router. The
  host is threaded beside the server, because handlers change it. Of the diagnostics the
  messages given to \<open>Debugf\<close> are kept, when a logger is enabled.
\<close>

subsection \<open>The server\<close>

record options =
  MaxMessageBytes :: int
  MaxArgumentBytes :: int
  MaxResponseBytes :: int
  Diagnostics :: bool

record server =
  sv_transport :: transport
  sv_router :: router
  sv_maxArgumentBytes :: int
  sv_diagnostics :: bool
  sv_log :: "string list"

definition NewWithOptions :: "string \<Rightarrow> read_end \<Rightarrow> nat option \<Rightarrow> router \<Rightarrow> options \<Rightarrow> server" where
  "NewWithOptions input fin room r opts =
     \<lparr>sv_transport = NewWithLimits input fin room (MaxMessageBytes opts) (MaxResponseBytes opts),
      sv_router = r, sv_maxArgumentBytes = MaxArgumentBytes opts,
      sv_diagnostics = Diagnostics opts, sv_log = []\<rparr>"

definition NewServer :: "string \<Rightarrow> read_end \<Rightarrow> nat option \<Rightarrow> router \<Rightarrow> server" where
  "NewServer input fin room r =
     NewWithOptions input fin room r
       \<lparr>MaxMessageBytes = 0, MaxArgumentBytes = 0, MaxResponseBytes = 0, Diagnostics = False\<rparr>"

definition logDebug :: "server \<Rightarrow> string \<Rightarrow> server" where
  "logDebug sv message = (if sv_diagnostics sv then sv\<lparr>sv_log := sv_log sv @ [message]\<rparr> else sv)"

subsection \<open>Answering\<close>

definition error_response :: "string \<Rightarrow> int \<Rightarrow> string \<Rightarrow> response" where
  "error_response rid code message =
     \<lparr>rs_JSONRPC = JSONRPCVersion, rs_ID = rid, rs_Result = None,
      rs_Error = Some \<lparr>er_Code = code, er_Message = message\<rparr>\<rparr>"

definition writeError :: "server \<Rightarrow> string \<Rightarrow> int \<Rightarrow> string \<Rightarrow> server \<times> transport_error option" where
  "writeError sv rid code message =
     (let i = (if length rid = 0 then nullID else rid) in
      case WriteMessageUnbounded (sv_transport sv) (response_json (error_response i code message)) of
        (t, e) \<Rightarrow> (sv\<lparr>sv_transport := t\<rparr>, e))"

definition writeResponse :: "server \<Rightarrow> string \<Rightarrow> response \<Rightarrow> server \<times> transport_error option" where
  "writeResponse sv rid r =
     (case WriteMessage (sv_transport sv) (response_json r) of
        (t, e) \<Rightarrow>
          if e = Some ErrResponseTooLarge
          then writeError (logDebug (sv\<lparr>sv_transport := t\<rparr>) ''jsonrpc response limit exceeded'')
                 rid ErrInternalError ''internal error''
          else (sv\<lparr>sv_transport := t\<rparr>, e))"

text \<open>A panic of a handler is recovered and answered as an internal error.\<close>

definition handleRequest :: "server \<Rightarrow> host \<Rightarrow> validated_request \<Rightarrow> server \<times> host \<times> response" where
  "handleRequest sv h request =
     (case Dispatch (sv_router sv) (vr_method request) h (vr_params request) of
        (h', Panicked) \<Rightarrow>
          (logDebug sv (''handler panic recovered method='' @ vr_method request), h',
           error_response (vr_id request) ErrInternalError ''internal error'')
      | (h', Failed rpcErr) \<Rightarrow>
          (sv, h', error_response (vr_id request) (er_Code rpcErr) (er_Message rpcErr))
      | (h', Result v) \<Rightarrow>
          (sv, h', \<lparr>rs_JSONRPC = JSONRPCVersion, rs_ID = vr_id request, rs_Result = v, rs_Error = None\<rparr>))"

subsection \<open>The loop\<close>

datatype run_error = ContextDone | TransportError transport_error

datatype step_result = Continue | Return "run_error option"

definition go_on :: "server \<times> transport_error option \<Rightarrow> server \<times> step_result" where
  "go_on r = (case r of (sv, None) \<Rightarrow> (sv, Continue) | (sv, Some e) \<Rightarrow> (sv, Return (Some (TransportError e))))"

text \<open>What the loop does with one message.\<close>

definition answer :: "server \<Rightarrow> host \<Rightarrow> string \<Rightarrow> (server \<times> step_result) \<times> host" where
  "answer sv h message =
     (case validateRequestMessageWithLimits message (sv_maxArgumentBytes sv) of
        Inl err \<Rightarrow>
          (go_on (writeError (logDebug sv (''jsonrpc validation error code='' @ itoa (ve_code err)))
             (ve_id err) (ve_code err) (ve_message err)), h)
      | Inr request \<Rightarrow>
          if vr_notification request
          then ((logDebug sv (''jsonrpc notification ignored method='' @ vr_method request), Continue), h)
          else (case handleRequest sv h request of
                  (sv', h', r) \<Rightarrow> (go_on (writeResponse sv' (vr_id request) r), h')))"

definition serve_step :: "server \<Rightarrow> host \<Rightarrow> (server \<times> step_result) \<times> host" where
  "serve_step sv h =
     (case ReadMessage (sv_transport sv) of
        (t, Inl err) \<Rightarrow>
          (let sv' = sv\<lparr>sv_transport := t\<rparr> in
           if err = EOF then ((sv', Return None), h)
           else if err = ErrMessageTooLarge then
             (go_on (writeError (logDebug sv' ''jsonrpc message limit exceeded'')
                nullID ErrInvalidRequest ''invalid request''), h)
           else ((sv', Return (Some (TransportError err))), h))
      | (t, Inr message) \<Rightarrow> answer (sv\<lparr>sv_transport := t\<rparr>) h message)"

subsection \<open>Every step consumes input\<close>

lemma logDebug_transport [simp]: "sv_transport (logDebug sv m) = sv_transport sv" "sv_router (logDebug sv m) = sv_router sv"
  "sv_maxArgumentBytes (logDebug sv m) = sv_maxArgumentBytes sv" "sv_diagnostics (logDebug sv m) = sv_diagnostics sv"
  by (simp_all add: logDebug_def)

lemma writeError_in: "writeError sv rid c m = (sv', e) \<Longrightarrow> tp_in (sv_transport sv') = tp_in (sv_transport sv)"
  by (auto simp: writeError_def WriteMessageUnbounded_def dest: writeMessage_frame split: prod.splits)

lemma writeResponse_in: "writeResponse sv rid r = (sv', e) \<Longrightarrow> tp_in (sv_transport sv') = tp_in (sv_transport sv)"
  by (auto simp: writeResponse_def WriteMessage_def dest!: writeMessage_frame writeError_in split: prod.splits if_splits)

lemma go_on_server [simp]: "fst (go_on r) = fst r"
  by (auto simp: go_on_def split: prod.split option.split)

lemma handleRequest_transport: "handleRequest sv h req = (sv', h', r) \<Longrightarrow> sv_transport sv' = sv_transport sv"
  by (auto simp: handleRequest_def split: prod.splits outcome.splits)

lemma answer_in: "tp_in (sv_transport (fst (fst (answer sv h msg)))) = tp_in (sv_transport sv)"
  by (auto simp: answer_def Let_def split: sum.split prod.split
      dest!: handleRequest_transport intro: writeError_in [OF prod.collapse [symmetric], THEN trans]
        writeResponse_in [OF prod.collapse [symmetric], THEN trans])

lemma serve_step_consumes:
  assumes "serve_step sv h = ((sv', Continue), h')"
  shows "length (tp_in (sv_transport sv')) < length (tp_in (sv_transport sv))"
proof -
  obtain t r where tr: "ReadMessage (sv_transport sv) = (t, r)" by fastforce
  have ne: "tp_in (sv_transport sv) \<noteq> []"
  proof
    assume "tp_in (sv_transport sv) = []"
    then show False using assms ReadMessage_end [of "sv_transport sv"]
      by (auto simp: serve_step_def read_error_def split: read_end.splits)
  qed
  have "tp_in (sv_transport sv') = tp_in t"
  proof (cases r)
    case (Inl err)
    then show ?thesis
      using assms tr writeError_in [OF prod.collapse [symmetric],
          of "logDebug (sv\<lparr>sv_transport := t\<rparr>) ''jsonrpc message limit exceeded''" nullID ErrInvalidRequest "''invalid request''"]
        go_on_server [of "writeError (logDebug (sv\<lparr>sv_transport := t\<rparr>) ''jsonrpc message limit exceeded'') nullID ErrInvalidRequest ''invalid request''"]
      by (auto simp: serve_step_def Let_def simp del: go_on_server split: if_splits)
  next
    case (Inr msg)
    then have "fst (fst (answer (sv\<lparr>sv_transport := t\<rparr>) h msg)) = sv'" using assms tr by (simp add: serve_step_def)
    then show ?thesis using answer_in [of "sv\<lparr>sv_transport := t\<rparr>" h msg] by simp
  qed
  then show ?thesis using ReadMessage_consumes [OF tr ne] by simp
qed

text \<open>
  \<open>Run\<close>: \<open>cancelled n\<close> tells whether the context is done when the loop comes round for the
  \<open>n\<close>-th time. It ends because every round that goes on consumes input.
\<close>

function Run_loop :: "(nat \<Rightarrow> bool) \<Rightarrow> nat \<Rightarrow> server \<Rightarrow> host \<Rightarrow> server \<times> host \<times> run_error option" where
  "Run_loop cancelled n sv h =
     (if cancelled n then (sv, h, Some ContextDone)
      else case serve_step sv h of
        ((sv', Return e), h') \<Rightarrow> (sv', h', e)
      | ((sv', Continue), h') \<Rightarrow> Run_loop cancelled (Suc n) sv' h')"
  by pat_completeness auto
termination
  by (relation "measure (\<lambda>(c, n, sv, h). length (tp_in (sv_transport sv)))") (auto dest: serve_step_consumes [OF sym])

declare Run_loop.simps [simp del]

definition Run :: "(nat \<Rightarrow> bool) \<Rightarrow> server \<Rightarrow> host \<Rightarrow> server \<times> host \<times> run_error option" where
  "Run cancelled sv h = Run_loop cancelled 0 sv h"

end
