(* ===== verification/JsonParse.thy ===== *)
theory JsonParse
  imports Protocol
begin

text \<open>
  What a peer reads from a marshalled object: its members, each key as it was (up to bytes
  that are no UTF-8) and each value as it marshals.
\<close>

definition member_text :: "nat \<Rightarrow> string \<times> gojson \<Rightarrow> string \<Rightarrow> bool" where
  "member_text d m t \<longleftrightarrow> (\<exists>V. text_of d (snd m) V \<and> t = quote_string (fst m) @ colon # V)"

definition parsed :: "string \<times> gojson \<Rightarrow> string \<times> string" where
  "parsed m = (utf8_clean (fst m), the (marshal (snd m)))"

lemma stops_sep: "stops (comma # s)" "stops (rbrace # s)" by simp_all

lemma tok_scan:
  assumes "text_of d v V" "d \<le> max_depth" "stops s"
  shows "scan_val (scan_fuel (V @ s)) max_depth (V @ s) = Some s" "skip_ws (V @ s) = V @ s"
proof -
  obtain n where t: "tok True (scan_val n d) V" using assms(1) by (auto simp: text_of_def)
  show "scan_val (scan_fuel (V @ s)) max_depth (V @ s) = Some s"
    by (rule scan_val_fuel [OF tokD(4) [OF t assms(3)] assms(2)])
  show "skip_ws (V @ s) = V @ s" by (rule skip_ws_tok [OF t])
qed

lemma raw_members_step:
  assumes "member_text d m t" "d \<le> max_depth" "stops (e # s)" "\<not> json_ws e"
  shows "raw_members (Suc n) (t @ e # s) = parsed m # (if e = comma then raw_members n s else [])"
proof -
  obtain V where V: "text_of d (snd m) V" and t: "t = quote_string (fst m) @ colon # V"
    using assms(1) by (auto simp: member_text_def)
  have up: "butlast (upto_rest (quote_body (fst m) @ dquote # r) r) = quote_body (fst m)" for r
    using upto_rest_append [of "quote_body (fst m) @ [dquote]" r] by simp
  show ?thesis
    using tok_scan [OF V assms(2,3)] text_of_facts(1) [OF V assms(2)] assms(4)
    by (simp add: t quote_string_def skip_ws_Cons json_bytes scan_quote up unquote_quote_body parsed_def
        del: scan_val.simps)
qed

lemma raw_members_texts:
  assumes "list_all2 (member_text d) ms ts" "d \<le> max_depth" "ms \<noteq> []" "length ms \<le> n"
  shows "raw_members n (sep_join ts @ rbrace # s) = map parsed ms"
  using assms
proof (induction ms ts arbitrary: n rule: list_all2_induct)
  case (Cons m ms t ts)
  obtain k where n: "n = Suc k" using Cons.prems by (cases n) auto
  show ?case
  proof (cases "ms = []")
    case True
    then have "ts = []" using Cons.hyps by simp
    then show ?thesis using True n raw_members_step [OF Cons.hyps(1) Cons.prems(1) stops_sep(2)]
      by (simp add: sep_join_def json_bytes)
  next
    case False
    then obtain t' ts' where ts: "ts = t' # ts'" using Cons.hyps by (cases ts) auto
    have "raw_members k (sep_join ts @ rbrace # s) = map parsed ms"
      using Cons.IH [OF Cons.prems(1) False, of k] Cons.prems n by simp
    then show ?thesis using raw_members_step [OF Cons.hyps(1) Cons.prems(1) stops_sep(1)] n
      by (simp add: sep_join_def ts json_bytes)
  qed
qed simp

lemma member_texts:
  assumes "\<forall>m \<in> set ms. json_ok d (snd m)" "d \<le> max_depth"
    "sequence_opt (map (\<lambda>(k, v). map_option (\<lambda>t. quote_string k @ colon # t) (marshal v)) ms) = Some ts"
  shows "list_all2 (member_text d) ms ts"
  using assms
proof (induction ms arbitrary: ts)
  case (Cons m ms)
  obtain k v where m: "m = (k, v)" by (cases m)
  obtain X where X: "text_of d v X" "marshal v = Some X" using marshal_ok [of d v] Cons.prems m by auto
  then show ?case using Cons m by (auto simp: member_text_def)
qed simp

lemma sep_join_length: "length ts \<le> length (sep_join ts) + 1"
  unfolding sep_join_def by (induction "[comma]" ts rule: join_with.induct) auto

theorem unmarshal_marshal_object:
  assumes "json_ok d (GObj ms)" "d \<le> max_depth" "marshal (GObj ms) = Some X"
  shows "unmarshal_members X = Some (map parsed ms)"
proof -
  obtain ts where ts: "sequence_opt (map (\<lambda>(k, v). map_option (\<lambda>t. quote_string k @ colon # t) (marshal v)) ms) = Some ts"
    and X: "X = lbrace # sep_join ts @ [rbrace]" using assms(3) by auto
  have v: "json_valid X" using marshal_ok [OF assms(1,2)] text_of_facts(2) assms(2,3) by (metis option.inject)
  have all: "list_all2 (member_text (d - 1)) ms ts" using member_texts [OF _ _ ts, of "d - 1"] assms(1,2) by simp
  have "raw_members (length X) (sep_join ts @ [rbrace]) = map parsed ms"
  proof (cases "ms = []")
    case True
    then show ?thesis using all X by (simp add: sep_join_def skip_ws_Cons json_bytes)
  next
    case False
    have "length ms \<le> length X" using sep_join_length [of ts] list_all2_lengthD [OF all] X by simp
    then show ?thesis using raw_members_texts [OF all _ False, of "length X" "[]"] assms(2) by simp
  qed
  then show ?thesis using v X by (simp add: unmarshal_members_def skip_ws_Cons json_bytes)
qed

end
