(* ===== verification/ServerFacts.thy ===== *)
theory ServerFacts
  imports Server JsonParse
begin

text \<open>
  The contract between the server and the handlers of its router (a locale), and what it
  gives: every step keeps the invariant and the frame, and every response marshals.
\<close>

subsection \<open>Ids\<close>

lemma space_len_rev_last:
  assumes "u \<noteq> []" "byte (last u) < 128" "\<not> ascii_space (last u)" "space_len_rev u \<noteq> 0"
  shows "space_len_rev u < length u"
proof -
  have c: "last u \<noteq> CHR 0xC2" "last u \<noteq> CHR 0xE1" "last u \<noteq> CHR 0xE2" "last u \<noteq> CHR 0xE3" using assms(2) by auto
  consider a where "u = [a]" | a b where "u = [a, b]" | a b d where "u = [a, b, d]" | a b d e v where "u = a # b # d # e # v"
    using assms(1) by (metis list.exhaust)
  then show ?thesis
    by cases (use assms(3,4) c in \<open>auto simp: space_len_rev_def space2_def space3_def split: if_splits\<close>)
qed

lemma trim_right_keeps:
  "u \<noteq> [] \<Longrightarrow> byte (last u) < 128 \<Longrightarrow> \<not> ascii_space (last u) \<Longrightarrow>
    trim_run space_len_rev u \<noteq> [] \<and> last (trim_run space_len_rev u) = last u"
proof (induction "length u" arbitrary: u rule: less_induct)
  case less
  show ?case
  proof (cases "space_len_rev u = 0")
    case True then show ?thesis using less.prems by (simp add: trim_run_stop)
  next
    case False
    then have lt: "space_len_rev u < length u" using space_len_rev_last less.prems by blast
    have "trim_run space_len_rev (drop (space_len_rev u) u) \<noteq> [] \<and>
        last (trim_run space_len_rev (drop (space_len_rev u) u)) = last (drop (space_len_rev u) u)"
      using lt False less.prems by (intro less.hyps) auto
    then show ?thesis using lt False less.prems trim_run.simps [of space_len_rev u] by simp
  qed
qed

text \<open>A first byte that is no white space stays.\<close>

lemma trim_space_head:
  assumes "byte c < 128" "\<not> ascii_space c"
  shows "\<exists>s'. trim_space (c # s) = c # s'"
proof -
  have "space_len (c # s) = 0"
  proof (rule space_len_plain)
    have "c \<notin> {CHR 0xC2, CHR 0xE1, CHR 0xE2, CHR 0xE3}" using assms(1) by auto
    then show "hd (c # s) \<notin> {CHR 0x20, CHR 0x09, CHR 0x0A, CHR 0x0B, CHR 0x0C, CHR 0x0D, CHR 0xC2, CHR 0xE1, CHR 0xE2, CHR 0xE3}"
      using assms(2) unfolding ascii_space_def by simp
  qed
  then have t: "trim_space (c # s) = rev (trim_run space_len_rev (rev (c # s)))"
    by (simp add: trim_space_def trim_run_stop)
  have "trim_run space_len_rev (rev (c # s)) \<noteq> [] \<and> last (trim_run space_len_rev (rev (c # s))) = c"
    using trim_right_keeps [of "rev (c # s)"] assms by simp
  then have "trim_run space_len_rev (rev (c # s)) = butlast (trim_run space_len_rev (rev (c # s))) @ [c]"
    by (metis append_butlast_last_id)
  then show ?thesis unfolding t by (metis rev.simps(2) rev_swap)
qed

lemma isValidID_text:
  assumes "isValidID raw" "json_valid raw" "raw \<noteq> []" "\<not> json_ws (hd raw)"
  shows "valid_at 0 raw"
proof (rule valid_id_text [OF assms(2-4)])
  have "\<not> isValidID (c # s)" if "c = lbrace \<or> c = lbrack" for c s
  proof -
    have "byte c < 128" "\<not> ascii_space c" using that by (auto simp: ascii_space_def)
    then obtain s' where t: "trim_space (c # s) = c # s'" using trim_space_head by blast
    have "\<not> number_start (c # s')" "c \<noteq> dquote" "\<not> json_ws c" using that by (auto simp: number_start_def is_digit_def json_bytes)
    then show ?thesis using that by (auto simp: isValidID_def Let_def t skip_ws_Cons)
  qed
  then show "hd raw \<noteq> lbrace" "hd raw \<noteq> lbrack" using assms(1,3) by (metis list.collapse)+
qed

text \<open>The ids the server answers with.\<close>

definition good_id :: "string \<Rightarrow> bool" where
  "good_id rid \<longleftrightarrow> rid \<noteq> [] \<and> valid_at 0 rid"

lemma nullID_good [simp]: "good_id nullID"
  unfolding good_id_def nullID_def valid_at_def
  by (intro conjI exI [of _ "Suc 0"] exI [of _ "[]"])
    (simp_all add: scan_leaf_def scan_word_def skip_ws_Cons json_ws_def)

lemma requestID_good:
  assumes "unmarshal_fields m = Some flds" "requestID flds = Some (Some rid)"
  shows "good_id rid"
proof -
  have "flds ''id'' = Some rid" "isValidID rid" using assms(2) by (auto simp: requestID_def split: option.splits if_splits)
  then show ?thesis using unmarshal_fields_valid [OF assms(1)] isValidID_text by (auto simp: good_id_def)
qed

lemma newRequestValidationError_id: "rid = [] \<or> good_id rid \<Longrightarrow> good_id (ve_id (newRequestValidationError rid c m))"
  by (auto simp: newRequestValidationError_def)

lemma validate_error_id:
  assumes "validateRequestMessageWithLimits msg m = Inl err" shows "good_id (ve_id err)"
proof -
  have inv: "good_id rid \<Longrightarrow> good_id (ve_id (invalid_request rid))" for rid
    by (simp add: invalid_request_def newRequestValidationError_id)
  have opt: "requestIDOrNull flds = rid \<Longrightarrow> unmarshal_fields s = Some flds \<Longrightarrow> good_id rid" for s flds rid
    by (auto simp: requestIDOrNull_def dest: requestID_good split: option.splits)
  show ?thesis
    using assms inv opt requestID_good
    unfolding validateRequestMessageWithLimits_def parse_error_def idForInvalidRequest_def
    by (fastforce simp: Let_def newRequestValidationError_id split: if_splits option.splits sum.splits)
qed

lemma validate_request_id:
  assumes "validateRequestMessageWithLimits msg m = Inr req" "\<not> vr_notification req"
  shows "good_id (vr_id req)"
  using assms requestID_good unfolding validateRequestMessageWithLimits_def
  by (fastforce simp: Let_def split: if_splits option.splits sum.splits)

subsection \<open>Responses marshal\<close>

definition response_depth :: nat where "response_depth = 16"

lemma response_depth_le: "response_depth \<le> max_depth"
  by (simp add: response_depth_def max_depth_def)

definition reply_text :: "response \<Rightarrow> string" where
  "reply_text rs = the (marshal (response_json rs))"

definition response_ok :: "response \<Rightarrow> bool" where
  "response_ok rs \<longleftrightarrow> json_ok response_depth (response_json rs)"

lemma raw_json_good: "good_id rid \<Longrightarrow> json_ok d (raw_json rid)"
  by (auto simp: good_id_def raw_json_def intro: valid_at_mono)

lemma error_response_ok [simp]: "good_id rid \<Longrightarrow> response_ok (error_response rid c m)"
  by (simp add: response_ok_def response_json_def error_response_def response_depth_def raw_json_good error_json_def)

lemma result_response_ok:
  assumes "good_id rid" "json_ok 12 (any_json x)"
  shows "response_ok \<lparr>rs_JSONRPC = j, rs_ID = rid, rs_Result = Some x, rs_Error = None\<rparr>"
  using assms(1) json_ok_mono [OF assms(2), of 15]
  by (simp add: response_ok_def response_json_def response_depth_def raw_json_good)

lemma response_text:
  assumes "response_ok rs"
  shows "text_of response_depth (response_json rs) (reply_text rs)" "marshal (response_json rs) = Some (reply_text rs)"
    "newline \<notin> set (reply_text rs)" "json_valid (reply_text rs)"
proof -
  obtain X where X: "text_of response_depth (response_json rs) X" "marshal (response_json rs) = Some X"
    using marshal_ok [OF _ response_depth_le] assms unfolding response_ok_def by blast
  then have "reply_text rs = X" by (simp add: reply_text_def)
  then show "text_of response_depth (response_json rs) (reply_text rs)" "marshal (response_json rs) = Some (reply_text rs)"
    "newline \<notin> set (reply_text rs)" "json_valid (reply_text rs)"
    using X text_of_facts [OF X(1) response_depth_le] by simp_all
qed

lemma writeError_text:
  assumes "good_id rid"
  shows "writeError sv rid c m =
    (case emit (sv_transport sv) (reply_text (error_response rid c m) @ [newline]) of
       (t, e) \<Rightarrow> (sv\<lparr>sv_transport := t\<rparr>, e))"
  using assms response_text(2) [OF error_response_ok [OF assms]]
  by (simp add: writeError_def WriteMessageUnbounded_def writeMessage_def good_id_def)

subsection \<open>The contract of the handlers\<close>

locale safe_handlers =
  fixes r :: router
    and inv :: "host \<Rightarrow> bool"
    and frame :: "host \<Rightarrow> host \<Rightarrow> bool"
  assumes frame_refl: "frame h h"
    and frame_trans: "frame h h1 \<Longrightarrow> frame h1 h2 \<Longrightarrow> frame h h2"
    and handle_safe: "r m = Some hdl \<Longrightarrow> inv h \<Longrightarrow> hd_Handle hdl h p = (h', out) \<Longrightarrow> inv h' \<and> frame h h'"
    and handle_ok: "r m = Some hdl \<Longrightarrow> hd_Handle hdl h p = (h', Result v) \<Longrightarrow>
      \<exists>x. v = Some x \<and> json_ok 12 (any_json x)"
begin

lemma dispatch_safe: "inv h \<Longrightarrow> Dispatch r m h p = (h', out) \<Longrightarrow> inv h' \<and> frame h h'"
  using handle_safe frame_refl by (auto simp: Dispatch_def split: option.splits)

lemma handleRequest_safe:
  "sv_router sv = r \<Longrightarrow> inv h \<Longrightarrow> handleRequest sv h req = (sv', h', rs) \<Longrightarrow> inv h' \<and> frame h h'"
  using dispatch_safe by (fastforce simp: handleRequest_def split: prod.splits outcome.splits)

lemma handleRequest_ok:
  assumes "sv_router sv = r" "handleRequest sv h req = (sv', h', rs)" "good_id (vr_id req)"
  shows "response_ok rs" "rs_ID rs = vr_id req"
proof -
  obtain h1 out where d: "Dispatch r (vr_method req) h (vr_params req) = (h1, out)" by fastforce
  have "\<exists>x. v = Some x \<and> json_ok 12 (any_json x)" if "out = Result v" for v
    using d that handle_ok by (auto simp: Dispatch_def split: option.splits)
  then show "response_ok rs" "rs_ID rs = vr_id req"
    using assms d by (cases out; auto simp: handleRequest_def error_response_def intro!: result_response_ok
      error_response_ok [unfolded error_response_def])+
qed

lemma answer_safe:
  assumes "sv_router sv = r" "inv h" "answer sv h msg = ((sv', s), h')"
  shows "inv h' \<and> frame h h'"
  using assms frame_refl handleRequest_safe
  by (fastforce simp: answer_def Let_def split: sum.splits if_splits prod.splits)

lemma serve_step_safe:
  assumes "sv_router sv = r" "inv h" "serve_step sv h = ((sv', s), h')"
  shows "inv h' \<and> frame h h'"
  using assms frame_refl answer_safe [of "sv\<lparr>sv_transport := t\<rparr>" for t]
  by (auto simp: serve_step_def Let_def split: prod.splits sum.splits if_splits)

end

subsection \<open>The configuration of a server stays\<close>

definition same_config :: "server \<Rightarrow> server \<Rightarrow> bool" where
  "same_config sv sv' \<longleftrightarrow> sv_router sv' = sv_router sv \<and> sv_maxArgumentBytes sv' = sv_maxArgumentBytes sv \<and>
     tp_end (sv_transport sv') = tp_end (sv_transport sv) \<and>
     tp_maxReadBytes (sv_transport sv') = tp_maxReadBytes (sv_transport sv) \<and>
     tp_maxWriteBytes (sv_transport sv') = tp_maxWriteBytes (sv_transport sv)"

lemma same_config_refl [simp]: "same_config sv sv"
  by (simp add: same_config_def)

lemma same_config_trans: "same_config a b \<Longrightarrow> same_config b c \<Longrightarrow> same_config a c"
  by (simp add: same_config_def)

lemma same_config_log: "same_config sv (logDebug sv m)"
  by (simp add: same_config_def)

lemma same_config_write: "WriteMessageUnbounded (sv_transport sv) v = (t, e) \<Longrightarrow> same_config sv (sv\<lparr>sv_transport := t\<rparr>)"
  "WriteMessage (sv_transport sv) v = (t, e) \<Longrightarrow> same_config sv (sv\<lparr>sv_transport := t\<rparr>)"
  by (auto simp: same_config_def WriteMessageUnbounded_def WriteMessage_def dest: writeMessage_frame)

lemma same_config_logD: "same_config (logDebug sv m) sv' \<Longrightarrow> same_config sv sv'"
  by (simp add: same_config_def)

lemma writeError_config: "writeError sv rid c m = (sv', e) \<Longrightarrow> same_config sv sv'"
  by (auto simp: writeError_def dest: same_config_write split: prod.splits)

lemma writeResponse_config: "writeResponse sv rid rs = (sv', e) \<Longrightarrow> same_config sv sv'"
  by (auto simp: writeResponse_def dest!: same_config_write(2) writeError_config same_config_logD
      split: prod.splits if_splits intro: same_config_trans)

lemma handleRequest_config: "handleRequest sv h req = (sv', h', rs) \<Longrightarrow> same_config sv sv'"
  by (auto simp: handleRequest_def same_config_log split: prod.splits outcome.splits)

lemma go_on_eq: "go_on p = (sv', s) \<Longrightarrow> \<exists>e. p = (sv', e)"
  by (auto simp: go_on_def split: prod.splits option.splits)

lemma answer_config: "answer sv h msg = ((sv', s), h') \<Longrightarrow> same_config sv sv'"
  by (auto simp: answer_def Let_def same_config_log split: sum.splits if_splits prod.splits
      dest!: go_on_eq writeError_config writeResponse_config handleRequest_config same_config_logD
      intro: same_config_trans)

lemma serve_step_config: "serve_step sv h = ((sv', s), h') \<Longrightarrow> same_config sv sv'"
proof -
  assume st: "serve_step sv h = ((sv', s), h')"
  obtain t res where t: "ReadMessage (sv_transport sv) = (t, res)" by fastforce
  have c: "same_config sv (sv\<lparr>sv_transport := t\<rparr>)" using ReadMessage_out [OF t] by (simp add: same_config_def)
  have "same_config (sv\<lparr>sv_transport := t\<rparr>) sv'"
    using st t by (auto simp: serve_step_def Let_def split: sum.splits if_splits
      dest!: go_on_eq writeError_config answer_config same_config_logD)
  then show ?thesis using same_config_trans [OF c] by blast
qed

context safe_handlers
begin

lemma Run_loop_safe:
  "sv_router sv = r \<Longrightarrow> inv h \<Longrightarrow> Run_loop cancelled n sv h = (sv', h', e) \<Longrightarrow> inv h' \<and> frame h h'"
proof (induction cancelled n sv h arbitrary: sv' h' e rule: Run_loop.induct)
  case (1 cancelled n sv h)
  obtain sv1 s h1 where st: "serve_step sv h = ((sv1, s), h1)" by (metis surj_pair)
  have safe: "inv h1 \<and> frame h h1" using serve_step_safe [OF 1(2,3) st] .
  show ?case
  proof (cases "cancelled n")
    case True
    then show ?thesis using 1(3,4) frame_refl by (simp add: Run_loop.simps [of cancelled n])
  next
    case False
    show ?thesis
    proof (cases s)
      case (Return e1)
      then show ?thesis using False 1(4) st safe by (simp add: Run_loop.simps [of cancelled n])
    next
      case Continue
      then have "Run_loop cancelled (Suc n) sv1 h1 = (sv', h', e)"
        using False 1(4) st by (simp add: Run_loop.simps [of cancelled n])
      moreover have "sv_router sv1 = r" using serve_step_config [OF st] 1(2) by (simp add: same_config_def)
      ultimately have "inv h' \<and> frame h1 h'"
        using 1(1) [OF False st [symmetric] refl Continue] safe by blast
      then show ?thesis using safe frame_trans by blast
    qed
  qed
qed

lemma Run_safe: "sv_router sv = r \<Longrightarrow> inv h \<Longrightarrow> Run cancelled sv h = (sv', h', e) \<Longrightarrow> inv h' \<and> frame h h'"
  unfolding Run_def by (rule Run_loop_safe)

end

end
