(* ===== verification/Wiring.thy ===== *)
theory Wiring
  imports ServerFacts
begin

text \<open>
  \<open>cmd/server/tools_boot.go\<close> and \<open>router_boot.go\<close>: which tools are registered and which
  handlers are routed. The contracts follow the composition: a registry of safe tools gives
  a router of safe handlers (a sublocale), and the registry of a sandboxed file system is
  one of safe tools (interpretations).
\<close>

subsection \<open>Registry and router\<close>

record tool_capabilities =
  filesystemWrite :: bool

definition capabilitiesFromReadOnly :: "bool \<Rightarrow> tool_capabilities" where
  "capabilitiesFromReadOnly readOnly = \<lparr>filesystemWrite = (\<not> readOnly)\<rparr>"

definition createToolRegistry :: "fsys \<Rightarrow> int \<Rightarrow> tool_capabilities \<Rightarrow> registry" where
  "createToolRegistry filesystem maxFileSize capabilities =
     (let r = RegisterTool NewRegistry (NewListDirectoryTool filesystem);
          r = RegisterTool r (NewReadFileTool filesystem maxFileSize);
          r = RegisterTool r (NewGetPathInfoTool filesystem)
      in if \<not> filesystemWrite capabilities then r
         else
           let r = RegisterTool r (NewWriteFileTool filesystem);
               r = RegisterTool r (NewCreateDirectoryTool filesystem);
               r = RegisterTool r (NewDeletePathTool filesystem);
               r = RegisterTool r (NewCopyPathTool filesystem)
           in RegisterTool r (NewMovePathTool filesystem))"

definition createRouter :: "string \<Rightarrow> string \<Rightarrow> registry \<Rightarrow> router" where
  "createRouter serverName serverVersion toolRegistry =
     (let r = RegisterHandler NewRouter (NewInitializeHandler serverName serverVersion);
          r = RegisterHandler r (NewListHandler toolRegistry)
      in RegisterHandler r (NewCallHandler toolRegistry))"

definition read_tools :: "fsys \<Rightarrow> int \<Rightarrow> tool list" where
  "read_tools filesystem m = [NewListDirectoryTool filesystem, NewReadFileTool filesystem m, NewGetPathInfoTool filesystem]"

definition write_tools :: "fsys \<Rightarrow> tool list" where
  "write_tools filesystem = [NewWriteFileTool filesystem, NewCreateDirectoryTool filesystem,
     NewDeletePathTool filesystem, NewCopyPathTool filesystem, NewMovePathTool filesystem]"

text \<open>The names are distinct, so registering appends.\<close>

lemma tool_name_eqs [simp]:
  "t_Name (NewListDirectoryTool f) = ''list_directory''" "t_Name (NewReadFileTool f m) = ''read_file''"
  "t_Name (NewGetPathInfoTool f) = ''get_path_info''" "t_Name (NewWriteFileTool f) = ''write_file''"
  "t_Name (NewCreateDirectoryTool f) = ''create_directory''" "t_Name (NewDeletePathTool f) = ''delete_path''"
  "t_Name (NewCopyPathTool f) = ''copy_path''" "t_Name (NewMovePathTool f) = ''move_path''"
  by (simp_all add: tool_defs tool_names)

lemma registry_tools:
  "ListTools (createToolRegistry f m c) =
     (if filesystemWrite c then read_tools f m @ write_tools f else read_tools f m)"
  by (simp add: createToolRegistry_def Let_def RegisterTool_def NewRegistry_def ListTools_def
      read_tools_def write_tools_def map_filter_simps)

lemma createToolRegistry_ok: "registry_ok (createToolRegistry f m c)"
  by (simp add: createToolRegistry_def Let_def RegisterTool_ok NewRegistry_ok)

lemma GetTool_cases:
  assumes "GetTool (createToolRegistry f m c) n = Some t"
  shows "t \<in> set (read_tools f m) \<or> filesystemWrite c \<and> t \<in> set (write_tools f)"
proof -
  have "t_Name t = n" using assms createToolRegistry_ok [of f m c] by (simp add: registry_ok_def GetTool_def)
  then have "t \<in> set (ListTools (createToolRegistry f m c))"
    using assms ListTools_mem [OF createToolRegistry_ok] by simp
  then show ?thesis by (auto simp: registry_tools split: if_splits)
qed

subsection \<open>Contracts\<close>

text \<open>What the handlers rely on: every registered tool keeps the invariant within the frame,
  returns an object, and has a definition that marshals.\<close>

locale safe_tools =
  fixes reg :: registry
    and inv :: "host \<Rightarrow> bool"
    and frame :: "host \<Rightarrow> host \<Rightarrow> bool"
  assumes frame_refl: "frame h h"
    and frame_trans: "frame h h1 \<Longrightarrow> frame h1 h2 \<Longrightarrow> frame h h2"
    and registry_good: "registry_ok reg"
    and execute_safe: "GetTool reg n = Some t \<Longrightarrow> inv h \<Longrightarrow> t_Execute t h raw = (h', res) \<Longrightarrow> inv h' \<and> frame h h'"
    and execute_ok: "GetTool reg n = Some t \<Longrightarrow> result_ok (snd (t_Execute t h raw))"
    and definition_ok: "GetTool reg n = Some t \<Longrightarrow> json_ok 8 (tool_json (t_Definition t))"
begin

lemma call_safe: "inv h \<Longrightarrow> CallHandler_Handle reg h p = (h', out) \<Longrightarrow> inv h' \<and> frame h h'"
  using execute_safe frame_refl
  by (fastforce simp: CallHandler_Handle_def split: sum.splits option.splits prod.splits)

text \<open>A call ends with an error of the tool or with its object, wrapped.\<close>

lemma call_outcome:
  assumes "CallHandler_Handle reg h p = (h', out)"
  shows "(\<exists>e. out = Failed e) \<or>
    (\<exists>ms X. text_of 3 (GObj ms) X \<and>
      out = Result (Some (CallResult \<lparr>ct_Content = [NewTextContent X], ct_StructuredContent = X, ct_IsError = False\<rparr>)))"
proof -
  consider e where "validateCallParams p = Inl e" | n a where "validateCallParams p = Inr (n, a)" "GetTool reg n = None"
    | n a t h1 e where "validateCallParams p = Inr (n, a)" "GetTool reg n = Some t" "t_Execute t h a = (h1, Inl e)"
    | n a t h1 v where "validateCallParams p = Inr (n, a)" "GetTool reg n = Some t" "t_Execute t h a = (h1, Inr v)"
    by (metis not_None_eq old.sum.exhaust surj_pair)
  then show ?thesis
  proof cases
    case 4
    have "result_ok (Inr v)" using execute_ok [OF 4(2), of h a] 4(3) by simp
    then obtain ms X where "text_of 3 (GObj ms) X" "wrapSuccessfulToolResult v =
        Inr \<lparr>ct_Content = [NewTextContent X], ct_StructuredContent = X, ct_IsError = False\<rparr>" by (rule wrap_ok)
    then show ?thesis using 4 assms by (auto simp: CallHandler_Handle_def)
  qed (use assms in \<open>auto simp: CallHandler_Handle_def\<close>)
qed

lemma list_ok: "json_ok 12 (go_map [(''tools'', GArr (map (\<lambda>t. tool_json (t_Definition t)) (ListTools reg)))])"
proof -
  have "json_ok 10 (tool_json (t_Definition t))" if "t \<in> set (ListTools reg)" for t
    using that ListTools_mem [OF registry_good] definition_ok json_ok_mono [of 8 _ 10] by auto
  then show ?thesis by (simp add: go_map_def)
qed

end

sublocale safe_tools \<subseteq> routed: safe_handlers "createRouter name version reg" inv frame for name version
proof
  fix h h1 h2 h' m hdl p out v
  show "frame h h" by (rule frame_refl)
  show "frame h h1 \<Longrightarrow> frame h1 h2 \<Longrightarrow> frame h h2" by (rule frame_trans)
  assume "createRouter name version reg m = Some hdl"
  then have hdl: "hdl = NewInitializeHandler name version \<or> hdl = NewListHandler reg \<or> hdl = NewCallHandler reg"
    by (auto simp: createRouter_def RegisterHandler_def NewRouter_def Let_def split: if_splits)
  show "inv h' \<and> frame h h'" if "inv h" "hd_Handle hdl h p = (h', out)"
    using hdl that frame_refl call_safe
    by (auto simp: NewInitializeHandler_def initialize_Handle_def NewListHandler_def ListHandler_Handle_def
        NewCallHandler_def split: option.splits if_splits)
  show "\<exists>x. v = Some x \<and> json_ok 12 (any_json x)" if r: "hd_Handle hdl h p = (h', Result v)"
  proof -
    have "json_ok 12 (initialize_response name version)" by (simp add: initialize_response_def implementation_json_def)
    moreover have "json_ok 12 (call_tool_result_json c)" if "text_of 3 (GObj ms) X"
      "c = \<lparr>ct_Content = [NewTextContent X], ct_StructuredContent = X, ct_IsError = False\<rparr>" for c ms X
      using json_ok_mono [OF call_result_ok [OF that(1)], of 12] that(2) by (simp add: max_depth_def)
    ultimately show ?thesis using hdl r list_ok call_outcome [of h p h' out]
      by (auto simp: NewInitializeHandler_def initialize_Handle_def NewListHandler_def ListHandler_Handle_def
          NewCallHandler_def split: option.splits if_splits dest!: call_outcome)
  qed
qed

lemma read_tools_ok:
  assumes "t \<in> set (read_tools f m)"
  shows "fst (t_Execute t h raw) = h" "result_ok (snd (t_Execute t h raw))" "json_ok 8 (tool_json (t_Definition t))"
proof -
  show "fst (t_Execute t h raw) = h" "result_ok (snd (t_Execute t h raw))"
    using assms execute_reads execute_result by (auto simp: read_tools_def tool_defs)
  show "json_ok 8 (tool_json (t_Definition t))"
    using assms definitions_ok by (auto simp: read_tools_def tool_defs)
qed

lemma write_tools_ok:
  assumes "t \<in> set (write_tools f)"
  shows "result_ok (snd (t_Execute t h raw))" "json_ok 8 (tool_json (t_Definition t))"
proof -
  show "result_ok (snd (t_Execute t h raw))"
    using assms execute_result by (auto simp: write_tools_def tool_defs)
  show "json_ok 8 (tool_json (t_Definition t))"
    using assms definitions_ok by (auto simp: write_tools_def tool_defs)
qed

text \<open>The tools over any sandboxed file system.\<close>

sublocale sandboxed \<subseteq> toolbox: safe_tools "createToolRegistry fsys m c" inv frame for m c
proof
  fix h h1 h2 h' n t raw res
  show "frame h h" by (rule frame_refl)
  show "frame h h1 \<Longrightarrow> frame h1 h2 \<Longrightarrow> frame h h2" by (rule frame_trans)
  show "registry_ok (createToolRegistry fsys m c)" by (rule createToolRegistry_ok)
  assume "GetTool (createToolRegistry fsys m c) n = Some t"
  then have t: "t \<in> set (read_tools fsys m) \<or> t \<in> set (write_tools fsys)" using GetTool_cases by blast
  show "result_ok (snd (t_Execute t h raw))" "json_ok 8 (tool_json (t_Definition t))"
    using t read_tools_ok write_tools_ok by blast+
  show "inv h' \<and> frame h h'" if "inv h" "t_Execute t h raw = (h', res)"
  proof (cases "t \<in> set (read_tools fsys m)")
    case True
    then show ?thesis using read_tools_ok(1) [OF True, of h raw] that frame_refl by simp
  next
    case False
    then have "t \<in> set (write_tools fsys)" using t by blast
    then show ?thesis using that by (auto simp: write_tools_def tool_defs dest: execute_write_safe)
  qed
qed

text \<open>With read-only capabilities the frame is equality, whatever the file system.\<close>

interpretation readonly: safe_tools "createToolRegistry f m (capabilitiesFromReadOnly True)" "\<lambda>_. True" "(=)" for f m
proof
  fix h h' n t raw res
  show "registry_ok (createToolRegistry f m (capabilitiesFromReadOnly True))" by (rule createToolRegistry_ok)
  assume "GetTool (createToolRegistry f m (capabilitiesFromReadOnly True)) n = Some t"
  then have t: "t \<in> set (read_tools f m)" using GetTool_cases by (force simp: capabilitiesFromReadOnly_def)
  show "result_ok (snd (t_Execute t h raw))" "json_ok 8 (tool_json (t_Definition t))"
    using read_tools_ok [OF t] by blast+
  show "True \<and> h = h'" if "True" "t_Execute t h raw = (h', res)"
    using read_tools_ok(1) [OF t, of h raw] that by simp
qed auto

text \<open>The local file system: its tools and the router over them.\<close>

interpretation ltools: safe_tools "createToolRegistry (local_fsys f) m c" "sand_inv f" "confined (fs_eroot f)" for f m c
  by unfold_locales

interpretation lrouter: safe_handlers "createRouter name version (createToolRegistry (local_fsys f) m c)"
    "sand_inv f" "confined (fs_eroot f)" for name version f m c
  by unfold_locales

interpretation rrouter: safe_handlers
    "createRouter name version (createToolRegistry f m (capabilitiesFromReadOnly True))" "\<lambda>_. True" "(=)"
    for name version f m
  by unfold_locales

end
