(* ===== verification/Session.thy ===== *)
theory Session
  imports Wiring
begin

text \<open>
  The server as a client sees it: a function from lines to lines. \<open>session\<close> says what each
  line is answered with and what becomes of the host, without buffers, limits on the reader
  or a loop; \<open>Run\<close> refines it.
\<close>

subsection \<open>The specification\<close>

definition outcome_response :: "string \<Rightarrow> outcome \<Rightarrow> response" where
  "outcome_response rid out =
     (case out of
        Panicked \<Rightarrow> error_response rid ErrInternalError ''internal error''
      | Failed e \<Rightarrow> error_response rid (er_Code e) (er_Message e)
      | Result v \<Rightarrow> \<lparr>rs_JSONRPC = JSONRPCVersion, rs_ID = rid, rs_Result = v, rs_Error = None\<rparr>)"

definition reply :: "router \<Rightarrow> int \<Rightarrow> int \<Rightarrow> host \<Rightarrow> string \<Rightarrow> host \<times> string option" where
  "reply r maxArg maxWrite h msg =
     (case validateRequestMessageWithLimits msg maxArg of
        Inl err \<Rightarrow> (h, Some (reply_text (error_response (ve_id err) (ve_code err) (ve_message err))))
      | Inr req \<Rightarrow>
          if vr_notification req then (h, None)
          else case Dispatch r (vr_method req) h (vr_params req) of
            (h', out) \<Rightarrow>
              let X = reply_text (outcome_response (vr_id req) out)
              in (h', Some (if maxWrite > 0 \<and> int (length X + 1) > maxWrite
                            then reply_text (error_response (vr_id req) ErrInternalError ''internal error'')
                            else X)))"

definition line_reply :: "router \<Rightarrow> int \<Rightarrow> int \<Rightarrow> int \<Rightarrow> host \<Rightarrow> string \<Rightarrow> host \<times> string option" where
  "line_reply r maxRead maxArg maxWrite h l =
     (if maxRead > 0 \<and> int (length l + 1) > maxRead
      then (h, Some (reply_text (error_response nullID ErrInvalidRequest ''invalid request'')))
      else reply r maxArg maxWrite h (l @ [newline]))"

fun session :: "(host \<Rightarrow> 'a \<Rightarrow> host \<times> string option) \<Rightarrow> host \<Rightarrow> 'a list \<Rightarrow> host \<times> string list" where
  "session f h [] = (h, [])"
| "session f h (l # ls) =
     (case f h l of (h1, a) \<Rightarrow>
       (case session f h1 ls of (h2, as) \<Rightarrow> (h2, (case a of None \<Rightarrow> as | Some X \<Rightarrow> X # as))))"

definition as_lines :: "string list \<Rightarrow> string" where
  "as_lines ls = concat (map (\<lambda>l. l @ [newline]) ls)"

lemma as_lines_simps [simp]: "as_lines [] = []" "as_lines (l # ls) = l @ newline # as_lines ls"
  by (simp_all add: as_lines_def)

text \<open>The lines of a text that all end with a line feed.\<close>

fun whole_lines :: "string \<Rightarrow> string \<Rightarrow> string list" where
  "whole_lines acc [] = []"
| "whole_lines acc (c # s) = (if c = newline then acc # whole_lines [] s else whole_lines (acc @ [c]) s)"

lemma whole_lines_append: "newline \<notin> set l \<Longrightarrow> whole_lines acc (l @ newline # s) = (acc @ l) # whole_lines [] s"
  by (induction l arbitrary: acc) auto

lemma whole_lines_as_lines: "\<forall>l \<in> set ls. newline \<notin> set l \<Longrightarrow> whole_lines [] (as_lines ls) = ls"
  by (induction ls) (auto simp: whole_lines_append)

subsection \<open>One step\<close>

text \<open>A writer that takes everything.\<close>

lemma writeError_free:
  assumes "good_id rid" "tp_room (sv_transport sv) = None"
  shows "writeError sv rid c m =
    (sv\<lparr>sv_transport := (sv_transport sv)\<lparr>tp_out := tp_out (sv_transport sv) @ reply_text (error_response rid c m) @ [newline]\<rparr>\<rparr>, None)"
  by (simp add: writeError_text [OF assms(1)] emit_unbounded [OF assms(2)])

lemma writeResponse_free:
  assumes "response_ok rs" "good_id rid" "tp_room (sv_transport sv) = None"
    and mw: "mw = tp_maxWriteBytes (sv_transport sv)"
  obtains sv' where "writeResponse sv rid rs = (sv', None)"
    "sv_transport sv' = (sv_transport sv)\<lparr>tp_out := tp_out (sv_transport sv) @
      (if mw > 0 \<and> int (length (reply_text rs) + 1) > mw
       then reply_text (error_response rid ErrInternalError ''internal error'') else reply_text rs) @ [newline]\<rparr>"
    "same_config sv sv'"
proof -
  note m = response_text(2) [OF assms(1)]
  let ?big = "mw > 0 \<and> int (length (reply_text rs) + 1) > mw"
  have "\<exists>sv'. writeResponse sv rid rs = (sv', None) \<and>
    sv_transport sv' = (sv_transport sv)\<lparr>tp_out := tp_out (sv_transport sv) @
      (if ?big then reply_text (error_response rid ErrInternalError ''internal error'') else reply_text rs) @ [newline]\<rparr>"
  proof (cases ?big)
    case True
    then have "WriteMessage (sv_transport sv) (response_json rs) = (sv_transport sv, Some ErrResponseTooLarge)"
      by (simp add: WriteMessage_def writeMessage_def m mw del: One_nat_def)
    then show ?thesis using True assms(2,3) by (simp add: writeResponse_def writeError_free)
  next
    case False
    then have "WriteMessage (sv_transport sv) (response_json rs) =
        ((sv_transport sv)\<lparr>tp_out := tp_out (sv_transport sv) @ reply_text rs @ [newline]\<rparr>, None)"
      using emit_unbounded [OF assms(3)] by (auto simp: WriteMessage_def writeMessage_def m mw)
    then show ?thesis using False by (auto simp: writeResponse_def)
  qed
  then show thesis using that writeResponse_config by blast
qed

context safe_handlers
begin

lemma answer_reply:
  assumes "sv_router sv = r" "tp_room (sv_transport sv) = None"
    and "reply r (sv_maxArgumentBytes sv) (tp_maxWriteBytes (sv_transport sv)) h msg = (h', a)"
  obtains sv' where "answer sv h msg = ((sv', Continue), h')"
    "sv_transport sv' = (sv_transport sv)\<lparr>tp_out := tp_out (sv_transport sv) @
       (case a of None \<Rightarrow> [] | Some X \<Rightarrow> X @ [newline])\<rparr>"
    "same_config sv sv'"
proof (cases "validateRequestMessageWithLimits msg (sv_maxArgumentBytes sv)")
  case (Inl err)
  let ?sv = "logDebug sv (''jsonrpc validation error code='' @ itoa (ve_code err))"
  have w: "writeError ?sv (ve_id err) (ve_code err) (ve_message err) =
      (?sv\<lparr>sv_transport := (sv_transport sv)\<lparr>tp_out := tp_out (sv_transport sv) @
        reply_text (error_response (ve_id err) (ve_code err) (ve_message err)) @ [newline]\<rparr>\<rparr>, None)"
    using writeError_free [OF validate_error_id [OF Inl], of ?sv] assms(2) by simp
  have "h' = h" "a = Some (reply_text (error_response (ve_id err) (ve_code err) (ve_message err)))"
    using assms(3) Inl by (simp_all add: reply_def)
  then show thesis using that w Inl
    by (simp add: answer_def go_on_def same_config_def)
next
  case (Inr req)
  show thesis
  proof (cases "vr_notification req")
    case True
    then show thesis using that Inr assms(3) by (simp add: answer_def reply_def same_config_log)
  next
    case False
    obtain h1 out where d: "Dispatch r (vr_method req) h (vr_params req) = (h1, out)" by fastforce
    obtain sv1 rs where hr: "handleRequest sv h req = (sv1, h1, rs)" "rs = outcome_response (vr_id req) out"
      using d assms(1) by (cases out) (auto simp: handleRequest_def outcome_response_def)
    have gid: "good_id (vr_id req)" by (rule validate_request_id [OF Inr False])
    have rok: "response_ok rs" by (rule handleRequest_ok(1) [OF assms(1) hr(1) gid])
    have tr: "sv_transport sv1 = sv_transport sv" by (rule handleRequest_transport [OF hr(1)])
    obtain sv2 where w: "writeResponse sv1 (vr_id req) rs = (sv2, None)"
      "sv_transport sv2 = (sv_transport sv1)\<lparr>tp_out := tp_out (sv_transport sv1) @
        (if tp_maxWriteBytes (sv_transport sv) > 0 \<and> int (length (reply_text rs) + 1) > tp_maxWriteBytes (sv_transport sv)
         then reply_text (error_response (vr_id req) ErrInternalError ''internal error'') else reply_text rs) @ [newline]\<rparr>"
      "same_config sv1 sv2"
      using writeResponse_free [OF rok gid, of sv1] tr assms(2) by metis
    show thesis
      using that [of sv2] Inr False hr w tr assms(3) d same_config_trans [OF handleRequest_config [OF hr(1)] w(3)]
      by (auto simp: answer_def reply_def Let_def go_on_def)
  qed
qed

text \<open>One line, at any distance from the limit but one.\<close>

lemma serve_step_line:
  assumes "sv_router sv = r" "tp_room (sv_transport sv) = None"
    "tp_in (sv_transport sv) = l @ newline # rest" "newline \<notin> set l"
    "tp_maxReadBytes (sv_transport sv) = mr" "mr \<le> 0 \<or> int (length l) \<noteq> mr"
    "line_reply r mr (sv_maxArgumentBytes sv) (tp_maxWriteBytes (sv_transport sv)) h l = (h', a)"
  obtains sv' where "serve_step sv h = ((sv', Continue), h')"
    "tp_in (sv_transport sv') = rest" "tp_room (sv_transport sv') = None"
    "tp_out (sv_transport sv') = tp_out (sv_transport sv) @ (case a of None \<Rightarrow> [] | Some X \<Rightarrow> X @ [newline])"
    "same_config sv sv'"
proof (cases "mr > 0 \<and> int (length l + 1) > mr")
  case True
  then have "ReadMessage (sv_transport sv) = ((sv_transport sv)\<lparr>tp_in := rest\<rparr>, Inl ErrMessageTooLarge)"
    using assms(3-6) by (simp add: ReadMessage_def read_loop_long)
  moreover have "h' = h" "a = Some (reply_text (error_response nullID ErrInvalidRequest ''invalid request''))"
    using assms(7) True by (simp_all add: line_reply_def)
  ultimately show thesis using that assms(2)
    by (simp add: serve_step_def Let_def writeError_free go_on_def same_config_def)
next
  case False
  let ?sv = "sv\<lparr>sv_transport := (sv_transport sv)\<lparr>tp_in := rest\<rparr>\<rparr>"
  have rd: "ReadMessage (sv_transport sv) = ((sv_transport sv)\<lparr>tp_in := rest\<rparr>, Inr (l @ [newline]))"
    using False assms(3-5) by (auto simp: ReadMessage_def read_loop_short)
  have "reply r (sv_maxArgumentBytes ?sv) (tp_maxWriteBytes (sv_transport ?sv)) h (l @ [newline]) = (h', a)"
    using assms(7) False by (auto simp: line_reply_def)
  then obtain sv' where "answer ?sv h (l @ [newline]) = ((sv', Continue), h')"
    "sv_transport sv' = (sv_transport ?sv)\<lparr>tp_out := tp_out (sv_transport ?sv) @
       (case a of None \<Rightarrow> [] | Some X \<Rightarrow> X @ [newline])\<rparr>" "same_config ?sv sv'"
    using answer_reply [of ?sv h "l @ [newline]" h' a] assms(1,2) by auto
  then show thesis using that [of sv'] rd assms(2) by (simp add: serve_step_def same_config_def)
qed

text \<open>What is left after the last line feed is dropped when the input ends.\<close>

lemma serve_step_rest:
  assumes "tp_in (sv_transport sv) = l" "newline \<notin> set l" "tp_end (sv_transport sv) = AtEOF"
    "tp_maxReadBytes (sv_transport sv) = mr" "mr \<le> 0 \<or> int (length l) \<le> mr"
  shows "serve_step sv h = ((sv\<lparr>sv_transport := (sv_transport sv)\<lparr>tp_in := []\<rparr>\<rparr>, Return None), h)"
proof -
  have "read_loop mr EOF line l = (Inl EOF, [])" if "mr \<le> 0 \<or> int (length line + length l) \<le> mr" for line
    using that assms(2) by (induction l arbitrary: line) auto
  then show ?thesis using assms by (simp add: serve_step_def ReadMessage_def read_error_def)
qed

lemma Run_loop_session:
  assumes "sv_router sv = r" "tp_room (sv_transport sv) = None" "tp_end (sv_transport sv) = AtEOF"
    "tp_in (sv_transport sv) = as_lines ls @ rest" "newline \<notin> set rest" "\<forall>l \<in> set ls. newline \<notin> set l"
    "tp_maxReadBytes (sv_transport sv) = mr" "mr \<le> 0 \<or> (\<forall>l \<in> set ls. int (length l) \<noteq> mr) \<and> int (length rest) \<le> mr"
    "sv_maxArgumentBytes sv = ma" "tp_maxWriteBytes (sv_transport sv) = mw"
  shows "\<exists>sv'. Run_loop (\<lambda>_. False) n sv h = (sv', fst (session (line_reply r mr ma mw) h ls), None) \<and>
    tp_out (sv_transport sv') = tp_out (sv_transport sv) @ as_lines (snd (session (line_reply r mr ma mw) h ls)) \<and>
    tp_in (sv_transport sv') = []"
  using assms
proof (induction ls arbitrary: sv h n)
  case Nil
  have "serve_step sv h = ((sv\<lparr>sv_transport := (sv_transport sv)\<lparr>tp_in := []\<rparr>\<rparr>, Return None), h)"
    by (rule serve_step_rest [where l = rest and mr = mr]) (use Nil in auto)
  then show ?case by (simp add: Run_loop.simps [of _ n])
next
  case (Cons l ls)
  obtain h1 a where a: "line_reply r mr ma mw h l = (h1, a)" by fastforce
  have p: "tp_in (sv_transport sv) = l @ newline # (as_lines ls @ rest)" "newline \<notin> set l" "mr \<le> 0 \<or> int (length l) \<noteq> mr"
    "line_reply r mr (sv_maxArgumentBytes sv) (tp_maxWriteBytes (sv_transport sv)) h l = (h1, a)"
    using Cons.prems(4,6,8-10) a by auto
  obtain sv1 where st: "serve_step sv h = ((sv1, Continue), h1)" "tp_in (sv_transport sv1) = as_lines ls @ rest"
    "tp_room (sv_transport sv1) = None"
    "tp_out (sv_transport sv1) = tp_out (sv_transport sv) @ (case a of None \<Rightarrow> [] | Some X \<Rightarrow> X @ [newline])"
    "same_config sv sv1"
    by (rule serve_step_line [OF Cons.prems(1,2) p(1,2) Cons.prems(7) p(3,4)])
  have "\<exists>sv'. Run_loop (\<lambda>_. False) (Suc n) sv1 h1 = (sv', fst (session (line_reply r mr ma mw) h1 ls), None) \<and>
    tp_out (sv_transport sv') = tp_out (sv_transport sv1) @ as_lines (snd (session (line_reply r mr ma mw) h1 ls)) \<and>
    tp_in (sv_transport sv') = []"
    by (rule Cons.IH) (use Cons.prems st in \<open>auto simp: same_config_def\<close>)
  then show ?case using st(1,4) a
    by (auto simp: Run_loop.simps [of _ n sv] split: prod.split option.split)
qed

end

end
