(* ===== verification/Rounds.thy ===== *)
theory Rounds
  imports Session
begin

text \<open>
  The request loop as a step relation: rounds that go on, how many there can be, how the
  loop can end, and what it has written by then.
\<close>

subsection \<open>Rounds\<close>

inductive goes_on :: "server \<times> host \<Rightarrow> server \<times> host \<Rightarrow> bool" where
  "serve_step sv h = ((sv', Continue), h') \<Longrightarrow> goes_on (sv, h) (sv', h')"

inductive rounds :: "nat \<Rightarrow> server \<times> host \<Rightarrow> server \<times> host \<Rightarrow> bool" where
  none: "rounds 0 s s"
| more: "goes_on s s1 \<Longrightarrow> rounds n s1 s2 \<Longrightarrow> rounds (Suc n) s s2"

inductive_simps goes_on_iff: "goes_on (sv, h) (sv', h')"
inductive_cases goes_onE: "goes_on s s'"

lemma rounds_bound:
  "rounds n s s' \<Longrightarrow> n + length (tp_in (sv_transport (fst s'))) \<le> length (tp_in (sv_transport (fst s)))"
  by (induction rule: rounds.induct) (fastforce elim: goes_onE dest: serve_step_consumes)+

text \<open>How a run ends: the context is done before a round, or a round returns.\<close>

definition ends :: "(nat \<Rightarrow> bool) \<Rightarrow> nat \<Rightarrow> server \<times> host \<Rightarrow> server \<times> host \<times> run_error option \<Rightarrow> bool" where
  "ends cancelled n s out =
     (case (s, out) of ((sv, h), (sv', h', e)) \<Rightarrow>
        if cancelled n then sv' = sv \<and> h' = h \<and> e = Some ContextDone
        else serve_step sv h = ((sv', Return e), h'))"

lemma Run_loop_rounds:
  "\<exists>n s. rounds n (sv, h) s \<and> (\<forall>j<n. \<not> cancelled (k + j)) \<and> ends cancelled (k + n) s (Run_loop cancelled k sv h)"
proof (induction cancelled k sv h rule: Run_loop.induct)
  case (1 cancelled k sv h)
  obtain sv1 r h1 where st: "serve_step sv h = ((sv1, r), h1)" by (metis surj_pair)
  show ?case
  proof (cases "cancelled k \<or> r \<noteq> Continue")
    case True
    then have "ends cancelled k (sv, h) (Run_loop cancelled k sv h)"
      using st by (cases r) (auto simp: ends_def Run_loop.simps [of cancelled k])
    then show ?thesis using none by (intro exI [of _ 0] exI [of _ "(sv, h)"]) simp
  next
    case False
    then obtain n s where n: "rounds n (sv1, h1) s" "\<forall>j<n. \<not> cancelled (Suc k + j)"
      "ends cancelled (Suc k + n) s (Run_loop cancelled (Suc k) sv1 h1)"
      using 1 [OF _ st [symmetric] refl] by auto
    have "rounds (Suc n) (sv, h) s" using False st n(1) by (auto intro: more goes_on.intros)
    moreover have "\<not> cancelled (k + j)" if "j < Suc n" for j
      using False n(2) that by (cases j) auto
    ultimately show ?thesis using n(3) False st
      by (intro exI [of _ "Suc n"] exI [of _ s]) (simp add: Run_loop.simps [of cancelled k])
  qed
qed

subsection \<open>What a reply is\<close>

text \<open>One line of JSON: an object with the version, an id, and a result or an error.\<close>

definition jsonrpc_reply :: "string \<Rightarrow> bool" where
  "jsonrpc_reply X \<longleftrightarrow> newline \<notin> set X \<and> json_valid X \<and>
     (\<exists>rid key v. unmarshal_members X = Some [(''jsonrpc'', quote_string ''2.0''), (''id'', rid), (key, v)] \<and>
        (key = ''result'' \<or> key = ''error''))"

lemma response_reply:
  assumes "response_ok rs" "rs_JSONRPC rs = ''2.0''" "rs_Result rs = None \<longleftrightarrow> rs_Error rs \<noteq> None"
  shows "jsonrpc_reply (reply_text rs)"
proof -
  obtain ms where ms: "response_json rs = GObj ms" by (simp add: response_json_def)
  have "unmarshal_members (reply_text rs) = Some (map parsed ms)"
    using unmarshal_marshal_object [OF _ response_depth_le, of ms] assms(1) response_text(2) [OF assms(1)]
    by (simp add: response_ok_def ms del: marshal.simps)
  moreover have "\<exists>rid key v. map parsed ms = [(''jsonrpc'', quote_string ''2.0''), (''id'', rid), (key, v)] \<and>
      (key = ''result'' \<or> key = ''error'')"
    using assms(2,3) ms by (auto simp: response_json_def parsed_def utf8_clean_plain split: option.splits)
  ultimately show ?thesis using response_text(3,4) [OF assms(1)] by (auto simp: jsonrpc_reply_def)
qed

lemma error_reply: "good_id rid \<Longrightarrow> jsonrpc_reply (reply_text (error_response rid c m))"
  by (rule response_reply [OF error_response_ok]) (simp_all add: error_response_def JSONRPCVersion_def)

text \<open>The errors a run can return.\<close>

definition run_end :: "transport \<Rightarrow> run_error option \<Rightarrow> bool" where
  "run_end t e \<longleftrightarrow> e = None \<and> tp_end t = AtEOF \<or> e = Some (TransportError ReadFailed) \<and> tp_end t = ReadFails \<or>
     e = Some (TransportError WriteFailed) \<and> tp_room t \<noteq> None"

text \<open>With a writer that takes everything, whole replies are appended.\<close>

definition appends :: "server \<Rightarrow> server \<Rightarrow> bool" where
  "appends sv sv' \<longleftrightarrow> tp_room (sv_transport sv') = None \<and>
     (\<exists>xs. tp_out (sv_transport sv') = tp_out (sv_transport sv) @ as_lines xs \<and> list_all jsonrpc_reply xs)"

lemma appends_trans: "appends a b \<Longrightarrow> appends b c \<Longrightarrow> appends a c"
proof -
  assume "appends a b" "appends b c"
  then obtain xs ys where "tp_room (sv_transport c) = None" "list_all jsonrpc_reply (xs @ ys)"
    "tp_out (sv_transport c) = tp_out (sv_transport a) @ as_lines xs @ as_lines ys"
    by (auto simp: appends_def)
  moreover have "as_lines xs @ as_lines ys = as_lines (xs @ ys)" by (simp add: as_lines_def)
  ultimately show ?thesis unfolding appends_def by metis
qed

context safe_handlers
begin

lemma outcome_reply:
  assumes "Dispatch r m h p = (h', out)" "good_id rid"
  shows "response_ok (outcome_response rid out)" "jsonrpc_reply (reply_text (outcome_response rid out))"
proof -
  have v: "\<exists>x. v = Some x \<and> json_ok 12 (any_json x)" if "out = Result v" for v
    using assms that handle_ok by (auto simp: Dispatch_def split: option.splits)
  show ok: "response_ok (outcome_response rid out)"
    using v assms(2) by (cases out) (auto simp: outcome_response_def intro!: result_response_ok)
  show "jsonrpc_reply (reply_text (outcome_response rid out))"
    by (rule response_reply [OF ok]) (use v in \<open>auto simp: outcome_response_def error_response_def JSONRPCVersion_def split: outcome.splits\<close>)
qed

lemma reply_shape:
  assumes "reply r ma mw h msg = (h', Some X)"
  shows "jsonrpc_reply X"
proof (cases "validateRequestMessageWithLimits msg ma")
  case (Inl err)
  then show ?thesis using assms error_reply [OF validate_error_id [OF Inl]] by (auto simp: reply_def)
next
  case (Inr req)
  then have n: "\<not> vr_notification req" using assms by (auto simp: reply_def)
  note id = validate_request_id [OF Inr n]
  show ?thesis using assms Inr n outcome_reply(2) [OF _ id] error_reply [OF id]
    by (auto simp: reply_def Let_def split: prod.splits if_splits)
qed

lemma line_reply_shape: "line_reply r mr ma mw h l = (h', Some X) \<Longrightarrow> jsonrpc_reply X"
  by (auto simp: line_reply_def reply_shape error_reply split: if_splits)

text \<open>The loop can only end in these ways; whatever is written before, it marshals.\<close>

lemma emit_error: "emit t b = (t', e) \<Longrightarrow> e = None \<or> e = Some WriteFailed \<and> tp_room t \<noteq> None"
  by (auto simp: emit_def split: option.splits if_splits)

lemma writeError_error:
  assumes "writeError sv rid c m = (sv', e)" "good_id rid"
  shows "e = None \<or> e = Some WriteFailed \<and> tp_room (sv_transport sv) \<noteq> None"
  using assms writeError_text [OF assms(2), of sv c m] emit_error by (fastforce split: prod.splits)

lemma writeResponse_error:
  assumes "writeResponse sv rid rs = (sv', e)" "good_id rid" "response_ok rs"
  shows "e = None \<or> e = Some WriteFailed \<and> tp_room (sv_transport sv) \<noteq> None"
proof (cases "WriteMessage (sv_transport sv) (response_json rs) = (sv_transport sv, Some ErrResponseTooLarge)")
  case True
  then show ?thesis using assms(1) writeError_error [OF _ assms(2)] by (fastforce simp: writeResponse_def)
next
  case False
  then have "WriteMessage (sv_transport sv) (response_json rs) = emit (sv_transport sv) (reply_text rs @ [newline])"
    using response_text(2) [OF assms(3)] by (auto simp: WriteMessage_def writeMessage_def split: if_splits)
  then show ?thesis using assms(1) emit_error [of "sv_transport sv" "reply_text rs @ [newline]"]
    by (fastforce simp: writeResponse_def split: prod.splits)
qed

lemma answer_end:
  assumes "sv_router sv = r" "answer sv h msg = ((sv', Return e), h')"
  shows "e = Some (TransportError WriteFailed) \<and> tp_room (sv_transport sv) \<noteq> None"
proof (cases "validateRequestMessageWithLimits msg (sv_maxArgumentBytes sv)")
  case (Inl err)
  then show ?thesis using assms(2) writeError_error [OF _ validate_error_id [OF Inl]]
    by (fastforce simp: answer_def go_on_def split: prod.splits option.splits)
next
  case (Inr req)
  show ?thesis
  proof (cases "vr_notification req")
    case True then show ?thesis using assms(2) Inr by (simp add: answer_def)
  next
    case False
    obtain sv1 h1 rs where hr: "handleRequest sv h req = (sv1, h1, rs)" by (metis surj_pair)
    note id = validate_request_id [OF Inr False]
    obtain sv2 e2 where w: "writeResponse sv1 (vr_id req) rs = (sv2, e2)" by fastforce
    show ?thesis using assms(2) Inr False hr w handleRequest_transport [OF hr]
        writeResponse_error [OF w id handleRequest_ok(1) [OF assms(1) hr id]]
      by (auto simp: answer_def go_on_def split: option.splits)
  qed
qed

lemma serve_step_end:
  assumes "sv_router sv = r" "serve_step sv h = ((sv', Return e), h')"
  shows "run_end (sv_transport sv) e"
proof -
  obtain t res where t: "ReadMessage (sv_transport sv) = (t, res)" by fastforce
  have room: "tp_room t = tp_room (sv_transport sv)" using ReadMessage_out [OF t] by simp
  have res: "err = ErrMessageTooLarge \<or> err = read_error (tp_end (sv_transport sv))" if "res = Inl err" for err
  proof -
    have "read_loop m fin line s = (Inl err, rest) \<Longrightarrow> err = ErrMessageTooLarge \<or> err = fin" for m fin line s rest
      by (induction s arbitrary: line) (auto split: if_splits)
    then show ?thesis using t that by (auto simp: ReadMessage_def split: prod.splits)
  qed
  show ?thesis
  proof (cases res)
    case (Inl err)
    then show ?thesis
      using assms(2) t res room writeError_error [OF _ nullID_good]
      by (fastforce simp: serve_step_def Let_def run_end_def read_error_def go_on_def
          split: if_splits prod.splits option.splits read_end.splits)
  next
    case (Inr msg)
    then show ?thesis using assms t room answer_end [of "sv\<lparr>sv_transport := t\<rparr>" h msg sv' e h']
      by (simp add: serve_step_def run_end_def)
  qed
qed

lemma serve_step_appends:
  assumes "sv_router sv = r" "tp_room (sv_transport sv) = None" "serve_step sv h = ((sv', s), h')"
  shows "appends sv sv'"
proof -
  obtain t res where t: "ReadMessage (sv_transport sv) = (t, res)" by fastforce
  have t': "tp_room t = None" "tp_out t = tp_out (sv_transport sv)" using ReadMessage_out [OF t] assms(2) by simp_all
  have one: "\<exists>xs. X @ [newline] = as_lines xs \<and> list_all jsonrpc_reply xs" if "jsonrpc_reply X" for X
    using that by (intro exI [of _ "[X]"]) simp
  have none: "\<exists>xs. as_lines xs = [] \<and> list_all jsonrpc_reply xs"
    by (rule exI [of _ "[]"]) simp
  show ?thesis
  proof (cases res)
    case (Inl err)
    let ?w = "logDebug (sv\<lparr>sv_transport := t\<rparr>) ''jsonrpc message limit exceeded''"
    have "writeError ?w nullID ErrInvalidRequest ''invalid request'' =
        (?w\<lparr>sv_transport := t\<lparr>tp_out := tp_out t @ reply_text (error_response nullID ErrInvalidRequest ''invalid request'') @ [newline]\<rparr>\<rparr>, None)"
      using writeError_free [OF nullID_good, of ?w] t' by simp
    then have "sv' = ?w\<lparr>sv_transport := t\<lparr>tp_out := tp_out t @ reply_text (error_response nullID ErrInvalidRequest ''invalid request'') @ [newline]\<rparr>\<rparr> \<or>
        sv' = sv\<lparr>sv_transport := t\<rparr>"
      using assms(3) t Inl by (auto simp: serve_step_def Let_def go_on_def split: if_splits)
    then show ?thesis using t' none one [OF error_reply [OF nullID_good, of ErrInvalidRequest "''invalid request''"]]
      by (elim disjE) (simp_all add: appends_def)
  next
    case (Inr msg)
    let ?sv = "sv\<lparr>sv_transport := t\<rparr>"
    obtain h1 a where a: "reply r (sv_maxArgumentBytes ?sv) (tp_maxWriteBytes (sv_transport ?sv)) h msg = (h1, a)" by fastforce
    obtain sv1 where w: "answer ?sv h msg = ((sv1, Continue), h1)"
      "sv_transport sv1 = (sv_transport ?sv)\<lparr>tp_out := tp_out (sv_transport ?sv) @ (case a of None \<Rightarrow> [] | Some X \<Rightarrow> X @ [newline])\<rparr>"
      using answer_reply [OF _ _ a] assms(1) t' by auto
    have "\<exists>xs. (case a of None \<Rightarrow> [] | Some X \<Rightarrow> X @ [newline]) = as_lines xs \<and> list_all jsonrpc_reply xs"
      using one reply_shape a by (cases a) (auto intro: exI [of _ "[]"])
    then show ?thesis using assms(3) t Inr w t' by (simp add: serve_step_def appends_def)
  qed
qed

lemma Run_loop_appends:
  "sv_router sv = r \<Longrightarrow> tp_room (sv_transport sv) = None \<Longrightarrow> Run_loop cancelled n sv h = (sv', h', e) \<Longrightarrow> appends sv sv'"
proof (induction cancelled n sv h arbitrary: sv' h' e rule: Run_loop.induct)
  case (1 cancelled n sv h)
  obtain sv1 s h1 where st: "serve_step sv h = ((sv1, s), h1)" by (metis surj_pair)
  have a: "appends sv sv1" by (rule serve_step_appends [OF 1(2,3) st])
  have same: "appends sv sv" using 1(3) by (auto simp: appends_def intro: exI [of _ "[]"])
  show ?case
  proof (cases "cancelled n \<or> s \<noteq> Continue")
    case True
    then show ?thesis using 1(4) st a same by (cases s) (auto simp: Run_loop.simps [of cancelled n] split: if_splits)
  next
    case False
    then have "Run_loop cancelled (Suc n) sv1 h1 = (sv', h', e)"
      using 1(4) st by (simp add: Run_loop.simps [of cancelled n])
    then have "appends sv1 sv'"
      using 1(1) [OF _ st [symmetric] refl] False a serve_step_config [OF st] 1(2)
      by (auto simp: appends_def same_config_def)
    then show ?thesis by (rule appends_trans [OF a])
  qed
qed

end

text \<open>A writer without a limit stays one, and one with a limit too.\<close>

lemma emit_room: "emit t b = (t', e) \<Longrightarrow> tp_room t' = None \<longleftrightarrow> tp_room t = None"
  by (auto simp: emit_def split: option.splits if_splits)

lemma writeMessage_room: "writeMessage t v b = (t', e) \<Longrightarrow> tp_room t' = None \<longleftrightarrow> tp_room t = None"
  by (auto simp: writeMessage_def dest: emit_room split: option.splits if_splits)

lemma writeError_room: "writeError sv rid c m = (sv', e) \<Longrightarrow> tp_room (sv_transport sv') = None \<longleftrightarrow> tp_room (sv_transport sv) = None"
  by (auto simp: writeError_def WriteMessageUnbounded_def dest: writeMessage_room split: prod.splits)

lemma writeResponse_room: "writeResponse sv rid rs = (sv', e) \<Longrightarrow> tp_room (sv_transport sv') = None \<longleftrightarrow> tp_room (sv_transport sv) = None"
  by (auto simp: writeResponse_def WriteMessage_def dest!: writeMessage_room writeError_room split: prod.splits if_splits)

lemma answer_room: "answer sv h msg = ((sv', s), h') \<Longrightarrow> tp_room (sv_transport sv') = None \<longleftrightarrow> tp_room (sv_transport sv) = None"
  by (auto simp: answer_def Let_def split: sum.splits if_splits prod.splits
      dest!: go_on_eq writeError_room writeResponse_room handleRequest_transport)

lemma serve_step_room:
  assumes "serve_step sv h = ((sv', s), h')"
  shows "tp_room (sv_transport sv') = None \<longleftrightarrow> tp_room (sv_transport sv) = None"
proof -
  obtain t res where t: "ReadMessage (sv_transport sv) = (t, res)" by fastforce
  show ?thesis using assms t ReadMessage_out [OF t]
    by (auto simp: serve_step_def Let_def split: sum.splits if_splits dest!: go_on_eq writeError_room answer_room)
qed

lemma rounds_config:
  "rounds n s s' \<Longrightarrow> same_config (fst s) (fst s') \<and>
     (tp_room (sv_transport (fst s')) = None \<longleftrightarrow> tp_room (sv_transport (fst s)) = None)"
proof (induction rule: rounds.induct)
  case (more s s1 n s2)
  from more(1) have "same_config (fst s) (fst s1) \<and>
      (tp_room (sv_transport (fst s1)) = None \<longleftrightarrow> tp_room (sv_transport (fst s)) = None)"
    by (cases rule: goes_on.cases) (simp add: serve_step_config serve_step_room)
  then show ?case using more.IH same_config_trans by metis
qed simp

lemma run_end_cong:
  "same_config sv sv' \<Longrightarrow> tp_room (sv_transport sv') = None \<longleftrightarrow> tp_room (sv_transport sv) = None \<Longrightarrow>
     run_end (sv_transport sv') e = run_end (sv_transport sv) e"
  by (simp add: run_end_def same_config_def)

context safe_handlers
begin

lemma Run_end:
  assumes "sv_router sv = r" "Run cancelled sv h = (sv', h', e)"
  shows "(\<exists>n \<le> length (tp_in (sv_transport sv)). cancelled n) \<and> e = Some ContextDone \<or> run_end (sv_transport sv) e"
proof -
  obtain n sv1 h1 where n: "rounds n (sv, h) (sv1, h1)" "ends cancelled n (sv1, h1) (sv', h', e)"
    using Run_loop_rounds [of sv h cancelled 0] assms(2) by (auto simp: Run_def)
  have c: "same_config sv sv1" "tp_room (sv_transport sv1) = None \<longleftrightarrow> tp_room (sv_transport sv) = None"
    using rounds_config [OF n(1)] by simp_all
  have b: "n \<le> length (tp_in (sv_transport sv))" using rounds_bound [OF n(1)] by simp
  show ?thesis
  proof (cases "cancelled n")
    case True
    then show ?thesis using n(2) b by (auto simp: ends_def)
  next
    case False
    then have "run_end (sv_transport sv1) e"
      using n(2) serve_step_end [of sv1 h1 sv' e h'] c(1) assms(1) by (auto simp: ends_def same_config_def)
    then show ?thesis using run_end_cong [OF c] by simp
  qed
qed

end

end
