(* ===== verification/Arrivals.thy ===== *)
theory Arrivals
  imports Rounds
begin

text \<open>
  The whole input of a server as the list of what its reader delivers, and the loop over
  it: every arrival is consumed, and answered unless it is a notification.
\<close>

subsection \<open>Arrivals\<close>

text \<open>What a reader delivers: the messages in its input, and the places of those that are too long.\<close>

datatype arrival = Message string | Oversized

lemma drop_line: "length (drop (Suc (length (takeWhile P s))) s) < length s \<or> s = []"
  by (cases s) simp_all

function arrivals :: "int \<Rightarrow> string \<Rightarrow> arrival list" where
  "arrivals m s =
     (let l = takeWhile (\<lambda>c. c \<noteq> newline) s; rest = drop (Suc (length l)) s in
      if newline \<notin> set s then (if m > 0 \<and> int (length s) > m then [Oversized] else [])
      else if m > 0 \<and> int (length l) = m
        then Oversized # arrivals m (drop (Suc (length (takeWhile (\<lambda>c. c \<noteq> newline) rest))) rest)
      else (if m > 0 \<and> int (length l) > m then Oversized else Message (l @ [newline])) # arrivals m rest)"
  by pat_completeness auto
termination
  by (relation "measure (\<lambda>(m, s). length s)") (auto simp: Let_def dest!: length_pos_if_in_set)

declare arrivals.simps [simp del]

lemma arrivals_line:
  assumes "newline \<notin> set l"
  shows "arrivals m (l @ newline # s) =
    (if m > 0 \<and> int (length l) = m then Oversized # arrivals m (discardLine s)
     else (if m > 0 \<and> int (length l) > m then Oversized else Message (l @ [newline])) # arrivals m s)"
proof -
  have t: "takeWhile (\<lambda>c. c \<noteq> newline) (l @ newline # s) = l" using assms by (induction l) auto
  have d: "drop (Suc (length (takeWhile (\<lambda>c. c \<noteq> newline) s))) s = discardLine s" for s
    by (induction s) auto
  show ?thesis by (subst arrivals.simps) (simp add: Let_def t d)
qed

lemma arrivals_open:
  "newline \<notin> set l \<Longrightarrow> arrivals m l = (if m > 0 \<and> int (length l) > m then [Oversized] else [])"
  by (subst arrivals.simps) simp

lemma read_loop_open:
  "newline \<notin> set l \<Longrightarrow> m \<le> 0 \<or> int (length line) \<le> m \<Longrightarrow> read_loop m fin line l =
     (if m > 0 \<and> int (length line + length l) > m then (Inl ErrMessageTooLarge, []) else (Inl fin, []))"
proof (induction l arbitrary: line)
  case (Cons c l)
  then show ?case by (auto simp: discardLine_open)
qed auto

text \<open>The reader delivers the arrivals one by one.\<close>

lemma ReadMessage_arrivals:
  assumes "tp_end t = AtEOF"
  obtains "ReadMessage t = (t\<lparr>tp_in := []\<rparr>, Inl EOF)" "arrivals (tp_maxReadBytes t) (tp_in t) = []"
  | rest where "ReadMessage t = (t\<lparr>tp_in := rest\<rparr>, Inl ErrMessageTooLarge)"
      "arrivals (tp_maxReadBytes t) (tp_in t) = Oversized # arrivals (tp_maxReadBytes t) rest" "length rest < length (tp_in t)"
  | msg rest where "ReadMessage t = (t\<lparr>tp_in := rest\<rparr>, Inr msg)"
      "arrivals (tp_maxReadBytes t) (tp_in t) = Message msg # arrivals (tp_maxReadBytes t) rest" "length rest < length (tp_in t)"
proof (cases "newline \<in> set (tp_in t)")
  case False
  let ?m = "tp_maxReadBytes t"
  have o: "arrivals ?m [] = []" by (simp add: arrivals_open)
  show thesis
  proof (cases "?m > 0 \<and> int (length (tp_in t)) > ?m")
    case True
    then have "tp_in t \<noteq> []" by auto
    then show thesis using that(2) [of "[]"] True False o read_loop_open [of "tp_in t" ?m "[]"]
      by (auto simp: ReadMessage_def arrivals_open)
  next
    case le: False
    then show thesis using that(1) False assms read_loop_open [of "tp_in t" ?m "[]"]
      by (auto simp: ReadMessage_def arrivals_open read_error_def)
  qed
next
  case True
  let ?m = "tp_maxReadBytes t"
  obtain l s where ls: "tp_in t = l @ newline # s" "newline \<notin> set l" using split_list_first [OF True] by blast
  have d: "length (discardLine s) \<le> length s" using suffix_length_le [OF suffix_discardLine] .
  consider "?m > 0" "int (length l) = ?m" | "?m > 0" "int (length l) > ?m" | "?m \<le> 0 \<or> int (length l) < ?m" by linarith
  then show thesis
  proof cases
    case 1
    then show thesis using that(2) [of "discardLine s"] ls d
      by (simp add: ReadMessage_def arrivals_line read_loop_exact)
  next
    case 2
    then show thesis using that(2) [of s] ls by (simp add: ReadMessage_def arrivals_line read_loop_long)
  next
    case 3
    then show thesis using that(3) [of s "l @ [newline]"] ls by (auto simp: ReadMessage_def arrivals_line read_loop_short)
  qed
qed

subsection \<open>Replies\<close>

definition arrival_reply :: "router \<Rightarrow> int \<Rightarrow> int \<Rightarrow> host \<Rightarrow> arrival \<Rightarrow> host \<times> string option" where
  "arrival_reply r ma mw h a =
     (case a of
        Oversized \<Rightarrow> (h, Some (reply_text (error_response nullID ErrInvalidRequest ''invalid request'')))
      | Message msg \<Rightarrow> reply r ma mw h msg)"

text \<open>The id an arrival is answered with; a notification gets no answer.\<close>

definition answer_id :: "int \<Rightarrow> arrival \<Rightarrow> string option" where
  "answer_id ma a =
     (case a of
        Oversized \<Rightarrow> Some nullID
      | Message msg \<Rightarrow>
          (case validateRequestMessageWithLimits msg ma of
             Inl err \<Rightarrow> Some (ve_id err)
           | Inr req \<Rightarrow> if vr_notification req then None else Some (vr_id req)))"

definition answers :: "string \<Rightarrow> string \<Rightarrow> bool" where
  "answers rid X \<longleftrightarrow> jsonrpc_reply X \<and>
     (\<exists>flds. unmarshal_fields X = Some flds \<and> flds ''id'' = compact True rid)"

lemma response_answers:
  assumes "response_ok rs" "rs_JSONRPC rs = ''2.0''" "rs_Result rs = None \<longleftrightarrow> rs_Error rs \<noteq> None" "good_id (rs_ID rs)"
  shows "answers (rs_ID rs) (reply_text rs)"
proof -
  obtain ms where ms: "response_json rs = GObj ms" by (simp add: response_json_def)
  have um: "unmarshal_members (reply_text rs) = Some (map parsed ms)"
    using unmarshal_marshal_object [OF _ response_depth_le, of ms] assms(1) response_text(2) [OF assms(1)]
    by (simp add: response_ok_def ms del: marshal.simps)
  have v: "json_valid (rs_ID rs)"
    using assms(4) by (auto simp: good_id_def valid_at_def intro: json_validI)
  have "map_of (rev (map parsed ms)) ''id'' = compact True (rs_ID rs)"
    using assms(3,4) ms v
    by (auto simp: response_json_def parsed_def utf8_clean_plain raw_json_def good_id_def compact_def split: option.splits)
  then show ?thesis using response_reply [OF assms(1-3)] um by (simp add: answers_def unmarshal_fields_def)
qed

lemma error_answers: "good_id rid \<Longrightarrow> answers rid (reply_text (error_response rid c m))"
  using response_answers [OF error_response_ok, of rid c m] by (simp add: error_response_def JSONRPCVersion_def)

context safe_handlers
begin

lemma arrival_answers:
  assumes "arrival_reply r ma mw h a = (h', X)"
  shows "rel_option answers (answer_id ma a) X"
proof (cases a)
  case Oversized
  then show ?thesis using assms error_answers [OF nullID_good] by (auto simp: arrival_reply_def answer_id_def)
next
  case (Message msg)
  show ?thesis
  proof (cases "validateRequestMessageWithLimits msg ma")
    case (Inl err)
    then show ?thesis using assms Message error_answers [OF validate_error_id [OF Inl]]
      by (auto simp: arrival_reply_def answer_id_def reply_def)
  next
    case (Inr req)
    show ?thesis
    proof (cases "vr_notification req")
      case True
      then show ?thesis using assms Message Inr by (simp add: arrival_reply_def answer_id_def reply_def)
    next
      case False
      note id = validate_request_id [OF Inr False]
      obtain h1 out where d: "Dispatch r (vr_method req) h (vr_params req) = (h1, out)" by fastforce
      have v: "\<exists>x. v = Some x \<and> json_ok 12 (any_json x)" if "out = Result v" for v
        using d that handle_ok by (auto simp: Dispatch_def split: option.splits)
      have "answers (rs_ID (outcome_response (vr_id req) out)) (reply_text (outcome_response (vr_id req) out))"
        by (rule response_answers [OF outcome_reply(1) [OF d id]])
          (use v id in \<open>auto simp: outcome_response_def error_response_def JSONRPCVersion_def split: outcome.splits\<close>)
      moreover have "rs_ID (outcome_response (vr_id req) out) = vr_id req"
        by (simp add: outcome_response_def error_response_def split: outcome.split)
      ultimately show ?thesis using assms Message Inr False d error_answers [OF id]
        by (auto simp: arrival_reply_def answer_id_def reply_def Let_def)
    qed
  qed
qed

lemma session_answers:
  "session (arrival_reply r ma mw) h as = (h', replies) \<Longrightarrow>
     list_all2 answers (List.map_filter (answer_id ma) as) replies"
proof (induction as arbitrary: h replies)
  case (Cons a as)
  obtain h1 X where a: "arrival_reply r ma mw h a = (h1, X)" by fastforce
  obtain h2 Xs where as: "session (arrival_reply r ma mw) h1 as = (h2, Xs)" by fastforce
  show ?case using arrival_answers [OF a] Cons.IH [OF _] Cons.prems a as
    by (cases "answer_id ma a"; cases X) (auto simp: List.map_filter_simps)
qed (simp add: List.map_filter_simps)

lemma Run_loop_arrivals:
  assumes "sv_router sv = r" "tp_room (sv_transport sv) = None" "tp_end (sv_transport sv) = AtEOF"
    "tp_maxReadBytes (sv_transport sv) = mr" "sv_maxArgumentBytes sv = ma" "tp_maxWriteBytes (sv_transport sv) = mw"
    "session (arrival_reply r ma mw) h (arrivals mr (tp_in (sv_transport sv))) = (h', replies)"
  shows "\<exists>sv'. Run_loop (\<lambda>_. False) n sv h = (sv', h', None) \<and>
    tp_out (sv_transport sv') = tp_out (sv_transport sv) @ as_lines replies \<and> tp_in (sv_transport sv') = []"
  using assms
proof (induction "length (tp_in (sv_transport sv))" arbitrary: sv h n replies rule: less_induct)
  case less
  note p = less.prems
  show ?case
    using p(3)
  proof (cases rule: ReadMessage_arrivals)
    case 1
    then have "serve_step sv h = ((sv\<lparr>sv_transport := (sv_transport sv)\<lparr>tp_in := []\<rparr>\<rparr>, Return None), h)"
      by (simp add: serve_step_def)
    then show ?thesis using 1 p(4,7) by (simp add: Run_loop.simps [of _ n])
  next
    case (2 rest)
    obtain Xs where ses: "session (arrival_reply r ma mw) h (arrivals mr rest) = (h', Xs)"
      "replies = reply_text (error_response nullID ErrInvalidRequest ''invalid request'') # Xs"
      using p(4,7) 2(2) by (auto simp: arrival_reply_def split: prod.splits)
    obtain sv1 where st: "serve_step sv h = ((sv1, Continue), h)"
      "sv_transport sv1 = (sv_transport sv)\<lparr>tp_in := rest, tp_out := tp_out (sv_transport sv) @
         reply_text (error_response nullID ErrInvalidRequest ''invalid request'') @ [newline]\<rparr>"
      "sv_router sv1 = r" "sv_maxArgumentBytes sv1 = ma"
      using 2(1) p(1,2,5) by (simp add: serve_step_def Let_def writeError_free go_on_def)
    have "\<exists>sv'. Run_loop (\<lambda>_. False) (Suc n) sv1 h = (sv', h', None) \<and>
        tp_out (sv_transport sv') = tp_out (sv_transport sv1) @ as_lines Xs \<and> tp_in (sv_transport sv') = []"
      by (rule less.hyps) (use 2(3) p ses st in simp_all)
    then show ?thesis using st(1,2) ses(2) by (simp add: Run_loop.simps [of _ n sv])
  next
    case (3 msg rest)
    let ?sv = "sv\<lparr>sv_transport := (sv_transport sv)\<lparr>tp_in := rest\<rparr>\<rparr>"
    obtain h1 a where a: "reply r ma mw h msg = (h1, a)" by fastforce
    obtain Xs where ses: "session (arrival_reply r ma mw) h1 (arrivals mr rest) = (h', Xs)"
      "replies = (case a of None \<Rightarrow> Xs | Some X \<Rightarrow> X # Xs)"
      using p(4,7) 3(2) a by (auto simp: arrival_reply_def split: prod.splits)
    obtain sv1 where w: "answer ?sv h msg = ((sv1, Continue), h1)"
      "sv_transport sv1 = (sv_transport ?sv)\<lparr>tp_out := tp_out (sv_transport ?sv) @
         (case a of None \<Rightarrow> [] | Some X \<Rightarrow> X @ [newline])\<rparr>" "same_config ?sv sv1"
      using answer_reply [of ?sv h msg h1 a] p a by auto
    have st: "serve_step sv h = ((sv1, Continue), h1)" using 3(1) w(1) by (simp add: serve_step_def)
    have "\<exists>sv'. Run_loop (\<lambda>_. False) (Suc n) sv1 h1 = (sv', h', None) \<and>
        tp_out (sv_transport sv') = tp_out (sv_transport sv1) @ as_lines Xs \<and> tp_in (sv_transport sv') = []"
      by (rule less.hyps) (use 3(3) p ses w in \<open>simp_all add: same_config_def\<close>)
    then show ?thesis using st w(2) ses(2) by (cases a) (simp_all add: Run_loop.simps [of _ n sv])
  qed
qed

end

end
