(* ===== verification/JsonCode.thy ===== *)
theory JsonCode
  imports Protocol
begin

text \<open>
  Equations that make the texts cheap to evaluate: tests on bytes by their bits, and the
  nesting limit as an integer. They change nothing about the definitions.
\<close>

definition control :: "char \<Rightarrow> bool" where "control c \<longleftrightarrow> byte c < 32"
definition ascii :: "char \<Rightarrow> bool" where "ascii c \<longleftrightarrow> byte c < 128"

lemma control_code [code]: "control (Char b0 b1 b2 b3 b4 b5 b6 b7) \<longleftrightarrow> \<not> b5 \<and> \<not> b6 \<and> \<not> b7"
  by (simp add: control_def of_char_def horner_sum_simps) 

lemma ascii_code [code]: "ascii (Char b0 b1 b2 b3 b4 b5 b6 b7) \<longleftrightarrow> \<not> b7"
  by (simp add: ascii_def of_char_def horner_sum_simps)

lemma is_digit_code [code]:
  "is_digit (Char b0 b1 b2 b3 b4 b5 b6 b7) \<longleftrightarrow> b4 \<and> b5 \<and> \<not> b6 \<and> \<not> b7 \<and> (\<not> b3 \<or> \<not> b1 \<and> \<not> b2)"
  by (cases b0; cases b1; cases b2; cases b3; cases b4; cases b5; cases b6; cases b7;
      simp add: is_digit_def of_char_def horner_sum_simps)

lemma scan_string_code [code]:
  "scan_string [] = None"
  "scan_string (c # s) =
     (if c = dquote then Some s
      else if c = bslash then
        (if s = [] then None
         else if simple_escape (hd s) then scan_string (tl s)
         else if hd s = CHR ''u'' \<and> 5 \<le> length s \<and> list_all is_hex (take 4 (tl s))
           then scan_string (drop 5 s)
         else None)
      else if control c then None
      else scan_string s)"
  by (simp_all add: scan_string.simps control_def)

lemma rune_len_code [code]:
  "rune_len s =
     (case s of [] \<Rightarrow> 0
      | a # s1 \<Rightarrow>
          if ascii a then 1
          else if s1 = [] then 0
          else if cont 0xC2 0xDF a then (if cont 0x80 0xBF (hd s1) then 2 else 0)
          else if length s1 < 2 then 0
          else if cont 0xE0 0xEF a then
            (if cont (if byte a = 0xE0 then 0xA0 else 0x80) (if byte a = 0xED then 0x9F else 0xBF) (hd s1)
                \<and> cont 0x80 0xBF (s1 ! 1) then 3 else 0)
          else if length s1 < 3 then 0
          else if cont 0xF0 0xF4 a then
            (if cont (if byte a = 0xF0 then 0x90 else 0x80) (if byte a = 0xF4 then 0x8F else 0xBF) (hd s1)
                \<and> cont 0x80 0xBF (s1 ! 1) \<and> cont 0x80 0xBF (s1 ! 2) then 4 else 0)
          else 0)"
  unfolding rune_len_def ascii_def by (rule refl)

lemma escape_byte_code [code]:
  "escape_byte c =
     (if c = bslash \<or> c = dquote then [bslash, c]
      else if c = CHR 0x08 then [bslash, CHR ''b''] else if c = CHR 0x0C then [bslash, CHR ''f'']
      else if c = CHR 0x0A then [bslash, CHR ''n''] else if c = CHR 0x0D then [bslash, CHR ''r'']
      else if c = CHR 0x09 then [bslash, CHR ''t'']
      else if control c \<or> c \<in> {CHR ''<'', CHR ''>'', CHR ''&''} then u00 c
      else [c])"
  by (simp add: escape_byte_def control_def)

lemma quote_body_code [code]:
  "quote_body [] = []"
  "quote_body (c # s) =
     (if ascii c then escape_byte c @ quote_body s
      else if rune_len (c # s) = 0 then [bslash, CHR ''u'', CHR ''f'', CHR ''f'', CHR ''f'', CHR ''d''] @ quote_body s
      else if line_sep (c # s) then u202 (s ! 1) @ quote_body (drop 2 s)
      else take (rune_len (c # s)) (c # s) @ quote_body (drop (rune_len (c # s)) (c # s)))"
  by (simp_all add: quote_body.simps ascii_def)

text \<open>The unquoting of a plain byte needs no rune.\<close>

lemma unquote_code [code]:
  "unquote [] = []"
  "unquote (c # s) =
     (if c = bslash then
        (if s = [] then []
         else if hd s = CHR ''u'' then
           (let r = hex4 (tl s) in
            if 0xD800 \<le> r \<and> r < 0xDC00 then
              (case low_surrogate (drop 5 s) of
                 Some r1 \<Rightarrow> encode_rune (0x10000 + (r - 0xD800) * 1024 + (r1 - 0xDC00)) @ unquote (drop 11 s)
               | None \<Rightarrow> replacement @ unquote (drop 5 s))
            else encode_rune r @ unquote (drop 5 s))
         else unescape (hd s) # unquote (tl s))
      else if ascii c then c # unquote s
      else if rune_len (c # s) = 0 then replacement @ unquote s
      else take (rune_len (c # s)) (c # s) @ unquote (drop (rune_len (c # s)) (c # s)))"
  by (simp_all add: unquote.simps ascii_def rune_len_ascii)

text \<open>The scanner with the nesting as an integer.\<close>

function (sequential) scan_val_int :: "nat \<Rightarrow> int \<Rightarrow> string \<Rightarrow> string option"
  and scan_members_int :: "nat \<Rightarrow> int \<Rightarrow> string \<Rightarrow> string option"
  and scan_elems_int :: "nat \<Rightarrow> int \<Rightarrow> string \<Rightarrow> string option" where
  "scan_val_int 0 d s = None"
| "scan_val_int (Suc n) d s =
     (case skip_ws s of [] \<Rightarrow> None
      | c # t \<Rightarrow>
          if c = lbrace then
            (if d \<le> 0 then None
             else if starts_with rbrace (skip_ws t) then Some (tl (skip_ws t))
             else scan_members_int n (d - 1) t)
          else if c = lbrack then
            (if d \<le> 0 then None
             else if starts_with rbrack (skip_ws t) then Some (tl (skip_ws t))
             else scan_elems_int n (d - 1) t)
          else scan_leaf c t)"
| "scan_members_int 0 d s = None"
| "scan_members_int (Suc n) d s =
     (case skip_ws s of [] \<Rightarrow> None
      | c # t \<Rightarrow>
          if c \<noteq> dquote then None
          else case scan_string t of None \<Rightarrow> None
            | Some r \<Rightarrow>
                if \<not> starts_with colon (skip_ws r) then None
                else case scan_val_int n d (tl (skip_ws r)) of None \<Rightarrow> None
                  | Some v \<Rightarrow>
                      (case skip_ws v of [] \<Rightarrow> None
                       | e # w \<Rightarrow>
                           if e = comma then scan_members_int n d w
                           else if e = rbrace then Some w else None))"
| "scan_elems_int 0 d s = None"
| "scan_elems_int (Suc n) d s =
     (case scan_val_int n d s of None \<Rightarrow> None
      | Some v \<Rightarrow>
          (case skip_ws v of [] \<Rightarrow> None
           | e # w \<Rightarrow>
               if e = comma then scan_elems_int n d w
               else if e = rbrack then Some w else None))"
  by pat_completeness auto
termination
  by (relation "measure (case_sum fst (case_sum fst fst))") auto

lemma scan_int:
  "scan_val n d s = scan_val_int n (int d) s" "scan_members n d s = scan_members_int n (int d) s"
  "scan_elems n d s = scan_elems_int n (int d) s"
proof (induction n d s and n d s and n d s rule: scan_val_scan_members_scan_elems.induct)
  case (2 n d s)
  show ?case
  proof (cases "skip_ws s")
    case (Cons c t)
    then show ?thesis using 2 [OF Cons] by (cases "d = 0") (auto simp: of_nat_diff)
  qed simp
next
  case (4 n d s)
  show ?case
  proof (cases "skip_ws s")
    case (Cons c t)
    then show ?thesis using 4 [OF Cons]
      by (cases "c = dquote"; cases "scan_string t") (auto split: option.split list.split)
  qed simp
next
  case (6 n d s)
  then show ?case by (auto split: option.split list.split)
qed simp_all

text \<open>The two callers.\<close>

lemma json_valid_code [code]:
  "json_valid s = (case scan_val_int (scan_fuel s) 10000 s of None \<Rightarrow> False | Some r \<Rightarrow> skip_ws r = [])"
  by (simp add: json_valid_def scan_int(1) max_depth_def)

lemma raw_members_code [code]:
  "raw_members 0 s = []"
  "raw_members (Suc n) s =
     (case skip_ws s of [] \<Rightarrow> []
      | c # t \<Rightarrow>
          if c \<noteq> dquote then []
          else case scan_string t of None \<Rightarrow> []
            | Some r \<Rightarrow>
                let key = unquote (butlast (upto_rest t r));
                    v = skip_ws (tl (skip_ws r))
                in case scan_val_int (scan_fuel v) 10000 v of None \<Rightarrow> []
                  | Some v' \<Rightarrow>
                      (key, upto_rest v v') #
                        (case skip_ws v' of [] \<Rightarrow> []
                         | e # w \<Rightarrow> if e = comma then raw_members n w else []))"
  unfolding raw_members.simps scan_int(1) max_depth_def of_nat_numeral by (rule refl)+

text \<open>Decimal digits by division on integers.\<close>

definition digits_int :: "int \<Rightarrow> string" where "digits_int i = digits_of (nat i)"

lemma digits_int_code [code]:
  "digits_int i = (if i < 10 then [char_of (48 + nat i)] else digits_int (i div 10) @ [char_of (48 + nat (i mod 10))])"
proof (cases "i < 10")
  case False
  then have "nat i div 10 = nat (i div 10)" "nat i mod 10 = nat (i mod 10)"
    by (simp_all add: nat_div_distrib nat_mod_distrib)
  then show ?thesis using False by (simp add: digits_int_def digits_of.simps [of "nat i"])
qed (simp add: digits_int_def digits_of.simps [of "nat i"])

lemma itoa_code [code]: "itoa i = (if i < 0 then CHR ''-'' # digits_int (- i) else digits_int i)"
  by (simp add: itoa_def digits_int_def)

text \<open>Reading decimals with integers: the bounds of a 64-bit number are no unary numbers.\<close>

definition decimal_int :: "string \<Rightarrow> int" where "decimal_int s = int (decimal s)"

lemma decimal_int_code [code]: "decimal_int s = foldl (\<lambda>n c. 10 * n + int (digit_val c)) 0 s"
  by (induction s rule: rev_induct) (simp_all add: decimal_int_def decimal_def)

lemma parse_int_code [code]:
  "parse_int bits s =
     (let neg = prefix ''-'' s; t = (if prefix ''-'' s \<or> prefix ''+'' s then tl s else s)
      in if t = [] \<or> \<not> list_all is_digit t then None
         else if neg then (if decimal_int t \<le> 2 ^ (bits - 1) then Some (- decimal_int t) else None)
         else (if decimal_int t < 2 ^ (bits - 1) then Some (decimal_int t) else None))"
proof -
  have "decimal t \<le> 2 ^ k \<longleftrightarrow> decimal_int t \<le> 2 ^ k" "decimal t < 2 ^ k \<longleftrightarrow> decimal_int t < 2 ^ k" for t k
    unfolding decimal_int_def by (metis of_nat_le_numeral_power_cancel_iff of_nat_numeral of_nat_le_iff of_nat_power,
      metis of_nat_less_numeral_power_cancel_iff of_nat_numeral of_nat_less_iff of_nat_power)
  then show ?thesis by (simp add: parse_int_def Let_def decimal_int_def)
qed

end
