(* ===== verification/ServerProperties.thy ===== *)
theory ServerProperties
  imports Arrivals JsonCode FsProperties
begin

text \<open>
  The properties of the request loop over the local file system, with witnesses on the
  sample host: what a session answers, what it can touch, how it ends.
\<close>

subsection \<open>The sample server\<close>

definition sample_router :: router where
  "sample_router = createRouter ''flashgate'' ''0.1.0-dev''
     (createToolRegistry (local_fsys sample_fs) 100 (capabilitiesFromReadOnly False))"

definition sample_options :: options where
  "sample_options = \<lparr>MaxMessageBytes = 200, MaxArgumentBytes = 100, MaxResponseBytes = 200, Diagnostics = False\<rparr>"

definition ping :: string where
  "ping = ''{\"jsonrpc\":\"2.0\",\"id\":7,\"method\":\"ping\"}''"

definition sample_session :: "string list \<Rightarrow> host \<times> string list" where
  "sample_session = session (line_reply sample_router 200 100 200) clean_host"

subsection \<open>Sessions\<close>

text \<open>
  C2: the server is a function of the lines it reads. Over a writer that takes everything,
  a run over lines ended by line feeds returns without error, answers each line as the
  specification \<open>session\<close> says, in order, and leaves the host as the specification
  leaves it; what follows the last line feed is dropped. Excluded are lines whose length
  without the line feed is exactly the message limit (see \<open>boundary_line_swallows_next\<close>).
\<close>

theorem session_refinement:
  assumes "\<forall>l \<in> set ls. newline \<notin> set l" "newline \<notin> set rest"
    and "MaxMessageBytes opts \<le> 0 \<or>
      (\<forall>l \<in> set ls. int (length l) \<noteq> MaxMessageBytes opts) \<and> int (length rest) \<le> MaxMessageBytes opts"
    and "r = createRouter name version (createToolRegistry (local_fsys f) m c)"
    and "session (line_reply r (MaxMessageBytes opts) (MaxArgumentBytes opts) (MaxResponseBytes opts)) h ls = (h', replies)"
  shows "\<exists>sv'. Run (\<lambda>_. False) (NewWithOptions (as_lines ls @ rest) AtEOF None r opts) h = (sv', h', None) \<and>
    tp_out (sv_transport sv') = as_lines replies"
proof -
  have "\<exists>sv'. Run_loop (\<lambda>_. False) 0 (NewWithOptions (as_lines ls @ rest) AtEOF None r opts) h =
      (sv', fst (session (line_reply r (MaxMessageBytes opts) (MaxArgumentBytes opts) (MaxResponseBytes opts)) h ls), None) \<and>
    tp_out (sv_transport sv') = [] @ as_lines (snd (session (line_reply r (MaxMessageBytes opts) (MaxArgumentBytes opts) (MaxResponseBytes opts)) h ls)) \<and>
    tp_in (sv_transport sv') = []"
    using lfs.toolbox.routed.Run_loop_session [of "NewWithOptions (as_lines ls @ rest) AtEOF None r opts" name version f m c ls rest "MaxMessageBytes opts"] assms(1-4)
    by (simp add: NewWithOptions_def NewWithLimits_def)
  then show ?thesis using assms(5) by (auto simp: Run_def)
qed

definition sample_answers :: "string list" where
  "sample_answers =
     [''{\"jsonrpc\":\"2.0\",\"id\":7,\"error\":{\"code\":-32601,\"message\":\"method not found\"}}'',
      ''{\"jsonrpc\":\"2.0\",\"id\":null,\"error\":{\"code\":-32700,\"message\":\"parse error\"}}'']"

lemma sample_replies: "snd (sample_session [ping, ''?'']) = sample_answers"
  unfolding sample_session_def sample_answers_def by code_simp

lemma ping_line: "newline \<notin> set ping" "length ping = 40"
  by (simp_all add: ping_def)

lemma session_refinement_witness:
  "\<exists>sv' h'. Run (\<lambda>_. False) (NewWithOptions (as_lines [ping, ''?''] @ ''rest'') AtEOF None sample_router sample_options) clean_host
      = (sv', h', None) \<and> tp_out (sv_transport sv') = as_lines sample_answers"
proof -
  have s: "session (line_reply sample_router (MaxMessageBytes sample_options) (MaxArgumentBytes sample_options)
      (MaxResponseBytes sample_options)) clean_host [ping, ''?''] = (fst (sample_session [ping, ''?'']), sample_answers)"
    using sample_replies by (simp add: sample_session_def sample_options_def prod_eq_iff del: session.simps)
  have "\<exists>sv'. Run (\<lambda>_. False) (NewWithOptions (as_lines [ping, ''?''] @ ''rest'') AtEOF None sample_router sample_options) clean_host
      = (sv', fst (sample_session [ping, ''?'']), None) \<and> tp_out (sv_transport sv') = as_lines sample_answers"
    by (rule session_refinement [OF _ _ _ sample_router_def s]) (simp_all add: ping_line sample_options_def)
  then show ?thesis by blast
qed

text \<open>
  C4: confinement of the whole server. Whatever bytes arrive, however the reader ends,
  however much the writer takes and whenever the context is cancelled: a run over a sandbox
  without symbolic links leaves every entry outside its root as it was, and the bytes of
  every file that has no hard link below the root.
\<close>

theorem session_confined:
  assumes "sand_inv f h"
    and "Run cancelled (NewWithOptions input fin room
           (createRouter name version (createToolRegistry (local_fsys f) m c)) opts) h = (sv', h', e)"
  shows "sand_inv f h' \<and>
    (\<forall>p. \<not> prefix (fs_root f) p \<longrightarrow> lookup h' p = lookup h p) \<and>
    (\<forall>p i. lookup h p = Some (RegN i) \<longrightarrow>
       (\<forall>q. prefix (fs_root f) q \<longrightarrow> lookup h q \<noteq> Some (RegN i)) \<longrightarrow> content h' i = content h i)"
proof -
  have "sand_inv f h' \<and> confined (fs_eroot f) h h'"
    by (rule lfs.toolbox.routed.Run_safe [OF _ assms]) (simp add: NewWithOptions_def)
  then show ?thesis using confined_outside [OF assms(1)] by blast
qed

definition delete_all :: string where
  "delete_all = ''{\"jsonrpc\":\"2.0\",\"id\":1,\"method\":\"tools/call\",\"params\":{\"name\":\"delete_path\",'' @
     ''\"arguments\":{\"path\":\"sub\",\"recursive\":true}}}''"

lemma session_confined_witness:
  "lookup (fst (snd (Run (\<lambda>_. False) (NewWithOptions (as_lines [delete_all]) AtEOF (Some 20) sample_router
     sample_options) clean_host))) [''etc'', ''passwd''] = Some (RegN 8)"
proof -
  let ?run = "Run (\<lambda>_. False) (NewWithOptions (as_lines [delete_all]) AtEOF (Some 20) sample_router
     sample_options) clean_host"
  have r: "fs_root sample_fs = [''srv'']" "lookup clean_host [''etc'', ''passwd''] = Some (RegN 8)" by code_simp+
  have "?run = (fst ?run, fst (snd ?run), snd (snd ?run))" by simp
  from session_confined [OF sample_sand this [unfolded sample_router_def], folded sample_router_def] show ?thesis
    using r by simp
qed

text \<open>
  C15: every run ends. It makes at most as many rounds as there are input bytes, none of
  them after the context is done, and ends as the first round that does not go on says.
\<close>

theorem run_terminates:
  "\<exists>n s. n \<le> length (tp_in (sv_transport sv)) \<and> rounds n (sv, h) s \<and> (\<forall>j<n. \<not> cancelled j) \<and>
     ends cancelled n s (Run cancelled sv h)"
proof -
  obtain n s where n: "rounds n (sv, h) s" "\<forall>j<n. \<not> cancelled j" "ends cancelled n s (Run cancelled sv h)"
    using Run_loop_rounds [of sv h cancelled 0] by (auto simp: Run_def)
  moreover have "n \<le> length (tp_in (sv_transport sv))" using rounds_bound [OF n(1)] by simp
  ultimately show ?thesis by blast
qed

lemma run_terminates_witness:
  "snd (snd (Run (\<lambda>n. n = 0) (NewServer (as_lines [ping]) AtEOF None sample_router) clean_host)) = Some ContextDone"
proof -
  obtain n s where "\<forall>j<n. j \<noteq> 0" "ends (\<lambda>n. n = 0) n s
      (Run (\<lambda>n. n = 0) (NewServer (as_lines [ping]) AtEOF None sample_router) clean_host)"
    using run_terminates [of "NewServer (as_lines [ping]) AtEOF None sample_router" clean_host "\<lambda>n. n = 0"]
    by blast
  then show ?thesis by (cases "n = 0") (auto simp: ends_def split: prod.splits)
qed

text \<open>
  C11: a server that is not cancelled serves until its input ends. Over any input, a reader
  that ends without an error and a writer that takes everything, \<open>Run\<close> returns no error, with
  the input consumed. It has written one reply for each message the input delivers, in
  order, but for notifications; each is a JSON-RPC object with the id of its message (null
  for a message that is refused without one), and together they are those of the
  specification \<open>session\<close>, and so is the host. Too long messages and the boundary case
  are messages too: they are answered as invalid requests.
\<close>

theorem run_serves_to_the_end:
  assumes "r = createRouter name version (createToolRegistry (local_fsys f) m c)"
    and "session (arrival_reply r (MaxArgumentBytes opts) (MaxResponseBytes opts)) h (arrivals (MaxMessageBytes opts) input) = (h', replies)"
  shows "(\<exists>sv'. Run (\<lambda>_. False) (NewWithOptions input AtEOF None r opts) h = (sv', h', None) \<and>
      tp_in (sv_transport sv') = [] \<and> tp_out (sv_transport sv') = as_lines replies) \<and>
    list_all2 answers (List.map_filter (answer_id (MaxArgumentBytes opts)) (arrivals (MaxMessageBytes opts) input)) replies"
proof
  show "list_all2 answers (List.map_filter (answer_id (MaxArgumentBytes opts)) (arrivals (MaxMessageBytes opts) input)) replies"
    by (rule lfs.toolbox.routed.session_answers) (use assms in simp)
  have "\<exists>sv'. Run_loop (\<lambda>_. False) 0 (NewWithOptions input AtEOF None r opts) h = (sv', h', None) \<and>
      tp_out (sv_transport sv') = tp_out (sv_transport (NewWithOptions input AtEOF None r opts)) @ as_lines replies \<and>
      tp_in (sv_transport sv') = []"
    by (rule lfs.toolbox.routed.Run_loop_arrivals) (use assms in \<open>simp_all add: NewWithOptions_def NewWithLimits_def\<close>)
  then show "\<exists>sv'. Run (\<lambda>_. False) (NewWithOptions input AtEOF None r opts) h = (sv', h', None) \<and>
      tp_in (sv_transport sv') = [] \<and> tp_out (sv_transport sv') = as_lines replies"
    by (auto simp: Run_def NewWithOptions_def NewWithLimits_def)
qed

definition boundary_input :: string where
  "boundary_input = as_lines [ping, ping, ''?'', ''{\"jsonrpc\":\"2.0\",\"method\":\"x\"}''] @ ''rest''"

definition boundary_answers :: "string list" where
  "boundary_answers =
     [''{\"jsonrpc\":\"2.0\",\"id\":null,\"error\":{\"code\":-32600,\"message\":\"invalid request\"}}'',
      ''{\"jsonrpc\":\"2.0\",\"id\":null,\"error\":{\"code\":-32700,\"message\":\"parse error\"}}'']"

lemma run_serves_to_the_end_witness:
  "\<exists>sv' h'. Run (\<lambda>_. False) (NewWithOptions boundary_input AtEOF None sample_router (sample_options\<lparr>MaxMessageBytes := 40\<rparr>)) clean_host
      = (sv', h', None) \<and> tp_in (sv_transport sv') = [] \<and> tp_out (sv_transport sv') = as_lines boundary_answers"
proof -
  let ?s = "session (arrival_reply sample_router 100 200) clean_host (arrivals 40 boundary_input)"
  have a: "snd ?s = boundary_answers" by code_simp
  have o: "MaxMessageBytes (sample_options\<lparr>MaxMessageBytes := 40\<rparr>) = 40" "MaxArgumentBytes (sample_options\<lparr>MaxMessageBytes := 40\<rparr>) = 100"
    "MaxResponseBytes (sample_options\<lparr>MaxMessageBytes := 40\<rparr>) = 200" by (simp_all add: sample_options_def)
  have s: "session (arrival_reply sample_router (MaxArgumentBytes (sample_options\<lparr>MaxMessageBytes := 40\<rparr>))
      (MaxResponseBytes (sample_options\<lparr>MaxMessageBytes := 40\<rparr>))) clean_host
      (arrivals (MaxMessageBytes (sample_options\<lparr>MaxMessageBytes := 40\<rparr>)) boundary_input) = (fst ?s, boundary_answers)"
    unfolding o a [symmetric] by (rule prod.collapse [symmetric])
  from run_serves_to_the_end [OF sample_router_def s] show ?thesis by blast
qed

text \<open>
  The only ways a run can end: no error at the end of the input; the error of the
  context; a failing reader; a failing writer. A response always marshals, and none that is
  too large is an error.
\<close>

lemma run_errors:
  assumes "Run cancelled (NewWithOptions input fin room
      (createRouter name version (createToolRegistry (local_fsys f) m c)) opts) h = (sv', h', e)"
  shows "(e = None \<and> fin = AtEOF) \<or>
    (e = Some ContextDone \<and> (\<exists>n \<le> length input. cancelled n)) \<or>
    (e = Some (TransportError ReadFailed) \<and> fin = ReadFails) \<or>
    (e = Some (TransportError WriteFailed) \<and> room \<noteq> None)"
  using lfs.toolbox.routed.Run_end [OF _ assms]
  by (auto simp: NewWithOptions_def NewWithLimits_def run_end_def)

lemma run_errors_witness:
  "let e = snd (snd (Run (\<lambda>_. False) (NewWithOptions (as_lines [ping]) ReadFails None sample_router sample_options) clean_host))
   in e = Some (TransportError ReadFailed)"
proof -
  let ?run = "Run (\<lambda>_. False) (NewWithOptions (as_lines [ping]) ReadFails None sample_router sample_options) clean_host"
  have "?run = (fst ?run, fst (snd ?run), snd (snd ?run))" by simp
  from run_errors [OF this [unfolded sample_router_def], folded sample_router_def] show ?thesis by simp
qed

end
