(* ===== verification/RequestProperties.thy ===== *)
theory RequestProperties
  imports ServerProperties
begin

text \<open>
  The properties of single messages: how they are framed and limited, which are accepted,
  what refused ones are answered with, and which can have an effect.
\<close>

subsection \<open>Framing\<close>

lemma read_loop_line:
  "read_loop m fin line s = (Inr msg, rest) \<Longrightarrow> newline \<notin> set line \<Longrightarrow>
    (\<exists>l. msg = l @ [newline] \<and> newline \<notin> set l) \<and> line @ s = msg @ rest \<and> (0 < m \<longrightarrow> int (length msg) \<le> m)"
proof (induction s arbitrary: line)
  case (Cons c s)
  show ?case
  proof (cases "c = newline")
    case True then show ?thesis using Cons.prems by (auto split: if_splits)
  next
    case False
    then have "read_loop m fin (line @ [c]) s = (Inr msg, rest)" using Cons.prems by (auto split: if_splits)
    then show ?thesis using Cons.IH [of "line @ [c]"] Cons.prems(2) False by simp
  qed
qed simp

text \<open>
  C10: framing. A line shorter than the limit is returned with its line feed. A longer one is
  refused and the input goes on with the next line - unless its length without the line
  feed is exactly the limit: then the reader has already taken the line feed when it
  notices, and discards the next line with it.
\<close>

theorem read_message_framing:
  assumes "newline \<notin> set l" "tp_in t = l @ newline # s"
  shows "ReadMessage t =
    (let m = tp_maxReadBytes t in
     if m \<le> 0 \<or> int (length l) < m then (t\<lparr>tp_in := s\<rparr>, Inr (l @ [newline]))
     else if int (length l) = m then (t\<lparr>tp_in := discardLine s\<rparr>, Inl ErrMessageTooLarge)
     else (t\<lparr>tp_in := s\<rparr>, Inl ErrMessageTooLarge))"
proof -
  consider "tp_maxReadBytes t \<le> 0 \<or> int (length l) < tp_maxReadBytes t" | "0 < tp_maxReadBytes t" "int (length l) = tp_maxReadBytes t"
    | "0 < tp_maxReadBytes t" "tp_maxReadBytes t < int (length l)" by linarith
  then show ?thesis
    by cases (use assms in \<open>simp_all add: ReadMessage_def read_loop_short read_loop_exact read_loop_long\<close>)
qed

lemma read_message_framing_witness:
  "ReadMessage (NewWithLimits (''abcd'' @ newline # ''ef'' @ [newline]) AtEOF None 3 0) =
    (NewWithLimits (''ef'' @ [newline]) AtEOF None 3 0, Inl ErrMessageTooLarge)"
  using read_message_framing [of "''abcd''" "NewWithLimits (''abcd'' @ newline # ''ef'' @ [newline]) AtEOF None 3 0" "''ef'' @ [newline]"]
  by (simp add: NewWithLimits_def)

text \<open>
  C40: the boundary case seen by a client: of two requests, the first as long as the limit,
  only the first is answered (as an invalid request); the second is never looked at.
\<close>

theorem boundary_line_swallows_next:
  assumes "newline \<notin> set l1" "newline \<notin> set l2" "int (length l1) = MaxMessageBytes opts" "l1 \<noteq> []"
  shows "\<exists>sv'. serve_step (NewWithOptions (l1 @ newline # l2 @ newline # s) fin None r opts) h = ((sv', Continue), h) \<and>
    tp_in (sv_transport sv') = s \<and>
    tp_out (sv_transport sv') = reply_text (error_response nullID ErrInvalidRequest ''invalid request'') @ [newline]"
proof -
  let ?sv = "NewWithOptions (l1 @ newline # l2 @ newline # s) fin None r opts"
  have m: "0 < MaxMessageBytes opts" using assms(3,4) by (cases l1) simp_all
  have "ReadMessage (sv_transport ?sv) = ((sv_transport ?sv)\<lparr>tp_in := s\<rparr>, Inl ErrMessageTooLarge)"
    using m assms discardLine_line
    by (simp add: NewWithOptions_def NewWithLimits_def ReadMessage_def read_loop_exact)
  then show ?thesis
    by (simp add: serve_step_def Let_def writeError_free go_on_def NewWithOptions_def NewWithLimits_def)
qed

lemma boundary_line_swallows_next_witness:
  "\<exists>sv'. serve_step (NewWithOptions (''abc'' @ newline # ''{}'' @ [newline]) AtEOF None NewRouter
      \<lparr>MaxMessageBytes = 3, MaxArgumentBytes = 0, MaxResponseBytes = 0, Diagnostics = False\<rparr>) clean_host = ((sv', Continue), clean_host) \<and>
    tp_in (sv_transport sv') = [] \<and>
    tp_out (sv_transport sv') = ''{\"jsonrpc\":\"2.0\",\"id\":null,\"error\":{\"code\":-32600,\"message\":\"invalid request\"}}'' @ [newline]"
proof -
  have "reply_text (error_response nullID ErrInvalidRequest ''invalid request'') =
      ''{\"jsonrpc\":\"2.0\",\"id\":null,\"error\":{\"code\":-32600,\"message\":\"invalid request\"}}''" by code_simp
  then show ?thesis
    using boundary_line_swallows_next [of "''abc''" "''{}''" "\<lparr>MaxMessageBytes = 3, MaxArgumentBytes = 0, MaxResponseBytes = 0, Diagnostics = False\<rparr>" "[]" AtEOF NewRouter clean_host]
    by simp
qed

text \<open>
  C26: limits. A message that is returned is a whole line within the reader's limit; the
  parameters of a \<open>tools/call\<close> that is accepted are an object within the limit on arguments,
  and so are the arguments in it.
\<close>

theorem request_limits:
  "(ReadMessage t = (t', Inr msg) \<longrightarrow>
      (\<exists>l. msg = l @ [newline] \<and> newline \<notin> set l) \<and> tp_in t = msg @ tp_in t' \<and>
      (0 < tp_maxReadBytes t \<longrightarrow> int (length msg) \<le> tp_maxReadBytes t)) \<and>
   (validateToolsCallParams params m = Inr p \<longrightarrow>
      isJSONObject params \<and> (0 < m \<longrightarrow> int (length (trim_space params)) \<le> m) \<and>
      (\<exists>flds. unmarshal_fields params = Some flds \<and>
        (\<forall>a. flds ''arguments'' = Some a \<and> \<not> isJSONNull a \<longrightarrow> isJSONObject a \<and> (0 < m \<longrightarrow> int (length (trim_space a)) \<le> m))))"
proof (intro conjI impI)
  assume rd: "ReadMessage t = (t', Inr msg)"
  from read_loop_line [of _ _ "[]"] show "\<exists>l. msg = l @ [newline] \<and> newline \<notin> set l" "tp_in t = msg @ tp_in t'"
    "0 < tp_maxReadBytes t \<Longrightarrow> int (length msg) \<le> tp_maxReadBytes t"
    using rd by (fastforce simp: ReadMessage_def split: prod.splits)+
next
  assume v: "validateToolsCallParams params m = Inr p"
  then show "isJSONObject params" "0 < m \<Longrightarrow> int (length (trim_space params)) \<le> m"
    "\<exists>flds. unmarshal_fields params = Some flds \<and>
      (\<forall>a. flds ''arguments'' = Some a \<and> \<not> isJSONNull a \<longrightarrow> isJSONObject a \<and> (0 < m \<longrightarrow> int (length (trim_space a)) \<le> m))"
    by (auto simp: validateToolsCallParams_def unmarshal_fields_def Let_def exceedsLimit_def not_less
        split: if_splits option.splits)
qed

lemma request_limits_witness:
  "isJSONObject ''{\"name\":\"read_file\",\"arguments\":{\"path\":\"a\"}}''"
proof -
  have "validateToolsCallParams ''{\"name\":\"read_file\",\"arguments\":{\"path\":\"a\"}}'' 50 = Inr ''{\"name\":\"read_file\",\"arguments\":{\"path\":\"a\"}}''"
    by code_simp
  then show ?thesis using request_limits by blast
qed

subsection \<open>Validation\<close>

text \<open>With the arguments left out, the parameters are always written anew.\<close>

lemma sequence_opt_all: "\<forall>x \<in> set xs. x \<noteq> None \<Longrightarrow> sequence_opt xs \<noteq> None"
  by (induction xs rule: sequence_opt.induct) auto

lemma marshal_members: "\<forall>m \<in> set ms. marshal (snd m) \<noteq> None \<Longrightarrow> marshal (GObj ms) \<noteq> None"
  using sequence_opt_all [of "map (\<lambda>(k, v). map_option (\<lambda>t. quote_string k @ colon # t) (marshal v)) ms"]
  by fastforce

lemma normalized_marshals:
  assumes "unmarshal_members params = Some ms"
  shows "marshal (normalized_fields ms) \<noteq> None"
proof -
  let ?flds = "(map_of (rev ms))(''arguments'' := Some [lbrace, rbrace])"
  have obj: "json_valid [lbrace, rbrace]" by code_simp
  have "json_valid v" if "?flds k = Some v" for k v
    using that obj unmarshal_fields_valid(1) [of params "map_of (rev ms)" k v] assms
    by (auto simp: unmarshal_fields_def split: if_splits)
  moreover have "\<exists>v. ?flds k = Some v" if "k \<in> set (''arguments'' # map fst ms)" for k
    using that by (auto simp: weak_map_of_SomeI intro: weak_map_of_SomeI)
  ultimately have "marshal (raw_json (the (?flds k))) \<noteq> None" if "k \<in> set (''arguments'' # map fst ms)" for k
    using that by (force simp: raw_json_def compact_def)
  then show ?thesis
    unfolding normalized_fields_def go_map_def Let_def by (intro marshal_members) (auto simp del: marshal.simps)
qed

text \<open>
  What a request has to be, stated on its members. The header: the version, an id that is
  valid if there is one, a method that is not blank.
\<close>

definition object_fields :: "string \<Rightarrow> (string \<rightharpoonup> string) option" where
  "object_fields msg =
     (if json_valid msg \<and> trim_space msg \<noteq> [] \<and> hd (trim_space msg) = lbrace
      then unmarshal_fields (trim_space msg) else None)"

definition header_ok :: "(string \<rightharpoonup> string) \<Rightarrow> bool" where
  "header_ok flds \<longleftrightarrow>
     server_stringField flds ''jsonrpc'' = Some ''2.0'' \<and>
     (case flds ''id'' of None \<Rightarrow> True | Some raw \<Rightarrow> isValidID raw) \<and>
     (case server_stringField flds ''method'' of None \<Rightarrow> False | Some meth \<Rightarrow> trim_space meth \<noteq> [])"

text \<open>The parameters the three methods of the protocol need; other methods take any.\<close>

definition within :: "int \<Rightarrow> string \<Rightarrow> bool" where
  "within m raw \<longleftrightarrow> m \<le> 0 \<or> int (length (trim_space raw)) \<le> m"

definition call_params_ok :: "int \<Rightarrow> string \<Rightarrow> bool" where
  "call_params_ok m p \<longleftrightarrow>
     isJSONObject p \<and> within m p \<and>
     (case unmarshal_fields p of
        None \<Rightarrow> False
      | Some flds \<Rightarrow>
          (case server_stringField flds ''name'' of None \<Rightarrow> False | Some name \<Rightarrow> trim_space name \<noteq> []) \<and>
          (case flds ''arguments'' of
             None \<Rightarrow> True
           | Some a \<Rightarrow> isJSONNull a \<or> isJSONObject a \<and> within m a))"

definition method_params_ok :: "int \<Rightarrow> string \<Rightarrow> string \<Rightarrow> bool" where
  "method_params_ok m meth p \<longleftrightarrow>
     (meth = ''initialize'' \<longrightarrow>
        isJSONObject p \<and>
        (case unmarshal_fields p of
           None \<Rightarrow> False
         | Some flds \<Rightarrow>
             (case server_stringField flds ''protocolVersion'' of None \<Rightarrow> False | Some v \<Rightarrow> v \<noteq> []))) \<and>
     (meth = ''tools/list'' \<longrightarrow> trim_space p = [] \<or> isJSONNull p \<or> isJSONObject p) \<and>
     (meth = ''tools/call'' \<longrightarrow> call_params_ok m p)"

text \<open>A notification, a message without id, is not asked for parameters.\<close>

definition acceptable :: "string \<Rightarrow> int \<Rightarrow> bool" where
  "acceptable msg m \<longleftrightarrow>
     (case object_fields msg of
        None \<Rightarrow> False
      | Some flds \<Rightarrow>
          header_ok flds \<and>
          (flds ''id'' = None \<or>
           method_params_ok m (the (server_stringField flds ''method'')) (case flds ''params'' of None \<Rightarrow> [] | Some p \<Rightarrow> p)))"

text \<open>The answer to any other message: its id, the code of JSON-RPC 2.0, the text.\<close>

definition refusal :: "string \<Rightarrow> validation_error" where
  "refusal msg =
     (case object_fields msg of
        None \<Rightarrow>
          if json_valid msg \<and> trim_space msg \<noteq> []
          then \<lparr>ve_id = ''null'', ve_code = -32600, ve_message = ''invalid request''\<rparr>
          else \<lparr>ve_id = ''null'', ve_code = -32700, ve_message = ''parse error''\<rparr>
      | Some flds \<Rightarrow>
          let i = (case flds ''id'' of None \<Rightarrow> ''null'' | Some raw \<Rightarrow> if isValidID raw then raw else ''null'') in
          if header_ok flds then \<lparr>ve_id = i, ve_code = -32602, ve_message = ''invalid params''\<rparr>
          else \<lparr>ve_id = i, ve_code = -32600, ve_message = ''invalid request''\<rparr>)"

lemma tools_call_verdict:
  "case validateToolsCallParams p m of Inl e \<Rightarrow> e = invalid_params \<and> \<not> call_params_ok m p | Inr q \<Rightarrow> call_params_ok m p"
  by (auto simp: validateToolsCallParams_def call_params_ok_def within_def exceedsLimit_def unmarshal_fields_def Let_def
      dest: normalized_marshals split: sum.splits option.splits if_splits)

lemma method_verdict:
  "case validateMethodParams meth p m of
     Inl e \<Rightarrow> e = invalid_params \<and> \<not> method_params_ok m meth p | Inr q \<Rightarrow> method_params_ok m meth p"
  using tools_call_verdict [where p = p and m = m]
  by (auto simp: validateMethodParams_def method_params_ok_def split: sum.splits option.splits if_splits)

text \<open>
  C8: which messages are refused, and with what. Exactly the messages that are not
  acceptable are refused: with -32700 and the id null when they are no JSON; with -32600
  when they are no object, or the version, the id or the method is bad; with -32602 when
  only the parameters are. An object with a valid id is always answered with that id, other
  messages with null. The branch for an internal error (-32603) is never reached.
\<close>

theorem refused_messages:
  "validateRequestMessageWithLimits msg m = Inl err \<longleftrightarrow> \<not> acceptable msg m \<and> err = refusal msg"
proof (cases "object_fields msg")
  case None
  then show ?thesis
    by (auto simp: object_fields_def acceptable_def refusal_def validateRequestMessageWithLimits_def parse_error_def
        invalid_request_def newRequestValidationError_def nullID_def error_codes split: if_splits)
next
  case (Some flds)
  have ids: "raw \<noteq> []" if "flds ''id'' = Some raw" for raw
    using Some that unmarshal_fields_valid by (auto simp: object_fields_def split: if_splits)
  let ?p = "field_raw flds ''params''"
  show ?thesis
  proof (cases "header_ok flds")
    case True
    then obtain meth where meth: "server_stringField flds ''method'' = Some meth" "trim_space meth \<noteq> []"
      by (auto simp: header_ok_def split: option.splits)
    show ?thesis
      using method_verdict [where meth = meth and p = ?p and m = m] True Some meth
      by (auto simp: object_fields_def acceptable_def refusal_def validateRequestMessageWithLimits_def header_ok_def
          requestID_def field_raw_def invalid_params_def newRequestValidationError_def JSONRPCVersion_def error_codes Let_def
          split: if_splits option.splits sum.splits)
  next
    case False
    then show ?thesis
      using Some ids
      by (auto simp: object_fields_def acceptable_def refusal_def validateRequestMessageWithLimits_def header_ok_def
          requestID_def requestIDOrNull_def idForInvalidRequest_def
          invalid_request_def newRequestValidationError_def nullID_def JSONRPCVersion_def error_codes Let_def
          split: if_splits option.splits sum.splits)
  qed
qed

lemma refused_messages_witness:
  "let msg = ''{\"jsonrpc\":\"2.0\",\"id\":3,\"method\":\"initialize\"}'' in
   \<not> acceptable msg 100 \<and> refusal msg = \<lparr>ve_id = ''3'', ve_code = -32602, ve_message = ''invalid params''\<rparr>"
proof -
  have v: "validateRequestMessageWithLimits ''{\"jsonrpc\":\"2.0\",\"id\":3,\"method\":\"initialize\"}'' 100 =
      Inl \<lparr>ve_id = ''3'', ve_code = -32602, ve_message = ''invalid params''\<rparr>" by code_simp
  from v [unfolded refused_messages] show ?thesis by simp
qed

text \<open>
  C14: what an accepted message is: a JSON object with the version 2.0 and a method that is
  not blank. It is a notification when it has no id; otherwise its id is a valid one and is
  kept as it was written, and the parameters passed the checks of the method.
\<close>

theorem accepted_messages:
  assumes "validateRequestMessageWithLimits msg m = Inr req"
  shows "\<exists>flds. json_valid msg \<and> unmarshal_fields (trim_space msg) = Some flds \<and>
    server_stringField flds ''jsonrpc'' = Some ''2.0'' \<and>
    server_stringField flds ''method'' = Some (vr_method req) \<and> trim_space (vr_method req) \<noteq> [] \<and>
    (if vr_notification req then flds ''id'' = None \<and> vr_params req = field_raw flds ''params''
     else flds ''id'' = Some (vr_id req) \<and> isValidID (vr_id req) \<and>
       validateMethodParams (vr_method req) (field_raw flds ''params'') m = Inr (vr_params req))"
  using assms unfolding validateRequestMessageWithLimits_def requestID_def JSONRPCVersion_def
  by (auto simp: Let_def split: if_splits option.splits sum.splits)

lemma accepted_messages_witness:
  "\<exists>flds. unmarshal_fields ''{\"jsonrpc\":\"2.0\",\"id\":7,\"method\":\"ping\"}'' = Some flds \<and> flds ''id'' = Some ''7''"
proof -
  have v: "validateRequestMessageWithLimits ''{\"jsonrpc\":\"2.0\",\"id\":7,\"method\":\"ping\"}'' 100 =
      Inr \<lparr>vr_id = ''7'', vr_method = ''ping'', vr_params = [], vr_notification = False\<rparr>" by code_simp
  have t: "trim_space ''{\"jsonrpc\":\"2.0\",\"id\":7,\"method\":\"ping\"}'' = ''{\"jsonrpc\":\"2.0\",\"id\":7,\"method\":\"ping\"}''"
    by code_simp
  from accepted_messages [OF v] show ?thesis unfolding t by auto
qed

subsection \<open>Effects\<close>

text \<open>
  A notification is never acted on. Whatever its method and parameters, a message
  without id that passes validation leaves the transport and the host alone, and the loop
  goes on; so does a refused message, but for the answer.
\<close>

lemma notifications_ignored:
  assumes "validateRequestMessageWithLimits msg (sv_maxArgumentBytes sv) = Inr req" "vr_notification req"
  shows "\<exists>sv'. answer sv h msg = ((sv', Continue), h) \<and> sv_transport sv' = sv_transport sv"
  using assms by (simp add: answer_def)

lemma notifications_ignored_witness:
  "\<exists>sv'. answer (NewServer [] AtEOF None NewRouter) clean_host ''{\"jsonrpc\":\"2.0\",\"method\":\"tools/call\"}'' =
      ((sv', Continue), clean_host)"
proof -
  have v: "validateRequestMessageWithLimits ''{\"jsonrpc\":\"2.0\",\"method\":\"tools/call\"}''
        (sv_maxArgumentBytes (NewServer [] AtEOF None NewRouter)) =
      Inr \<lparr>vr_id = [], vr_method = ''tools/call'', vr_params = [], vr_notification = True\<rparr>" by code_simp
  from notifications_ignored [OF v, of clean_host] show ?thesis by auto
qed

lemma call_host:
  assumes "validateCallParams p = Inr (n, a)" "GetTool reg n = Some t"
  shows "fst (CallHandler_Handle reg h p) = fst (t_Execute t h a)"
proof -
  obtain h1 res where e: "t_Execute t h a = (h1, res)" by fastforce
  show ?thesis by (cases res) (simp_all add: CallHandler_Handle_def assms e split: sum.split)
qed

text \<open>
  C13: only a tool that writes has an effect. If answering a message changes the host, the
  message is a valid \<open>tools/call\<close> request, the server is not read-only, and the tool it
  names is one of the five that write.
\<close>

theorem only_write_tools_act:
  assumes "answer sv h msg = ((sv', s), h')" "h' \<noteq> h"
    and "sv_router sv = createRouter name version (createToolRegistry f m (capabilitiesFromReadOnly ro))"
  shows "\<exists>req tool args. validateRequestMessageWithLimits msg (sv_maxArgumentBytes sv) = Inr req \<and>
    \<not> vr_notification req \<and> vr_method req = ''tools/call'' \<and> \<not> ro \<and>
    validateCallParams (vr_params req) = Inr (tool, args) \<and>
    tool \<in> {''write_file'', ''create_directory'', ''delete_path'', ''copy_path'', ''move_path''}"
proof -
  let ?reg = "createToolRegistry f m (capabilitiesFromReadOnly ro)"
  obtain req sv1 rs where v: "validateRequestMessageWithLimits msg (sv_maxArgumentBytes sv) = Inr req"
    "\<not> vr_notification req" and hr: "handleRequest sv h req = (sv1, h', rs)"
    using assms(1,2) by (auto simp: answer_def split: sum.splits if_splits prod.splits)
  obtain out where d: "Dispatch (sv_router sv) (vr_method req) h (vr_params req) = (h', out)"
    using hr by (auto simp: handleRequest_def split: prod.splits outcome.splits)
  then have c: "vr_method req = ''tools/call''" "CallHandler_Handle ?reg h (vr_params req) = (h', out)"
    using assms(2) unfolding assms(3)
    by (auto simp: Dispatch_def createRouter_def Let_def RegisterHandler_def NewRouter_def
        NewInitializeHandler_def NewListHandler_def NewCallHandler_def toolsCallMethod_def initialize_method_def
        initialize_Handle_def ListHandler_Handle_def split: if_splits option.splits)
  obtain n a where va: "validateCallParams (vr_params req) = Inr (n, a)"
    using c(2) assms(2) by (cases "validateCallParams (vr_params req)") (auto simp: CallHandler_Handle_def)
  obtain t where gt: "GetTool ?reg n = Some t"
    using c(2) assms(2) va by (cases "GetTool ?reg n") (simp_all add: CallHandler_Handle_def)
  have "fst (t_Execute t h a) = h'"
    using call_host [OF va gt] c(2) by (metis fst_conv)
  note t = va gt this
  have "t \<notin> set (read_tools f m)" using read_tools_ok(1) [of t f m h a] t(3) assms(2) by auto
  then have w: "\<not> ro" "t \<in> set (write_tools f)"
    using GetTool_cases [OF t(2)] by (auto simp: capabilitiesFromReadOnly_def)
  have "t_Name t = n" using t(2) createToolRegistry_ok [of f m "capabilitiesFromReadOnly ro"] by (simp add: registry_ok_def GetTool_def)
  moreover have "t_Name ` set (write_tools f) = {''write_file'', ''create_directory'', ''delete_path'', ''copy_path'', ''move_path''}"
    unfolding write_tools_def list.set image_insert image_empty tool_name_eqs by (rule refl)
  ultimately have "n \<in> {''write_file'', ''create_directory'', ''delete_path'', ''copy_path'', ''move_path''}"
    using imageI [OF w(2), of t_Name] by metis
  then show ?thesis using v c(1) w(1) t(1) by (intro exI conjI)
qed

definition make_dir :: string where
  "make_dir = ''{\"jsonrpc\":\"2.0\",\"id\":1,\"method\":\"tools/call\",\"params\":{\"name\":\"create_directory\",'' @
     ''\"arguments\":{\"path\":\"d\"}}}''"

lemma only_write_tools_act_witness:
  "\<exists>req tool args. validateRequestMessageWithLimits make_dir 0 = Inr req \<and> validateCallParams (vr_params req) = Inr (tool, args)"
proof -
  let ?sv = "NewServer [] AtEOF None sample_router"
  let ?a = "answer ?sv clean_host make_dir"
  have "lookup (snd ?a) [''srv'', ''d''] \<noteq> None" by code_simp
  moreover have "lookup clean_host [''srv'', ''d''] = None" by code_simp
  ultimately have "snd ?a \<noteq> clean_host" by metis
  moreover have "?a = ((fst (fst ?a), snd (fst ?a)), snd ?a)" by simp
  moreover have "sv_router ?sv = createRouter ''flashgate'' ''0.1.0-dev''
      (createToolRegistry (local_fsys sample_fs) 100 (capabilitiesFromReadOnly False))"
    by (simp add: NewServer_def NewWithOptions_def sample_router_def)
  moreover have "sv_maxArgumentBytes ?sv = 0" by (simp add: NewServer_def NewWithOptions_def)
  ultimately show ?thesis using only_write_tools_act [of ?sv clean_host make_dir] by metis
qed

subsection \<open>Tools\<close>

text \<open>
  C25: what a client is offered. \<open>tools/list\<close>, with no parameters, null or an object, gives
  the definitions of the registered tools in the order of registration: three, and the five
  that write unless the server is read-only. Each is the definition of the tool its name
  calls.
\<close>

theorem tools_listed:
  assumes "isMissingNullOrObject p"
  shows "\<exists>defs. Dispatch (createRouter name version (createToolRegistry f m (capabilitiesFromReadOnly ro))) ''tools/list'' h p =
      (h, Result (Some (Plain (GObj [(''tools'', GArr (map tool_json defs))])))) \<and>
    map td_Name defs = [''list_directory'', ''read_file'', ''get_path_info''] @
      (if ro then [] else [''write_file'', ''create_directory'', ''delete_path'', ''copy_path'', ''move_path'']) \<and>
    (\<forall>d \<in> set defs. \<exists>t. GetTool (createToolRegistry f m (capabilitiesFromReadOnly ro)) (td_Name d) = Some t \<and> t_Definition t = d)"
proof -
  let ?reg = "createToolRegistry f m (capabilitiesFromReadOnly ro)"
  let ?defs = "map t_Definition (ListTools ?reg)"
  have n: "td_Name (t_Definition t) = t_Name t" if "t \<in> set (ListTools ?reg)" for t
    using that by (auto simp: registry_tools read_tools_def write_tools_def tool_defs tool_definition_defs split: if_splits)
  have "Dispatch (createRouter name version ?reg) ''tools/list'' h p =
      (h, Result (Some (Plain (GObj [(''tools'', GArr (map tool_json ?defs))]))))"
    using assms by (simp add: Dispatch_def createRouter_def Let_def RegisterHandler_def NewListHandler_def
        NewCallHandler_def toolsCallMethod_def ListHandler_Handle_def go_map_def comp_def)
  moreover have "map td_Name ?defs = map t_Name (ListTools ?reg)" using n by simp
  moreover have "map t_Name (ListTools ?reg) = [''list_directory'', ''read_file'', ''get_path_info''] @
      (if ro then [] else [''write_file'', ''create_directory'', ''delete_path'', ''copy_path'', ''move_path''])"
    by (simp add: registry_tools read_tools_def write_tools_def capabilitiesFromReadOnly_def)
  moreover have "\<exists>t. GetTool ?reg (td_Name d) = Some t \<and> t_Definition t = d" if "d \<in> set ?defs" for d
    using that n ListTools_mem [OF createToolRegistry_ok] by fastforce
  ultimately show ?thesis by metis
qed

lemma tools_listed_witness:
  "\<exists>defs. Dispatch sample_router ''tools/list'' clean_host ''{}'' = (clean_host, Result (Some (Plain (GObj [(''tools'', GArr (map tool_json defs))])))) \<and>
    length defs = 8"
proof -
  have p: "isMissingNullOrObject ''{}''" by code_simp
  obtain defs where d: "Dispatch sample_router ''tools/list'' clean_host ''{}'' =
      (clean_host, Result (Some (Plain (GObj [(''tools'', GArr (map tool_json defs))]))))"
    "map td_Name defs = [''list_directory'', ''read_file'', ''get_path_info''] @
      (if False then [] else [''write_file'', ''create_directory'', ''delete_path'', ''copy_path'', ''move_path''])"
    using tools_listed [OF p, of "''flashgate''" "''0.1.0-dev''" "local_fsys sample_fs" 100 False clean_host, folded sample_router_def]
    by (elim exE conjE)
  have "length defs = length (map td_Name defs)" by simp
  also have "\<dots> = 8" unfolding d(2) by simp
  finally show ?thesis using d(1) by blast
qed

end
