(* ===== verification/ToolProperties.thy ===== *)
theory ToolProperties
  imports Rounds JsonCode FsProperties2
begin

text \<open>
  The properties of the tools: what their errors can say, what a client reads back after a
  write, and what a registry holds.
\<close>

subsection \<open>Errors\<close>

definition tool_errors :: "(int \<times> string) set" where
  "tool_errors = {(-32602, ''invalid params''), (-32602, ''filesystem error: not found''),
     (-32602, ''filesystem error: already exists''), (-32602, ''filesystem error: access denied''),
     (-32602, ''filesystem error: invalid path''), (-32602, ''filesystem error: unsupported path type''),
     (-32602, ''filesystem error: unsupported operation''), (-32602, ''filesystem error: limit exceeded''),
     (-32603, ''filesystem error: io error'')}"

definition fixed_error :: "rpc_error \<Rightarrow> bool" where
  "fixed_error e \<longleftrightarrow> (er_Code e, er_Message e) \<in> tool_errors"

lemma mapFilesystemError_fixed: "fixed_error (mapFilesystemError err)"
  by (cases "classifyFilesystemError err")
    (simp_all add: mapFilesystemError_def fixed_error_def tool_errors_def error_codes)

lemma invalidParams_fixed: "fixed_error invalidParamsError"
  by (simp add: invalidParamsError_def fixed_error_def tool_errors_def error_codes)

lemma decode_fixed: "decodeStrictArguments k raw = Inl e \<Longrightarrow> fixed_error e"
  using invalidParams_fixed decodeStrictArguments_Inl by metis

lemma execute_fixed:
  "snd (ListDirectoryTool_Execute fs h raw) = Inl e \<Longrightarrow> fixed_error e"
  "snd (ReadFileTool_Execute fs m h raw) = Inl e \<Longrightarrow> fixed_error e"
  "snd (GetPathInfoTool_Execute fs h raw) = Inl e \<Longrightarrow> fixed_error e"
  "snd (WriteFileTool_Execute fs h raw) = Inl e \<Longrightarrow> fixed_error e"
  "snd (CreateDirectoryTool_Execute fs h raw) = Inl e \<Longrightarrow> fixed_error e"
  "snd (DeletePathTool_Execute fs h raw) = Inl e \<Longrightarrow> fixed_error e"
  "snd (CopyPathTool_Execute fs h raw) = Inl e \<Longrightarrow> fixed_error e"
  "snd (MovePathTool_Execute fs h raw) = Inl e \<Longrightarrow> fixed_error e"
  unfolding execute_defs using mapFilesystemError_fixed invalidParams_fixed
  by (auto simp: Let_def dest: decode_fixed split: sum.splits prod.splits option.splits if_splits)

text \<open>
  C21: the errors of a tool never tell about the host. Whatever the file system reports -
  any file system behind the interface - and whatever the arguments, the error of a tool is
  one of nine fixed texts, with the code for an internal error only for I/O errors.
\<close>

theorem tool_errors_fixed:
  assumes "GetTool (createToolRegistry f m c) n = Some t" "t_Execute t h raw = (h', Inl e)"
  shows "(er_Code e, er_Message e) \<in> tool_errors"
proof -
  have "t \<in> set (read_tools f m) \<or> t \<in> set (write_tools f)" using GetTool_cases [OF assms(1)] by blast
  moreover have "snd (t_Execute t h raw) = Inl e" using assms(2) by simp
  ultimately have "fixed_error e"
    by (auto simp: read_tools_def write_tools_def tool_defs dest: execute_fixed)
  then show ?thesis by (simp add: fixed_error_def)
qed

lemma tool_errors_fixed_witness:
  "case GetTool (createToolRegistry (local_fsys sample_fs) 100 (capabilitiesFromReadOnly False)) ''read_file'' of
     Some t \<Rightarrow> (case t_Execute t clean_host ''{\"path\":\"../etc/passwd\"}'' of
       (h', Inl e) \<Rightarrow> er_Message e = ''filesystem error: invalid path'' \<and> (er_Code e, er_Message e) \<in> tool_errors
     | _ \<Rightarrow> False)
   | None \<Rightarrow> False"
proof -
  let ?reg = "createToolRegistry (local_fsys sample_fs) 100 (capabilitiesFromReadOnly False)"
  let ?t = "NewReadFileTool (local_fsys sample_fs) 100"
  have g: "GetTool ?reg ''read_file'' = Some ?t"
    by (simp add: GetTool_def createToolRegistry_def Let_def RegisterTool_def)
  have s: "snd (ReadFileTool_Execute (local_fsys sample_fs) 100 clean_host ''{\"path\":\"../etc/passwd\"}'') =
      Inl \<lparr>er_Code = -32602, er_Message = ''filesystem error: invalid path''\<rparr>" by code_simp
  then have e: "t_Execute ?t clean_host ''{\"path\":\"../etc/passwd\"}'' =
      (clean_host, Inl \<lparr>er_Code = -32602, er_Message = ''filesystem error: invalid path''\<rparr>)"
    by (simp add: NewReadFileTool_def prod_eq_iff execute_reads)
  from tool_errors_fixed [OF g e] show ?thesis unfolding g by (simp add: e)
qed

subsection \<open>Registries\<close>

text \<open>
  A registry is built by registering tools. Whatever is registered, in whatever order,
  each name is listed once, in the order of first registration, and looks up the tool
  registered last under it.
\<close>

lemma registry_registers:
  "registry_ok (foldl RegisterTool NewRegistry ts) \<and>
   map t_Name (ListTools (foldl RegisterTool NewRegistry ts)) = rev (remdups (rev (map t_Name ts))) \<and>
   GetTool (foldl RegisterTool NewRegistry ts) n = find (\<lambda>t. t_Name t = n) (rev ts)"
proof -
  have ok: "registry_ok (foldl RegisterTool NewRegistry ts)" for ts
    by (induction ts rule: rev_induct) (simp_all add: NewRegistry_ok RegisterTool_ok)
  have get: "rg_tools (foldl RegisterTool NewRegistry ts) n = find (\<lambda>t. t_Name t = n) (rev ts)" for n ts
    by (induction ts rule: rev_induct) (auto simp: NewRegistry_def RegisterTool_def Let_def)
  have found: "find P xs = None \<longleftrightarrow> (\<forall>x \<in> set xs. \<not> P x)" for P and xs :: "tool list"
    by (induction xs) auto
  have "rg_order (foldl RegisterTool NewRegistry ts) = rev (remdups (rev (map t_Name ts)))"
  proof (induction ts rule: rev_induct)
    case (snoc t ts)
    define R where "R = foldl RegisterTool NewRegistry ts"
    have e: "foldl RegisterTool NewRegistry (ts @ [t]) = RegisterTool R t" by (simp add: R_def)
    have "rg_tools R (t_Name t) = None \<longleftrightarrow> t_Name t \<notin> set (map t_Name ts)"
      unfolding R_def get found by (metis (no_types, lifting) image_iff list.set_map set_rev)
    then show ?case unfolding e using snoc.IH [folded R_def] by (auto simp: RegisterTool_def Let_def rev_map)
  qed (simp add: NewRegistry_def)
  then show ?thesis using ok get ListTools_names [OF ok] by (simp add: GetTool_def)
qed

subsection \<open>Write and read\<close>

text \<open>How the arguments a client marshals are decoded: what is no UTF-8 is replaced.\<close>

lemma quote_not_null: "\<not> isJSONNull (quote_string s)"
proof -
  obtain s' where "trim_space (quote_string s) = dquote # s'"
    using trim_space_head [of dquote "quote_body s @ [dquote]"] by (auto simp: quote_string_def ascii_space_def)
  then show ?thesis by (simp add: isJSONNull_def)
qed

lemma decode_quoted: "decode_value n KStr (quote_string s) = Some (Some (VStr (utf8_clean s)))"
  by (simp add: quote_string_def raw_null_def unquote_quote_body)

lemma marshalled_object:
  assumes "json_ok d (GObj ms)" "d \<le> max_depth" "marshal (GObj ms) = Some raw"
  shows "isJSONObject raw" "unmarshal_members raw = Some (map parsed ms)"
proof -
  have "raw \<noteq> [] \<and> hd raw = lbrace" using assms(3) by auto
  then obtain s where "raw = lbrace # s" by (cases raw) auto
  then show "isJSONObject raw" using trim_space_head [of lbrace s]
    by (auto simp: isJSONObject_def Let_def ascii_space_def)
  show "unmarshal_members raw = Some (map parsed ms)" by (rule unmarshal_marshal_object [OF assms])
qed

lemma bool_not_null: "\<not> isJSONNull ''true''" "\<not> isJSONNull ''false''"
  by code_simp+

lemma write_arguments:
  assumes "marshal (GObj [(''path'', GStr p), (''content'', GStr d), (''overwrite'', GBool ow)]) = Some raw"
  shows "decodeStrictArguments [(''path'', KStr), (''content'', KStr), (''overwrite'', KBool)] raw =
    Inr [(''path'', VStr (utf8_clean p)), (''content'', VStr (utf8_clean d)), (''overwrite'', VBool ow)]"
proof -
  have ok: "json_ok 1 (GObj [(''path'', GStr p), (''content'', GStr d), (''overwrite'', GBool ow)])" by simp
  have k: "utf8_clean ''path'' = ''path''" "utf8_clean ''content'' = ''content''" "utf8_clean ''overwrite'' = ''overwrite''"
    by (simp_all add: utf8_clean_plain)
  note o = marshalled_object [OF ok _ assms]
  have m: "unmarshal_members raw = Some [(''path'', quote_string p), (''content'', quote_string d),
      (''overwrite'', if ow then ''true'' else ''false'')]"
    using o(2) by (simp add: max_depth_def parsed_def k)
  show ?thesis
    using o(1) quote_not_null bool_not_null
    by (cases ow) (simp_all add: decodeStrictArguments_def m Let_def max_depth_def find_field_def decode_quoted raw_null_def
        del: decode_value.simps(2))
qed

lemma read_arguments:
  assumes "marshal (GObj [(''path'', GStr p)]) = Some raw"
  shows "decodeStrictArguments [(''path'', KStr), (''maxBytes'', KInt64)] raw = Inr [(''path'', VStr (utf8_clean p))]"
proof -
  have ok: "json_ok 1 (GObj [(''path'', GStr p)])" by simp
  note o = marshalled_object [OF ok _ assms]
  have m: "unmarshal_members raw = Some [(''path'', quote_string p)]"
    using o(2) by (simp add: max_depth_def parsed_def utf8_clean_plain)
  show ?thesis
    using o(1) quote_not_null
    by (simp add: decodeStrictArguments_def m Let_def max_depth_def find_field_def decode_quoted
        del: decode_value.simps)
qed

text \<open>
  C6: what a client writes with \<open>write_file\<close> it reads back with \<open>read_file\<close>. Links are not
  followed, and the host has no faults. If the write of a marshalled text succeeds
  and the limit of the server allows its size, the read of the same path gives exactly
  that text - with bytes that are no UTF-8 replaced, once, by the first encoding. The
  exception is a write that overwrote through a final symbolic link: it succeeds too,
  but the read fails with \<open>invalid path\<close>.
\<close>

theorem write_file_read_file:
  assumes "marshal (GObj [(''path'', GStr p), (''content'', GStr d), (''overwrite'', GBool ow)]) = Some rawW"
    and "marshal (GObj [(''path'', GStr p)]) = Some rawR"
    and "WriteFileTool_Execute (local_fsys f) h rawW = (h', Inr v)"
    and "fs_ok h f" "quiet h" "0 < mx" "int (length (utf8_clean d)) \<le> mx"
  shows "ReadFileTool_Execute (local_fsys f) mx h' rawR =
    (h', if ow \<and> final_link h f (utf8_clean p)
         then Inl \<lparr>er_Code = -32602, er_Message = ''filesystem error: invalid path''\<rparr>
         else Inr (Plain (GObj [(''content'', GStr (utf8_clean d)), (''size'', GInt (int (length (utf8_clean d))))])))"
proof -
  have nb: "isNonBlank (utf8_clean p)" and w: "fs_Write h f (utf8_clean p) (utf8_clean d) ow = (h', None)"
    using assms(3) by (auto simp: WriteFileTool_Execute_def write_arguments [OF assms(1)] str_field_def bool_field_def
        field_val_def local_fsys_def Let_def split: if_splits prod.splits option.splits)
  have exec: "ReadFileTool_Execute (local_fsys f) mx h' rawR =
    (h', case fs_Read h' f (utf8_clean p) mx of Inl e \<Rightarrow> Inl (mapFilesystemError e)
         | Inr x \<Rightarrow> Inr (Plain (GObj [(''content'', GStr x), (''size'', GInt (int (length x)))])))"
    using nb by (simp add: ReadFileTool_Execute_def read_arguments [OF assms(2)] str_field_def int_ptr_field_def
        field_val_def local_fsys_def Let_def split: sum.split)
  have err: "mapFilesystemError ErrSymlinkDenied = \<lparr>er_Code = -32602, er_Message = ''filesystem error: invalid path''\<rparr>"
    by code_simp
  show ?thesis
  proof (cases "ow \<and> final_link h f (utf8_clean p)")
    case True
    then show ?thesis using read_after_write_link [OF _ assms(4,5), of "utf8_clean p"] w exec err by simp
  next
    case False
    then show ?thesis using read_after_write [OF w assms(4,5) _ assms(6,7)] exec by auto
  qed
qed

lemma write_file_read_file_witness:
  "(let h' = fst (WriteFileTool_Execute (local_fsys sample_fs) clean_host ''{\"path\":\"sub/n\",\"content\":\"hi\",\"overwrite\":false}'')
    in snd (ReadFileTool_Execute (local_fsys sample_fs) 10 h' ''{\"path\":\"sub/n\"}'') =
      Inr (Plain (GObj [(''content'', GStr ''hi''), (''size'', GInt 2)]))) \<and>
   (let h' = fst (WriteFileTool_Execute (local_fsys sample_fs) sample_host ''{\"path\":\"out\",\"content\":\"hi\",\"overwrite\":true}'')
    in snd (ReadFileTool_Execute (local_fsys sample_fs) 10 h' ''{\"path\":\"out\"}'') =
      Inl \<lparr>er_Code = -32602, er_Message = ''filesystem error: invalid path''\<rparr>)"
proof -
  let ?w = "WriteFileTool_Execute (local_fsys sample_fs) clean_host ''{\"path\":\"sub/n\",\"content\":\"hi\",\"overwrite\":false}''"
  let ?o = "WriteFileTool_Execute (local_fsys sample_fs) sample_host ''{\"path\":\"out\",\"content\":\"hi\",\"overwrite\":true}''"
  have m: "marshal (GObj [(''path'', GStr ''sub/n''), (''content'', GStr ''hi''), (''overwrite'', GBool False)]) =
      Some ''{\"path\":\"sub/n\",\"content\":\"hi\",\"overwrite\":false}''"
    "marshal (GObj [(''path'', GStr ''sub/n'')]) = Some ''{\"path\":\"sub/n\"}''" by code_simp+
  have n: "marshal (GObj [(''path'', GStr ''out''), (''content'', GStr ''hi''), (''overwrite'', GBool True)]) =
      Some ''{\"path\":\"out\",\"content\":\"hi\",\"overwrite\":true}''"
    "marshal (GObj [(''path'', GStr ''out'')]) = Some ''{\"path\":\"out\"}''" by code_simp+
  have "snd ?w = Inr (Plain (GObj [(''path'', GStr ''sub/n''), (''size'', GInt 2), (''written'', GBool True)]))"
    "snd ?o = Inr (Plain (GObj [(''path'', GStr ''out''), (''size'', GInt 2), (''written'', GBool True)]))" by code_simp+
  then have w: "?w = (fst ?w, Inr (Plain (GObj [(''path'', GStr ''sub/n''), (''size'', GInt 2), (''written'', GBool True)])))"
    and o: "?o = (fst ?o, Inr (Plain (GObj [(''path'', GStr ''out''), (''size'', GInt 2), (''written'', GBool True)])))"
    by (simp_all add: prod_eq_iff)
  show ?thesis
    using write_file_read_file [OF m w sample_fs_ok(1) sample_quiet(1), of 10]
      write_file_read_file [OF n o sample_fs_ok(2) sample_quiet(2), of 10] sample_final_link
    by (simp add: Let_def utf8_clean_plain)
qed

end
