(* ===== verification/Config.thy ===== *)
theory Config
  imports GoPath
begin

text \<open>
  Package \<open>internal/config\<close>: the configuration of the server, read from the environment
  and validated before anything else happens. The environment is a map from names to
  values. \<open>int\<close> has 64 bits on the platforms the project builds for.
\<close>

subsection \<open>Errors\<close>

datatype ErrorCategory = CategoryMissingRoot | CategoryInvalidRoot | CategoryRootNotFound
  | CategoryRootNotDirectory | CategoryRootNotAllowed | CategoryInvalidProfile
  | CategoryInvalidDevelopmentOption | CategoryStartupFailed

fun category_string :: "ErrorCategory \<Rightarrow> string" where
  "category_string CategoryMissingRoot = ''missing_root''"
| "category_string CategoryInvalidRoot = ''invalid_root''"
| "category_string CategoryRootNotFound = ''root_not_found''"
| "category_string CategoryRootNotDirectory = ''root_not_directory''"
| "category_string CategoryRootNotAllowed = ''root_not_allowed''"
| "category_string CategoryInvalidProfile = ''invalid_profile''"
| "category_string CategoryInvalidDevelopmentOption = ''invalid_development_option''"
| "category_string CategoryStartupFailed = ''startup_failed''"

text \<open>An error with a category and a cause of any type, or one of \<open>errors.New\<close>.\<close>

datatype 'c config_error = ConfigError (Category: ErrorCategory) (Cause: "'c option") | PlainError string

definition NewError :: "ErrorCategory \<Rightarrow> 'c option \<Rightarrow> 'c config_error" where
  "NewError category cause = ConfigError category cause"

definition Error_text :: "'c config_error \<Rightarrow> string" where
  "Error_text e = (case e of ConfigError category cause \<Rightarrow> category_string category | PlainError m \<Rightarrow> m)"

definition CategoryOf :: "'c config_error \<Rightarrow> ErrorCategory option" where
  "CategoryOf e = (case e of ConfigError category cause \<Rightarrow> Some category | PlainError m \<Rightarrow> None)"

subsection \<open>The configuration\<close>

record FilesystemConfig =
  rootPath :: string
  readOnly :: bool
  allowCWDRoot :: bool
  maxFileSize :: int
  maxWriteBytes :: int
  maxListEntries :: int
  maxCopyBytes :: int
  maxDeleteEntries :: int

record SecurityConfig =
  allowHiddenFiles :: bool
  allowUNCPaths :: bool
  followSymlinks :: bool

record ServerConfig =
  server_name :: string
  server_version :: string
  server_debug :: bool
  maxMessageBytes :: int
  maxArgumentBytes :: int
  maxResponseBytes :: int

record config =
  cf_filesystem :: FilesystemConfig
  cf_security :: SecurityConfig
  cf_server :: ServerConfig

definition DefaultConfig :: config where
  "DefaultConfig =
     \<lparr>cf_filesystem = \<lparr>rootPath = [], readOnly = False, allowCWDRoot = False,
        maxFileSize = 10 * 1024 * 1024, maxWriteBytes = 10 * 1024 * 1024, maxListEntries = 1000,
        maxCopyBytes = 10 * 1024 * 1024, maxDeleteEntries = 1000\<rparr>,
      cf_security = \<lparr>allowHiddenFiles = False, allowUNCPaths = False, followSymlinks = False\<rparr>,
      cf_server = \<lparr>server_name = ''flashgate'', server_version = ''0.1.0-dev'', server_debug = False,
        maxMessageBytes = 16 * 1024 * 1024, maxArgumentBytes = 12 * 1024 * 1024,
        maxResponseBytes = 16 * 1024 * 1024\<rparr>\<rparr>"

subsection \<open>Loading\<close>

type_synonym env = "string \<rightharpoonup> string"

definition Getenv :: "env \<Rightarrow> string \<Rightarrow> string" where
  "Getenv env name = (case env name of None \<Rightarrow> [] | Some v \<Rightarrow> v)"

datatype load_cause = ParseFailed

definition invalid_value :: "string \<Rightarrow> load_cause config_error" where
  "invalid_value name = PlainError (''invalid '' @ name @ '' value'')"

definition parsePositiveInt64 :: "string \<Rightarrow> string \<Rightarrow> (load_cause config_error, int) result" where
  "parsePositiveInt64 v name =
     (case parse_int 64 v of
        None \<Rightarrow> Inl (invalid_value name)
      | Some parsed \<Rightarrow> if parsed \<le> 0 then Inl (invalid_value name) else Inr parsed)"

definition parsePositiveInt :: "string \<Rightarrow> string \<Rightarrow> (load_cause config_error, int) result" where
  "parsePositiveInt v name =
     (case parse_int 64 v of
        None \<Rightarrow> Inl (invalid_value name)
      | Some parsed \<Rightarrow> if parsed \<le> 0 then Inl (invalid_value name) else Inr parsed)"

text \<open>The next statement of a function that returns on an error.\<close>

definition and_then :: "('e, 'a) result \<Rightarrow> ('a \<Rightarrow> ('e, 'b) result) \<Rightarrow> ('e, 'b) result" where
  "and_then r f = (case r of Inl e \<Rightarrow> Inl e | Inr v \<Rightarrow> f v)"

text \<open>The blocks of the loader: a set value is parsed, an unset or empty one leaves the default.\<close>

definition load_number :: "env \<Rightarrow> string \<Rightarrow> int \<Rightarrow> (load_cause config_error, int) result" where
  "load_number env name dflt =
     (let v = Getenv env name in if v \<noteq> [] then parsePositiveInt64 v name else Inr dflt)"

definition load_count :: "env \<Rightarrow> string \<Rightarrow> int \<Rightarrow> (load_cause config_error, int) result" where
  "load_count env name dflt =
     (let v = Getenv env name in if v \<noteq> [] then parsePositiveInt v name else Inr dflt)"

definition load_flag :: "env \<Rightarrow> string \<Rightarrow> bool \<Rightarrow> (load_cause config_error, bool) result" where
  "load_flag env name dflt =
     (let v = Getenv env name in
      if v \<noteq> [] then (case parse_bool v of None \<Rightarrow> Inl (invalid_value name) | Some b \<Rightarrow> Inr b)
      else Inr dflt)"

definition load_read_only :: "env \<Rightarrow> bool \<Rightarrow> (load_cause config_error, bool) result" where
  "load_read_only env dflt =
     (case env ''MCP_READ_ONLY'' of
        None \<Rightarrow> Inr dflt
      | Some v \<Rightarrow>
          (case parse_bool v of
             None \<Rightarrow> Inl (NewError CategoryInvalidProfile (Some ParseFailed))
           | Some b \<Rightarrow> Inr b))"

definition load_cwd_root :: "env \<Rightarrow> bool \<Rightarrow> (load_cause config_error, bool) result" where
  "load_cwd_root env dflt =
     (case env ''MCP_ALLOW_CWD_ROOT'' of
        None \<Rightarrow> Inr dflt
      | Some v \<Rightarrow>
          if v = ''true'' then Inr True
          else if v = ''false'' then Inr False
          else Inl (NewError CategoryInvalidDevelopmentOption None))"

definition Validate :: "config \<Rightarrow> load_cause config_error option" where
  "Validate c =
     (let f = cf_filesystem c; s = cf_server c in
      if trim_space (rootPath f) = [] then Some (NewError CategoryInvalidRoot None)
      else if maxFileSize f \<le> 0 then Some (PlainError ''maximum file size must be greater than zero'')
      else if maxWriteBytes f \<le> 0 then Some (PlainError ''maximum write size must be greater than zero'')
      else if maxListEntries f \<le> 0 then Some (PlainError ''maximum list entries must be greater than zero'')
      else if maxCopyBytes f \<le> 0 then Some (PlainError ''maximum copy size must be greater than zero'')
      else if maxDeleteEntries f \<le> 0 then Some (PlainError ''maximum delete entries must be greater than zero'')
      else if maxMessageBytes s \<le> 0 then Some (PlainError ''maximum JSON-RPC message size must be greater than zero'')
      else if maxArgumentBytes s \<le> 0 then Some (PlainError ''maximum tool argument size must be greater than zero'')
      else if maxResponseBytes s \<le> 0 then Some (PlainError ''maximum JSON-RPC response size must be greater than zero'')
      else if IsAbs (rootPath f) then None
      else if rootPath f = ''.'' \<and> allowCWDRoot f then None
      else Some (NewError CategoryInvalidRoot None))"

definition LoadFromEnvironment :: "env \<Rightarrow> (load_cause config_error, config) result" where
  "LoadFromEnvironment env =
     (let f = cf_filesystem DefaultConfig; se = cf_security DefaultConfig; s = cf_server DefaultConfig in
      case env ''MCP_ROOT'' of
        None \<Rightarrow> Inl (NewError CategoryMissingRoot None)
      | Some root \<Rightarrow>
          and_then (load_read_only env (readOnly f)) (\<lambda>ro.
          and_then (load_cwd_root env (allowCWDRoot f)) (\<lambda>cwd.
          and_then (load_number env ''MCP_MAX_FILE_SIZE'' (maxFileSize f)) (\<lambda>fileSize.
          and_then (load_number env ''MCP_MAX_WRITE_BYTES'' (maxWriteBytes f)) (\<lambda>writeBytes.
          and_then (load_count env ''MCP_MAX_LIST_ENTRIES'' (maxListEntries f)) (\<lambda>listEntries.
          and_then (load_number env ''MCP_MAX_COPY_BYTES'' (maxCopyBytes f)) (\<lambda>copyBytes.
          and_then (load_count env ''MCP_MAX_DELETE_ENTRIES'' (maxDeleteEntries f)) (\<lambda>deleteEntries.
          and_then (load_flag env ''MCP_ALLOW_HIDDEN_FILES'' (allowHiddenFiles se)) (\<lambda>hidden.
          and_then (load_flag env ''MCP_ALLOW_UNC_PATHS'' (allowUNCPaths se)) (\<lambda>unc.
          and_then (load_flag env ''MCP_FOLLOW_SYMLINKS'' (followSymlinks se)) (\<lambda>links.
          and_then (load_flag env ''MCP_DEBUG'' (server_debug s)) (\<lambda>debug.
          and_then (load_number env ''MCP_MAX_JSONRPC_MESSAGE_BYTES'' (maxMessageBytes s)) (\<lambda>messageBytes.
          and_then (load_number env ''MCP_MAX_TOOL_ARGUMENT_BYTES'' (maxArgumentBytes s)) (\<lambda>argumentBytes.
          and_then (load_number env ''MCP_MAX_RESPONSE_BYTES'' (maxResponseBytes s)) (\<lambda>responseBytes.
            let cfg = \<lparr>cf_filesystem = \<lparr>rootPath = root, readOnly = ro, allowCWDRoot = cwd,
                          maxFileSize = fileSize, maxWriteBytes = writeBytes, maxListEntries = listEntries,
                          maxCopyBytes = copyBytes, maxDeleteEntries = deleteEntries\<rparr>,
                        cf_security = \<lparr>allowHiddenFiles = hidden, allowUNCPaths = unc, followSymlinks = links\<rparr>,
                        cf_server = \<lparr>server_name = server_name s, server_version = server_version s,
                          server_debug = debug, maxMessageBytes = messageBytes,
                          maxArgumentBytes = argumentBytes, maxResponseBytes = responseBytes\<rparr>\<rparr>
            in case Validate cfg of None \<Rightarrow> Inr cfg | Some e \<Rightarrow> Inl e)))))))))))))))"

subsection \<open>Facts\<close>

lemma and_then_Inr: "and_then r f = Inr v \<longleftrightarrow> (\<exists>x. r = Inr x \<and> f x = Inr v)"
  by (auto simp: and_then_def split: sum.splits)

lemma and_then_Inl: "and_then r f = Inl e \<longleftrightarrow> r = Inl e \<or> (\<exists>x. r = Inr x \<and> f x = Inl e)"
  by (auto simp: and_then_def split: sum.splits)

text \<open>What a loaded number is: a positive 64-bit value.\<close>

lemma parse_int_range: "parse_int 64 v = Some i \<Longrightarrow> - (2 ^ 63) \<le> i \<and> i < 2 ^ 63"
  by (drule parse_int_bound) auto

lemma parsePositive_Inr:
  "parsePositiveInt64 v name = Inr i \<longleftrightarrow> parse_int 64 v = Some i \<and> 0 < i"
  "parsePositiveInt v name = Inr i \<longleftrightarrow> parse_int 64 v = Some i \<and> 0 < i"
  by (auto simp: parsePositiveInt64_def parsePositiveInt_def split: option.split)

lemma load_number_Inr:
  "load_number env name d = Inr i \<Longrightarrow> (Getenv env name = [] \<and> i = d) \<or> (parse_int 64 (Getenv env name) = Some i \<and> 0 < i)"
  "load_count env name d = Inr i \<Longrightarrow> (Getenv env name = [] \<and> i = d) \<or> (parse_int 64 (Getenv env name) = Some i \<and> 0 < i)"
  by (auto simp: load_number_def load_count_def Let_def parsePositive_Inr split: if_splits)

definition limit_ok :: "int \<Rightarrow> bool" where
  "limit_ok i \<longleftrightarrow> 0 < i \<and> i < 2 ^ 63"

lemma load_limit:
  "load_number env name d = Inr i \<Longrightarrow> limit_ok d \<Longrightarrow> limit_ok i"
  "load_count env name d = Inr i \<Longrightarrow> limit_ok d \<Longrightarrow> limit_ok i"
  using load_number_Inr parse_int_range by (fastforce simp: limit_ok_def)+

definition config_ok :: "config \<Rightarrow> bool" where
  "config_ok c \<longleftrightarrow>
     list_all limit_ok [maxFileSize (cf_filesystem c), maxWriteBytes (cf_filesystem c),
       maxListEntries (cf_filesystem c), maxCopyBytes (cf_filesystem c), maxDeleteEntries (cf_filesystem c),
       maxMessageBytes (cf_server c), maxArgumentBytes (cf_server c), maxResponseBytes (cf_server c)] \<and>
     trim_space (rootPath (cf_filesystem c)) \<noteq> [] \<and>
     (IsAbs (rootPath (cf_filesystem c)) \<or>
      rootPath (cf_filesystem c) = ''.'' \<and> allowCWDRoot (cf_filesystem c))"

lemma Validate_None_root:
  "Validate c = None \<Longrightarrow> trim_space (rootPath (cf_filesystem c)) \<noteq> [] \<and>
     (IsAbs (rootPath (cf_filesystem c)) \<or>
      rootPath (cf_filesystem c) = ''.'' \<and> allowCWDRoot (cf_filesystem c))"
  by (auto simp: Validate_def Let_def split: if_splits)

lemma default_limits:
  "limit_ok (maxFileSize (cf_filesystem DefaultConfig))" "limit_ok (maxWriteBytes (cf_filesystem DefaultConfig))"
  "limit_ok (maxListEntries (cf_filesystem DefaultConfig))" "limit_ok (maxCopyBytes (cf_filesystem DefaultConfig))"
  "limit_ok (maxDeleteEntries (cf_filesystem DefaultConfig))" "limit_ok (maxMessageBytes (cf_server DefaultConfig))"
  "limit_ok (maxArgumentBytes (cf_server DefaultConfig))" "limit_ok (maxResponseBytes (cf_server DefaultConfig))"
  by (simp_all add: DefaultConfig_def limit_ok_def)

lemma default_flags:
  "readOnly (cf_filesystem DefaultConfig) = False" "allowCWDRoot (cf_filesystem DefaultConfig) = False"
  "followSymlinks (cf_security DefaultConfig) = False" "allowHiddenFiles (cf_security DefaultConfig) = False"
  "allowUNCPaths (cf_security DefaultConfig) = False"
  by (simp_all add: DefaultConfig_def)

lemma LoadFromEnvironment_Inr:
  assumes "LoadFromEnvironment env = Inr c"
  shows "Validate c = None" "env ''MCP_ROOT'' = Some (rootPath (cf_filesystem c))"
    "load_read_only env False = Inr (readOnly (cf_filesystem c))"
    "load_cwd_root env False = Inr (allowCWDRoot (cf_filesystem c))"
    "load_number env ''MCP_MAX_FILE_SIZE'' (maxFileSize (cf_filesystem DefaultConfig)) = Inr (maxFileSize (cf_filesystem c))"
    "load_number env ''MCP_MAX_WRITE_BYTES'' (maxWriteBytes (cf_filesystem DefaultConfig)) = Inr (maxWriteBytes (cf_filesystem c))"
    "load_count env ''MCP_MAX_LIST_ENTRIES'' (maxListEntries (cf_filesystem DefaultConfig)) = Inr (maxListEntries (cf_filesystem c))"
    "load_number env ''MCP_MAX_COPY_BYTES'' (maxCopyBytes (cf_filesystem DefaultConfig)) = Inr (maxCopyBytes (cf_filesystem c))"
    "load_count env ''MCP_MAX_DELETE_ENTRIES'' (maxDeleteEntries (cf_filesystem DefaultConfig)) = Inr (maxDeleteEntries (cf_filesystem c))"
    "load_flag env ''MCP_FOLLOW_SYMLINKS'' False = Inr (followSymlinks (cf_security c))"
    "load_number env ''MCP_MAX_JSONRPC_MESSAGE_BYTES'' (maxMessageBytes (cf_server DefaultConfig)) = Inr (maxMessageBytes (cf_server c))"
    "load_number env ''MCP_MAX_TOOL_ARGUMENT_BYTES'' (maxArgumentBytes (cf_server DefaultConfig)) = Inr (maxArgumentBytes (cf_server c))"
    "load_number env ''MCP_MAX_RESPONSE_BYTES'' (maxResponseBytes (cf_server DefaultConfig)) = Inr (maxResponseBytes (cf_server c))"
    "load_flag env ''MCP_ALLOW_HIDDEN_FILES'' False = Inr (allowHiddenFiles (cf_security c))"
    "load_flag env ''MCP_ALLOW_UNC_PATHS'' False = Inr (allowUNCPaths (cf_security c))"
  using assms unfolding LoadFromEnvironment_def Let_def
  by (clarsimp simp: and_then_Inr default_flags split: option.splits)+

lemma loaded_config_ok:
  assumes "LoadFromEnvironment env = Inr c"
  shows "config_ok c"
proof -
  note l = LoadFromEnvironment_Inr [OF assms]
  note limits = l(5) [THEN load_limit(1)] l(6) [THEN load_limit(1)] l(7) [THEN load_limit(2)]
    l(8) [THEN load_limit(1)] l(9) [THEN load_limit(2)] l(11-13) [THEN load_limit(1)]
  show ?thesis
    using limits Validate_None_root [OF l(1)]
    by (simp add: config_ok_def default_limits)
qed

end
