(* ===== verification/Version.thy ===== *)
theory Version
  imports GoStrings
begin

text \<open>
  Package \<open>internal/version\<close>: semantic versions and the file version derived from them, and
  the texts the command line prints. \<open>Get\<close> itself, which reads variables set by the linker
  and the clock of the build, is not modelled; its result is the record \<open>Info\<close>.
\<close>

subsection \<open>Build identity\<close>

record Info =
  ProductName :: string
  BinaryName :: string
  iVersion :: string
  FileVersion :: string
  Commit :: string
  SourceTime :: string
  Modified :: bool
  GoVersion :: string
  GOOS :: string
  GOARCH :: string
  PublicArch :: string
  Copyright :: string
  BuildManifest :: string

definition Info_String :: "Info \<Rightarrow> string" where
  "Info_String i = BinaryName i @ '' '' @ iVersion i"

definition VerboseString :: "Info \<Rightarrow> string" where
  "VerboseString i =
     (let nl = [CHR 0x0A] in
      ''Product:      '' @ ProductName i @ nl @
      ''Version:      '' @ iVersion i @ nl @
      ''File version: '' @ FileVersion i @ nl @
      ''Commit:       '' @ Commit i @ nl @
      ''Source time:  '' @ SourceTime i @ nl @
      ''Modified:     '' @ (if Modified i then ''true'' else ''false'') @ nl @
      ''Go version:   '' @ GoVersion i @ nl @
      ''Platform:     '' @ GOOS i @ ''/'' @ PublicArch i @ nl @
      ''Go target:    '' @ GOOS i @ ''/'' @ GOARCH i)"

definition ShortCommit :: "Info \<Rightarrow> string" where
  "ShortCommit i = (if length (Commit i) \<le> 12 then Commit i else take 12 (Commit i))"

definition PublicArchitecture :: "string \<Rightarrow> string" where
  "PublicArchitecture goarch =
     (if goarch = ''amd64'' then ''x64'' else if goarch = ''arm64'' then ''arm64'' else goarch)"

text \<open>\<open>None\<close>: no explicit value.\<close>

definition version_parseBool :: "string \<Rightarrow> bool option" where
  "version_parseBool v =
     (let trimmed = trim_space v in if trimmed = [] then None else parse_bool trimmed)"

definition valueOrDefault :: "string \<Rightarrow> string \<Rightarrow> string" where
  "valueOrDefault v fallback =
     (let trimmed = trim_space v in if trimmed = [] then fallback else trimmed)"

subsection \<open>Semantic versions\<close>

definition validCoreNumber :: "string \<Rightarrow> bool" where
  "validCoreNumber v \<longleftrightarrow>
     \<not> (v = [] \<or> (length v > 1 \<and> hd v = CHR ''0'')) \<and> list_all is_digit v"

definition is_alpha :: "char \<Rightarrow> bool" where
  "is_alpha c \<longleftrightarrow> (65 \<le> (of_char c :: nat) \<and> of_char c \<le> (90 :: nat)) \<or> (97 \<le> (of_char c :: nat) \<and> of_char c \<le> (122 :: nat))"

text \<open>Other runes have bytes above 127 only, so that going over bytes refuses the same lists.\<close>

definition valid_identifier :: "bool \<Rightarrow> string \<Rightarrow> bool" where
  "valid_identifier rejectNumericLeadingZero identifier \<longleftrightarrow>
     identifier \<noteq> [] \<and>
     list_all (\<lambda>c. is_digit c \<or> is_alpha c \<or> c = CHR ''-'') identifier \<and>
     \<not> (rejectNumericLeadingZero \<and> list_all is_digit identifier \<and>
        length identifier > 1 \<and> hd identifier = CHR ''0'')"

definition validIdentifierList :: "string \<Rightarrow> bool \<Rightarrow> bool" where
  "validIdentifierList v rejectNumericLeadingZero \<longleftrightarrow>
     list_all (valid_identifier rejectNumericLeadingZero) (split_on CHR ''.'' v)"

datatype semver_error = InvalidSemVer string | ComponentOutOfRange string

text \<open>The numbers, from the first that is invalid or out of range on an error.\<close>

fun parse_core :: "string \<Rightarrow> string list \<Rightarrow> semver_error + nat list" where
  "parse_core v [] = Inr []"
| "parse_core v (part # parts) =
     (if \<not> validCoreNumber part then Inl (InvalidSemVer v)
      else case parse_uint 16 part of
        None \<Rightarrow> Inl (ComponentOutOfRange v)
      | Some number \<Rightarrow>
          (case parse_core v parts of Inl e \<Rightarrow> Inl e | Inr ns \<Rightarrow> Inr (number # ns)))"

definition parseSemVer :: "string \<Rightarrow> semver_error + nat \<times> nat \<times> nat" where
  "parseSemVer v =
     (if trim_space v \<noteq> v \<or> v = [] then Inl (InvalidSemVer v)
      else case cut_at CHR ''+'' v of (withoutBuild, buildMetadata, foundBuild) \<Rightarrow>
      if foundBuild \<and> (buildMetadata = [] \<or> CHR ''+'' \<in> set buildMetadata \<or> \<not> validIdentifierList buildMetadata False)
      then Inl (InvalidSemVer v)
      else case cut_at CHR ''-'' withoutBuild of (core, prerelease, foundPrerelease) \<Rightarrow>
      if foundPrerelease \<and> (prerelease = [] \<or> \<not> validIdentifierList prerelease True)
      then Inl (InvalidSemVer v)
      else let parts = split_on CHR ''.'' core in
      if length parts \<noteq> 3 then Inl (InvalidSemVer v)
      else case parse_core v parts of
        Inl e \<Rightarrow> Inl e
      | Inr ns \<Rightarrow> Inr (ns ! 0, ns ! 1, ns ! 2))"

definition core_text :: "nat \<Rightarrow> nat \<Rightarrow> nat \<Rightarrow> string" where
  "core_text major minor patch = digits_of major @ ''.'' @ digits_of minor @ ''.'' @ digits_of patch"

definition WindowsFileVersion :: "string \<Rightarrow> semver_error + string" where
  "WindowsFileVersion productVersion =
     (case parseSemVer productVersion of
        Inl e \<Rightarrow> Inl e
      | Inr (major, minor, patch) \<Rightarrow> Inr (core_text major minor patch @ ''.0''))"

subsection \<open>Facts\<close>

lemma digit_val_inj: "is_digit a \<Longrightarrow> char_of (48 + digit_val a) = a"
  by (simp add: is_digit_def digit_val_def)

lemma digit_val_range: "is_digit a \<Longrightarrow> digit_val a < 10" "is_digit a \<Longrightarrow> digit_val a = 0 \<longleftrightarrow> a = CHR ''0''"
  using of_char_eq_iff [of a "CHR ''0''"] by (auto simp: is_digit_def digit_val_def simp flip: of_char_eq_iff [where 'a = nat])

text \<open>A number without leading zeros is what its value prints as.\<close>

lemma decimal_pos: "list_all is_digit s \<Longrightarrow> s \<noteq> [] \<Longrightarrow> hd s \<noteq> CHR ''0'' \<Longrightarrow> 0 < decimal s"
proof (induction s rule: rev_induct)
  case (snoc c s)
  then show ?case using digit_val_range(2) by (cases s) (auto simp: decimal_snoc decimal_def)
qed simp

lemma digits_of_decimal: "validCoreNumber s \<Longrightarrow> digits_of (decimal s) = s"
proof (induction s rule: rev_induct)
  case (snoc c s)
  have d: "list_all is_digit s" "is_digit c" using snoc.prems by (auto simp: validCoreNumber_def)
  show ?case
  proof (cases "s = []")
    case True
    then show ?thesis using d digit_val_range digit_val_inj
      by (simp add: decimal_def digits_of.simps [of "digit_val c"])
  next
    case False
    then have h: "hd s \<noteq> CHR ''0''" using snoc.prems by (cases s) (auto simp: validCoreNumber_def)
    then have v: "validCoreNumber s" using False d by (simp add: validCoreNumber_def)
    have p: "0 < decimal s" by (rule decimal_pos [OF d(1) False h])
    have "digits_of (10 * decimal s + digit_val c) = digits_of (decimal s) @ [char_of (48 + digit_val c)]"
      using p digit_val_range(1) [OF d(2)] by (subst digits_of.simps) simp
    then show ?thesis using snoc.IH [OF v] digit_val_inj [OF d(2)] by (simp add: decimal_snoc)
  qed
qed (simp add: validCoreNumber_def)

lemma digits_of_first: "n \<noteq> 0 \<Longrightarrow> hd (digits_of n) \<noteq> CHR ''0''"
proof (induction n rule: digits_of.induct)
  case (1 n)
  show ?case
  proof (cases "n < 10")
    case True
    have "digit_val CHR ''0'' = 0" by (simp add: digit_val_def)
    then have "char_of (48 + n) \<noteq> CHR ''0''" using digit_val_char_of [OF True] 1(2) by metis
    then show ?thesis using True by (simp add: digits_of.simps [of n])
  next
    case False
    then have "hd (digits_of (n div 10)) \<noteq> CHR ''0''" using 1 by simp
    then show ?thesis using False digits_of_digits [of "n div 10"] by (simp add: digits_of.simps [of n])
  qed
qed

lemma validCoreNumber_digits: "validCoreNumber (digits_of n)"
proof (cases "n = 0")
  case True
  then show ?thesis by (simp add: digits_of.simps [of 0] validCoreNumber_def is_digit_def)
next
  case False
  then show ?thesis using digits_of_first [of n] digits_of_digits [of n] by (simp add: validCoreNumber_def)
qed

text \<open>Versions have no white space, so that trimming leaves them.\<close>

definition version_char :: "char \<Rightarrow> bool" where
  "version_char c \<longleftrightarrow> is_digit c \<or> is_alpha c \<or> c \<in> {CHR ''.'', CHR ''-'', CHR ''+''}"

lemma version_char_plain:
  "version_char c \<Longrightarrow> c \<notin> {CHR 0x20, CHR 0x09, CHR 0x0A, CHR 0x0B, CHR 0x0C, CHR 0x0D, CHR 0xC2, CHR 0xE1, CHR 0xE2, CHR 0xE3}
     \<and> (of_char c :: nat) < 128"
  by (auto simp: version_char_def is_digit_def is_alpha_def)

lemma space_len_rev_plain:
  assumes "c \<notin> {CHR 0x20, CHR 0x09, CHR 0x0A, CHR 0x0B, CHR 0x0C, CHR 0x0D, CHR 0xC2, CHR 0xE1, CHR 0xE2, CHR 0xE3} \<and> (of_char c :: nat) < 128"
  shows "space_len_rev (c # s) = 0"
proof -
  have a: "\<not> ascii_space c" using conjunct1 [OF assms] unfolding ascii_space_def by blast
  have "\<not> 128 \<le> (of_char c :: nat)" using conjunct2 [OF assms] by simp
  then have n: "c \<noteq> CHR 0x80" "c \<noteq> CHR 0x81" "c \<noteq> CHR 0x82" "c \<noteq> CHR 0x83" "c \<noteq> CHR 0x84" "c \<noteq> CHR 0x85"
    "c \<noteq> CHR 0x86" "c \<noteq> CHR 0x87" "c \<noteq> CHR 0x88" "c \<noteq> CHR 0x89" "c \<noteq> CHR 0x8A" "c \<noteq> CHR 0xA0" "c \<noteq> CHR 0x9F"
    "c \<noteq> CHR 0xA8" "c \<noteq> CHR 0xA9" "c \<noteq> CHR 0xAF"
    by auto
  have b: "\<not> space2 b c" for b by (simp only: space2_def insert_iff empty_iff n simp_thms)
  have "\<not> space3 a b c" for a b by (simp only: space3_def insert_iff empty_iff prod.inject n simp_thms)
  then show ?thesis using a b by (simp add: space_len_rev_def split: list.split)
qed

lemma trim_ends:
  assumes "version_char (hd s)" "version_char (last s)" "s \<noteq> []"
  shows "trim_space s = s"
proof -
  have "space_len s = 0" by (rule space_len_plain) (use version_char_plain [OF assms(1)] in blast)
  moreover have "rev s = last s # rev (butlast s)"
    using assms(3) by (metis append_butlast_last_id rev_append rev.simps append_Nil append_Cons)
  then have "space_len_rev (rev s) = 0" using space_len_rev_plain version_char_plain [OF assms(2)] by metis
  ultimately show ?thesis by (rule trim_space_unchanged)
qed

lemma trim_version: "list_all version_char v \<Longrightarrow> trim_space v = v"
  by (cases "v = []") (auto simp: list_all_iff intro!: trim_ends)

text \<open>The suffixes of a version: a pre-release and build metadata.\<close>

definition semver_suffix :: "string option \<Rightarrow> string option \<Rightarrow> string" where
  "semver_suffix pre build =
     (case pre of None \<Rightarrow> [] | Some p \<Rightarrow> CHR ''-'' # p) @ (case build of None \<Rightarrow> [] | Some b \<Rightarrow> CHR ''+'' # b)"

lemma identifier_chars:
  assumes "validIdentifierList v b"
  shows "list_all version_char v" "CHR ''+'' \<notin> set v"
proof -
  have w: "list_all (\<lambda>c. is_digit c \<or> is_alpha c \<or> c = CHR ''-'') w" if "w \<in> set (split_on CHR ''.'' v)" for w
    using assms that by (auto simp: validIdentifierList_def valid_identifier_def list_all_iff)
  have "set v \<subseteq> {CHR ''.''} \<union> \<Union> (set ` set (split_on CHR ''.'' v))"
    by (induction v) (fastforce split: list.splits if_splits)+
  then have c: "is_digit c \<or> is_alpha c \<or> c = CHR ''-'' \<or> c = CHR ''.''" if "c \<in> set v" for c
    using that w by (fastforce simp: list_all_iff)
  then show "list_all version_char v" by (auto simp: list_all_iff version_char_def)
  show "CHR ''+'' \<notin> set v" using c [of "CHR ''+''"] by (auto simp: is_digit_def is_alpha_def)
qed

definition valid_suffix :: "string option \<Rightarrow> string option \<Rightarrow> bool" where
  "valid_suffix pre build \<longleftrightarrow>
     (case pre of None \<Rightarrow> True | Some p \<Rightarrow> validIdentifierList p True) \<and>
     (case build of None \<Rightarrow> True | Some b \<Rightarrow> validIdentifierList b False)"

lemma valid_not_Nil: "validIdentifierList v b \<Longrightarrow> v \<noteq> []"
  by (auto simp: validIdentifierList_def valid_identifier_def)

lemma digits_not: "\<not> is_digit c \<Longrightarrow> c \<notin> set (digits_of n)"
  using digits_of_digits [of n] by (auto simp: list_all_iff)

lemma core_chars:
  "CHR ''+'' \<notin> set (core_text a b c)" "CHR ''-'' \<notin> set (core_text a b c)" "list_all version_char (core_text a b c)"
  "core_text a b c \<noteq> []"
proof -
  have "\<not> is_digit CHR ''+''" "\<not> is_digit CHR ''-''" by (simp_all add: is_digit_def)
  then show "CHR ''+'' \<notin> set (core_text a b c)" "CHR ''-'' \<notin> set (core_text a b c)"
    by (simp_all add: core_text_def digits_not)
  show "list_all version_char (core_text a b c)" "core_text a b c \<noteq> []"
    using digits_of_digits by (auto simp: core_text_def version_char_def list_all_iff)
qed

lemma core_split: "split_on CHR ''.'' (core_text a b c) = [digits_of a, digits_of b, digits_of c]"
proof -
  have "\<not> is_digit CHR ''.''" by (simp add: is_digit_def)
  then have d: "split_on CHR ''.'' (digits_of n) = [digits_of n]" for n by (simp add: split_on_no_occ digits_not)
  show ?thesis by (simp add: core_text_def split_on_append_sep d)
qed

lemma suffix_chars: "valid_suffix pre build \<Longrightarrow> list_all version_char (semver_suffix pre build)"
  using identifier_chars(1)
  by (auto simp: valid_suffix_def semver_suffix_def version_char_def split: option.splits)

lemma parseSemVer_accepts:
  assumes "a < 2 ^ 16" "b < 2 ^ 16" "c < 2 ^ 16" "valid_suffix pre build"
  shows "parseSemVer (core_text a b c @ semver_suffix pre build) = Inr (a, b, c)"
proof -
  let ?v = "core_text a b c @ semver_suffix pre build"
  have t: "trim_space ?v = ?v" "?v \<noteq> []"
    using core_chars [of a b c] suffix_chars [OF assms(4)] by (auto intro: trim_version)
  define w where "w = core_text a b c @ semver_suffix pre None"
  have "CHR ''+'' \<notin> set w"
    using core_chars(1) assms(4) identifier_chars(2)
    by (auto simp: w_def semver_suffix_def valid_suffix_def split: option.splits)
  then have plus: "cut_at CHR ''+'' ?v = (w, case build of None \<Rightarrow> [] | Some b \<Rightarrow> b, build \<noteq> None)"
    using cut_at_found [of "CHR ''+''" w] cut_at_none [of "CHR ''+''" w]
    by (auto simp: w_def semver_suffix_def split: option.split)
  have minus: "cut_at CHR ''-'' w = (core_text a b c, case pre of None \<Rightarrow> [] | Some p \<Rightarrow> p, pre \<noteq> None)"
    using cut_at_found [OF core_chars(2)] cut_at_none [OF core_chars(2)]
    by (auto simp: w_def semver_suffix_def split: option.split)
  have n: "parse_core ?v [digits_of a, digits_of b, digits_of c] = Inr [a, b, c]"
    using assms(1-3) by (simp add: validCoreNumber_digits parse_uint_digits_of)
  let ?bs = "case build of None \<Rightarrow> [] | Some b \<Rightarrow> b" and ?ps = "case pre of None \<Rightarrow> [] | Some p \<Rightarrow> p"
  have c0: "\<not> (trim_space ?v \<noteq> ?v \<or> ?v = [])" using t by blast
  have c1: "\<not> (build \<noteq> None \<and> (?bs = [] \<or> CHR ''+'' \<in> set ?bs \<or> \<not> validIdentifierList ?bs False))"
    using assms(4) identifier_chars(2) valid_not_Nil by (cases build) (auto simp: valid_suffix_def)
  have c2: "\<not> (pre \<noteq> None \<and> (?ps = [] \<or> \<not> validIdentifierList ?ps True))"
    using assms(4) valid_not_Nil by (cases pre) (auto simp: valid_suffix_def)
  show ?thesis
    unfolding parseSemVer_def plus prod.case minus core_split Let_def n sum.case
      if_not_P [OF c0] if_not_P [OF c1] if_not_P [OF c2] by simp
qed

lemma parse_core_digits:
  "parse_core v ps = Inr ns \<Longrightarrow> ps = map digits_of ns \<and> list_all (\<lambda>n. n < 2 ^ 16) ns"
proof (induction ps arbitrary: ns)
  case (Cons p ps)
  then obtain n ns' where n: "validCoreNumber p" "parse_uint 16 p = Some n" "parse_core v ps = Inr ns'" "ns = n # ns'"
    by (auto split: if_splits option.splits sum.splits)
  have "n = decimal p" using n(2) by (auto simp: parse_uint_def split: if_splits)
  then show ?case using Cons.IH [OF n(3)] n digits_of_decimal [OF n(1)] parse_uint_bound [OF n(2)] by simp
qed simp

lemma parseSemVer_Inr:
  assumes "parseSemVer v = Inr (a, b, c)"
  shows "\<exists>pre build. v = core_text a b c @ semver_suffix pre build \<and> valid_suffix pre build \<and>
    a < 2 ^ 16 \<and> b < 2 ^ 16 \<and> c < 2 ^ 16"
proof -
  obtain w bm fb where plus: "cut_at CHR ''+'' v = (w, bm, fb)" by (metis surj_pair)
  obtain core pm fp where minus: "cut_at CHR ''-'' w = (core, pm, fp)" by (metis surj_pair)
  have g: "fb \<longrightarrow> validIdentifierList bm False" "fp \<longrightarrow> validIdentifierList pm True"
    and three: "length (split_on CHR ''.'' core) = 3"
    using assms unfolding parseSemVer_def plus prod.case minus by (auto simp: Let_def split: if_splits)
  have "\<exists>ns. parse_core v (split_on CHR ''.'' core) = Inr ns \<and> (a, b, c) = (ns ! 0, ns ! 1, ns ! 2)"
    using assms unfolding parseSemVer_def plus prod.case minus by (auto simp: Let_def split: if_splits sum.splits)
  then obtain ns where ns: "parse_core v (split_on CHR ''.'' core) = Inr ns" "a = ns ! 0" "b = ns ! 1" "c = ns ! 2" by blast
  note d = parse_core_digits [OF ns(1)]
  have "length ns = 3" using three d by (metis length_map)
  then have l: "ns = [a, b, c]" using ns(2-4) by (auto simp: numeral_3_eq_3 length_Suc_conv)
  have "core = join_with [CHR ''.''] (map digits_of ns)" using d join_split_on [of "CHR ''.''" core] by simp
  then have core: "core = core_text a b c" by (simp add: l core_text_def)
  have "v = core_text a b c @ semver_suffix (if fp then Some pm else None) (if fb then Some bm else None)"
    using cut_atD [OF plus] cut_atD [OF minus] core by (auto simp: semver_suffix_def)
  moreover have "valid_suffix (if fp then Some pm else None) (if fb then Some bm else None)"
    using g by (simp add: valid_suffix_def)
  moreover have "a < 2 ^ 16 \<and> b < 2 ^ 16 \<and> c < 2 ^ 16" using d l by simp
  ultimately show ?thesis by blast
qed

subsection \<open>Properties\<close>

text \<open>
  C31: file versions. The versions that have a Windows file version are exactly the semantic
  versions (three numbers without leading zeros, an optional pre-release, optional build
  metadata) whose numbers fit 16 bits, and their file version is the numbers followed by a
  zero; the version core is read back from what it prints as.
\<close>

theorem windows_file_version:
  "WindowsFileVersion v = Inr s \<longleftrightarrow>
     (\<exists>a b c pre build. v = core_text a b c @ semver_suffix pre build \<and> valid_suffix pre build \<and>
        a < 2 ^ 16 \<and> b < 2 ^ 16 \<and> c < 2 ^ 16 \<and> s = core_text a b c @ ''.0'')"
proof
  assume "WindowsFileVersion v = Inr s"
  then obtain a b c where "parseSemVer v = Inr (a, b, c)" "s = core_text a b c @ ''.0''"
    by (auto simp: WindowsFileVersion_def split: sum.splits)
  then show "\<exists>a b c pre build. v = core_text a b c @ semver_suffix pre build \<and> valid_suffix pre build \<and>
      a < 2 ^ 16 \<and> b < 2 ^ 16 \<and> c < 2 ^ 16 \<and> s = core_text a b c @ ''.0''"
    using parseSemVer_Inr by blast
next
  assume "\<exists>a b c pre build. v = core_text a b c @ semver_suffix pre build \<and> valid_suffix pre build \<and>
      a < 2 ^ 16 \<and> b < 2 ^ 16 \<and> c < 2 ^ 16 \<and> s = core_text a b c @ ''.0''"
  then show "WindowsFileVersion v = Inr s" using parseSemVer_accepts by (force simp: WindowsFileVersion_def)
qed

end
