(* ===== verification/Boot.thy ===== *)
theory Boot
  imports Config Version Wiring
begin

text \<open>
  \<open>cmd/server\<close>: from the arguments and the environment to the running server and the exit
  code. Standard input, output and the context are those of the server model; of standard
  error the lines written outside the diagnostics are kept.
\<close>

subsection \<open>Bootstrap\<close>

datatype boot_cause = LoadCause load_cause | RootCause goerr | ErrInvalidBootstrapDependencies

type_synonym boot_error = "boot_cause config_error"

text \<open>A Go \<open>error\<close> of the bootstrap or of the run.\<close>

datatype run_failure = StartupError boot_error | ServeError run_error

text \<open>A nil function is \<open>None\<close>, and so is a nil result, typed or not.\<close>

record bootstrapDependencies =
  loadConfig :: "(env \<Rightarrow> (boot_error, config) result) option"
  newFilesystem :: "(host \<Rightarrow> config \<Rightarrow> (goerr, fsys option) result) option"
  newToolRegistry :: "(fsys \<Rightarrow> int \<Rightarrow> tool_capabilities \<Rightarrow> registry option) option"
  newRouter :: "(string \<Rightarrow> string \<Rightarrow> registry \<Rightarrow> router option) option"
  newServer :: "(string \<Rightarrow> read_end \<Rightarrow> nat option \<Rightarrow> router \<Rightarrow> options \<Rightarrow> server option) option"

definition isNilBootstrapValue :: "'a option \<Rightarrow> bool" where
  "isNilBootstrapValue v \<longleftrightarrow> (case v of None \<Rightarrow> True | Some x \<Rightarrow> False)"

definition invalid_dependencies :: boot_error where
  "invalid_dependencies = NewError CategoryStartupFailed (Some ErrInvalidBootstrapDependencies)"

definition validateBootstrapDependencies :: "bootstrapDependencies \<Rightarrow> boot_error option" where
  "validateBootstrapDependencies d =
     (if isNilBootstrapValue (loadConfig d) \<or> isNilBootstrapValue (newFilesystem d) \<or>
         isNilBootstrapValue (newToolRegistry d) \<or> isNilBootstrapValue (newRouter d) \<or>
         isNilBootstrapValue (newServer d)
      then Some invalid_dependencies else None)"

definition categorizeRootError :: "goerr \<Rightarrow> boot_error" where
  "categorizeRootError err =
     (if is_not_exist err then NewError CategoryRootNotFound (Some (RootCause err))
      else if err = ErrRootNotDirectory then NewError CategoryRootNotDirectory (Some (RootCause err))
      else if is_permission err \<or> err = ErrHiddenPathDenied \<or> err = ErrUNCPathDenied \<or>
              err = ErrSymlinkDenied \<or> err = ErrReparsePointDenied \<or> err = ErrOutsideRoot
      then NewError CategoryRootNotAllowed (Some (RootCause err))
      else NewError CategoryStartupFailed (Some (RootCause err)))"

definition filesystemLimitsFromConfig :: "config \<Rightarrow> limits" where
  "filesystemLimitsFromConfig cfg =
     \<lparr>MaxWriteBytes = maxWriteBytes (cf_filesystem cfg), MaxListEntries = maxListEntries (cf_filesystem cfg),
      MaxCopyBytes = maxCopyBytes (cf_filesystem cfg), MaxDeleteEntries = maxDeleteEntries (cf_filesystem cfg)\<rparr>"

definition securityPolicyFromConfig :: "config \<Rightarrow> policy" where
  "securityPolicyFromConfig cfg =
     \<lparr>AllowHiddenFiles = allowHiddenFiles (cf_security cfg), AllowUNCPaths = allowUNCPaths (cf_security cfg),
      FollowSymlinks = followSymlinks (cf_security cfg)\<rparr>"

definition serverOptionsFromConfig :: "config \<Rightarrow> options" where
  "serverOptionsFromConfig cfg =
     \<lparr>MaxMessageBytes = maxMessageBytes (cf_server cfg), MaxArgumentBytes = maxArgumentBytes (cf_server cfg),
      MaxResponseBytes = maxResponseBytes (cf_server cfg), Diagnostics = server_debug (cf_server cfg)\<rparr>"

definition defaultBootstrapDependencies :: bootstrapDependencies where
  "defaultBootstrapDependencies =
     \<lparr>loadConfig = Some (\<lambda>env. case LoadFromEnvironment env of
          Inl e \<Rightarrow> Inl (map_config_error LoadCause e) | Inr cfg \<Rightarrow> Inr cfg),
      newFilesystem = Some (\<lambda>h cfg.
          case NewLocalFileSystemWithPolicyAndLimits h (rootPath (cf_filesystem cfg))
                 (securityPolicyFromConfig cfg) (filesystemLimitsFromConfig cfg) of
            Inl e \<Rightarrow> Inl e | Inr f \<Rightarrow> Inr (Some (local_fsys f))),
      newToolRegistry = Some (\<lambda>f m c. Some (createToolRegistry f m c)),
      newRouter = Some (\<lambda>name version reg. Some (createRouter name version reg)),
      newServer = Some (\<lambda>input fin room r opts. Some (NewWithOptions input fin room r opts))\<rparr>"

definition developmentCWDWarning :: string where
  "developmentCWDWarning = ''flashgate-mcp: warning: development CWD root enabled''"

text \<open>What a bootstrap leaves: lines on standard error, standard output, the messages for the
  diagnostics, the host, the error.\<close>

record boot_run =
  br_stderr :: "string list"
  br_stdout :: string
  br_log :: "string list"
  br_host :: host
  br_error :: "run_failure option"

definition not_started :: "host \<Rightarrow> boot_error \<Rightarrow> boot_run" where
  "not_started h e = \<lparr>br_stderr = [], br_stdout = [], br_log = [], br_host = h, br_error = Some (StartupError e)\<rparr>"

definition runWithIO ::
  "(nat \<Rightarrow> bool) \<Rightarrow> string \<Rightarrow> read_end \<Rightarrow> nat option \<Rightarrow> bootstrapDependencies \<Rightarrow> env \<Rightarrow> host \<Rightarrow> boot_run" where
  "runWithIO cancelled input fin room d env h =
     (case validateBootstrapDependencies d of
        Some e \<Rightarrow> not_started h e
      | None \<Rightarrow>
     (case the (loadConfig d) env of
        Inl e \<Rightarrow> not_started h e
      | Inr cfg \<Rightarrow>
     (case the (newFilesystem d) h cfg of
        Inl e \<Rightarrow> not_started h (categorizeRootError e)
      | Inr filesystem \<Rightarrow>
          if isNilBootstrapValue filesystem then not_started h invalid_dependencies
          else
     let toolRegistry = the (newToolRegistry d) (the filesystem) (maxFileSize (cf_filesystem cfg))
           (capabilitiesFromReadOnly (readOnly (cf_filesystem cfg)))
     in if toolRegistry = None then not_started h invalid_dependencies
        else
     let mcpRouter = the (newRouter d) (server_name (cf_server cfg)) (server_version (cf_server cfg)) (the toolRegistry)
     in if mcpRouter = None then not_started h invalid_dependencies
        else
     let mcpServer = the (newServer d) input fin room (the mcpRouter) (serverOptionsFromConfig cfg)
     in if isNilBootstrapValue mcpServer then not_started h invalid_dependencies
        else
     let warning = (if rootPath (cf_filesystem cfg) = ''.'' \<and> allowCWDRoot (cf_filesystem cfg)
                    then [developmentCWDWarning] else [])
     in (case Run cancelled (the mcpServer) h of
           (sv, h', e) \<Rightarrow>
             \<lparr>br_stderr = warning, br_stdout = tp_out (sv_transport sv), br_log = sv_log sv, br_host = h',
              br_error = map_option ServeError e\<rparr>))))"

definition run_server :: "(nat \<Rightarrow> bool) \<Rightarrow> string \<Rightarrow> read_end \<Rightarrow> nat option \<Rightarrow> env \<Rightarrow> host \<Rightarrow> boot_run" where
  "run_server cancelled input fin room env h = runWithIO cancelled input fin room defaultBootstrapDependencies env h"

subsection \<open>Command line\<close>

datatype cli_error = InvalidCLIArguments string | RunFailed run_failure

definition error_category :: "run_failure \<Rightarrow> ErrorCategory option" where
  "error_category err = (case err of StartupError e \<Rightarrow> CategoryOf e | ServeError e \<Rightarrow> None)"

definition helpText :: string where
  "helpText = concat (map (\<lambda>l. l @ [newline])
     [''flashgate-mcp'',
      '''',
      ''Usage:'',
      ''  flashgate-mcp'',
      ''  flashgate-mcp --version'',
      ''  flashgate-mcp --version --verbose'',
      ''  flashgate-mcp --help'',
      '''',
      ''Environment:'',
      ''  MCP_ROOT             Required absolute root directory exposed to MCP clients'',
      ''  MCP_READ_ONLY        Set to true to expose only read-only filesystem tools'',
      ''  MCP_ALLOW_CWD_ROOT   Development only: set to true with MCP_ROOT=.''])"

definition printed :: "host \<Rightarrow> string \<Rightarrow> boot_run" where
  "printed h text = \<lparr>br_stderr = [], br_stdout = text, br_log = [], br_host = h, br_error = None\<rparr>"

definition usage_error :: "string \<Rightarrow> cli_error" where
  "usage_error what = InvalidCLIArguments (''invalid CLI arguments: '' @ what @ [newline] @ ''Use --help for usage.'')"

text \<open>The exit code, the error, and what was run or printed. \<open>info\<close> is \<open>version.Get()\<close>.\<close>

definition runCLI :: "Info \<Rightarrow> string list \<Rightarrow> (host \<Rightarrow> boot_run) \<Rightarrow> host \<Rightarrow> (int \<times> cli_error option) \<times> boot_run" where
  "runCLI info args runServer h =
     (case args of
        [] \<Rightarrow>
          (let r = runServer h in
           case br_error r of
             None \<Rightarrow> ((0, None), r)
           | Some err \<Rightarrow>
               if err = ServeError ContextDone then ((0, None), r)
               else (case error_category err of
                   Some category \<Rightarrow>
                     if category \<noteq> CategoryStartupFailed then ((3, Some (RunFailed err)), r)
                     else ((1, Some (RunFailed err)), r)
                 | None \<Rightarrow> ((1, Some (RunFailed err)), r)))
      | [a] \<Rightarrow>
          if a = ''--version'' then ((0, None), printed h (Info_String info @ [newline]))
          else if a = ''--help'' \<or> a = ''-h'' then ((0, None), printed h helpText)
          else ((2, Some (usage_error ''unknown argument'')), printed h [])
      | [a, b] \<Rightarrow>
          if a = ''--version'' \<and> b = ''--verbose'' then ((0, None), printed h (VerboseString info @ [newline]))
          else ((2, Some (usage_error ''unsupported argument combination'')), printed h [])
      | _ \<Rightarrow> ((2, Some (usage_error ''too many arguments'')), printed h []))"

definition runMain :: "Info \<Rightarrow> string list \<Rightarrow> (host \<Rightarrow> boot_run) \<Rightarrow> host \<Rightarrow> int \<times> boot_run" where
  "runMain info args runServer h =
     (case runCLI info args runServer h of
        ((exitCode, None), r) \<Rightarrow> (exitCode, r)
      | ((exitCode, Some (InvalidCLIArguments m)), r) \<Rightarrow>
          (2, r\<lparr>br_stderr := br_stderr r @ [''flashgate-mcp: '' @ m]\<rparr>)
      | ((exitCode, Some (RunFailed err)), r) \<Rightarrow>
          let category = (case error_category err of Some c \<Rightarrow> c | None \<Rightarrow> CategoryStartupFailed)
          in (exitCode, r\<lparr>br_stderr := br_stderr r @
                [''flashgate-mcp: startup failed ('' @ category_string category @ '')'']\<rparr>))"

text \<open>The process: the background context is never done.\<close>

definition main_process :: "Info \<Rightarrow> string list \<Rightarrow> env \<Rightarrow> string \<Rightarrow> read_end \<Rightarrow> nat option \<Rightarrow> host \<Rightarrow> int \<times> boot_run" where
  "main_process info args env input fin room h =
     runMain info args (run_server (\<lambda>_. False) input fin room env) h"

end
