(* ===== verification/BootProperties.thy ===== *)
theory BootProperties
  imports Boot ServerProperties
begin

text \<open>
  The properties of the whole process: what it can touch, what the configuration
  guarantees, how it refuses to start, and its exit codes.
\<close>

subsection \<open>Bootstrap with the default dependencies\<close>

lemma new_router [simp]: "sv_router (NewWithOptions input fin room r opts) = r"
  by (simp add: NewWithOptions_def)

lemma run_server_eq:
  "run_server cancelled input fin room env h =
     (case LoadFromEnvironment env of
        Inl e \<Rightarrow> not_started h (map_config_error LoadCause e)
      | Inr cfg \<Rightarrow>
          (case NewLocalFileSystemWithPolicyAndLimits h (rootPath (cf_filesystem cfg))
                  (securityPolicyFromConfig cfg) (filesystemLimitsFromConfig cfg) of
             Inl e \<Rightarrow> not_started h (categorizeRootError e)
           | Inr f \<Rightarrow>
               (case Run cancelled (NewWithOptions input fin room
                       (createRouter (server_name (cf_server cfg)) (server_version (cf_server cfg))
                         (createToolRegistry (local_fsys f) (maxFileSize (cf_filesystem cfg))
                           (capabilitiesFromReadOnly (readOnly (cf_filesystem cfg)))))
                       (serverOptionsFromConfig cfg)) h of
                  (sv, h', e) \<Rightarrow>
                    \<lparr>br_stderr = (if rootPath (cf_filesystem cfg) = ''.'' \<and> allowCWDRoot (cf_filesystem cfg)
                       then [developmentCWDWarning] else []),
                     br_stdout = tp_out (sv_transport sv), br_log = sv_log sv, br_host = h',
                     br_error = map_option ServeError e\<rparr>)))"
  by (simp add: run_server_def runWithIO_def defaultBootstrapDependencies_def validateBootstrapDependencies_def
      isNilBootstrapValue_def Let_def split: sum.split)

lemma runCLI_host: "br_host (snd (runCLI info args f h)) = (if args = [] then br_host (f h) else h)"
proof (cases args rule: remdups_adj.cases)
  case 1
  then show ?thesis by (simp add: runCLI_def Let_def split: option.split)
next
  case (2 a)
  then show ?thesis by (simp add: runCLI_def printed_def)
next
  case (3 a b cs)
  then show ?thesis by (cases cs) (simp_all add: runCLI_def printed_def)
qed

lemma runMain_host [simp]: "br_host (snd (runMain info args f h)) = (if args = [] then br_host (f h) else h)"
  using runCLI_host [of info args f h]
  by (auto simp: runMain_def Let_def split: prod.split option.split cli_error.split)

text \<open>A sandbox reached without links satisfies the invariant of the file system.\<close>

lemma walk_linkless:
  "walk h Follow k cur cs = Inr q \<Longrightarrow> good_comps cs \<Longrightarrow>
     \<forall>p i t. prefix p (cur @ cs) \<longrightarrow> lookup h p \<noteq> Some (LinkN i t) \<Longrightarrow> q = cur @ cs"
proof (induction cs arbitrary: cur)
  case (Cons c cs)
  have p: "plain c" using Cons.prems(2) by (simp add: good_comp_plain)
  have "prefix (cur @ [c]) (cur @ c # cs)" by simp
  then have "\<nexists>i t. lookup h (cur @ [c]) = Some (LinkN i t)" using Cons.prems(3) by blast
  then show ?case using Cons.prems Cons.IH [of "cur @ [c]"]
    by (auto simp: walk_plain [OF p] split: option.splits node.splits if_splits)
qed simp

lemma sand_inv_start:
  assumes f: "NewLocalFileSystemWithPolicyAndLimits h r pol l = Inr f"
    and h: "host_wf h" "\<forall>w. wd h = Some w \<longrightarrow> is_rooted w" "\<not> FollowSymlinks pol"
    and root: "Abs (wd h) (Clean r) = Some root"
    and links: "\<forall>p i t. prefix p (path_comps root) \<or> prefix (path_comps root) p \<longrightarrow> lookup h p \<noteq> Some (LinkN i t)"
  shows "sand_inv f h \<and> fs_root f = path_comps root"
proof -
  obtain g where g: "NewPathGuardWithPolicy h r pol = Inr g" "f = \<lparr>lf_guard = g, lf_limits = l\<rparr>"
    using f by (auto simp: NewLocalFileSystemWithPolicyAndLimits_def split: option.splits sum.splits)
  have ok: "guard_ok h g" "pg_policy g = pol" using NewPathGuard_ok [OF g(1) h(1,2)] by simp_all
  have r: "pg_root g = root"
    using g(1) root by (auto simp: NewPathGuardWithPolicy_def split: if_splits option.splits sum.splits)
  note c = guard_clean [OF ok(1)]
  have w: "walk h Follow eval_links [] (path_comps root) = Inr (eroot g)" "\<exists>i. lookup h (eroot g) = Some (DirN i)"
    using ok(1) r by (simp_all add: guard_ok_def)
  have e: "eroot g = path_comps root"
    using walk_linkless [OF w(1)] links c(1) r by (simp add: clean_abs_good)
  have er: "pg_effectiveRoot g = pg_root g"
    using e c r clean_abs_eq_iff [OF c(2) c(1)] by (simp add: eroot_def)
  have par: "path_comps root = [] \<or> (\<exists>j. lookup h (butlast (path_comps root)) = Some (DirN j))"
  proof (cases "path_comps root" rule: rev_cases)
    case (snoc as a)
    then show ?thesis using w(2) e wf_parent [OF h(1), of as a] by auto
  qed simp
  show ?thesis
    using h(1,3) ok(2) c er e w(2) par links r g(2) by (auto simp: sand_inv_def)
qed

text \<open>Why a server is not started, if it is not.\<close>

definition startup_error :: "env \<Rightarrow> host \<Rightarrow> boot_error option" where
  "startup_error env h =
     (case LoadFromEnvironment env of
        Inl e \<Rightarrow> Some (map_config_error LoadCause e)
      | Inr cfg \<Rightarrow>
          (case NewLocalFileSystemWithPolicyAndLimits h (rootPath (cf_filesystem cfg))
                  (securityPolicyFromConfig cfg) (filesystemLimitsFromConfig cfg) of
             Inl e \<Rightarrow> Some (categorizeRootError e)
           | Inr f \<Rightarrow> None))"

lemma run_server_refused: "startup_error env h = Some e \<Longrightarrow> run_server cancelled input fin room env h = not_started h e"
  by (auto simp: startup_error_def run_server_eq split: sum.splits)

subsection \<open>When the server does not start\<close>

text \<open>
  The reasons not to start, read off the environment and the answers of the host, in the
  order in which they are looked for. Numbers and flags count as set when they are not
  empty.
\<close>

definition number_refused :: "env \<Rightarrow> string \<Rightarrow> bool" where
  "number_refused env name \<longleftrightarrow>
     (let v = Getenv env name in
      v \<noteq> [] \<and> (case parse_int 64 v of None \<Rightarrow> True | Some i \<Rightarrow> i \<le> 0))"

definition flag_refused :: "env \<Rightarrow> string \<Rightarrow> bool" where
  "flag_refused env name \<longleftrightarrow> (let v = Getenv env name in v \<noteq> [] \<and> parse_bool v = None)"

definition flag_set :: "env \<Rightarrow> string \<Rightarrow> bool" where
  "flag_set env name \<longleftrightarrow> parse_bool (Getenv env name) = Some True"

definition setting_refused :: "env \<Rightarrow> bool" where
  "setting_refused env \<longleftrightarrow>
     list_ex (number_refused env)
       [''MCP_MAX_FILE_SIZE'', ''MCP_MAX_WRITE_BYTES'', ''MCP_MAX_LIST_ENTRIES'', ''MCP_MAX_COPY_BYTES'',
        ''MCP_MAX_DELETE_ENTRIES'', ''MCP_MAX_JSONRPC_MESSAGE_BYTES'', ''MCP_MAX_TOOL_ARGUMENT_BYTES'',
        ''MCP_MAX_RESPONSE_BYTES''] \<or>
     list_ex (flag_refused env)
       [''MCP_ALLOW_HIDDEN_FILES'', ''MCP_ALLOW_UNC_PATHS'', ''MCP_FOLLOW_SYMLINKS'', ''MCP_DEBUG'']"

text \<open>The category of a failing system call on the root.\<close>

definition call_category :: "goerr \<Rightarrow> ErrorCategory" where
  "call_category e =
     (if e = Errno ENOENT then CategoryRootNotFound
      else if e = Errno EACCES \<or> e = Errno EPERM then CategoryRootNotAllowed
      else CategoryStartupFailed)"

definition root_refusal :: "host \<Rightarrow> bool \<Rightarrow> bool \<Rightarrow> string \<Rightarrow> ErrorCategory option" where
  "root_refusal h unc links root =
     (if \<not> unc \<and> isUNCPath root then Some CategoryRootNotAllowed
      else case Abs (wd h) (Clean root) of
        None \<Rightarrow> Some CategoryStartupFailed
      | Some a \<Rightarrow>
          if \<not> unc \<and> isUNCPath a then Some CategoryRootNotAllowed
          else case os_lstat h a of
            Inl e \<Rightarrow> Some (call_category e)
          | Inr entry \<Rightarrow>
              if \<not> links \<and> fi_is_symlink entry then Some CategoryRootNotAllowed
              else case eval_symlinks h a of
                Inl e \<Rightarrow> Some (call_category e)
              | Inr real \<Rightarrow>
                  (case os_stat h real of
                     Inl e \<Rightarrow> Some (call_category e)
                   | Inr info \<Rightarrow> if fi_is_dir info then None else Some CategoryRootNotDirectory))"

definition start_refusal :: "env \<Rightarrow> host \<Rightarrow> ErrorCategory option" where
  "start_refusal env h =
     (case env ''MCP_ROOT'' of
        None \<Rightarrow> Some CategoryMissingRoot
      | Some root \<Rightarrow>
          if (case env ''MCP_READ_ONLY'' of None \<Rightarrow> False | Some v \<Rightarrow> parse_bool v = None) then Some CategoryInvalidProfile
          else if (case env ''MCP_ALLOW_CWD_ROOT'' of None \<Rightarrow> False | Some v \<Rightarrow> v \<noteq> ''true'' \<and> v \<noteq> ''false'')
            then Some CategoryInvalidDevelopmentOption
          else if setting_refused env then Some CategoryStartupFailed
          else if trim_space root = [] \<or> \<not> IsAbs root \<and> \<not> (root = ''.'' \<and> env ''MCP_ALLOW_CWD_ROOT'' = Some ''true'')
            then Some CategoryInvalidRoot
          else root_refusal h (flag_set env ''MCP_ALLOW_UNC_PATHS'') (flag_set env ''MCP_FOLLOW_SYMLINKS'') root)"

lemma load_number_cases:
  "case load_number env name d of Inl e \<Rightarrow> number_refused env name \<and> CategoryOf e = None | Inr i \<Rightarrow> \<not> number_refused env name"
  "case load_count env name d of Inl e \<Rightarrow> number_refused env name \<and> CategoryOf e = None | Inr i \<Rightarrow> \<not> number_refused env name"
  by (auto simp: load_number_def load_count_def parsePositiveInt64_def parsePositiveInt_def number_refused_def Let_def
      invalid_value_def CategoryOf_def split: option.split)

lemma load_flag_cases:
  "case load_flag env name False of Inl e \<Rightarrow> flag_refused env name \<and> CategoryOf e = None
   | Inr b \<Rightarrow> \<not> flag_refused env name \<and> b = flag_set env name"
proof -
  have "parse_bool [] = None" by (simp add: parse_bool_def)
  then show ?thesis
    by (auto simp: load_flag_def flag_refused_def flag_set_def Let_def invalid_value_def CategoryOf_def split: option.split)
qed

definition boot_category :: "'c config_error \<Rightarrow> ErrorCategory" where
  "boot_category e = (case CategoryOf e of Some c \<Rightarrow> c | None \<Rightarrow> CategoryStartupFailed)"

text \<open>How loading goes on after one more setting.\<close>

lemma and_then_setting:
  assumes "case r of Inl e \<Rightarrow> bad \<and> CategoryOf e = None | Inr x \<Rightarrow> \<not> bad"
    and "\<And>x. r = Inr x \<Longrightarrow> \<not> bad \<Longrightarrow>
      (case f x of Inl e \<Rightarrow> (if rest then boot_category e = CategoryStartupFailed else P e) | Inr c \<Rightarrow> \<not> rest \<and> Q c)"
  shows "case and_then r f of
      Inl e \<Rightarrow> (if bad \<or> rest then boot_category e = CategoryStartupFailed else P e)
    | Inr c \<Rightarrow> \<not> (bad \<or> rest) \<and> Q c"
  using assms by (cases r) (auto simp: and_then_def boot_category_def split: sum.splits)

lemma setting_refused_order: "setting_refused env \<longleftrightarrow>
     number_refused env ''MCP_MAX_FILE_SIZE'' \<or> number_refused env ''MCP_MAX_WRITE_BYTES'' \<or>
     number_refused env ''MCP_MAX_LIST_ENTRIES'' \<or> number_refused env ''MCP_MAX_COPY_BYTES'' \<or>
     number_refused env ''MCP_MAX_DELETE_ENTRIES'' \<or> flag_refused env ''MCP_ALLOW_HIDDEN_FILES'' \<or>
     flag_refused env ''MCP_ALLOW_UNC_PATHS'' \<or> flag_refused env ''MCP_FOLLOW_SYMLINKS'' \<or>
     flag_refused env ''MCP_DEBUG'' \<or> number_refused env ''MCP_MAX_JSONRPC_MESSAGE_BYTES'' \<or>
     number_refused env ''MCP_MAX_TOOL_ARGUMENT_BYTES'' \<or> number_refused env ''MCP_MAX_RESPONSE_BYTES'' \<or> False"
  by (auto simp: setting_refused_def)

definition root_text_refused :: "string \<Rightarrow> bool \<Rightarrow> bool" where
  "root_text_refused root cwd \<longleftrightarrow> trim_space root = [] \<or> \<not> IsAbs root \<and> \<not> (root = ''.'' \<and> cwd)"

lemma load_flag_refused: "case load_flag env name d of Inl e \<Rightarrow> flag_refused env name \<and> CategoryOf e = None
   | Inr b \<Rightarrow> \<not> flag_refused env name"
  by (auto simp: load_flag_def flag_refused_def Let_def invalid_value_def CategoryOf_def split: option.split)

lemma limit_pos: "load_number env name d = Inr i \<Longrightarrow> limit_ok d \<Longrightarrow> \<not> i \<le> 0" "load_count env name d = Inr i \<Longrightarrow> limit_ok d \<Longrightarrow> \<not> i \<le> 0"
  using load_limit [of env name d i] by (auto simp: limit_ok_def)

lemma load_verdict:
  assumes "env ''MCP_ROOT'' = Some root" "load_read_only env False = Inr ro" "load_cwd_root env False = Inr cwd"
  shows "case LoadFromEnvironment env of
      Inl e \<Rightarrow> (if setting_refused env then boot_category e = CategoryStartupFailed
        else boot_category e = CategoryInvalidRoot \<and> root_text_refused root cwd)
    | Inr c \<Rightarrow> \<not> setting_refused env \<and> \<not> root_text_refused root cwd"
  unfolding LoadFromEnvironment_def Let_def assms(1) option.case default_flags assms(2,3) setting_refused_order
proof (simp only: and_then_def [of "Inr a" for a] sum.case, intro and_then_setting load_number_cases load_flag_refused)
qed (auto simp: Validate_def Let_def boot_category_def CategoryOf_def NewError_def root_text_refused_def
    dest!: limit_pos(1) [OF _ default_limits(1)] limit_pos(1) [OF _ default_limits(2)] limit_pos(2) [OF _ default_limits(3)]
      limit_pos(1) [OF _ default_limits(4)] limit_pos(2) [OF _ default_limits(5)] limit_pos(1) [OF _ default_limits(6)]
      limit_pos(1) [OF _ default_limits(7)] limit_pos(1) [OF _ default_limits(8)])

lemma call_categories:
  "os_lstat h p = Inl e \<Longrightarrow> boot_category (categorizeRootError e) = call_category e"
  "os_stat h p = Inl e \<Longrightarrow> boot_category (categorizeRootError e) = call_category e"
  "eval_symlinks h p = Inl e \<Longrightarrow> boot_category (categorizeRootError e) = call_category e"
  by (auto simp: os_lstat_def os_stat_def stat_at_def eval_symlinks_def categorizeRootError_def call_category_def
      boot_category_def NewError_def CategoryOf_def is_not_exist_def is_permission_def split: option.splits sum.splits errno.splits)

lemma root_verdict:
  assumes "validateLimits l = None" "trim_space root \<noteq> []"
  shows "case NewLocalFileSystemWithPolicyAndLimits h root pol l of
      Inl e \<Rightarrow> root_refusal h (AllowUNCPaths pol) (FollowSymlinks pol) root = Some (boot_category (categorizeRootError e))
    | Inr f \<Rightarrow> root_refusal h (AllowUNCPaths pol) (FollowSymlinks pol) root = None"
proof -
  have c: "boot_category (categorizeRootError ErrUNCPathDenied) = CategoryRootNotAllowed"
    "boot_category (categorizeRootError ErrSymlinkDenied) = CategoryRootNotAllowed"
    "boot_category (categorizeRootError ErrRootNotDirectory) = CategoryRootNotDirectory"
    "boot_category (categorizeRootError ErrGetwd) = CategoryStartupFailed"
    by (simp_all add: categorizeRootError_def boot_category_def NewError_def CategoryOf_def is_not_exist_def is_permission_def)
  show ?thesis
    using assms by (auto simp: NewLocalFileSystemWithPolicyAndLimits_def NewPathGuardWithPolicy_def root_refusal_def
        validatePathMetadata_def evalEffectivePath_def c call_categories split: sum.splits option.splits)
qed

lemma flags_loaded:
  assumes "LoadFromEnvironment env = Inr c"
  shows "allowUNCPaths (cf_security c) = flag_set env ''MCP_ALLOW_UNC_PATHS''"
    "followSymlinks (cf_security c) = flag_set env ''MCP_FOLLOW_SYMLINKS''"
  using LoadFromEnvironment_Inr(10,15) [OF assms] load_flag_cases [of env "''MCP_ALLOW_UNC_PATHS''"]
    load_flag_cases [of env "''MCP_FOLLOW_SYMLINKS''"] by simp_all

lemma early_verdicts:
  "case load_read_only env d of
     Inl e \<Rightarrow> (\<exists>v. env ''MCP_READ_ONLY'' = Some v \<and> parse_bool v = None) \<and> boot_category e = CategoryInvalidProfile
   | Inr b \<Rightarrow> (\<forall>v. env ''MCP_READ_ONLY'' = Some v \<longrightarrow> parse_bool v \<noteq> None)"
  "case load_cwd_root env False of
     Inl e \<Rightarrow> (\<exists>v. env ''MCP_ALLOW_CWD_ROOT'' = Some v \<and> v \<noteq> ''true'' \<and> v \<noteq> ''false'') \<and> boot_category e = CategoryInvalidDevelopmentOption
   | Inr b \<Rightarrow> (\<forall>v. env ''MCP_ALLOW_CWD_ROOT'' = Some v \<longrightarrow> v = ''true'' \<or> v = ''false'') \<and>
       b = (env ''MCP_ALLOW_CWD_ROOT'' = Some ''true'')"
  by (auto simp: load_read_only_def load_cwd_root_def boot_category_def CategoryOf_def NewError_def split: option.split)

lemma startup_verdict: "map_option boot_category (startup_error env h) = start_refusal env h"
proof (cases "env ''MCP_ROOT''")
  case None
  then show ?thesis
    by (simp add: startup_error_def start_refusal_def LoadFromEnvironment_def Let_def boot_category_def NewError_def CategoryOf_def)
next
  case (Some root)
  have mapped: "boot_category (map_config_error LoadCause e) = boot_category e" for e
    by (cases e) (simp_all add: boot_category_def CategoryOf_def)
  show ?thesis
  proof (cases "load_read_only env False")
    case (Inl e)
    then have "LoadFromEnvironment env = Inl e"
      using Some by (simp add: LoadFromEnvironment_def Let_def and_then_def default_flags)
    then show ?thesis using early_verdicts(1) [of env False] Inl Some mapped
      by (auto simp: startup_error_def start_refusal_def)
  next
    case ro: (Inr ro)
    show ?thesis
    proof (cases "load_cwd_root env False")
      case (Inl e)
      then have "LoadFromEnvironment env = Inl e"
        using Some ro by (simp add: LoadFromEnvironment_def Let_def and_then_def default_flags)
      then show ?thesis using early_verdicts(1) [of env False] early_verdicts(2) [of env] Inl ro Some mapped
        by (auto simp: startup_error_def start_refusal_def split: option.split)
    next
      case cwd: (Inr cwd)
      note v = load_verdict [OF Some ro cwd]
      have early: "\<not> (case env ''MCP_READ_ONLY'' of None \<Rightarrow> False | Some v \<Rightarrow> parse_bool v = None)"
        "\<not> (case env ''MCP_ALLOW_CWD_ROOT'' of None \<Rightarrow> False | Some v \<Rightarrow> v \<noteq> ''true'' \<and> v \<noteq> ''false'')"
        "cwd = (env ''MCP_ALLOW_CWD_ROOT'' = Some ''true'')"
        using early_verdicts(1) [of env False] early_verdicts(2) [of env] ro cwd by (auto split: option.splits)
      show ?thesis
      proof (cases "LoadFromEnvironment env")
        case (Inl e)
        then show ?thesis using v early mapped Some
          by (auto simp: startup_error_def start_refusal_def root_text_refused_def split: if_splits)
      next
        case (Inr c)
        have lim: "validateLimits (filesystemLimitsFromConfig c) = None"
          using loaded_config_ok [OF Inr] by (simp add: validateLimits_def filesystemLimitsFromConfig_def config_ok_def limit_ok_def)
        have root: "rootPath (cf_filesystem c) = root" using LoadFromEnvironment_Inr(2) [OF Inr] Some by simp
        have t: "\<not> setting_refused env" "\<not> root_text_refused root cwd" using v Inr by simp_all
        show ?thesis
          using root_verdict [OF lim, of root h "securityPolicyFromConfig c"] t early Some Inr root flags_loaded [OF Inr]
          by (auto simp: startup_error_def start_refusal_def root_text_refused_def securityPolicyFromConfig_def split: sum.splits)
      qed
    qed
  qed
qed

subsection \<open>What the process prints\<close>

text \<open>The line a failing start, or a failing run, leaves on standard error.\<close>

definition failure_line :: "ErrorCategory \<Rightarrow> string" where
  "failure_line c = ''flashgate-mcp: startup failed ('' @ category_string c @ '')''"

definition usage_line :: "string \<Rightarrow> string" where
  "usage_line what = ''flashgate-mcp: invalid CLI arguments: '' @ what @ [newline] @ ''Use --help for usage.''"

text \<open>Exit code, standard output and standard error of a call with arguments.\<close>

definition cli_outcome :: "Info \<Rightarrow> string list \<Rightarrow> int \<times> string \<times> string list" where
  "cli_outcome info args =
     (if args = [''--version''] then (0, Info_String info @ [newline], [])
      else if args = [''--version'', ''--verbose''] then (0, VerboseString info @ [newline], [])
      else if args = [''--help''] \<or> args = [''-h''] then (0, helpText, [])
      else (2, [], [usage_line
        (if length args = 1 then ''unknown argument''
         else if length args = 2 then ''unsupported argument combination'' else ''too many arguments'')]))"

lemma main_cli:
  assumes "args \<noteq> []"
  shows "main_process info args env input fin room h = (code, run) \<Longrightarrow>
    br_host run = h \<and> (code, br_stdout run, br_stderr run) = cli_outcome info args"
  using assms unfolding main_process_def cli_outcome_def
  by (cases args rule: remdups_adj.cases)
    (auto simp: runMain_def runCLI_def printed_def usage_error_def usage_line_def split: if_splits list.splits)

lemma main_refused:
  assumes "main_process info [] env input fin room h = (code, run)" "startup_error env h = Some e"
  shows "code = (if boot_category e = CategoryStartupFailed then 1 else 3) \<and> br_host run = h \<and> br_stdout run = [] \<and>
    br_stderr run = [failure_line (boot_category e)]"
  using assms
  by (auto simp: main_process_def runMain_def runCLI_def run_server_refused not_started_def error_category_def
      boot_category_def failure_line_def split: option.splits)

lemma main_started:
  assumes "main_process info [] env input fin room h = (code, run)" "startup_error env h = None"
  shows "(code = 0 \<or> code = 1) \<and> (code = 0 \<longrightarrow> fin = AtEOF) \<and> (room = None \<and> fin = AtEOF \<longrightarrow> code = 0) \<and>
    br_stderr run = (if env ''MCP_ROOT'' = Some ''.'' then [developmentCWDWarning] else []) @
      (if code = 0 then [] else [failure_line CategoryStartupFailed]) \<and>
    (room = None \<longrightarrow> (\<exists>replies. br_stdout run = as_lines replies \<and> list_all jsonrpc_reply replies))"
proof -
  obtain cfg f where c: "LoadFromEnvironment env = Inr cfg"
    "NewLocalFileSystemWithPolicyAndLimits h (rootPath (cf_filesystem cfg))
       (securityPolicyFromConfig cfg) (filesystemLimitsFromConfig cfg) = Inr f"
    using assms(2) by (auto simp: startup_error_def split: sum.splits)
  let ?sv = "NewWithOptions input fin room
    (createRouter (server_name (cf_server cfg)) (server_version (cf_server cfg))
      (createToolRegistry (local_fsys f) (maxFileSize (cf_filesystem cfg))
        (capabilitiesFromReadOnly (readOnly (cf_filesystem cfg))))) (serverOptionsFromConfig cfg)"
  obtain sv h' e where r: "Run (\<lambda>_. False) ?sv h = (sv, h', e)" by (metis surj_pair)
  have e: "run_end (sv_transport ?sv) e"
    using lfs.toolbox.routed.Run_end [OF new_router r] by auto
  have t: "tp_end (sv_transport ?sv) = fin" "tp_room (sv_transport ?sv) = room" "tp_out (sv_transport ?sv) = []"
    by (simp_all add: NewWithOptions_def NewWithLimits_def)
  have out: "room = None \<Longrightarrow> \<exists>replies. tp_out (sv_transport sv) = as_lines replies \<and> list_all jsonrpc_reply replies"
    using lfs.toolbox.routed.Run_loop_appends [OF new_router _ r [unfolded Run_def]] t by (auto simp: appends_def)
  have root: "env ''MCP_ROOT'' = Some (rootPath (cf_filesystem cfg))" "Validate cfg = None"
    using LoadFromEnvironment_Inr [OF c(1)] by simp_all
  have dot: "rootPath (cf_filesystem cfg) = ''.'' \<Longrightarrow> allowCWDRoot (cf_filesystem cfg)"
    using conjunct2 [OF Validate_None_root [OF root(2)]] by (auto simp: IsAbs_def is_rooted_def)
  have "(code = 0 \<or> code = 1) \<and> (code = 0 \<longrightarrow> fin = AtEOF) \<and> (room = None \<and> fin = AtEOF \<longrightarrow> code = 0) \<and>
    br_stderr run = (if env ''MCP_ROOT'' = Some ''.'' then [developmentCWDWarning] else []) @
      (if code = 0 then [] else [failure_line CategoryStartupFailed]) \<and> br_stdout run = tp_out (sv_transport sv)"
    using assms(1) r c e t root(1) dot
    by (auto simp: main_process_def runMain_def runCLI_def run_server_eq Let_def error_category_def run_end_def
        failure_line_def split: option.splits)
  then show ?thesis using out by simp
qed

subsection \<open>Properties\<close>

text \<open>
  C1: confinement of the process. Whatever the arguments, the rest of the environment and
  the bytes on standard input: with links not followed and a root that is reached without
  symbolic links and has none below, the process leaves every entry outside the root as it
  was, and the bytes of every file without a hard link below the root.
\<close>

theorem process_confined:
  assumes "LoadFromEnvironment env = Inr cfg" "\<not> followSymlinks (cf_security cfg)"
    and "host_wf h" "\<forall>w. wd h = Some w \<longrightarrow> is_rooted w"
    and "Abs (wd h) (Clean (rootPath (cf_filesystem cfg))) = Some root"
    and "\<forall>p i t. prefix p (path_comps root) \<or> prefix (path_comps root) p \<longrightarrow> lookup h p \<noteq> Some (LinkN i t)"
    and "main_process info args env input fin room h = (code, run)"
  shows "(\<forall>p. \<not> prefix (path_comps root) p \<longrightarrow> lookup (br_host run) p = lookup h p) \<and>
    (\<forall>p i. lookup h p = Some (RegN i) \<longrightarrow>
       (\<forall>q. prefix (path_comps root) q \<longrightarrow> lookup h q \<noteq> Some (RegN i)) \<longrightarrow> content (br_host run) i = content h i)"
proof (cases "args = [] \<and> startup_error env h = None")
  case True
  obtain f where f: "NewLocalFileSystemWithPolicyAndLimits h (rootPath (cf_filesystem cfg))
      (securityPolicyFromConfig cfg) (filesystemLimitsFromConfig cfg) = Inr f"
    using True assms(1) by (auto simp: startup_error_def split: sum.splits)
  have inv: "sand_inv f h" "fs_root f = path_comps root"
    using sand_inv_start [OF f assms(3,4) _ assms(5,6)] assms(2) by (simp_all add: securityPolicyFromConfig_def)
  have "br_host (snd (main_process info args env input fin room h)) = br_host (run_server (\<lambda>_. False) input fin room env h)"
    using True by (simp add: main_process_def)
  then have same: "br_host run = br_host (run_server (\<lambda>_. False) input fin room env h)" using assms(7) by simp
  obtain sv h' e where r: "Run (\<lambda>_. False) (NewWithOptions input fin room
      (createRouter (server_name (cf_server cfg)) (server_version (cf_server cfg))
        (createToolRegistry (local_fsys f) (maxFileSize (cf_filesystem cfg))
          (capabilitiesFromReadOnly (readOnly (cf_filesystem cfg))))) (serverOptionsFromConfig cfg)) h = (sv, h', e)"
    by (metis surj_pair)
  have run: "br_host run = h'" unfolding same run_server_eq assms(1) sum.case f r prod.case by simp
  have "confined (fs_eroot f) h (br_host run)"
    using lfs.toolbox.routed.Run_safe [OF new_router inv(1) r] run by simp
  from confined_outside [OF inv(1) this] show ?thesis unfolding inv(2) .
next
  case False
  then have "br_host (snd (main_process info args env input fin room h)) = h"
    using run_server_refused [of env h] by (auto simp: main_process_def not_started_def)
  then have "br_host run = h" using assms(7) by simp
  then show ?thesis by simp
qed

definition sample_info :: Info where
  "sample_info = \<lparr>ProductName = ''FlashGate MCP'', BinaryName = ''flashgate-mcp'', iVersion = ''1.2.3'',
     FileVersion = ''1.2.3.0'', Commit = ''unknown'', SourceTime = ''unknown'', Modified = False, GoVersion = ''go'',
     GOOS = ''linux'', GOARCH = ''amd64'', PublicArch = ''x64'', Copyright = [], BuildManifest = ''unavailable''\<rparr>"

definition sample_env :: env where
  "sample_env = [''MCP_ROOT'' \<mapsto> ''/srv'', ''MCP_MAX_FILE_SIZE'' \<mapsto> ''100'']"

lemma process_confined_witness:
  "lookup (br_host (snd (main_process sample_info [] sample_env (as_lines [delete_all]) AtEOF None clean_host))) [''etc'', ''passwd''] =
     Some (RegN 8)"
proof -
  have "case LoadFromEnvironment sample_env of
      Inr cfg \<Rightarrow> \<not> followSymlinks (cf_security cfg) \<and> rootPath (cf_filesystem cfg) = ''/srv'' | _ \<Rightarrow> False" by code_simp
  then obtain cfg where c: "LoadFromEnvironment sample_env = Inr cfg" "\<not> followSymlinks (cf_security cfg)"
    "rootPath (cf_filesystem cfg) = ''/srv''" by (auto split: sum.splits)
  have a: "Abs (wd clean_host) (Clean (rootPath (cf_filesystem cfg))) = Some ''/srv''" "path_comps ''/srv'' = [''srv'']"
    unfolding c(3) by code_simp+
  have w: "\<forall>w. wd clean_host = Some w \<longrightarrow> is_rooted w" by (simp add: clean_host_def)
  have "\<forall>(q, n) \<in> set (entries clean_host). prefix [] q \<longrightarrow> \<not> is_linkN n" by code_simp
  then have l: "\<forall>p i t. prefix p (path_comps ''/srv'') \<or> prefix (path_comps ''/srv'') p \<longrightarrow> lookup clean_host p \<noteq> Some (LinkN i t)"
    using entries_no_link [OF sample_wf(1), of "[]"] by simp
  have "lookup clean_host [''etc'', ''passwd''] = Some (RegN 8)" by code_simp
  moreover have "\<not> prefix [''srv''] [''etc'', ''passwd'']" by simp
  ultimately show ?thesis
    using process_confined [OF c(1,2) sample_wf(1) w a(1) l prod.collapse [symmetric]] unfolding a(2) by metis
qed

text \<open>
  C5: a read-only process changes nothing. With \<open>MCP_READ_ONLY\<close> set to a spelling of true,
  no input, no root and no policy lets the process change the host at all.
\<close>

theorem process_read_only:
  assumes "env ''MCP_READ_ONLY'' = Some v" "parse_bool v = Some True"
  shows "br_host (snd (main_process info args env input fin room h)) = h"
proof (cases "LoadFromEnvironment env")
  case (Inl e)
  then show ?thesis by (simp add: main_process_def run_server_eq not_started_def)
next
  case (Inr cfg)
  then have ro: "readOnly (cf_filesystem cfg)"
    using LoadFromEnvironment_Inr(3) [OF Inr] assms by (simp add: load_read_only_def)
  have "h' = h" if "Run (\<lambda>_. False) (NewWithOptions input fin room
      (createRouter name version (createToolRegistry f m (capabilitiesFromReadOnly True))) opts) h = (sv, h', e)"
    for name version f m opts sv h' e
    using readonly.routed.Run_safe [OF new_router _ that] by simp
  then show ?thesis using Inr ro
    by (auto simp: main_process_def run_server_eq not_started_def split: sum.split prod.split)
qed

lemma process_read_only_witness:
  "br_host (snd (main_process sample_info [] (sample_env(''MCP_READ_ONLY'' \<mapsto> ''true'')) (as_lines [delete_all]) AtEOF None clean_host)) = clean_host"
  by (rule process_read_only [where v = "''true''"]) (simp_all add: parse_bool_def)

text \<open>
  C9: what the process prints and exits with. Called with arguments it serves nothing, leaves
  the host alone and gives the version, the long version or the help with 0, or one usage
  error with 2. Without arguments, \<open>start_refusal\<close> tells from the environment and
  the host whether it starts. If not: nothing on standard output, the host untouched, one
  line with the category, and 3 - except for \<open>startup_failed\<close>, which gives 1 and is
  also what an unusable limit or flag gets, though \<open>docs/security.md\<close> promises 3 and a
  category for configuration failures. If it starts: a warning for the working directory as
  root and, after a failing reader or writer, one \<open>startup_failed\<close> line and 1, else 0;
  with a writer that takes everything, standard output has whole JSON-RPC replies only.
  Diagnostics are apart and not part of these lines.
\<close>

theorem exit_codes:
  assumes "main_process info args env input fin room h = (code, run)"
  shows "if args \<noteq> [] then br_host run = h \<and> (code, br_stdout run, br_stderr run) = cli_outcome info args
    else case start_refusal env h of
      Some c \<Rightarrow>
        code = (if c = CategoryStartupFailed then 1 else 3) \<and> br_host run = h \<and> br_stdout run = [] \<and>
        br_stderr run = [failure_line c]
    | None \<Rightarrow>
        (code = 0 \<or> code = 1) \<and> (code = 0 \<longrightarrow> fin = AtEOF) \<and> (room = None \<and> fin = AtEOF \<longrightarrow> code = 0) \<and>
        br_stderr run = (if env ''MCP_ROOT'' = Some ''.'' then [developmentCWDWarning] else []) @
          (if code = 0 then [] else [failure_line CategoryStartupFailed]) \<and>
        (room = None \<longrightarrow> (\<exists>replies. br_stdout run = as_lines replies \<and> list_all jsonrpc_reply replies))"
proof (cases "args = []")
  case True
  show ?thesis
  proof (cases "startup_error env h")
    case None
    then have "start_refusal env h = None" using startup_verdict [of env h] by simp
    then show ?thesis using main_started [OF assms [unfolded True] None] True by simp
  next
    case (Some e)
    then have "start_refusal env h = Some (boot_category e)" using startup_verdict [of env h] by simp
    then show ?thesis using main_refused [OF assms [unfolded True] Some] True by simp
  qed
next
  case False
  then show ?thesis using main_cli [OF False assms] by simp
qed

lemma exit_codes_witness:
  "(let r = main_process sample_info [] (sample_env(''MCP_ROOT'' := Some ''/nope'')) [] AtEOF None clean_host in
     fst r = 3 \<and> br_stderr (snd r) = [''flashgate-mcp: startup failed (root_not_found)'']) \<and>
   (let r = main_process sample_info [] (sample_env(''MCP_MAX_FILE_SIZE'' := Some ''0'')) [] AtEOF None clean_host in
     fst r = 1 \<and> br_stderr (snd r) = [''flashgate-mcp: startup failed (startup_failed)'']) \<and>
   fst (main_process sample_info [] sample_env [] AtEOF None clean_host) = 0"
proof -
  have s: "start_refusal (sample_env(''MCP_ROOT'' := Some ''/nope'')) clean_host = Some CategoryRootNotFound"
    "start_refusal (sample_env(''MCP_MAX_FILE_SIZE'' := Some ''0'')) clean_host = Some CategoryStartupFailed"
    "start_refusal sample_env clean_host = None" by code_simp+
  note e = exit_codes [where info = sample_info and args = "[]" and input = "[]" and fin = AtEOF and
      room = None and h = clean_host, OF prod.collapse [symmetric]]
  show ?thesis
    using e [of "sample_env(''MCP_ROOT'' := Some ''/nope'')"] e [of "sample_env(''MCP_MAX_FILE_SIZE'' := Some ''0'')"] e [of sample_env]
    unfolding s by (simp add: failure_line_def)
qed

text \<open>
  C20: what a loaded configuration guarantees: every limit is a positive 64-bit number; the
  root was set, is not blank, and is absolute or is the working directory by explicit
  opt-in; hidden files, UNC paths and symbolic links are denied unless a variable spells out
  that they are allowed; the server is read-only exactly when asked to.
\<close>

theorem loaded_configuration:
  assumes "LoadFromEnvironment env = Inr c"
  shows "config_ok c \<and> env ''MCP_ROOT'' = Some (rootPath (cf_filesystem c)) \<and>
    (rootPath (cf_filesystem c) = ''.'' \<longrightarrow> env ''MCP_ALLOW_CWD_ROOT'' = Some ''true'') \<and>
    (allowHiddenFiles (cf_security c) \<longrightarrow> parse_bool (Getenv env ''MCP_ALLOW_HIDDEN_FILES'') = Some True) \<and>
    (allowUNCPaths (cf_security c) \<longrightarrow> parse_bool (Getenv env ''MCP_ALLOW_UNC_PATHS'') = Some True) \<and>
    (followSymlinks (cf_security c) \<longrightarrow> parse_bool (Getenv env ''MCP_FOLLOW_SYMLINKS'') = Some True) \<and>
    (readOnly (cf_filesystem c) \<longleftrightarrow> parse_bool (Getenv env ''MCP_READ_ONLY'') = Some True)"
proof -
  note l = LoadFromEnvironment_Inr [OF assms]
  have flag: "load_flag env name False = Inr b \<Longrightarrow> b \<Longrightarrow> parse_bool (Getenv env name) = Some True" for name b
    by (auto simp: load_flag_def Let_def split: if_splits option.splits)
  have dot: "\<not> IsAbs ''.''" by (simp add: IsAbs_def is_rooted_def)
  have cwd: "rootPath (cf_filesystem c) = ''.'' \<Longrightarrow> allowCWDRoot (cf_filesystem c)"
    using conjunct2 [OF Validate_None_root [OF l(1)]] dot by metis
  have ro: "readOnly (cf_filesystem c) \<longleftrightarrow> parse_bool (Getenv env ''MCP_READ_ONLY'') = Some True"
  proof (cases "env ''MCP_READ_ONLY''")
    case None
    have "parse_bool [] = None" by (simp add: parse_bool_def)
    then show ?thesis using l(3) None by (simp add: load_read_only_def Getenv_def)
  next
    case (Some v)
    then show ?thesis using l(3) by (cases "parse_bool v") (simp_all add: load_read_only_def Getenv_def)
  qed
  have "allowCWDRoot (cf_filesystem c) \<Longrightarrow> env ''MCP_ALLOW_CWD_ROOT'' = Some ''true''"
    using l(4) by (auto simp: load_cwd_root_def split: option.splits if_splits)
  then show ?thesis
    using loaded_config_ok [OF assms] l(2) flag [OF l(10)] flag [OF l(14)] flag [OF l(15)] cwd ro by blast
qed

lemma loaded_configuration_witness:
  "case LoadFromEnvironment sample_env of Inr c \<Rightarrow> config_ok c | Inl e \<Rightarrow> False"
proof -
  have "case LoadFromEnvironment sample_env of Inr c \<Rightarrow> True | Inl e \<Rightarrow> False" by code_simp
  then obtain c where "LoadFromEnvironment sample_env = Inr c" by (auto split: sum.splits)
  with loaded_configuration [OF this] show ?thesis by simp
qed

text \<open>
  A limit that is no positive number stops the start, but as an uncategorized error:
  the process reports \<open>startup_failed\<close> and exits with 1, as for an unexpected failure, not
  with a category of the configuration and 3.
\<close>

lemma invalid_limit_uncategorized:
  assumes "env ''MCP_ROOT'' = Some root" "env ''MCP_READ_ONLY'' = None" "env ''MCP_ALLOW_CWD_ROOT'' = None"
    and "env ''MCP_MAX_FILE_SIZE'' = Some v" "v \<noteq> []" "case parse_int 64 v of None \<Rightarrow> True | Some i \<Rightarrow> i \<le> 0"
  shows "fst (main_process info [] env input fin room h) = 1 \<and>
    br_stderr (snd (main_process info [] env input fin room h)) = [''flashgate-mcp: startup failed (startup_failed)'']"
proof -
  have "load_number env ''MCP_MAX_FILE_SIZE'' d = Inl (invalid_value ''MCP_MAX_FILE_SIZE'')" for d
    using assms(4-6) by (auto simp: load_number_def Getenv_def parsePositiveInt64_def split: option.splits)
  then have "LoadFromEnvironment env = Inl (invalid_value ''MCP_MAX_FILE_SIZE'')"
    using assms(1-3) by (simp add: LoadFromEnvironment_def Let_def and_then_def load_read_only_def load_cwd_root_def)
  then have "run_server (\<lambda>_. False) input fin room env h =
      not_started h (PlainError (''invalid '' @ ''MCP_MAX_FILE_SIZE'' @ '' value''))"
    by (simp add: run_server_eq invalid_value_def)
  then show ?thesis
    by (simp add: main_process_def runMain_def runCLI_def Let_def not_started_def error_category_def CategoryOf_def)
qed

lemma invalid_limit_uncategorized_witness:
  "fst (main_process sample_info [] (sample_env(''MCP_MAX_FILE_SIZE'' \<mapsto> ''0'')) [] AtEOF None clean_host) = 1"
proof -
  have p: "case parse_int 64 ''0'' of None \<Rightarrow> True | Some i \<Rightarrow> i \<le> 0" by code_simp
  show ?thesis
    using invalid_limit_uncategorized [of "sample_env(''MCP_MAX_FILE_SIZE'' \<mapsto> ''0'')" "''/srv''" "''0''" sample_info "[]" AtEOF None clean_host] p
    by (simp add: sample_env_def)
qed

end
