(* ===== verification/AnyValue.thy ===== *)
theory AnyValue
  imports JsonParse "HOL-Library.List_Lexorder"
begin

text \<open>
  Decoding a JSON text into a value of type \<open>any\<close>, with \<open>UseNumber\<close>, and what a marshalled
  value decodes to.
\<close>

subsection \<open>Values\<close>

text \<open>
  An object is the list of its members in the order of their keys, each key once, so that
  \<open>reflect.DeepEqual\<close> is equality. A number is its literal.
\<close>

datatype jany =
  JNull | JBool bool | JNumber string | JString string | JArray "jany list" | JObject "(string \<times> jany) list"

fun put_member :: "string \<Rightarrow> 'a \<Rightarrow> (string \<times> 'a) list \<Rightarrow> (string \<times> 'a) list" where
  "put_member k v [] = [(k, v)]"
| "put_member k v ((k', v') # ms) =
     (if k = k' then (k, v) # ms else if k < k' then (k, v) # (k', v') # ms else (k', v') # put_member k v ms)"

definition by_key :: "(string \<times> 'a) list \<Rightarrow> (string \<times> 'a) list" where
  "by_key ms = foldl (\<lambda>m (k, v). put_member k v m) [] ms"

lemma map_of_put_member: "map_of (put_member k v ms) = (map_of ms)(k \<mapsto> v)"
  by (induction k v ms rule: put_member.induct) auto

lemma put_member_keys: "fst ` set (put_member k v ms) = insert k (fst ` set ms)"
  by (induction k v ms rule: put_member.induct) (auto simp: insert_commute)

lemma sorted_put_member: "sorted_wrt (<) (map fst ms) \<Longrightarrow> sorted_wrt (<) (map fst (put_member k v ms))"
proof (induction k v ms rule: put_member.induct)
  case (2 k v k' v' ms)
  then have "\<forall>x \<in> fst ` set ms. k' < x" "sorted_wrt (<) (map fst ms)" by auto
  consider "k = k'" | "k < k'" | "k \<noteq> k'" "\<not> k < k'" "k' < k" by (meson linorder_less_linear)
  then show ?case
  proof cases
    case 1
    then show ?thesis using 2(2) by simp
  next
    case k: 2
    then have "\<forall>x \<in> fst ` set ms. k < x" using \<open>\<forall>x \<in> fst ` set ms. k' < x\<close> order.strict_trans by blast
    then show ?thesis using k 2(2) by auto
  next
    case 3
    have "sorted_wrt (<) (map fst (put_member k v ms))" using 2(1) 3 \<open>sorted_wrt (<) (map fst ms)\<close> by blast
    moreover have "\<forall>x \<in> fst ` set (put_member k v ms). k' < x"
      using \<open>\<forall>x \<in> fst ` set ms. k' < x\<close> 3(3) by (simp add: put_member_keys)
    ultimately show ?thesis using 3 by simp
  qed
qed simp

text \<open>Members by key are those of the Go map: the last of equal keys, and nothing else.\<close>

lemma by_key_sorted: "sorted_wrt (<) (map fst (by_key ms))"
  by (induction ms rule: rev_induct) (auto simp: by_key_def intro: sorted_put_member)

lemma by_key_map: "map_of (by_key ms) = map_of (rev ms)"
  by (induction ms rule: rev_induct) (auto simp: by_key_def map_of_put_member fun_eq_iff)

subsection \<open>Decoding\<close>

text \<open>The elements of a valid array, from behind its opening bracket.\<close>

fun raw_elements :: "nat \<Rightarrow> string \<Rightarrow> string list" where
  "raw_elements 0 s = []"
| "raw_elements (Suc n) s =
     (let v = skip_ws s in
      case scan_val (scan_fuel v) max_depth v of None \<Rightarrow> []
      | Some v' \<Rightarrow>
          upto_rest v v' #
            (case skip_ws v' of [] \<Rightarrow> [] | e # w \<Rightarrow> if e = comma then raw_elements n w else []))"

text \<open>\<open>Unmarshal\<close> into \<open>[]json.RawMessage\<close> and into a \<open>bool\<close> that is false.\<close>

definition unmarshal_elements :: "string \<Rightarrow> string list option" where
  "unmarshal_elements raw =
     (if \<not> json_valid raw then None
      else case skip_ws raw of [] \<Rightarrow> None
        | c # t \<Rightarrow> if c = lbrack then Some (raw_elements (length raw) t) else if prefix ''null'' (c # t) then Some [] else None)"

definition unmarshal_bool :: "string \<Rightarrow> bool option" where
  "unmarshal_bool raw =
     (if \<not> json_valid raw then None
      else let s = skip_ws raw in
        if prefix ''true'' s then Some True else if prefix ''false'' s \<or> prefix ''null'' s then Some False else None)"

text \<open>
  A value of a valid text. The first argument bounds the nesting, which the scanner has
  already limited.
\<close>

fun any_value :: "nat \<Rightarrow> string \<Rightarrow> jany" where
  "any_value 0 raw = JNull"
| "any_value (Suc n) raw =
     (case skip_ws raw of [] \<Rightarrow> JNull
      | c # t \<Rightarrow>
          if c = lbrace then JObject (by_key (map (\<lambda>(k, v). (k, any_value n v)) (raw_members (length raw) t)))
          else if c = lbrack then JArray (map (any_value n) (raw_elements (length raw) t))
          else if c = dquote
          then (case scan_string t of None \<Rightarrow> JNull | Some r \<Rightarrow> JString (unquote (butlast (upto_rest t r))))
          else if c = CHR ''t'' then JBool True
          else if c = CHR ''f'' then JBool False
          else if c = CHR ''n'' then JNull
          else (case scan_number (c # t) of None \<Rightarrow> JNull | Some r \<Rightarrow> JNumber (upto_rest (c # t) r)))"

declare any_value.simps(2) [simp del]

subsection \<open>Well-formed text\<close>

text \<open>Text made of complete runes, in front of any text.\<close>

definition wf8 :: "string \<Rightarrow> bool" where
  "wf8 s \<longleftrightarrow> (\<forall>t. utf8_clean (s @ t) = s @ utf8_clean t)"

lemma wf8_clean: "wf8 s \<Longrightarrow> utf8_clean s = s"
  using utf8_clean.simps(1) by (metis append_Nil2 wf8_def)

lemma wf8_append: "wf8 a \<Longrightarrow> wf8 b \<Longrightarrow> wf8 (a @ b)"
  by (simp add: wf8_def)

lemma wf8_ascii: "list_all (\<lambda>c. byte c < 128) s \<Longrightarrow> wf8 s"
  by (induction s) (simp_all add: wf8_def utf8_clean.simps(2) rune_len_ascii)

lemma wf8_rune: "rune_len (c # s) \<noteq> 0 \<Longrightarrow> 128 \<le> byte c \<Longrightarrow> wf8 (take (rune_len (c # s)) (c # s))"
  unfolding wf8_def
proof
  fix t
  assume r: "rune_len (c # s) \<noteq> 0" "128 \<le> byte c"
  note l = rune_len_local [OF r, of t]
  obtain k where k: "rune_len (c # s) = Suc k" using r by (cases "rune_len (c # s)") auto
  have "length (take k s) = k" using l k by simp
  then show "utf8_clean (take (rune_len (c # s)) (c # s) @ t) = take (rune_len (c # s)) (c # s) @ utf8_clean t"
    using l k by (simp add: utf8_clean.simps(2))
qed

lemma hex_digit_byte: "n < 16 \<Longrightarrow> byte (hex_digit n) < 128"
  by (simp add: hex_digit_def)

lemma escape_ascii: "byte c < 128 \<Longrightarrow> list_all (\<lambda>c. byte c < 128) (escape_byte c)"
  by (auto simp: escape_byte_def u00_def intro!: hex_digit_byte)

lemma wf8_quote_body: "wf8 (quote_body s)"
proof (induction s rule: quote_body.induct)
  case 1
  show ?case by (simp add: quote_body.simps wf8_def)
next
  case (2 c s)
  have u: "list_all (\<lambda>c. byte c < 128) (u202 d)" for d by (simp add: u202_def hex_digit_byte)
  show ?case
    using 2 wf8_append [OF wf8_ascii [OF escape_ascii [of c]]] wf8_append [OF wf8_ascii [OF u]]
      wf8_append [OF wf8_ascii [of "[bslash, CHR ''u'', CHR ''f'', CHR ''f'', CHR ''f'', CHR ''d'']"]] wf8_append [OF wf8_rune [of c s]]
    by (simp add: quote_body.simps(2) not_less)
qed

lemma wf8_quote: "wf8 (quote_string s)"
  using wf8_append [OF wf8_append [OF wf8_ascii [of "[dquote]"] wf8_quote_body] wf8_ascii [of "[dquote]"]]
  by (simp add: quote_string_def)

lemma wf8_join: "wf8 d \<Longrightarrow> \<forall>t \<in> set ts. wf8 t \<Longrightarrow> wf8 (join_with d ts)"
  by (induction d ts rule: join_with.induct) (auto simp: wf8_append wf8_ascii)

lemma sequence_opt_map_Some: "sequence_opt (map f xs) = Some ys \<Longrightarrow> list_all2 (\<lambda>x y. f x = Some y) xs ys"
proof (induction xs arbitrary: ys)
  case (Cons x xs)
  then show ?case by (cases "f x") auto
qed simp

lemma list_all2_all: "list_all2 P xs ys \<Longrightarrow> (\<And>x y. x \<in> set xs \<Longrightarrow> P x y \<Longrightarrow> Q y) \<Longrightarrow> \<forall>y \<in> set ys. Q y"
  by (induction rule: list_all2_induct) auto

lemma itoa_ascii: "list_all (\<lambda>c. byte c < 128) (itoa i)"
proof -
  have "list_all (\<lambda>c. byte c < 128) (digits_of n)" for n
    using conjunct1 [OF digits_of_digits [of n]] by (rule list.pred_mono_strong) (simp add: is_digit_def)
  then show ?thesis by (simp add: itoa_def)
qed

lemma wf8_marshal: "no_raw v \<Longrightarrow> marshal v = Some X \<Longrightarrow> wf8 X"
proof (induction v arbitrary: X)
  case (GArr vs)
  then obtain ts where ts: "sequence_opt (map marshal vs) = Some ts" "X = [lbrack] @ sep_join ts @ [rbrack]" by auto
  have "\<forall>t \<in> set ts. wf8 t"
    using sequence_opt_map_Some [OF ts(1)] by (rule list_all2_all) (use GArr in \<open>auto simp: list_all_iff\<close>)
  then show ?case unfolding ts(2) sep_join_def by (intro wf8_append wf8_join wf8_ascii) simp_all
next
  case (GObj ms)
  then obtain ts where ts: "sequence_opt (map (\<lambda>(k, v). map_option (\<lambda>t. quote_string k @ colon # t) (marshal v)) ms) = Some ts"
    "X = [lbrace] @ sep_join ts @ [rbrace]" by auto
  have one: "wf8 t" if mem: "m \<in> set ms" and some: "(case m of (k, v) \<Rightarrow> map_option (\<lambda>t. quote_string k @ colon # t) (marshal v)) = Some t" for m t
  proof -
    obtain k v V where m: "m = (k, v)" "marshal v = Some V" "t = quote_string k @ [colon] @ V"
      using some by (cases m) auto
    have "no_raw v" using GObj.prems(1) mem m(1) by (force simp: list_all_iff)
    then have "wf8 V" using GObj.IH [OF mem, of v V] m by (simp add: snds.simps)
    then have "wf8 ([colon] @ V)" by (intro wf8_append wf8_ascii [of "[colon]"]) simp_all
    then show ?thesis unfolding m(3) by (rule wf8_append [OF wf8_quote])
  qed
  have "\<forall>t \<in> set ts. wf8 t" using sequence_opt_map_Some [OF ts(1)] one by (rule list_all2_all)
  then show ?case unfolding ts(2) sep_join_def by (intro wf8_append wf8_join wf8_ascii) simp_all
qed (auto simp: wf8_quote intro: wf8_ascii itoa_ascii split: if_splits)

subsection \<open>What a marshalled value decodes to\<close>

fun any_of :: "gojson \<Rightarrow> jany" where
  "any_of GNull = JNull"
| "any_of (GBool b) = JBool b"
| "any_of (GInt i) = JNumber (itoa i)"
| "any_of (GStr s) = JString (utf8_clean s)"
| "any_of (GArr vs) = JArray (map any_of vs)"
| "any_of (GObj ms) = JObject (by_key (map (\<lambda>(k, v). (utf8_clean k, any_of v)) ms))"
| "any_of (GRaw raw) = JNull"

lemma raw_elements_texts:
  assumes "list_all2 (text_of d) vs ts" "d \<le> max_depth" "vs \<noteq> []" "length vs \<le> n"
  shows "raw_elements n (sep_join ts @ rbrack # s) = ts"
  using assms
proof (induction vs ts arbitrary: n rule: list_all2_induct)
  case (Cons v vs t ts)
  obtain k where n: "n = Suc k" using Cons.prems by (cases n) auto
  have stop: "stops (rbrack # s)" "stops (comma # u)" for u by simp_all
  have up: "upto_rest (t @ u) u = t" for u using upto_rest_append [of t u] by simp
  show ?case
  proof (cases "vs = []")
    case True
    then have "ts = []" using Cons.hyps by simp
    then show ?thesis using True n tok_scan [OF Cons.hyps(1) Cons.prems(1) stop(1)]
      by (simp add: sep_join_def up skip_ws_Cons json_bytes Let_def del: scan_val.simps)
  next
    case False
    then obtain t' ts' where ts: "ts = t' # ts'" using Cons.hyps by (cases ts) auto
    have "raw_elements k (sep_join ts @ rbrack # s) = ts" using Cons.IH [OF Cons.prems(1) False, of k] Cons.prems n by simp
    then show ?thesis using tok_scan [OF Cons.hyps(1) Cons.prems(1) stop(2)] n
      by (simp add: sep_join_def ts up skip_ws_Cons json_bytes Let_def del: scan_val.simps)
  qed
qed simp

lemma raw_members_marshal:
  assumes "json_ok d (GObj ms)" "d \<le> max_depth" "marshal (GObj ms) = Some X"
  obtains t where "X = lbrace # t" "raw_members (length X) t = map parsed ms" "json_valid X"
proof -
  obtain t where t: "X = lbrace # t" using assms(3) by auto
  have "json_valid X" using marshal_ok [OF assms(1,2)] text_of_facts(2) assms(2,3) by (metis option.inject)
  moreover from this have "raw_members (length X) t = map parsed ms"
    using unmarshal_marshal_object [OF assms] by (simp add: unmarshal_members_def t skip_ws_Cons json_bytes)
  ultimately show ?thesis using that t by blast
qed

lemma raw_elements_marshal:
  assumes "json_ok d (GArr vs)" "d \<le> max_depth" "marshal (GArr vs) = Some X"
  obtains t where "X = lbrack # t" "raw_elements (length X) t = map (\<lambda>v. the (marshal v)) vs" "json_valid X"
proof -
  obtain ts where ts: "sequence_opt (map marshal vs) = Some ts" "X = lbrack # sep_join ts @ [rbrack]" using assms(3) by auto
  have v: "json_valid X" using marshal_ok [OF assms(1,2)] text_of_facts(2) assms(2,3) by (metis option.inject)
  note l2 = sequence_opt_map_Some [OF ts(1)]
  have "\<forall>v \<in> set vs. json_ok (d - 1) v" using assms(1) by simp
  with l2 have texts: "list_all2 (text_of (d - 1)) vs ts"
  proof (induction rule: list_all2_induct)
    case (Cons v vs t ts)
    then have v: "json_ok (d - 1) v" by simp
    have "d - 1 \<le> max_depth" using assms(2) by simp
    from marshal_ok [OF v this] obtain X where "text_of (d - 1) v X" "marshal v = Some X" .
    then show ?case using Cons by simp
  qed simp
  have "ts = map (\<lambda>v. the (marshal v)) vs" using l2 by (induction rule: list_all2_induct) auto
  moreover have "raw_elements (length X) (sep_join ts @ [rbrack]) = ts"
  proof (cases "vs = []")
    case True
    have "scan_leaf rbrack [] = None" by (simp add: scan_leaf_def scan_number_def json_bytes is_digit_def)
    then show ?thesis using texts ts(2) True
      by (simp add: sep_join_def Let_def skip_ws_Cons json_bytes scan_fuel_def)
  next
    case False
    have "length vs \<le> length X" using sep_join_length [of ts] list_all2_lengthD [OF texts] ts(2) by simp
    then show ?thesis using raw_elements_texts [OF texts _ False, of "length X" "[]"] assms(2) by simp
  qed
  ultimately show ?thesis using that v ts(2) by blast
qed

lemma scan_number_itoa: "scan_number (itoa i) = Some []"
  using scan_digits_of [of "[]" "nat i"] scan_digits_of [of "[]" "nat (- i)"] by (simp add: itoa_def)

lemma itoa_head:
  obtains c t where "itoa i = c # t" "c = CHR ''-'' \<or> is_digit c"
proof -
  have "digits_of n \<noteq> [] \<and> is_digit (hd (digits_of n))" for n
    using digits_of_digits [of n] by (cases "digits_of n") auto
  then have "itoa i \<noteq> [] \<and> (hd (itoa i) = CHR ''-'' \<or> is_digit (hd (itoa i)))" by (simp add: itoa_def)
  then show ?thesis using that by (metis list.collapse)
qed

lemma any_value_int: "any_value (Suc n) (itoa i) = JNumber (itoa i)"
proof -
  obtain c t where c: "itoa i = c # t" "c = CHR ''-'' \<or> is_digit c" by (rule itoa_head)
  have ws: "\<not> json_ws c" "c \<noteq> lbrace" "c \<noteq> lbrack" "c \<noteq> dquote" "c \<noteq> CHR ''t''" "c \<noteq> CHR ''f''" "c \<noteq> CHR ''n''"
    using c(2) by (auto simp: is_digit_def json_ws_def)
  have "upto_rest (c # t) [] = c # t" by (simp add: upto_rest_def)
  then show ?thesis using ws scan_number_itoa [of i] by (simp add: any_value.simps(2) c(1) skip_ws_Cons)
qed

lemma any_value_str: "any_value (Suc n) (quote_string s) = JString (utf8_clean s)"
proof -
  have "butlast (upto_rest (quote_body s @ [dquote]) []) = quote_body s" by (simp add: upto_rest_def)
  then show ?thesis using scan_quote [of s "[]"]
    by (simp add: any_value.simps(2) quote_string_def skip_ws_Cons json_bytes unquote_quote_body)
qed

lemma any_value_words:
  "any_value (Suc n) ''null'' = JNull" "any_value (Suc n) ''true'' = JBool True" "any_value (Suc n) ''false'' = JBool False"
proof -
  have "\<not> json_ws (CHR ''n'')" "\<not> json_ws (CHR ''t'')" "\<not> json_ws (CHR ''f'')" by code_simp+
  then show "any_value (Suc n) ''null'' = JNull" "any_value (Suc n) ''true'' = JBool True" "any_value (Suc n) ''false'' = JBool False"
    by (simp_all add: any_value.simps(2) skip_ws_Cons)
qed

lemma any_value_marshal:
  "no_raw v \<Longrightarrow> json_ok d v \<Longrightarrow> d \<le> max_depth \<Longrightarrow> d \<le> n \<Longrightarrow> marshal v = Some X \<Longrightarrow> any_value (Suc n) X = any_of v"
proof (induction v arbitrary: d n X)
  case (GArr vs)
  obtain t where t: "X = lbrack # t" "raw_elements (length X) t = map (\<lambda>v. the (marshal v)) vs"
    using GArr.prems by (elim raw_elements_marshal)
  obtain n' where n: "n = Suc n'" using GArr.prems(2,4) by (cases n) auto
  have "any_value n (the (marshal v)) = any_of v" if v: "v \<in> set vs" for v
  proof -
    have ok: "no_raw v" "json_ok (d - 1) v" using GArr.prems(1,2) v by (auto simp: list_all_iff)
    have d: "d - 1 \<le> max_depth" "d - 1 \<le> n'" using GArr.prems(3,4) n by simp_all
    from marshal_ok [OF ok(2) d(1)] obtain Y where Y: "text_of (d - 1) v Y" "marshal v = Some Y" .
    show ?thesis using GArr.IH [OF v ok d Y(2)] Y(2) n by simp
  qed
  then have "map (any_value n) (map (\<lambda>v. the (marshal v)) vs) = map any_of vs" by simp
  moreover have "any_value (Suc n) X = JArray (map (any_value n) (raw_elements (length X) t))"
    by (simp add: any_value.simps(2) t(1) skip_ws_Cons json_bytes del: raw_elements.simps)
  ultimately show ?case by (simp only: t(2) any_of.simps)
next
  case (GObj ms)
  obtain t where t: "X = lbrace # t" "raw_members (length X) t = map parsed ms"
    using GObj.prems by (elim raw_members_marshal)
  obtain n' where n: "n = Suc n'" using GObj.prems(2,4) by (cases n) auto
  have "any_value n (the (marshal (snd m))) = any_of (snd m)" if m: "m \<in> set ms" for m
  proof -
    have "no_raw (snd m)" using GObj.prems(1) m by (cases m) (force simp: list_all_iff)
    moreover have "json_ok (d - 1) (snd m)" using GObj.prems(2) m by simp
    ultimately have ok: "no_raw (snd m)" "json_ok (d - 1) (snd m)" .
    have d: "d - 1 \<le> max_depth" "d - 1 \<le> n'" using GObj.prems(3,4) n by simp_all
    from marshal_ok [OF ok(2) d(1)] obtain Y where Y: "text_of (d - 1) (snd m) Y" "marshal (snd m) = Some Y" .
    have "snd m \<in> Basic_BNFs.snds m" by (cases m) simp
    then show ?thesis using GObj.IH [OF m _ ok d Y(2)] Y(2) n by simp
  qed
  then have "map (\<lambda>(k, v). (k, any_value n v)) (map parsed ms) = map (\<lambda>(k, v). (utf8_clean k, any_of v)) ms"
    by (auto simp: parsed_def)
  moreover have "any_value (Suc n) X = JObject (by_key (map (\<lambda>(k, v). (k, any_value n v)) (raw_members (length X) t)))"
    by (simp add: any_value.simps(2) t(1) skip_ws_Cons json_bytes del: raw_members.simps)
  ultimately show ?case by (simp only: t(2) any_of.simps)
qed (auto simp: any_value_int any_value_str any_value_words)

end
