(* ===== verification/WireContract.thy ===== *)
theory WireContract
  imports AnyValue ToolProperties
begin

text \<open>
  \<open>internal/mcptest\<close>: the decoder that states the contract of \<open>tools/call\<close> on the wire, and
  that every result of the server keeps it. Of an unexpected member the name is not kept in
  the error, because a Go map gives them in any order.
\<close>

record decoded_call_tool_result =
  TextContent :: jany
  StructuredContent :: jany
  HasStructuredContent :: bool
  IsError :: bool

datatype value_error = SyntaxError | TrailingValue

datatype block_error =
  BlockNotObject | BlockInvalid | UnexpectedBlockField | TypeNotText | TextNotString | TextInvalid value_error | TextNotObject

datatype wire_error =
  ResultNotObject | ResultInvalid | UnexpectedField | ContentRequired | ContentNotArray | NotOneBlock
| ContentBlock nat block_error | StructuredRequired | StructuredInvalid value_error | StructuredNotObject
| ContentsDiffer | IsErrorNotBoolean

definition wire_isJSONObject :: "string \<Rightarrow> bool" where
  "wire_isJSONObject raw \<longleftrightarrow> (let trimmed = trim_space raw in length trimmed > 0 \<and> hd trimmed = lbrace)"

definition isObjectValue :: "jany \<Rightarrow> bool" where
  "isObjectValue v = (case v of JObject _ \<Rightarrow> True | _ \<Rightarrow> False)"

definition decodeJSONValue :: "string \<Rightarrow> (value_error, jany) result" where
  "decodeJSONValue raw =
     (case scan_val (scan_fuel raw) max_depth raw of None \<Rightarrow> Inl SyntaxError
      | Some rest \<Rightarrow> if skip_ws rest \<noteq> [] then Inl TrailingValue else Inr (any_value (Suc max_depth) raw))"

definition decodeTextBlock :: "string \<Rightarrow> (block_error, string) result" where
  "decodeTextBlock raw =
     (if \<not> wire_isJSONObject raw then Inl BlockNotObject
      else case unmarshal_members raw of None \<Rightarrow> Inl BlockInvalid
      | Some ms \<Rightarrow>
          let fields = map_of (rev ms) in
          if \<exists>name \<in> set (map fst ms). name \<noteq> ''type'' \<and> name \<noteq> ''text'' then Inl UnexpectedBlockField
          else case fields ''type'' of None \<Rightarrow> Inl TypeNotText
          | Some rawType \<Rightarrow>
              if unmarshal_string rawType \<noteq> Some ''text'' then Inl TypeNotText
              else case fields ''text'' of None \<Rightarrow> Inl TextNotString
              | Some rawText \<Rightarrow> (case unmarshal_string rawText of None \<Rightarrow> Inl TextNotString | Some t \<Rightarrow> Inr t))"

text \<open>One step of the loop over the blocks, of which there is exactly one.\<close>

definition decode_block :: "string \<Rightarrow> (block_error, jany) result" where
  "decode_block blockRaw =
     (case decodeTextBlock blockRaw of Inl e \<Rightarrow> Inl e
      | Inr block \<Rightarrow>
          (case decodeJSONValue block of Inl e \<Rightarrow> Inl (TextInvalid e)
           | Inr decodedText \<Rightarrow> if \<not> isObjectValue decodedText then Inl TextNotObject else Inr decodedText))"

definition DecodeCallToolResult :: "string \<Rightarrow> (wire_error, decoded_call_tool_result) result" where
  "DecodeCallToolResult raw =
     (if \<not> wire_isJSONObject raw then Inl ResultNotObject
      else case unmarshal_members raw of None \<Rightarrow> Inl ResultInvalid
      | Some ms \<Rightarrow>
          let fields = map_of (rev ms) in
          if \<exists>name \<in> set (map fst ms). name \<notin> {''content'', ''structuredContent'', ''isError''} then Inl UnexpectedField
          else case fields ''content'' of None \<Rightarrow> Inl ContentRequired
          | Some contentRaw \<Rightarrow>
          case unmarshal_elements contentRaw of None \<Rightarrow> Inl ContentNotArray
          | Some blocks \<Rightarrow>
          if length blocks \<noteq> 1 then Inl NotOneBlock
          else case decode_block (hd blocks) of Inl e \<Rightarrow> Inl (ContentBlock 0 e)
          | Inr textContent \<Rightarrow>
          case fields ''structuredContent'' of None \<Rightarrow> Inl StructuredRequired
          | Some structuredRaw \<Rightarrow>
          case decodeJSONValue structuredRaw of Inl e \<Rightarrow> Inl (StructuredInvalid e)
          | Inr structured \<Rightarrow>
          if \<not> isObjectValue structured then Inl StructuredNotObject
          else if textContent \<noteq> structured then Inl ContentsDiffer
          else let decoded = \<lparr>TextContent = textContent, StructuredContent = structured, HasStructuredContent = True, IsError = False\<rparr>
          in case fields ''isError'' of None \<Rightarrow> Inr decoded
          | Some isErrorRaw \<Rightarrow>
              (case unmarshal_bool isErrorRaw of None \<Rightarrow> Inl IsErrorNotBoolean
               | Some b \<Rightarrow> Inr (decoded\<lparr>IsError := b\<rparr>)))"

subsection \<open>Results of the tools\<close>

lemma execute_no_raw:
  assumes "GetTool (createToolRegistry f m c) n = Some t" "t_Execute t h raw = (h', Inr v)"
  shows "\<exists>ms. v = Plain (GObj ms) \<and> no_raw (GObj ms) \<and> json_ok 3 (GObj ms)"
proof -
  have "t \<in> set (read_tools f m) \<or> t \<in> set (write_tools f)" using GetTool_cases [OF assms(1)] by blast
  then consider "t_Execute t = ListDirectoryTool_Execute f" | "t_Execute t = ReadFileTool_Execute f m"
    | "t_Execute t = GetPathInfoTool_Execute f" | "t_Execute t = WriteFileTool_Execute f"
    | "t_Execute t = CreateDirectoryTool_Execute f" | "t_Execute t = DeletePathTool_Execute f"
    | "t_Execute t = CopyPathTool_Execute f" | "t_Execute t = MovePathTool_Execute f"
    by (auto simp: read_tools_def write_tools_def tool_defs)
  then show ?thesis
    by cases (use assms(2) in \<open>auto simp: execute_defs Let_def entry_json_def list_all_iff
      split: sum.splits prod.splits option.splits if_splits\<close>)
qed

lemma decode_marshalled:
  assumes "no_raw (GObj ms)" "json_ok 3 (GObj ms)" "marshal (GObj ms) = Some X"
  shows "decodeJSONValue X = Inr (any_of (GObj ms))" "utf8_clean X = X"
proof -
  have d: "3 \<le> max_depth" by (simp add: max_depth_def)
  obtain t where "json_valid X" using raw_members_marshal [OF assms(2) d assms(3)] by blast
  then obtain r where "scan_val (scan_fuel X) max_depth X = Some r" "skip_ws r = []"
    by (auto simp: json_valid_def split: option.splits)
  then show "decodeJSONValue X = Inr (any_of (GObj ms))"
    using any_value_marshal [OF assms(1,2) d d assms(3)] by (simp add: decodeJSONValue_def del: any_of.simps)
  show "utf8_clean X = X" using wf8_clean [OF wf8_marshal [OF assms(1,3)]] .
qed

lemma wire_object: "raw = lbrace # s \<Longrightarrow> wire_isJSONObject raw"
  using trim_space_head [of lbrace s] by (auto simp: wire_isJSONObject_def Let_def ascii_space_def)

lemma plain_names:
  "utf8_clean ''type'' = ''type''" "utf8_clean ''text'' = ''text''" "utf8_clean ''content'' = ''content''"
  "utf8_clean ''structuredContent'' = ''structuredContent''"
  by (simp_all add: utf8_clean_plain)

lemma decode_text_block:
  assumes "utf8_clean X = X"
  shows "decodeTextBlock (the (marshal (text_content_json (NewTextContent X)))) = Inr X"
proof -
  let ?ms = "[(''type'', GStr ''text''), (''text'', GStr X)]"
  have ok: "json_ok 1 (GObj ?ms)" "1 \<le> max_depth" by (simp_all add: max_depth_def)
  obtain B where B: "marshal (GObj ?ms) = Some B" using marshal_ok [OF ok] by blast
  then obtain t where "B = lbrace # t" by auto
  then have "wire_isJSONObject B" by (rule wire_object)
  moreover have "unmarshal_members B = Some [(''type'', quote_string ''text''), (''text'', quote_string X)]"
    using unmarshal_marshal_object [OF ok B] by (simp add: parsed_def plain_names)
  moreover have "text_content_json (NewTextContent X) = GObj ?ms" by (simp add: text_content_json_def NewTextContent_def)
  ultimately show ?thesis
    using B by (simp add: decodeTextBlock_def unmarshal_quote plain_names assms del: marshal.simps)
qed

lemma decode_result:
  assumes "no_raw (GObj ms)" "json_ok 3 (GObj ms)" "marshal (GObj ms) = Some X"
    and "marshal (call_tool_result_json \<lparr>ct_Content = [NewTextContent X], ct_StructuredContent = X, ct_IsError = False\<rparr>) = Some Y"
  shows "DecodeCallToolResult Y = Inr \<lparr>TextContent = any_of (GObj ms), StructuredContent = any_of (GObj ms),
    HasStructuredContent = True, IsError = False\<rparr>"
proof -
  have d: "3 \<le> max_depth" by (simp add: max_depth_def)
  obtain X' where "text_of 3 (GObj ms) X'" "marshal (GObj ms) = Some X'" by (rule marshal_ok [OF assms(2) d])
  then have X: "text_of 3 (GObj ms) X" using assms(3) by (metis option.inject)
  note facts = text_of_facts [OF X d]
  let ?block = "text_content_json (NewTextContent X)"
  let ?ms = "[(''content'', GArr [?block]), (''structuredContent'', GRaw X)]"
  have json: "call_tool_result_json \<lparr>ct_Content = [NewTextContent X], ct_StructuredContent = X, ct_IsError = False\<rparr> = GObj ?ms"
    using facts(6) by (simp add: call_tool_result_json_def raw_json_def)
  have ok: "json_ok 6 (GObj ?ms)" using call_result_ok [OF X d] unfolding json by (simp add: eval_nat_numeral)
  have d6: "6 \<le> max_depth" by (simp add: max_depth_def)
  have Y: "marshal (GObj ?ms) = Some Y" using assms(4) by (simp only: json)
  have raw: "marshal (GRaw X) = Some X" using facts(4) by simp
  have arr: "json_ok 5 (GArr [?block])" "5 \<le> max_depth" using ok d6 by simp_all
  obtain C where C: "marshal (GArr [?block]) = Some C" using marshal_ok [OF arr] by blast
  have "unmarshal_members Y = Some [(''content'', C), (''structuredContent'', X)]"
    using unmarshal_marshal_object [OF ok d6 Y] by (simp add: parsed_def plain_names C raw del: marshal.simps)
  moreover have "wire_isJSONObject Y" using Y wire_object by auto
  moreover have "unmarshal_elements C = Some [the (marshal ?block)]"
  proof -
    obtain t where t: "C = lbrack # t" "raw_elements (length C) t = map (\<lambda>v. the (marshal v)) [?block]" "json_valid C"
      by (rule raw_elements_marshal [OF arr C])
    then show ?thesis by (simp add: unmarshal_elements_def skip_ws_Cons json_bytes del: marshal.simps raw_elements.simps)
  qed
  moreover have "decode_block (the (marshal ?block)) = Inr (any_of (GObj ms))"
    using decode_marshalled [OF assms(1-3)] decode_text_block [of X]
    by (simp add: decode_block_def isObjectValue_def)
  ultimately show ?thesis
    using decode_marshalled(1) [OF assms(1-3)]
    by (simp add: DecodeCallToolResult_def isObjectValue_def Let_def)
qed

text \<open>
  C7: every result of \<open>tools/call\<close> is what a tool returned, and it keeps the contract on the wire:
  it marshals, and the decoder of the contract accepts the text and finds the value that the tool
  returned, both in the text block and in the structured content.
\<close>

theorem wire_contract:
  assumes "CallHandler_Handle (createToolRegistry f m c) h p = (h', Result (Some v))"
  shows "\<exists>name arguments t ms Y. GetTool (createToolRegistry f m c) name = Some t \<and>
    t_Execute t h arguments = (h', Inr (Plain (GObj ms))) \<and> marshal (any_json v) = Some Y \<and>
    DecodeCallToolResult Y = Inr \<lparr>TextContent = any_of (GObj ms), StructuredContent = any_of (GObj ms),
      HasStructuredContent = True, IsError = False\<rparr>"
proof -
  obtain name arguments t r w where t: "GetTool (createToolRegistry f m c) name = Some t" "t_Execute t h arguments = (h', Inr r)"
    and w: "wrapSuccessfulToolResult r = Inr w" "v = CallResult w"
    using assms by (auto simp: CallHandler_Handle_def split: sum.splits option.splits prod.splits)
  obtain ms where r: "r = Plain (GObj ms)" "no_raw (GObj ms)" "json_ok 3 (GObj ms)"
    using execute_no_raw [OF t] by blast
  have d: "3 \<le> max_depth" "6 \<le> max_depth" by (simp_all add: max_depth_def)
  obtain X where X: "text_of 3 (GObj ms) X" "marshal (GObj ms) = Some X" by (rule marshal_ok [OF r(3) d(1)])
  have w': "w = \<lparr>ct_Content = [NewTextContent X], ct_StructuredContent = X, ct_IsError = False\<rparr>"
    using w(1) by (simp add: wrapSuccessfulToolResult_def r(1) X(2) NewCallToolResult_Some [OF X(1) d(1)] del: marshal.simps)
  have "json_ok 6 (call_tool_result_json w)" using call_result_ok [OF X(1) d(1)] by (simp add: w' eval_nat_numeral)
  then obtain Y where "marshal (call_tool_result_json w) = Some Y" using marshal_ok d(2) by blast
  then show ?thesis
    using t r(1) decode_result [OF r(2,3) X(2)] by (intro exI conjI) (simp_all add: w(2) w' del: marshal.simps)
qed

theorem wire_contract_witness:
  "\<exists>h' v Y d. CallHandler_Handle (createToolRegistry (local_fsys sample_fs) 100 (capabilitiesFromReadOnly True)) clean_host
      ''{\"name\":\"read_file\",\"arguments\":{\"path\":\"a.txt\"}}'' = (h', Result (Some v)) \<and>
    marshal (any_json v) = Some Y \<and> DecodeCallToolResult Y = Inr d \<and> TextContent d = StructuredContent d"
proof -
  let ?call = "CallHandler_Handle (createToolRegistry (local_fsys sample_fs) 100 (capabilitiesFromReadOnly True)) clean_host
      ''{\"name\":\"read_file\",\"arguments\":{\"path\":\"a.txt\"}}''"
  have "case snd ?call of Result (Some v) \<Rightarrow> True | _ \<Rightarrow> False" by code_simp
  then obtain h' v where c: "?call = (h', Result (Some v))" by (cases ?call) (auto split: outcome.splits option.splits)
  from wire_contract [OF this] show ?thesis using c by force
qed

end
