(* ===== verification/GoTime.thy ===== *)
theory GoTime
  imports GoStrings
begin

text \<open>
  The part of package \<open>time\<close> the program uses: Unix times in the Gregorian calendar, and the
  layout \<open>time.RFC3339\<close>. \<open>Parse\<close> is the general parser, which accepts what the fast path for
  this layout accepts and more (a one-digit hour, a comma before the fraction).
\<close>

subsection \<open>The calendar\<close>

definition leap :: "int \<Rightarrow> bool" where
  "leap y \<longleftrightarrow> y mod 4 = 0 \<and> (y mod 100 \<noteq> 0 \<or> y mod 400 = 0)"

definition days_before :: "int list" where
  "days_before = [0, 31, 59, 90, 120, 151, 181, 212, 243, 273, 304, 334, 365]"

text \<open>Days before the first of a month, the months counted from 1, and the days in it.\<close>

definition month_start :: "int \<Rightarrow> int \<Rightarrow> int" where
  "month_start y m = days_before ! nat (m - 1) + (if leap y \<and> 3 \<le> m then 1 else 0)"

definition days_in :: "int \<Rightarrow> int \<Rightarrow> int" where
  "days_in y m =
     (if m = 2 then (if leap y then 29 else 28) else days_before ! nat m - days_before ! nat (m - 1))"

text \<open>Days from the first of January of the year 1.\<close>

definition year_start :: "int \<Rightarrow> int" where
  "year_start y = (let k = y - 1 in 365 * k + k div 4 - k div 100 + k div 400)"

definition day_number :: "int \<Rightarrow> int \<Rightarrow> int \<Rightarrow> int" where
  "day_number y m d = year_start y + month_start y m + (d - 1)"

text \<open>The year of a day and the day in it, by cycles of 400, 100 and 4 years.\<close>

definition year_of_day :: "int \<Rightarrow> int \<times> int" where
  "year_of_day n =
     (let n400 = n div 146097; d = n mod 146097;
          c = d div 36524; c = c - c div 4; d = d - 36524 * c;
          q = d div 1461; d = d - 1461 * q;
          y = d div 365; y = y - y div 4
      in (1 + 400 * n400 + 100 * c + 4 * q + y, d - 365 * y))"

text \<open>Month and day of a day of a year.\<close>

definition month_of_yday :: "bool \<Rightarrow> int \<Rightarrow> int \<times> int" where
  "month_of_yday l yday =
     (if l \<and> yday = 59 then (2, 29)
      else let day = (if l \<and> 59 < yday then yday - 1 else yday);
               month = day div 31; last = days_before ! nat (month + 1)
           in if last \<le> day then (month + 2, day - last + 1)
              else (month + 1, day - days_before ! nat month + 1))"

definition date_of_day :: "int \<Rightarrow> int \<times> int \<times> int" where
  "date_of_day n =
     (case year_of_day n of (y, yday) \<Rightarrow> (case month_of_yday (leap y) yday of (m, d) \<Rightarrow> (y, m, d)))"

text \<open>Days from the first of January of the year 1 to the first of January 1970.\<close>

definition unix_day :: int where "unix_day = 719162"

definition unix_time :: "int \<Rightarrow> int \<Rightarrow> int \<Rightarrow> int \<Rightarrow> int \<Rightarrow> int \<Rightarrow> int" where
  "unix_time y m d hh mm ss = (day_number y m d - unix_day) * 86400 + hh * 3600 + mm * 60 + ss"

subsection \<open>Format\<close>

text \<open>A year of more than four digits, or a negative one, is written as it is.\<close>

definition year_text :: "int \<Rightarrow> string" where
  "year_text y = (if y < 0 then CHR ''-'' # padded 4 (nat (- y)) else padded 4 (nat y))"

text \<open>\<open>time.Unix(n, 0).UTC().Format(time.RFC3339)\<close>.\<close>

definition format_utc :: "int \<Rightarrow> string" where
  "format_utc n =
     (case date_of_day (n div 86400 + unix_day) of (y, m, d) \<Rightarrow>
      let s = n mod 86400 in
      year_text y @ ''-'' @ padded 2 (nat m) @ ''-'' @ padded 2 (nat d) @ ''T'' @
      padded 2 (nat (s div 3600)) @ '':'' @ padded 2 (nat (s div 60 mod 60)) @ '':'' @
      padded 2 (nat (s mod 60)) @ ''Z'')"

subsection \<open>Parse\<close>

text \<open>Two digits, or one where \<open>fixed\<close> is false.\<close>

definition getnum :: "string \<Rightarrow> bool \<Rightarrow> (int \<times> string) option" where
  "getnum s fixed =
     (case s of a # b # t \<Rightarrow>
        if \<not> is_digit a then None
        else if \<not> is_digit b then (if fixed then None else Some (int (digit_val a), b # t))
        else Some (int (digit_val a * 10 + digit_val b), t)
      | [a] \<Rightarrow> if \<not> is_digit a \<or> fixed then None else Some (int (digit_val a), [])
      | [] \<Rightarrow> None)"

definition literal :: "char \<Rightarrow> string \<Rightarrow> string option" where
  "literal c s = (case s of a # t \<Rightarrow> if a = c then Some t else None | [] \<Rightarrow> None)"

definition in_range :: "int \<Rightarrow> int \<Rightarrow> int \<times> 'b \<Rightarrow> (int \<times> 'b) option" where
  "in_range lo hi r = (if lo \<le> fst r \<and> fst r \<le> hi then Some r else None)"

text \<open>A fraction of a second is read although the layout has none.\<close>

definition skip_fraction :: "string \<Rightarrow> string" where
  "skip_fraction s =
     (case s of a # b # t \<Rightarrow>
        if (a = CHR ''.'' \<or> a = CHR '','') \<and> is_digit b then dropWhile is_digit t else s
      | _ \<Rightarrow> s)"

text \<open>The offset in seconds, and whether it is written \<open>Z\<close>.\<close>

definition parse_zone :: "string \<Rightarrow> ((int \<times> bool) \<times> string) option" where
  "parse_zone s =
     (if s \<noteq> [] \<and> hd s = CHR ''Z'' then Some ((0, True), tl s)
      else if length s < 6 \<or> s ! 3 \<noteq> CHR '':'' then None
      else Option.bind (getnum (take 2 (drop 1 s)) True) (\<lambda>(hr, _).
           Option.bind (getnum (take 2 (drop 4 s)) True) (\<lambda>(mm, _).
           if hr > 24 \<or> mm > 60 then None
           else if hd s = CHR ''+'' then Some (((hr * 60 + mm) * 60, False), drop 6 s)
           else if hd s = CHR ''-'' then Some ((- ((hr * 60 + mm) * 60), False), drop 6 s)
           else None)))"

record gotime =
  unix_sec :: int
  utc_loc :: bool
  zone_offset :: int

text \<open>\<open>time.Parse(time.RFC3339, s)\<close>; \<open>None\<close> is an error. The fraction is dropped.\<close>

definition parse_rfc3339 :: "string \<Rightarrow> gotime option" where
  "parse_rfc3339 s =
     (if length s < 4 \<or> \<not> list_all is_digit (take 4 s) then None
      else let y = int (decimal (take 4 s)) in
      Option.bind (literal (CHR ''-'') (drop 4 s)) (\<lambda>s.
      Option.bind (Option.bind (getnum s True) (in_range 1 12)) (\<lambda>(m, s).
      Option.bind (literal (CHR ''-'') s) (\<lambda>s.
      Option.bind (getnum s True) (\<lambda>(d, s).
      Option.bind (literal (CHR ''T'') s) (\<lambda>s.
      Option.bind (Option.bind (getnum s False) (in_range 0 23)) (\<lambda>(hh, s).
      Option.bind (literal (CHR '':'') s) (\<lambda>s.
      Option.bind (Option.bind (getnum s True) (in_range 0 59)) (\<lambda>(mm, s).
      Option.bind (literal (CHR '':'') s) (\<lambda>s.
      Option.bind (Option.bind (getnum s True) (in_range 0 59)) (\<lambda>(ss, s).
      Option.bind (parse_zone (skip_fraction s)) (\<lambda>((offset, z), s).
      if s \<noteq> [] \<or> d < 1 \<or> d > days_in y m then None
      else Some \<lparr>unix_sec = unix_time y m d hh mm ss - offset, utc_loc = z, zone_offset = offset\<rparr>))))))))))))"

text \<open>\<open>t.UTC().Format(time.RFC3339)\<close> and \<open>t.UTC().Year()\<close>.\<close>

definition utc_text :: "gotime \<Rightarrow> string" where
  "utc_text t = format_utc (unix_sec t)"

definition utc_year :: "gotime \<Rightarrow> int" where
  "utc_year t = fst (date_of_day (unix_sec t div 86400 + unix_day))"

subsection \<open>Days and dates\<close>

text \<open>The fourth quarter of a cycle takes the extra day.\<close>

lemma capped_div:
  fixes d k :: int
  assumes "0 \<le> d" "d \<le> 4 * k" "0 < k" and c: "c = d div k - d div k div 4"
  shows "0 \<le> c \<and> c \<le> 3 \<and> 0 \<le> d - k * c \<and> (d - k * c < k \<or> d = 4 * k \<and> c = 3)"
proof -
  define a where "a = d div k"
  have d: "d = k * a + d mod k" "0 \<le> d mod k" "d mod k < k" using assms(3) by (simp_all add: a_def)
  have "0 \<le> a" using assms(1,3) by (simp add: a_def pos_imp_zdiv_nonneg_iff)
  moreover have "a \<le> 4" using zdiv_mono1 [OF assms(2,3)] assms(3) by (simp add: a_def)
  ultimately consider "a = 0" | "a = 1" | "a = 2" | "a = 3" | "a = 4" by linarith
  then show ?thesis
    using d assms(2) unfolding c a_def [symmetric] by cases auto
qed

lemma year_of_day_ok:
  assumes "year_of_day n = (y, yday)"
  shows "year_start y + yday = n" "0 \<le> yday" "yday < 365 + (if leap y then 1 else 0)"
proof -
  define n400 where "n400 = n div 146097"
  define d where "d = n mod 146097"
  define c where "c = d div 36524 - d div 36524 div 4"
  define d1 where "d1 = d - 36524 * c"
  define q where "q = d1 div 1461"
  define d2 where "d2 = d1 - 1461 * q"
  define j where "j = d2 div 365 - d2 div 365 div 4"
  have n: "n = 146097 * n400 + d" "0 \<le> d" "d < 146097" by (simp_all add: n400_def d_def)
  have c: "0 \<le> c" "c \<le> 3" "0 \<le> d1" "d1 \<le> 36524" "d1 = 36524 \<longrightarrow> c = 3"
    using capped_div [of d 36524 c] n(2,3) by (auto simp: c_def [symmetric] d1_def)
  have q: "0 \<le> q" "q \<le> 24" "0 \<le> d2" "d2 \<le> 1460"
    using c pos_mod_bound [of 1461 d1] pos_mod_sign [of 1461 d1] zdiv_mono1 [of d1 36524 1461]
    by (auto simp: q_def d2_def minus_mult_div_eq_mod pos_imp_zdiv_nonneg_iff)
  have q24: "d2 = 1460 \<longrightarrow> q = 24 \<longrightarrow> c = 3" using c(5) unfolding d2_def by auto
  have j: "0 \<le> j" "j \<le> 3" "0 \<le> d2 - 365 * j" "d2 - 365 * j \<le> 365" "d2 - 365 * j = 365 \<longrightarrow> j = 3 \<and> d2 = 1460"
    using capped_div [of d2 365 j] q(3,4) by (auto simp: j_def [symmetric])
  have r: "y = 1 + 400 * n400 + 100 * c + 4 * q + j" "yday = d2 - 365 * j"
    using assms
    unfolding year_of_day_def Let_def n400_def [symmetric] d_def [symmetric] c_def [symmetric] d1_def [symmetric]
      q_def [symmetric] d2_def [symmetric] j_def [symmetric]
    by (simp_all only: prod.inject)
  have k: "(y - 1) div 4 = 100 * n400 + 25 * c + q" "(y - 1) div 100 = 4 * n400 + c" "(y - 1) div 400 = n400"
    by (rule int_div_pos_eq [where r = j] int_div_pos_eq [where r = "4 * q + j"]
        int_div_pos_eq [where r = "100 * c + 4 * q + j"]; use c(1,2) q(1,2) j(1,2) in \<open>simp add: r\<close>)+
  have "year_start y = 365 * (y - 1) + (100 * n400 + 25 * c + q) - (4 * n400 + c) + n400"
    unfolding year_start_def Let_def k ..
  then show "year_start y + yday = n" using n(1) unfolding r d1_def d2_def by (simp add: d2_def d1_def)
  show "0 \<le> yday" using j(3) r by simp
  have "leap y" if "yday = 365"
  proof -
    have jj: "j = 3" "q = 24 \<longrightarrow> c = 3" using j(5) q24 that r(2) by simp_all
    have "y = 4 * (100 * n400 + 25 * c + q + 1)" using jj by (simp add: r)
    then have "y mod 4 = 0" by simp
    moreover have "y mod 100 \<noteq> 0" if "q \<noteq> 24"
    proof -
      have "y = 100 * (4 * n400 + c) + (4 * q + 4)" "0 \<le> 4 * q + 4" "4 * q + 4 < 100"
        using that q(1,2) jj by (simp_all add: r)
      then have "y mod 100 = 4 * q + 4" by (metis int_mod_pos_eq)
      then show ?thesis using q(1) by simp
    qed
    moreover have "y mod 400 = 0" if "q = 24"
    proof -
      have "y = 400 * (n400 + 1)" using that jj by (simp add: r)
      then show ?thesis by simp
    qed
    ultimately show ?thesis by (cases "q = 24") (simp_all add: leap_def)
  qed
  then show "yday < 365 + (if leap y then 1 else 0)" using j(4) r(2) by (cases "yday = 365") auto
qed

definition month_fits :: "bool \<Rightarrow> int \<Rightarrow> bool" where
  "month_fits l yday =
     (case month_of_yday l yday of (m, d) \<Rightarrow>
        1 \<le> m \<and> m \<le> 12 \<and> 1 \<le> d \<and>
        d \<le> (if m = 2 then (if l then 29 else 28) else days_before ! nat m - days_before ! nat (m - 1)) \<and>
        days_before ! nat (m - 1) + (if l \<and> 3 \<le> m then 1 else 0) + (d - 1) = yday)"

lemma all_months_fit: "list_all (month_fits False) [0..364] \<and> list_all (month_fits True) [0..365]"
  by code_simp

lemma date_of_day_ok:
  assumes "date_of_day n = (y, m, d)"
  shows "day_number y m d = n" "1 \<le> m" "m \<le> 12" "1 \<le> d" "d \<le> days_in y m"
proof -
  obtain yday where yd: "year_of_day n = (y, yday)" "month_of_yday (leap y) yday = (m, d)"
    using assms by (auto simp: date_of_day_def split: prod.splits)
  note y = year_of_day_ok [OF yd(1)]
  have "month_fits (leap y) yday"
    using all_months_fit y(2,3) by (cases "leap y") (auto simp: list_all_iff)
  then have "1 \<le> m" "m \<le> 12" "1 \<le> d" "d \<le> days_in y m" "month_start y m + (d - 1) = yday"
    by (simp_all add: month_fits_def yd(2) days_in_def month_start_def)
  then show "day_number y m d = n" "1 \<le> m" "m \<le> 12" "1 \<le> d" "d \<le> days_in y m"
    using y(1) by (simp_all add: day_number_def)
qed

lemma unix_time_of_day:
  assumes "date_of_day (n div 86400 + unix_day) = (y, m, d)"
  shows "unix_time y m d (n mod 86400 div 3600) (n mod 86400 div 60 mod 60) (n mod 86400 mod 60) = n"
proof -
  have split: "s div 3600 * 3600 + s div 60 mod 60 * 60 + s mod 60 = s" for s :: int
  proof -
    have "s div 3600 = s div 60 div 60" by (simp add: zdiv_zmult2_eq [symmetric])
    then show ?thesis
      using div_mult_mod_eq [of s 60] div_mult_mod_eq [of "s div 60" 60] by linarith
  qed
  let ?s = "n mod 86400"
  have "day_number y m d = n div 86400 + unix_day" by (rule date_of_day_ok(1) [OF assms])
  then have "unix_time y m d (?s div 3600) (?s div 60 mod 60) (?s mod 60) =
      n div 86400 * 86400 + (?s div 3600 * 3600 + ?s div 60 mod 60 * 60 + ?s mod 60)"
    by (simp add: unix_time_def)
  also have "\<dots> = n" by (simp only: split div_mult_mod_eq)
  finally show ?thesis .
qed

subsection \<open>Parsing what was formatted\<close>

lemma getnum_padded: "n < 100 \<Longrightarrow> getnum (padded 2 n @ t) fixed = Some (int n, t)"
proof -
  assume n: "n < 100"
  then have "length (padded 2 n) = 2" by (intro length_padded) simp_all
  then obtain a b where ab: "padded 2 n = [a, b]" by (auto simp: length_Suc_conv numeral_2_eq_2)
  have "is_digit a" "is_digit b" using padded_digits [of 2 n] by (simp_all add: ab)
  moreover have "digit_val a * 10 + digit_val b = n"
    using decimal_padded [of 2 n] by (simp add: ab decimal_def)
  ultimately show ?thesis by (simp add: getnum_def ab)
qed

lemma literal_Cons [simp]: "literal c (c # s) = Some s"
  by (simp add: literal_def)

lemma in_range_ok: "lo \<le> k \<Longrightarrow> k \<le> hi \<Longrightarrow> in_range lo hi (k, s) = Some (k, s)"
  by (simp add: in_range_def)

lemma zone_Z: "parse_zone (skip_fraction ''Z'') = Some ((0, True), [])"
  by (simp add: parse_zone_def skip_fraction_def)

text \<open>The years of the range that \<open>SOURCE_DATE_EPOCH\<close> may have.\<close>

lemma year_start_late:
  assumes "10000 \<le> y"
  shows "3652059 \<le> year_start y"
proof (cases "y = 10000")
  case False
  define k where "k = y - 1"
  have "10000 \<le> k" using assms False by (simp add: k_def)
  moreover have "2500 \<le> k div 4" "0 \<le> k div 400" using zdiv_mono1 [of 10000 k 4] zdiv_mono1 [of 0 k 400] \<open>10000 \<le> k\<close> by simp_all
  moreover have "k div 100 * 100 \<le> k" by (simp add: minus_mod_eq_div_mult [symmetric])
  ultimately show ?thesis by (simp add: year_start_def Let_def k_def [symmetric])
qed (simp add: year_start_def)

lemma year_start_early:
  assumes "y \<le> 0"
  shows "year_start y < 0"
proof -
  define k where "k = y - 1"
  have k: "k \<le> -1" using assms by (simp add: k_def)
  then have "k div 4 \<le> -1" "k div 400 \<le> -1" using zdiv_mono1 [of k "-1" 4] zdiv_mono1 [of k "-1" 400] by simp_all
  moreover have "k < k div 100 * 100 + 100"
    using div_mult_mod_eq [of k 100] pos_mod_bound [of 100 k] by linarith
  ultimately show ?thesis using k by (simp add: year_start_def Let_def k_def [symmetric])
qed

definition max_utc :: int where "max_utc = 253402300799"

lemma year_range:
  assumes "0 \<le> n" "n \<le> max_utc" "date_of_day (n div 86400 + unix_day) = (y, m, d)"
  shows "0 \<le> y \<and> y \<le> 9999"
proof -
  obtain yday where yd: "year_of_day (n div 86400 + unix_day) = (y, yday)"
    using assms(3) by (auto simp: date_of_day_def split: prod.splits)
  have "0 \<le> n div 86400" "n div 86400 \<le> max_utc div 86400"
    using assms(1,2) by (simp_all add: zdiv_mono1 pos_imp_zdiv_nonneg_iff)
  moreover have "yday \<le> 365" using year_of_day_ok(3) [OF yd] by (simp split: if_splits)
  ultimately have "0 \<le> year_start y" "year_start y < 3652059"
    using year_of_day_ok(1,2) [OF yd] by (simp_all add: max_utc_def unix_day_def)
  then show ?thesis using year_start_late [of y] year_start_early [of y] by linarith
qed

lemma days_in_31:
  assumes "1 \<le> m" "m \<le> 12"
  shows "days_in y m \<le> 31"
proof -
  have "m \<in> set [1..12]" using assms by simp
  then show ?thesis by (auto simp: upto.simps days_in_def days_before_def)
qed

lemma parse_format:
  assumes "0 \<le> n" "n \<le> max_utc"
  shows "parse_rfc3339 (format_utc n) = Some \<lparr>unix_sec = n, utc_loc = True, zone_offset = 0\<rparr> \<and>
    length (format_utc n) = 20"
proof -
  obtain y m d where dt: "date_of_day (n div 86400 + unix_day) = (y, m, d)" by (metis prod_cases3)
  note v = date_of_day_ok [OF dt] and r = year_range [OF assms dt]
  define hh where "hh = n mod 86400 div 3600"
  define mm where "mm = n mod 86400 div 60 mod 60"
  define ss where "ss = n mod 86400 mod 60"
  have "hh \<le> 86399 div 3600" unfolding hh_def by (rule zdiv_mono1) (simp_all add: zle_diff1_eq [of _ 86400, simplified])
  then have h: "0 \<le> hh" "hh \<le> 23" by (simp_all add: hh_def pos_imp_zdiv_nonneg_iff)
  have "0 \<le> mm" "mm < 60" "0 \<le> ss" "ss < 60" by (simp_all add: mm_def ss_def)
  then have ms: "0 \<le> mm" "mm \<le> 59" "0 \<le> ss" "ss \<le> 59" by linarith+
  have d: "d \<le> 31" using v(5) days_in_31 [OF v(2,3), of y] by linarith
  let ?Y = "padded 4 (nat y)"
  have Y: "length ?Y = 4" "list_all is_digit ?Y" "int (decimal ?Y) = y"
    using r by (auto simp: length_padded padded_digits nat_less_iff)
  have f: "format_utc n = ?Y @ ''-'' @ padded 2 (nat m) @ ''-'' @ padded 2 (nat d) @ ''T'' @
      padded 2 (nat hh) @ '':'' @ padded 2 (nat mm) @ '':'' @ padded 2 (nat ss) @ ''Z''"
    using r by (simp add: format_utc_def dt year_text_def Let_def hh_def mm_def ss_def)
  have nums: "getnum (padded 2 (nat x) @ t) fixed = Some (x, t)" if "0 \<le> x" "x \<le> 59" for x t fixed
    using that by (simp add: getnum_padded)
  have "unix_time y m d hh mm ss = n"
    using unix_time_of_day [OF dt] by (simp only: hh_def mm_def ss_def)
  moreover have "length (format_utc n) = 20"
    using v(2-4) d h ms by (simp add: f Y length_padded)
  ultimately show ?thesis
    using v d h ms r by (simp add: parse_rfc3339_def f Y nums in_range_ok zone_Z)
qed

end
