(* ===== verification/BuildInfo.thy ===== *)
theory BuildInfo
  imports Version GoTime HostFs
begin

text \<open>
  The rest of \<open>internal/version\<close>, the build identity that \<open>Get\<close> assembles from the linker's
  variables, the runtime and the build settings; and the release tool \<open>cmd/versioninfo\<close>,
  which turns a version and a source time into the configuration of a Windows resource.
\<close>

subsection \<open>Constants and inputs\<close>

definition product_name :: string where "product_name = ''FlashGate MCP''"
definition file_description :: string where "file_description = ''FlashGate MCP Server''"
definition company_name :: string where "company_name = ''Thomas Weidner''"
definition copyright_holder :: string where "copyright_holder = ''Thomas Weidner''"
definition version_comments :: string where
  "version_comments = ''Native Model Context Protocol server for controlled local system access.''"
definition original_filename :: string where "original_filename = ''flashgate-mcp.exe''"
definition internal_name :: string where "internal_name = ''flashgate-mcp''"
definition unknownValue :: string where "unknownValue = ''unknown''"




subsection \<open>Times\<close>

definition canonicalTime :: "string \<Rightarrow> string" where
  "canonicalTime v =
     (if v = unknownValue then unknownValue
      else case parse_rfc3339 v of None \<Rightarrow> unknownValue | Some t \<Rightarrow> utc_text t)"

text \<open>The sign is two bytes in UTF-8.\<close>

definition copyright_sign :: string where "copyright_sign = [CHR 0xC2, CHR 0xA9]"

definition CopyrightText :: "string \<Rightarrow> string" where
  "CopyrightText canonicalSourceTime =
     (case parse_rfc3339 canonicalSourceTime of
        None \<Rightarrow> ''Copyright '' @ copyright_sign @ '' '' @ copyright_holder
      | Some t \<Rightarrow> ''Copyright '' @ copyright_sign @ '' '' @ itoa (utc_year t) @ '' '' @ copyright_holder)"



subsection \<open>The build identity\<close>




subsection \<open>The Windows resource\<close>

record vi_options =
  vi_productVersion :: string
  vi_sourceTime :: string
  vi_goarch :: string
  vi_output :: string
  vi_icon :: string

datatype vi_error =
  VersionRequired | SourceTimeRequired | OutputRequired | IconRequired | UnsupportedGOARCH string
| InvalidSourceTime string | NotCanonical string | VersionRejected semver_error | InvalidFileVersion string
| CreateOutputDirectory goerr | ReadIcon goerr | RefuseOverwrite string | InspectOutput goerr | GenerateResource string

text \<open>The fields that the tool sets in the generator's configuration.\<close>

record cli_config =
  SkipVersionInfo :: bool
  OutputFile :: string
  IconPath :: string
  ApplicationIconPath :: string
  cfg_Comment :: string
  cfg_CompanyName :: string
  cfg_Description :: string
  cfg_FileVersion :: string
  cfg_InternalName :: string
  cfg_Copyright :: string
  cfg_OriginalName :: string
  cfg_ProductName :: string
  cfg_ProductVersion :: string
  TranslationID :: int
  CharsetID :: int
  Is64Bit :: bool
  IsARM :: bool
  VerNumbers :: "int list"
  ProductVerNumbers :: "int list"

text \<open>Four numbers of 16 bits.\<close>

definition parseFileVersion :: "string \<Rightarrow> (vi_error, int list) result" where
  "parseFileVersion v =
     (let parts = split_on (CHR ''.'') v in
      if length parts \<noteq> 4 then Inl (InvalidFileVersion v)
      else if list_all (\<lambda>part. parse_uint 16 part \<noteq> None) parts
      then Inr (map (\<lambda>part. case parse_uint 16 part of Some n \<Rightarrow> int n | None \<Rightarrow> 0) parts)
      else Inl (InvalidFileVersion v))"

definition buildConfig :: "vi_options \<Rightarrow> (vi_error, cli_config) result" where
  "buildConfig opts =
     (if vi_productVersion opts = [] then Inl VersionRequired
      else if vi_sourceTime opts = [] then Inl SourceTimeRequired
      else if vi_output opts = [] then Inl OutputRequired
      else if vi_icon opts = [] then Inl IconRequired
      else if vi_goarch opts \<noteq> ''amd64'' \<and> vi_goarch opts \<noteq> ''arm64'' then Inl (UnsupportedGOARCH (vi_goarch opts))
      else case parse_rfc3339 (vi_sourceTime opts) of
        None \<Rightarrow> Inl (InvalidSourceTime (vi_sourceTime opts))
      | Some sourceTime \<Rightarrow>
      if \<not> (utc_loc sourceTime \<and> utc_text sourceTime = vi_sourceTime opts)
      then Inl (NotCanonical (vi_sourceTime opts))
      else case WindowsFileVersion (vi_productVersion opts) of
        Inl e \<Rightarrow> Inl (VersionRejected e)
      | Inr fileVersion \<Rightarrow>
      case parseFileVersion fileVersion of
        Inl e \<Rightarrow> Inl e
      | Inr parts \<Rightarrow>
          Inr \<lparr>SkipVersionInfo = True, OutputFile = vi_output opts, IconPath = vi_icon opts,
               ApplicationIconPath = vi_icon opts, cfg_Comment = version_comments,
               cfg_CompanyName = company_name, cfg_Description = file_description,
               cfg_FileVersion = fileVersion, cfg_InternalName = internal_name,
               cfg_Copyright = CopyrightText (vi_sourceTime opts), cfg_OriginalName = original_filename,
               cfg_ProductName = product_name, cfg_ProductVersion = vi_productVersion opts,
               TranslationID = 0x0409, CharsetID = 1200, Is64Bit = True,
               IsARM = (vi_goarch opts = ''arm64''), VerNumbers = parts, ProductVerNumbers = parts\<rparr>)"

text \<open>
  The run after its flags are parsed. Creating directories, looking at files and the
  resource generator (\<open>goversioninfo.RunCLI\<close>, not part of the repository) are arguments.
\<close>

definition versioninfo_run ::
  "(string \<Rightarrow> 'h \<Rightarrow> 'h \<times> goerr option) \<Rightarrow> ('h \<Rightarrow> string \<Rightarrow> goerr option) \<Rightarrow>
   (cli_config \<Rightarrow> 'h \<Rightarrow> 'h \<times> string option) \<Rightarrow> vi_options \<Rightarrow> 'h \<Rightarrow> 'h \<times> vi_error option" where
  "versioninfo_run mkdirAll stat runCLI opts h =
     (case buildConfig opts of
        Inl e \<Rightarrow> (h, Some e)
      | Inr cfg \<Rightarrow>
      case mkdirAll (Dir (vi_output opts)) h of
        (h, Some e) \<Rightarrow> (h, Some (CreateOutputDirectory e))
      | (h, None) \<Rightarrow>
      case stat h (vi_icon opts) of
        Some e \<Rightarrow> (h, Some (ReadIcon e))
      | None \<Rightarrow>
      case stat h (vi_output opts) of
        None \<Rightarrow> (h, Some (RefuseOverwrite (vi_output opts)))
      | Some e \<Rightarrow>
          if \<not> is_not_exist e then (h, Some (InspectOutput e))
          else (case runCLI cfg h of
                  (h, Some e) \<Rightarrow> (h, Some (GenerateResource e))
                | (h, None) \<Rightarrow> (h, None)))"

subsection \<open>Facts\<close>




text \<open>What \<open>Get\<close> always fills in, and a build without a file version.\<close>

lemma valueOrDefault_not_Nil: "d \<noteq> [] \<Longrightarrow> valueOrDefault v d \<noteq> []"
  by (simp add: valueOrDefault_def Let_def)

lemma canonicalTime_cases: "canonicalTime v = unknownValue \<or> (\<exists>t. parse_rfc3339 v = Some t \<and> canonicalTime v = utc_text t)"
  by (auto simp: canonicalTime_def split: option.splits)





text \<open>The tool does not touch an output that exists.\<close>

lemma versioninfo_run_success:
  assumes "versioninfo_run mkdirAll stat runCLI opts h = (h', None)"
  shows "\<exists>cfg h1 e. buildConfig opts = Inr cfg \<and> mkdirAll (Dir (vi_output opts)) h = (h1, None) \<and>
    stat h1 (vi_output opts) = Some e \<and> is_not_exist e \<and> runCLI cfg h1 = (h', None)"
  using assms by (auto simp: versioninfo_run_def split: sum.splits prod.splits option.splits if_splits)

text \<open>
  An instant of the last day of the year 9999 that an offset moves to the year 10000 gets a
  text that is not a valid time, so that the year is lost in the copyright.
\<close>

lemma canonical_time_year_10000:
  "canonicalTime ''9999-12-31T23:59:59-01:00'' = ''10000-01-01T00:59:59Z''"
  "canonicalTime ''10000-01-01T00:59:59Z'' = unknownValue"
  "CopyrightText ''10000-01-01T00:59:59Z'' = CopyrightText unknownValue"
  by (simp_all add: canonicalTime_def unknownValue_def parse_rfc3339_def decimal_def digit_val_def is_digit_def
      literal_def getnum_def in_range_def parse_zone_def skip_fraction_def days_in_def leap_def days_before_def
      unix_time_def day_number_def year_start_def month_start_def utc_text_def format_utc_def date_of_day_def
      year_of_day_def month_of_yday_def year_text_def padded_def digits_of.simps Let_def unix_day_def
      CopyrightText_def) code_simp



subsection \<open>Properties\<close>






end
