(* ===== verification/BuildManifest.thy ===== *)
theory BuildManifest
  imports GoStrings "HOL-Library.Char_ord" "HOL-Library.List_Lexorder"
begin

text \<open>
  The release tool \<open>cmd/versionmanifest\<close>: it finds the build manifest that the linker put
  into a binary, checks its fields, and compares them with the expected values. A Go map is
  the list of its entries.
\<close>

definition manifestPrefix :: string where "manifestPrefix = ''FLASHGATE_BUILD_MANIFEST_V1|''"
definition manifestSuffix :: string where "manifestSuffix = ''|END_FLASHGATE_BUILD_MANIFEST_V1''"

definition manifestKeys :: "string list" where
  "manifestKeys =
     [''version'', ''fileVersion'', ''commit'', ''sourceTime'', ''modified'', ''goos'', ''goarch'', ''publicArch'']"

datatype manifest_error =
  BinaryRequired | ExpectedRequired string | ManifestReadFailed string
| PrefixCount | NotTerminated | NulByte | InvalidField | DuplicateField string | UnexpectedFields
| FieldMismatch string

definition is_upper :: "char \<Rightarrow> bool" where
  "is_upper c \<longleftrightarrow> 65 \<le> (of_char c :: nat) \<and> of_char c \<le> (90 :: nat)"

definition flagName :: "string \<Rightarrow> string" where
  "flagName key = concat (map (\<lambda>c. if is_upper c then [CHR ''-'', char_of ((of_char c :: nat) + 32)] else [c]) key)"

fun manifest_fields :: "(string \<times> string) list \<Rightarrow> string list \<Rightarrow> (manifest_error, (string \<times> string) list) result" where
  "manifest_fields result [] = Inr result"
| "manifest_fields result (field # fields) =
     (case cut_at (CHR ''='') field of (key, val, found) \<Rightarrow>
        if \<not> found \<or> key = [] \<or> val = [] then Inl InvalidField
        else if map_of result key \<noteq> None then Inl (DuplicateField key)
        else manifest_fields (result @ [(key, val)]) fields)"

definition parseManifest :: "string \<Rightarrow> (manifest_error, (string \<times> string) list) result" where
  "parseManifest data =
     (if count_of manifestPrefix data \<noteq> 1 then Inl PrefixCount
      else let remainder = (case index_of manifestPrefix data of
                Some start \<Rightarrow> drop (start + length manifestPrefix) data | None \<Rightarrow> []) in
      case index_of manifestSuffix remainder of
        None \<Rightarrow> Inl NotTerminated
      | Some stop \<Rightarrow>
          let body = take stop remainder in
          if contains body [CHR 0x00] then Inl NulByte
          else case manifest_fields [] (split_on (CHR ''|'') body) of
            Inl e \<Rightarrow> Inl e
          | Inr result \<Rightarrow>
              if join_with [CHR 0x00] (sort (map fst result)) \<noteq> join_with [CHR 0x00] (sort manifestKeys)
              then Inl UnexpectedFields
              else Inr result)"

text \<open>What the run prints when it passes; \<open>expected\<close> in the order in which the loop goes over it.\<close>

definition versionmanifest ::
  "(string \<Rightarrow> string + string) \<Rightarrow> string \<Rightarrow> (string \<times> string) list \<Rightarrow> (manifest_error, string) result" where
  "versionmanifest readFile binaryPath expected =
     (if binaryPath = [] then Inl BinaryRequired
      else case find (\<lambda>(key, val). val = []) expected of
        Some (key, _) \<Rightarrow> Inl (ExpectedRequired (flagName key))
      | None \<Rightarrow>
      case readFile binaryPath of
        Inl e \<Rightarrow> Inl (ManifestReadFailed e)
      | Inr data \<Rightarrow>
      case parseManifest data of
        Inl e \<Rightarrow> Inl e
      | Inr actual \<Rightarrow>
      case find (\<lambda>(key, val). map_of actual key \<noteq> Some val) expected of
        Some (key, _) \<Rightarrow> Inl (FieldMismatch key)
      | None \<Rightarrow>
          let nl = [CHR 0x0A] in
          Inr (''Status: PASS'' @ nl @ ''BinaryPath: '' @ binaryPath @ nl @
               concat (map (\<lambda>key. key @ '': '' @ (case map_of actual key of Some v \<Rightarrow> v | None \<Rightarrow> []) @ nl) manifestKeys)))"

subsection \<open>Searching\<close>

lemma index_of_Some:
  "index_of p s = Some i \<Longrightarrow> s = take i s @ p @ drop (i + length p) s \<and> i + length p \<le> length s"
proof (induction s arbitrary: i)
  case (Cons c s)
  show ?case
  proof (cases "prefix p (c # s)")
    case True
    then show ?thesis using Cons.prems by (auto simp: prefix_def dest: arg_cong [where f = length])
  next
    case False
    then obtain j where "index_of p s = Some j" "i = Suc j" using Cons.prems by auto
    then show ?thesis using Cons.IH [of j] by simp
  qed
qed (auto split: if_splits)

lemma index_of_least: "prefix p (drop j s) \<Longrightarrow> j \<le> length s \<Longrightarrow> \<exists>i. index_of p s = Some i \<and> i \<le> j"
proof (induction s arbitrary: j)
  case (Cons c s)
  then show ?case by (cases j) (auto dest!: Cons.IH)
qed auto

lemma index_of_skip:
  "c \<notin> set f \<Longrightarrow> index_of (c # p) (f @ t) = map_option (\<lambda>i. i + length f) (index_of (c # p) t)"
  by (induction f) (auto simp: option.map_comp comp_def option.map_ident)

lemma index_of_here: "prefix p s \<Longrightarrow> index_of p s = Some 0"
  by (cases s) auto

lemma count_of_once:
  assumes "count_of p s = 1" "index_of p s = Some i" "p \<noteq> []"
  shows "index_of p (drop (i + length p) s) = None"
  using assms by (cases "length s") (auto simp: count_of_def split: option.splits)

subsection \<open>Manifests\<close>

definition manifest_field :: "string \<times> string \<Rightarrow> string" where
  "manifest_field kv = fst kv @ CHR ''='' # snd kv"

text \<open>The text that the linker embeds for a list of fields.\<close>

definition manifest_text :: "(string \<times> string) list \<Rightarrow> string" where
  "manifest_text m = manifestPrefix @ join_with ''|'' (map manifest_field m) @ manifestSuffix"

definition manifest_ok :: "(string \<times> string) list \<Rightarrow> bool" where
  "manifest_ok m \<longleftrightarrow> distinct (map fst m) \<and> set (map fst m) = set manifestKeys \<and>
     (\<forall>(key, val) \<in> set m. val \<noteq> [] \<and> CHR ''|'' \<notin> set val \<and> CHR 0x00 \<notin> set val)"

lemma manifest_fields_iff:
  "manifest_fields result fields = Inr m \<longleftrightarrow>
     (\<exists>kvs. fields = map manifest_field kvs \<and> m = result @ kvs \<and>
        (\<forall>(k, v) \<in> set kvs. k \<noteq> [] \<and> v \<noteq> [] \<and> CHR ''='' \<notin> set k) \<and>
        distinct (map fst kvs) \<and> fst ` set kvs \<inter> fst ` set result = {})"
  (is "?L result fields \<longleftrightarrow> (\<exists>kvs. ?R result fields kvs)")
proof (induction fields arbitrary: result)
  case Nil
  then show ?case by auto
next
  case (Cons field fields)
  obtain k v f where c: "cut_at (CHR ''='') field = (k, v, f)" by (metis prod_cases3)
  have first: "\<exists>kvs'. kvs = (k, v) # kvs' \<and> f" if r: "?R result (field # fields) kvs" for kvs
  proof (cases kvs)
    case (Cons kv kvs')
    have "field = fst kv @ CHR ''='' # snd kv" using r Cons by (simp add: manifest_field_def)
    moreover have "CHR ''='' \<notin> set (fst kv)" using r Cons by (cases kv) simp
    ultimately have "cut_at (CHR ''='') field = (fst kv, snd kv, True)" by (simp add: cut_at_found)
    then show ?thesis using c Cons by (cases kv) simp
  qed (use r in simp)
  show ?case
  proof (cases "f \<and> k \<noteq> [] \<and> v \<noteq> [] \<and> map_of result k = None")
    case True
    then have f: "field = manifest_field (k, v)" and eq: "CHR ''='' \<notin> set k"
      using c by (auto simp: cut_at_iff manifest_field_def)
    have each: "?R (result @ [(k, v)]) fields kvs \<longleftrightarrow> ?R result (field # fields) ((k, v) # kvs)" for kvs
    proof -
      have "k \<notin> fst ` set result" using True by (simp add: map_of_eq_None_iff)
      then show ?thesis using True eq by (simp add: f) blast
    qed
    have "?L result (field # fields) \<longleftrightarrow> ?L (result @ [(k, v)]) fields" using True c by simp
    also have "\<dots> \<longleftrightarrow> (\<exists>kvs. ?R (result @ [(k, v)]) fields kvs)" by (rule Cons.IH)
    also have "\<dots> \<longleftrightarrow> (\<exists>kvs. ?R result (field # fields) ((k, v) # kvs))" by (simp only: each)
    also have "\<dots> \<longleftrightarrow> (\<exists>kvs. ?R result (field # fields) kvs)"
    proof
      assume "\<exists>kvs. ?R result (field # fields) kvs"
      then obtain kvs where r: "?R result (field # fields) kvs" by (rule exE)
      obtain kvs' where k: "kvs = (k, v) # kvs'" using first [OF r] by blast
      show "\<exists>kvs. ?R result (field # fields) ((k, v) # kvs)"
        by (rule exI [of _ kvs']) (rule r [unfolded k])
    next
      assume "\<exists>kvs. ?R result (field # fields) ((k, v) # kvs)"
      then obtain kvs where "?R result (field # fields) ((k, v) # kvs)" by (rule exE)
      then show "\<exists>kvs. ?R result (field # fields) kvs" by (rule exI)
    qed
    finally show ?thesis .
  next
    case False
    then have left: "\<not> ?L result (field # fields)" using c by auto
    have right: "\<not> ?R result (field # fields) kvs" for kvs
    proof
      assume r: "?R result (field # fields) kvs"
      obtain kvs' where k: "kvs = (k, v) # kvs'" "f" using first [OF r] by blast
      have "k \<noteq> [] \<and> v \<noteq> [] \<and> k \<notin> fst ` set result" using r unfolding k by auto
      then show False using False k(2) by (simp add: map_of_eq_None_iff)
    qed
    show ?thesis by (simp only: left right simp_thms)
  qed
qed

lemma key_chars:
  assumes "k \<in> set manifestKeys"
  shows "k \<noteq> []" "hd k \<noteq> CHR ''E''" "CHR ''='' \<notin> set k" "CHR ''|'' \<notin> set k" "CHR 0x00 \<notin> set k"
  using assms by (auto simp: manifestKeys_def)

lemma join_sort_keys:
  assumes "distinct ks" "ks \<noteq> []" "\<forall>k \<in> set ks. CHR 0x00 \<notin> set k"
  shows "join_with [CHR 0x00] (sort ks) = join_with [CHR 0x00] (sort manifestKeys) \<longleftrightarrow> set ks = set manifestKeys"
proof
  assume "join_with [CHR 0x00] (sort ks) = join_with [CHR 0x00] (sort manifestKeys)"
  then have "split_on (CHR 0x00) (join_with [CHR 0x00] (sort ks)) =
      split_on (CHR 0x00) (join_with [CHR 0x00] (sort manifestKeys))" by simp
  moreover have "sort manifestKeys \<noteq> []" "\<forall>k \<in> set (sort manifestKeys). CHR 0x00 \<notin> set k"
    using key_chars by (auto simp: manifestKeys_def)
  ultimately have "sort ks = sort manifestKeys"
    using assms(2,3) by (subst (asm) (1 2) split_on_join) (auto dest: arg_cong [where f = length])
  then show "set ks = set manifestKeys" by (metis set_sort)
next
  assume "set ks = set manifestKeys"
  moreover have "distinct manifestKeys" by (simp add: manifestKeys_def)
  ultimately have "sort ks = sort manifestKeys"
    using assms(1) by (metis sorted_list_of_set_sort_remdups distinct_remdups_id)
  then show "join_with [CHR 0x00] (sort ks) = join_with [CHR 0x00] (sort manifestKeys)" by simp
qed

subsection \<open>Where the manifest starts and ends\<close>

lemma suffix_after_fields:
  assumes "fs \<noteq> []" "\<forall>f \<in> set fs. CHR ''|'' \<notin> set f \<and> f \<noteq> [] \<and> hd f \<noteq> CHR ''E''"
  shows "index_of manifestSuffix (join_with ''|'' fs @ manifestSuffix @ post) = Some (length (join_with ''|'' fs))"
  using assms
proof (induction "''|''" fs rule: join_with.induct)
  case (2 w)
  then show ?case
    using index_of_skip [of "CHR ''|''" w "tl manifestSuffix"] index_of_here [of manifestSuffix "manifestSuffix @ post"]
    by (simp add: manifestSuffix_def)
next
  case (3 w v ws)
  let ?rest = "join_with ''|'' (v # ws) @ manifestSuffix @ post"
  have "hd ?rest = hd v" "?rest \<noteq> []" using "3.prems" by (cases ws; simp)+
  then have "\<not> prefix manifestSuffix (CHR ''|'' # ?rest)"
    using "3.prems" by (cases ?rest) (auto simp: manifestSuffix_def)
  then have "index_of manifestSuffix (CHR ''|'' # ?rest) = Some (Suc (length (join_with ''|'' (v # ws))))"
    using "3.hyps" "3.prems" by simp
  then show ?case
    using index_of_skip [of "CHR ''|''" w "tl manifestSuffix" "CHR ''|'' # ?rest"] "3.prems"
    by (simp add: manifestSuffix_def)
qed simp

lemma prefix_unbordered:
  assumes "prefix manifestPrefix s" "prefix manifestPrefix (drop d s)" "0 < d"
  shows "length manifestPrefix \<le> d"
proof (rule ccontr)
  let ?n = "length manifestPrefix - 1"
  assume "\<not> length manifestPrefix \<le> d"
  then have d: "d \<le> ?n" by simp
  obtain r where r: "s = manifestPrefix @ r" using assms(1) by (auto simp: prefix_def)
  obtain t where t: "drop d s = manifestPrefix @ t" using assms(2) by (auto simp: prefix_def)
  have "s ! ?n = CHR ''|''" by (simp add: r nth_append manifestPrefix_def)
  moreover have "d \<le> length s" using d r by simp
  then have "s ! ?n = drop d s ! (?n - d)" using d by (metis nth_drop le_add_diff_inverse)
  moreover have lt: "?n - d < ?n" by (rule diff_less [OF assms(3)]) (simp add: manifestPrefix_def)
  then have "?n - d < length manifestPrefix" by linarith
  then have "drop d s ! (?n - d) = manifestPrefix ! (?n - d)" by (simp add: t nth_append)
  moreover have "manifestPrefix ! (?n - d) = butlast manifestPrefix ! (?n - d)" "?n - d < length (butlast manifestPrefix)"
    using lt by (simp_all add: nth_butlast)
  ultimately have "CHR ''|'' \<in> set (butlast manifestPrefix)" by (metis nth_mem)
  then show False by (simp add: manifestPrefix_def)
qed

lemma only_prefix:
  assumes "count_of manifestPrefix (pre @ manifestPrefix @ rest) = 1"
  shows "index_of manifestPrefix (pre @ manifestPrefix @ rest) = Some (length pre)"
proof -
  let ?data = "pre @ manifestPrefix @ rest"
  obtain i where i: "index_of manifestPrefix ?data = Some i" "i \<le> length pre"
    using index_of_least [of manifestPrefix "length pre" ?data] by auto
  have first: "prefix manifestPrefix (drop i ?data)"
    using index_of_Some [OF i(1)] by (metis append_eq_conv_conj append_take_drop_id prefixI)
  have "i = length pre"
  proof (rule ccontr)
    assume "i \<noteq> length pre"
    then have d: "0 < length pre - i" using i(2) by simp
    have "prefix manifestPrefix (drop (length pre - i) (drop i ?data))" using i(2) by simp
    from prefix_unbordered [OF first this d] have le: "i + length manifestPrefix \<le> length pre" using d by simp
    let ?later = "drop (i + length manifestPrefix) ?data" and ?gap = "length pre - (i + length manifestPrefix)"
    have "prefix manifestPrefix (drop ?gap ?later)" "?gap \<le> length ?later" using le by simp_all
    from index_of_least [OF this] have "\<exists>j. index_of manifestPrefix ?later = Some j" by blast
    moreover have "index_of manifestPrefix (drop (i + length manifestPrefix) ?data) = None"
      by (rule count_of_once [OF assms i(1)]) (simp add: manifestPrefix_def)
    ultimately show False by simp
  qed
  then show ?thesis using i(1) by simp
qed

subsection \<open>Bodies\<close>

lemma set_join_with: "w \<in> set ws \<Longrightarrow> set w \<subseteq> set (join_with sep ws)"
  by (induction sep ws rule: join_with.induct) auto

lemma set_join_sub: "set (join_with sep ws) \<subseteq> set sep \<union> (\<Union>w \<in> set ws. set w)"
  by (induction sep ws rule: join_with.induct) auto

lemma manifest_ok_fields:
  assumes "manifest_ok m" "(k, v) \<in> set m"
  shows "k \<in> set manifestKeys" "v \<noteq> []" "CHR ''|'' \<notin> set v" "CHR 0x00 \<notin> set v"
proof -
  have "k \<in> set (map fst m)" using assms(2) by force
  then show "k \<in> set manifestKeys" using assms(1) by (simp only: manifest_ok_def)
  show "v \<noteq> []" "CHR ''|'' \<notin> set v" "CHR 0x00 \<notin> set v" using assms by (auto simp: manifest_ok_def)
qed

lemma manifest_ok_nonempty: "manifest_ok m \<Longrightarrow> m \<noteq> []"
  by (cases m) (simp_all add: manifest_ok_def manifestKeys_def)

lemma manifest_ok_texts:
  assumes "manifest_ok m" "f \<in> set (map manifest_field m)"
  shows "CHR ''|'' \<notin> set f" "f \<noteq> []" "hd f \<noteq> CHR ''E''" "CHR 0x00 \<notin> set f"
proof -
  obtain k v where kv: "f = manifest_field (k, v)" "(k, v) \<in> set m" using assms(2) by auto
  note ok = manifest_ok_fields [OF assms(1) kv(2)] key_chars [of k]
  show "CHR ''|'' \<notin> set f" "f \<noteq> []" "hd f \<noteq> CHR ''E''" "CHR 0x00 \<notin> set f"
    using ok by (auto simp: kv(1) manifest_field_def hd_append)
qed

lemma body_ok:
  assumes "CHR 0x00 \<notin> set body" "manifest_fields [] (split_on (CHR ''|'') body) = Inr m"
    and "join_with [CHR 0x00] (sort (map fst m)) = join_with [CHR 0x00] (sort manifestKeys)"
  shows "body = join_with ''|'' (map manifest_field m) \<and> manifest_ok m"
proof -
  from assms(2) obtain kvs where kvs: "split_on (CHR ''|'') body = map manifest_field kvs" "m = kvs"
      "\<forall>(k, v) \<in> set kvs. k \<noteq> [] \<and> v \<noteq> [] \<and> CHR ''='' \<notin> set k" "distinct (map fst kvs)"
    unfolding manifest_fields_iff by auto
  have body: "body = join_with ''|'' (map manifest_field m)"
    using join_split_on [of "CHR ''|''" body] kvs(1,2) by simp
  have chars: "set k \<subseteq> set body \<and> set v \<subseteq> set body \<and> CHR ''|'' \<notin> set v" if "(k, v) \<in> set m" for k v
  proof -
    have f: "manifest_field (k, v) \<in> set (map manifest_field m)" using that by force
    then have "CHR ''|'' \<notin> set (manifest_field (k, v))" using kvs(1,2) by (metis split_on_no_sep)
    moreover have "set (manifest_field (k, v)) \<subseteq> set body"
      using set_join_with [OF f, of "''|''"] body by simp
    ultimately show ?thesis by (simp add: manifest_field_def)
  qed
  have "m \<noteq> []" using kvs(1,2) split_on_not_Nil [of "CHR ''|''" body] by auto
  moreover have "\<forall>k \<in> set (map fst m). CHR 0x00 \<notin> set k"
  proof
    fix k assume "k \<in> set (map fst m)"
    then obtain v where "(k, v) \<in> set m" by auto
    then show "CHR 0x00 \<notin> set k" using chars assms(1) by blast
  qed
  ultimately have "set (map fst m) = set manifestKeys"
    using kvs(2,4) assms(3) by (subst join_sort_keys [symmetric]) auto
  moreover have "v \<noteq> [] \<and> CHR ''|'' \<notin> set v \<and> CHR 0x00 \<notin> set v" if "(k, v) \<in> set m" for k v
    using chars [OF that] kvs(2,3) that assms(1) by auto
  ultimately show ?thesis using body kvs(2,4) by (auto simp: manifest_ok_def)
qed

lemma parse_text:
  assumes "count_of manifestPrefix (pre @ manifest_text m @ post) = 1" "manifest_ok m"
  shows "parseManifest (pre @ manifest_text m @ post) = Inr m"
proof -
  let ?fs = "map manifest_field m" and ?data = "pre @ manifest_text m @ post"
  let ?body = "join_with ''|'' ?fs"
  note texts = manifest_ok_texts [OF assms(2)] and ne = manifest_ok_nonempty [OF assms(2)]
  have data: "?data = pre @ manifestPrefix @ ?body @ manifestSuffix @ post" by (simp add: manifest_text_def)
  have start: "index_of manifestPrefix ?data = Some (length pre)"
    using only_prefix assms(1) unfolding data by blast
  have stop: "index_of manifestSuffix (?body @ manifestSuffix @ post) = Some (length ?body)"
    by (rule suffix_after_fields) (use texts ne in auto)
  have "CHR 0x00 \<notin> set ?body" 
  proof
    assume "CHR 0x00 \<in> set ?body"
    then have "CHR 0x00 \<in> set ''|'' \<union> (\<Union>w \<in> set ?fs. set w)" using set_join_sub by (rule subsetD [rotated])
    then obtain w where "w \<in> set ?fs" "CHR 0x00 \<in> set w" by auto
    then show False using texts(4) by blast
  qed
  moreover have "manifest_fields [] ?fs = Inr m"
    unfolding manifest_fields_iff
  proof (intro exI [of _ m] conjI)
    show "\<forall>(k, v) \<in> set m. k \<noteq> [] \<and> v \<noteq> [] \<and> CHR ''='' \<notin> set k"
      using manifest_ok_fields(1,2) [OF assms(2)] key_chars(1,3) by blast
  qed (use assms(2) in \<open>simp_all add: manifest_ok_def\<close>)
  moreover have "split_on (CHR ''|'') ?body = ?fs"
    by (rule split_on_join) (use texts ne in auto)
  moreover have "join_with [CHR 0x00] (sort (map fst m)) = join_with [CHR 0x00] (sort manifestKeys)"
    using assms(2) ne key_chars by (subst join_sort_keys) (auto simp: manifest_ok_def)
  ultimately show ?thesis
    using assms(1) start stop unfolding data by (simp add: parseManifest_def Let_def contains_char)
qed

subsection \<open>What the check reads\<close>

lemma manifest_exact:
  "parseManifest data = Inr m \<longleftrightarrow>
     count_of manifestPrefix data = 1 \<and> manifest_ok m \<and> (\<exists>pre post. data = pre @ manifest_text m @ post)"
proof
  assume ok: "parseManifest data = Inr m"
  then have once: "count_of manifestPrefix data = 1" by (auto simp: parseManifest_def split: if_splits)
  obtain start where start: "index_of manifestPrefix data = Some start"
    using once by (cases "index_of manifestPrefix data") (simp_all add: count_of_def)
  define remainder where "remainder = drop (start + length manifestPrefix) data"
  obtain stop where stop: "index_of manifestSuffix remainder = Some stop"
    using ok start by (auto simp: parseManifest_def remainder_def Let_def split: if_splits option.splits)
  define body where "body = take stop remainder"
  have "CHR 0x00 \<notin> set body" "manifest_fields [] (split_on (CHR ''|'') body) = Inr m"
    "join_with [CHR 0x00] (sort (map fst m)) = join_with [CHR 0x00] (sort manifestKeys)"
    using ok start stop once
    by (simp_all add: parseManifest_def remainder_def [symmetric] body_def [symmetric] Let_def contains_char
        split: if_splits sum.splits)
  from body_ok [OF this] have b: "body = join_with ''|'' (map manifest_field m)" "manifest_ok m" by simp_all
  have "data = take start data @ manifestPrefix @ remainder"
    using index_of_Some [OF start] by (simp add: remainder_def)
  moreover have "remainder = body @ manifestSuffix @ drop (stop + length manifestSuffix) remainder"
    using index_of_Some [OF stop] by (simp add: body_def)
  ultimately have "data = take start data @ manifest_text m @ drop (stop + length manifestSuffix) remainder"
    by (metis append.assoc b(1) manifest_text_def)
  then show "count_of manifestPrefix data = 1 \<and> manifest_ok m \<and> (\<exists>pre post. data = pre @ manifest_text m @ post)"
    using once b(2) by blast
next
  assume "count_of manifestPrefix data = 1 \<and> manifest_ok m \<and> (\<exists>pre post. data = pre @ manifest_text m @ post)"
  then show "parseManifest data = Inr m" using parse_text by blast
qed

subsection \<open>Properties\<close>

text \<open>
  C37: the manifest check passes exactly when the prefix occurs once in the binary and is
  followed there by the text of a manifest in which each of the eight keys occurs once, in
  any order, with a value that is not empty and holds neither the separator nor a NUL byte,
  and that manifest has all the expected values: what is compared is what was embedded.
\<close>

theorem manifest_check_exact:
  "(\<exists>out. versionmanifest readFile binaryPath expected = Inr out) \<longleftrightarrow>
     binaryPath \<noteq> [] \<and> list_all (\<lambda>(key, val). val \<noteq> []) expected \<and>
     (\<exists>data m pre post. readFile binaryPath = Inr data \<and>
        count_of manifestPrefix data = 1 \<and> data = pre @ manifest_text m @ post \<and> manifest_ok m \<and>
        list_all (\<lambda>(key, val). map_of m key = Some val) expected)"
proof -
  have given: "find (\<lambda>(key, val). val = []) expected = None \<longleftrightarrow> list_all (\<lambda>(key, val). val \<noteq> []) expected"
    by (auto simp: find_None_iff list_all_iff)
  have same: "find (\<lambda>(key, val). map_of m key \<noteq> Some val) expected = None \<longleftrightarrow>
      list_all (\<lambda>(key, val). map_of m key = Some val) expected" for m
    by (auto simp: find_None_iff list_all_iff)
  have "(\<exists>out. versionmanifest readFile binaryPath expected = Inr out) \<longleftrightarrow>
      binaryPath \<noteq> [] \<and> list_all (\<lambda>(key, val). val \<noteq> []) expected \<and>
      (\<exists>data m. readFile binaryPath = Inr data \<and> parseManifest data = Inr m \<and>
         list_all (\<lambda>(key, val). map_of m key = Some val) expected)"
    unfolding given [symmetric] same [symmetric]
    by (auto simp: versionmanifest_def Let_def split: option.splits sum.splits)
  then show ?thesis by (simp only: manifest_exact) blast
qed

end
