(* ===== verification/Sha256.thy ===== *)
theory Sha256
  imports GoJson "HOL-Library.Word"
begin

text \<open>
  Packages \<open>crypto/sha256\<close> and \<open>encoding/hex\<close>, which the release tools call. Bytes are characters, as everywhere in
  the development; the digest works on 32-bit words.
\<close>

unbundle bit_operations_syntax

type_synonym u16 = "16 word"
type_synonym u32 = "32 word"

subsection \<open>Bytes and words\<close>

definition be_word :: "string \<Rightarrow> u32" where
  "be_word s = foldl (\<lambda>w c. push_bit 8 w OR of_char c) 0 s"

definition be_bytes :: "u32 \<Rightarrow> string" where
  "be_bytes w = map (\<lambda>n. char_of (uint (drop_bit n w))) [24, 16, 8, 0]"

definition hex_encode :: "string \<Rightarrow> string" where
  "hex_encode s = concat (map (\<lambda>c. [hex_digit (of_char c div 16), hex_digit (of_char c mod 16)]) s)"

subsection \<open>The digest\<close>

definition K256 :: "u32 list" where
  "K256 =
    [1116352408, 1899447441, 3049323471, 3921009573, 961987163, 1508970993, 2453635748,
     2870763221, 3624381080, 310598401, 607225278, 1426881987, 1925078388, 2162078206,
     2614888103, 3248222580, 3835390401, 4022224774, 264347078, 604807628, 770255983,
     1249150122, 1555081692, 1996064986, 2554220882, 2821834349, 2952996808, 3210313671,
     3336571891, 3584528711, 113926993, 338241895, 666307205, 773529912, 1294757372,
     1396182291, 1695183700, 1986661051, 2177026350, 2456956037, 2730485921, 2820302411,
     3259730800, 3345764771, 3516065817, 3600352804, 4094571909, 275423344, 430227734,
     506948616, 659060556, 883997877, 958139571, 1322822218, 1537002063, 1747873779,
     1955562222, 2024104815, 2227730452, 2361852424, 2428436474, 2756734187, 3204031479,
     3329325298]"

type_synonym chain = "u32 \<times> u32 \<times> u32 \<times> u32 \<times> u32 \<times> u32 \<times> u32 \<times> u32"

definition chain0 :: chain where
  "chain0 = (0x6a09e667, 0xbb67ae85, 0x3c6ef372, 0xa54ff53a, 0x510e527f, 0x9b05688c, 0x1f83d9ab, 0x5be0cd19)"

text \<open>The message schedule, the newest word first.\<close>

fun schedule :: "nat \<Rightarrow> u32 list \<Rightarrow> u32 list" where
  "schedule 0 w = w"
| "schedule (Suc n) w =
     (let w2 = w ! 1; w15 = w ! 14;
          s1 = word_rotr 17 w2 XOR word_rotr 19 w2 XOR drop_bit 10 w2;
          s0 = word_rotr 7 w15 XOR word_rotr 18 w15 XOR drop_bit 3 w15
      in schedule n ((s1 + w ! 6 + s0 + w ! 15) # w))"

fun round256 :: "chain \<Rightarrow> u32 \<times> u32 \<Rightarrow> chain" where
  "round256 (a, b, c, d, e, f, g, h) (k, w) =
     (let t1 = h + (word_rotr 6 e XOR word_rotr 11 e XOR word_rotr 25 e) +
               ((e AND f) XOR (NOT e AND g)) + k + w;
          t2 = (word_rotr 2 a XOR word_rotr 13 a XOR word_rotr 22 a) +
               ((a AND b) XOR (a AND c) XOR (b AND c))
      in (t1 + t2, a, b, c, d + t1, e, f, g))"

fun add_chain :: "chain \<Rightarrow> chain \<Rightarrow> chain" where
  "add_chain (a, b, c, d, e, f, g, h) (a', b', c', d', e', f', g', h') =
     (a + a', b + b', c + c', d + d', e + e', f + f', g + g', h + h')"

text \<open>One block: 64 bytes, 16 words, extended to 64.\<close>

definition block256 :: "chain \<Rightarrow> u32 list \<Rightarrow> chain" where
  "block256 c ws = add_chain c (foldl round256 c (zip K256 (rev (schedule 48 (rev ws)))))"

fun in_groups :: "nat \<Rightarrow> nat \<Rightarrow> 'a list \<Rightarrow> 'a list list" where
  "in_groups 0 n xs = []"
| "in_groups (Suc k) n xs = take n xs # in_groups k n (drop n xs)"

text \<open>One byte \<open>0x80\<close>, zeros up to 56 modulo 64, the length in bits in 64 bits.\<close>

definition pad256 :: "string \<Rightarrow> string" where
  "pad256 s =
     (let l = length s; bits = 8 * int l in
      s @ CHR 0x80 # replicate ((119 - l mod 64) mod 64) (CHR 0x00) @
      be_bytes (of_int (bits div 2 ^ 32)) @ be_bytes (of_int bits))"

definition sha256_Sum :: "string \<Rightarrow> string" where
  "sha256_Sum s =
     (let p = pad256 s;
          blocks = in_groups (length p div 64) 16 (map be_word (in_groups (length p div 4) 4 p));
          (a, b, c, d, e, f, g, h) = foldl block256 chain0 blocks
      in concat (map be_bytes [a, b, c, d, e, f, g, h]))"

definition sha256_hex :: "string \<Rightarrow> string" where
  "sha256_hex s = hex_encode (sha256_Sum s)"



subsection \<open>Lengths\<close>

lemma length_be_bytes [simp]: "length (be_bytes w) = 4"
  by (simp add: be_bytes_def)

lemma length_hex_encode [simp]: "length (hex_encode s) = 2 * length s"
  by (simp add: hex_encode_def comp_def length_concat sum_list_triv)

lemma length_sha256_Sum [simp]: "length (sha256_Sum s) = 32"
  by (simp add: sha256_Sum_def Let_def split: prod.split)

lemma length_sha256_hex [simp]: "length (sha256_hex s) = 64"
  by (simp add: sha256_hex_def)

text \<open>Digests are hexadecimal.\<close>

lemma hex_digit_range: "n < 16 \<Longrightarrow> is_digit (hex_digit n) \<or> 97 \<le> byte (hex_digit n) \<and> byte (hex_digit n) \<le> 102"
  by (auto simp: hex_digit_def is_digit_def)

lemma sha256_hex_range: "c \<in> set (sha256_hex s) \<Longrightarrow> is_digit c \<or> 97 \<le> byte c \<and> byte c \<le> 102"
proof -
  assume "c \<in> set (sha256_hex s)"
  then obtain d where d: "c = hex_digit (byte d div 16) \<or> c = hex_digit (byte d mod 16)"
    by (auto simp: sha256_hex_def hex_encode_def)
  have "byte d < 256" by simp
  then have "byte d div 16 < 16" "byte d mod 16 < 16" by (simp_all add: less_mult_imp_div_less)
  then show ?thesis using d hex_digit_range by metis
qed

lemma sha256_hex_text: "CHR 0x0A \<notin> set (sha256_hex s)" "CHR 0x09 \<notin> set (sha256_hex s)"
  using sha256_hex_range [of "CHR 0x0A" s] sha256_hex_range [of "CHR 0x09" s] by (auto simp: is_digit_def)

text \<open>The first test vector of FIPS 180-4, evaluated.\<close>

lemma sha256_hex_abc:
  "sha256_hex ''abc'' = ''ba7816bf8f01cfea414140de5dae2223b00361a396177a9cb410ff61f20015ad''"
  by code_simp

end
