(* ===== verification/GoBytes.thy ===== *)
theory GoBytes
  imports Sha256
begin

text \<open>
  Byte slices of Go programs that may panic: an operation returns a value, returns an error,
  or panics because an index or a slice bound is out of range; and the little-endian readers
  of \<open>encoding/binary\<close> over them.
\<close>

unbundle bit_operations_syntax

named_theorems panic_free "operations that do not panic"

subsection \<open>Outcomes\<close>

datatype ('e, 'a) go_outcome = Panic | Err 'e | Ok 'a

fun then_do :: "('e, 'a) go_outcome \<Rightarrow> ('a \<Rightarrow> ('e, 'b) go_outcome) \<Rightarrow> ('e, 'b) go_outcome" where
  "then_do Panic k = Panic"
| "then_do (Err e) k = Err e"
| "then_do (Ok x) k = k x"

lemma then_do_Panic_iff:
  "then_do m k = Panic \<longleftrightarrow> m = Panic \<or> (\<exists>x. m = Ok x \<and> k x = Panic)"
  by (cases m) auto

lemma then_do_Ok_iff: "then_do m k = Ok y \<longleftrightarrow> (\<exists>x. m = Ok x \<and> k x = Ok y)"
  by (cases m) auto

lemma if_Err_Ok: "(if b then Err e else m) = Ok y \<longleftrightarrow> \<not> b \<and> m = Ok y"
  by simp

lemma then_do_no_Panic:
  "m \<noteq> Panic \<Longrightarrow> (\<And>x. m = Ok x \<Longrightarrow> k x \<noteq> Panic) \<Longrightarrow> then_do m k \<noteq> Panic"
  by (cases m) auto

lemma then_do_cong [fundef_cong]:
  "m = m' \<Longrightarrow> (\<And>x. m' = Ok x \<Longrightarrow> k x = k' x) \<Longrightarrow> then_do m k = then_do m' k'"
  by (cases m') auto

text \<open>A loop over a list that stops at the first error or panic and collects the results.\<close>

fun each_do :: "('a \<Rightarrow> ('e, 'b) go_outcome) \<Rightarrow> 'a list \<Rightarrow> ('e, 'b list) go_outcome" where
  "each_do f [] = Ok []"
| "each_do f (x # xs) = then_do (f x) (\<lambda>y. then_do (each_do f xs) (\<lambda>ys. Ok (y # ys)))"

lemma each_do_no_Panic: "(\<And>x. x \<in> set xs \<Longrightarrow> f x \<noteq> Panic) \<Longrightarrow> each_do f xs \<noteq> Panic"
  by (induction xs) (auto simp: then_do_Panic_iff)

lemma each_do_Ok_iff: "each_do f xs = Ok ys \<longleftrightarrow> list_all2 (\<lambda>x y. f x = Ok y) xs ys"
  by (induction xs arbitrary: ys) (auto simp: then_do_Ok_iff list_all2_Cons1)

lemma each_do_length: "each_do f xs = Ok ys \<Longrightarrow> length ys = length xs"
  by (auto simp: each_do_Ok_iff dest: list_all2_lengthD)

lemma each_do_Ok_ex: "(\<exists>ys. each_do f xs = Ok ys) \<longleftrightarrow> (\<forall>x \<in> set xs. \<exists>y. f x = Ok y)"
  by (induction xs) (auto simp: then_do_Ok_iff)

subsection \<open>Slices and readers\<close>

text \<open>\<open>s[i:j]\<close>.\<close>

definition slice :: "nat \<Rightarrow> nat \<Rightarrow> string \<Rightarrow> ('e, string) go_outcome" where
  "slice i j s = (if i \<le> j \<and> j \<le> length s then Ok (take (j - i) (drop i s)) else Panic)"

lemma slice_no_Panic [simp]: "slice i j s = Panic \<longleftrightarrow> \<not> (i \<le> j \<and> j \<le> length s)"
  by (simp add: slice_def)

lemma slice_Ok: "i \<le> j \<Longrightarrow> j \<le> length s \<Longrightarrow> slice i j s = Ok (take (j - i) (drop i s))"
  by (simp add: slice_def)

lemma slice_Ok_length [dest]: "slice i j s = Ok t \<Longrightarrow> length t = j - i"
  by (auto simp: slice_def split: if_splits)

text \<open>\<open>binary.LittleEndian\<close>: the bytes after the first two or four are ignored.\<close>

fun le_word :: "string \<Rightarrow> 'a :: len word" where
  "le_word [] = 0"
| "le_word (c # s) = of_char c OR push_bit 8 (le_word s)"

definition Uint16 :: "string \<Rightarrow> ('e, u16) go_outcome" where
  "Uint16 b = (if length b < 2 then Panic else Ok (le_word (take 2 b)))"

definition Uint32 :: "string \<Rightarrow> ('e, u32) go_outcome" where
  "Uint32 b = (if length b < 4 then Panic else Ok (le_word (take 4 b)))"

text \<open>\<open>binary.LittleEndian.Uint16(s[i:i+2])\<close> and \<open>Uint32(s[i:i+4])\<close>.\<close>

definition u16_at :: "string \<Rightarrow> nat \<Rightarrow> ('e, u16) go_outcome" where
  "u16_at s i = then_do (slice i (i + 2) s) Uint16"

definition u32_at :: "string \<Rightarrow> nat \<Rightarrow> ('e, u32) go_outcome" where
  "u32_at s i = then_do (slice i (i + 4) s) Uint32"

text \<open>The same where the offsets are 32-bit words, so that \<open>i+2\<close> and \<open>i+4\<close> wrap around.\<close>

definition u16_from :: "string \<Rightarrow> u32 \<Rightarrow> ('e, u16) go_outcome" where
  "u16_from s i = then_do (slice (unat i) (unat (i + 2)) s) Uint16"

definition u32_from :: "string \<Rightarrow> u32 \<Rightarrow> ('e, u32) go_outcome" where
  "u32_from s i = then_do (slice (unat i) (unat (i + 4)) s) Uint32"

lemma u16_at_no_Panic [simp]: "u16_at s i = Panic \<longleftrightarrow> length s < i + 2"
  by (auto simp: u16_at_def Uint16_def slice_def split: if_splits)

lemma u32_at_no_Panic [simp]: "u32_at s i = Panic \<longleftrightarrow> length s < i + 4"
  by (auto simp: u32_at_def Uint32_def slice_def split: if_splits)

lemma unat_add_small: "unat (i :: u32) + n < 2 ^ 32 \<Longrightarrow> unat (i + of_nat n) = unat i + n"
  by (simp add: unat_word_ariths unat_of_nat)

lemma u16_from_at: "unat i + 2 < 2 ^ 32 \<Longrightarrow> u16_from s i = u16_at s (unat i)"
  using unat_add_small [of i 2] by (simp add: u16_from_def u16_at_def)

lemma u32_from_at: "unat i + 4 < 2 ^ 32 \<Longrightarrow> u32_from s i = u32_at s (unat i)"
  using unat_add_small [of i 4] by (simp add: u32_from_def u32_at_def)

lemma u16_at_no_Err [simp]: "u16_at s i \<noteq> Err e"
  by (simp add: u16_at_def Uint16_def slice_def)

lemma u32_at_no_Err [simp]: "u32_at s i \<noteq> Err e"
  by (simp add: u32_at_def Uint32_def slice_def)

end
