(* ===== verification/Icons.thy ===== *)
theory Icons
  imports GoBytes "HOL-Library.Char_ord" "HOL-Library.List_Lexorder" "HOL-Library.Multiset"
begin

text \<open>
  The release tool \<open>cmd/iconverify\<close>: it compares the frames of a canonical icon file with
  the icon groups in the resources of a Windows executable. Slices that are out of range
  panic; offsets in the resource directory are 32-bit words and wrap around. An opened
  executable (\<open>debug/pe\<close>) is its optional header and its sections; a Go map is the list of
  its entries in the order in which a loop over it goes.
\<close>

unbundle bit_operations_syntax

definition resourceTypeIcon :: u32 where "resourceTypeIcon = 3"
definition resourceTypeGroupIcon :: u32 where "resourceTypeGroupIcon = 14"
definition resourceDirectory :: nat where "resourceDirectory = 2"

record icon_frame =
  Width :: "8 word"
  Height :: "8 word"
  ColorCount :: "8 word"
  Reserved :: "8 word"
  Planes :: u16
  BitCount :: u16
  fLength :: u32
  fSHA256 :: string

datatype icon_error =
  MissingFlags | InvalidICOHeader | InvalidFrameTable | FrameOutOfBounds nat
| OpenFailed string | ReadFailed string | NoResourceDirectory | UnsupportedHeader | OutsideSections u32
| MissingType u32 | NotADirectory u32 | DirectoryOutOfBounds | InvalidEntries | RejectedEntry
| LanguageEntries u16 nat | FourthLevel | DataEntryOutOfBounds | PayloadOutOfBounds | DuplicateResource u16
| NoIconGroup | InvalidGroupHeader | InvalidGroupTable | DuplicateIcon u16 | MissingIcon u16
| UnexpectedLength u16 | UnreferencedIcons
| DifferentIdentities nat | FrameCountMismatch nat nat | FrameMismatch nat

type_synonym 'a icon_result = "(icon_error, 'a) go_outcome"

subsection \<open>Frames\<close>

definition newFrame :: "string \<Rightarrow> string \<Rightarrow> icon_frame icon_result" where
  "newFrame rec payload =
     (if length rec < 4 then Panic
      else then_do (u16_at rec 4) (\<lambda>planes. then_do (u16_at rec 6) (\<lambda>bits. then_do (u32_at rec 8) (\<lambda>len.
        Ok \<lparr>Width = of_char (rec ! 0), Height = of_char (rec ! 1), ColorCount = of_char (rec ! 2),
            Reserved = of_char (rec ! 3), Planes = planes, BitCount = bits, fLength = len,
            fSHA256 = sha256_hex payload\<rparr>))))"

definition frameIdentity :: "icon_frame \<Rightarrow> string" where
  "frameIdentity f =
     padded 3 (unat (Width f)) @ '':'' @ padded 3 (unat (Height f)) @ '':'' @
     padded 3 (unat (ColorCount f)) @ '':'' @ padded 3 (unat (Reserved f)) @ '':'' @
     padded 5 (unat (Planes f)) @ '':'' @ padded 5 (unat (BitCount f)) @ '':'' @
     padded 10 (unat (fLength f)) @ '':'' @ fSHA256 f"

definition sortFrames :: "icon_frame list \<Rightarrow> icon_frame list" where
  "sortFrames fs = sort_key frameIdentity fs"

definition frameIdentityText :: "icon_frame list \<Rightarrow> string" where
  "frameIdentityText fs = concat (map (\<lambda>f. frameIdentity f @ [CHR 0x0A]) fs)"

definition frameIdentityHash :: "icon_frame list \<Rightarrow> string" where
  "frameIdentityHash fs = sha256_hex (frameIdentityText fs)"

fun first_mismatch :: "nat \<Rightarrow> icon_frame list \<Rightarrow> icon_frame list \<Rightarrow> nat option" where
  "first_mismatch i (e # es) (a # as) = (if e \<noteq> a then Some i else first_mismatch (Suc i) es as)"
| "first_mismatch i es as = None"

definition compareFrames :: "icon_frame list \<Rightarrow> icon_frame list \<Rightarrow> icon_error option" where
  "compareFrames expected actual =
     (if length expected \<noteq> length actual then Some (FrameCountMismatch (length expected) (length actual))
      else map_option FrameMismatch (first_mismatch 0 expected actual))"

subsection \<open>The icon file\<close>

text \<open>One record of the table; the end of the data is a 64-bit sum, truncated to 32 bits in the slice.\<close>

definition ico_frame :: "string \<Rightarrow> nat \<Rightarrow> icon_frame icon_result" where
  "ico_frame data index =
     then_do (slice (6 + index * 16) (6 + (index + 1) * 16) data) (\<lambda>rec.
     then_do (u32_at rec 8) (\<lambda>len. then_do (u32_at rec 12) (\<lambda>offset.
     let last = unat offset + unat len in
     if len = 0 \<or> last > length data then Err (FrameOutOfBounds index)
     else then_do (slice 0 12 rec) (\<lambda>r.
          then_do (slice (unat offset) (unat (of_nat last :: u32)) data) (newFrame r)))))"

definition ico_frames :: "string \<Rightarrow> icon_frame list icon_result" where
  "ico_frames data =
     (if length data < 6 then Err InvalidICOHeader
      else then_do (u16_at data 0) (\<lambda>reserved. if reserved \<noteq> 0 then Err InvalidICOHeader
      else then_do (u16_at data 2) (\<lambda>kind. if kind \<noteq> 1 then Err InvalidICOHeader
      else then_do (u16_at data 4) (\<lambda>n. let count = unat n in
        if count = 0 \<or> length data < 6 + count * 16 then Err InvalidFrameTable
        else each_do (ico_frame data) [0..<count]))))"

definition parseICO :: "string \<Rightarrow> icon_frame list icon_result" where
  "parseICO data = then_do (ico_frames data) (\<lambda>fs. Ok (sortFrames fs))"

subsection \<open>Icon groups\<close>

type_synonym resources = "(u16 \<times> string) list"

text \<open>The frames of one group and the icon identifiers it refers to.\<close>

fun group_loop :: "resources \<Rightarrow> string \<Rightarrow> u16 list \<Rightarrow> nat list \<Rightarrow> (icon_frame list \<times> u16 list) icon_result" where
  "group_loop icons grp seen [] = Ok ([], seen)"
| "group_loop icons grp seen (index # rest) =
     then_do (slice (6 + index * 14) (6 + (index + 1) * 14) grp) (\<lambda>rec.
     then_do (u16_at rec 12) (\<lambda>resourceID.
     if resourceID \<in> set seen then Err (DuplicateIcon resourceID)
     else case map_of icons resourceID of
       None \<Rightarrow> Err (MissingIcon resourceID)
     | Some payload \<Rightarrow>
         then_do (u32_at rec 8) (\<lambda>expectedLength.
         if (of_nat (length payload) :: u32) \<noteq> expectedLength then Err (UnexpectedLength resourceID)
         else then_do (slice 0 12 rec) (\<lambda>r. then_do (newFrame r payload) (\<lambda>frame.
              then_do (group_loop icons grp (resourceID # seen) rest) (\<lambda>(frames, ids).
              Ok (frame # frames, ids))))))) "

definition group_frames :: "resources \<Rightarrow> string \<Rightarrow> (icon_frame list \<times> u16 list) icon_result" where
  "group_frames icons grp =
     (if length grp < 6 then Err InvalidGroupHeader
      else then_do (u16_at grp 0) (\<lambda>reserved. if reserved \<noteq> 0 then Err InvalidGroupHeader
      else then_do (u16_at grp 2) (\<lambda>kind. if kind \<noteq> 1 then Err InvalidGroupHeader
      else then_do (u16_at grp 4) (\<lambda>n. let count = unat n in
        if count = 0 \<or> length grp \<noteq> 6 + count * 14 then Err InvalidGroupTable
        else group_loop icons grp [] [0..<count]))))"

definition parseIconGroups :: "resources \<Rightarrow> resources \<Rightarrow> icon_frame list list icon_result" where
  "parseIconGroups iconResources groupResources =
     then_do (each_do (group_frames iconResources) (map snd groupResources)) (\<lambda>gs.
       if length iconResources \<noteq> length (remdups (concat (map snd gs))) then Err UnreferencedIcons
       else Ok (map (\<lambda>(frames, ids). sortFrames frames) gs))"

subsection \<open>Resources of an executable\<close>

text \<open>
  \<open>ReaderAt\<close> is nil or the bytes that it has; \<open>sr\<close> is what \<open>Section.Data\<close> reads. Both
  readers fail on fewer bytes than \<open>Size\<close>.
\<close>

record pe_section =
  VirtualAddress :: u32
  VirtualSize :: u32
  SizeOfData :: u32
  ReaderAt :: "string option"
  sr :: string

datatype optional_header = OptionalHeader64 "u32 list" | OptionalHeader32 "u32 list" | OtherHeader

record pe_file =
  OptionalHeader :: optional_header
  Sections :: "pe_section list"

definition resourceDirectoryRVA :: "pe_file \<Rightarrow> u32 icon_result" where
  "resourceDirectoryRVA file =
     (case OptionalHeader file of
        OptionalHeader64 dirs \<Rightarrow>
          if length dirs \<le> resourceDirectory then Err NoResourceDirectory else Ok (dirs ! resourceDirectory)
      | OptionalHeader32 dirs \<Rightarrow>
          if length dirs \<le> resourceDirectory then Err NoResourceDirectory else Ok (dirs ! resourceDirectory)
      | OtherHeader \<Rightarrow> Err UnsupportedHeader)"

fun section_for :: "u32 \<Rightarrow> pe_section list \<Rightarrow> (pe_section \<times> u32) icon_result" where
  "section_for rva [] = Err (OutsideSections rva)"
| "section_for rva (sec # secs) =
     (let size = (if VirtualSize sec > SizeOfData sec then VirtualSize sec else SizeOfData sec) in
      if rva \<ge> VirtualAddress sec \<and> rva - VirtualAddress sec < size
      then Ok (sec, rva - VirtualAddress sec)
      else section_for rva secs)"

definition sectionForRVA :: "pe_file \<Rightarrow> u32 \<Rightarrow> (pe_section \<times> u32) icon_result" where
  "sectionForRVA file rva = section_for rva (Sections file)"

definition sectionData :: "pe_section \<Rightarrow> string icon_result" where
  "sectionData sec =
     (let available = (case ReaderAt sec of None \<Rightarrow> sr sec | Some b \<Rightarrow> b); size = unat (SizeOfData sec) in
      if length available < size then Err (ReadFailed ''unexpected EOF'') else Ok (take size available))"

record resource_entry =
  entry_name :: u32
  entry_offset :: u32

definition entry_at :: "string \<Rightarrow> u32 \<Rightarrow> nat \<Rightarrow> resource_entry icon_result" where
  "entry_at data directoryOffset index =
     (let offset = directoryOffset + 16 + of_nat index * 8 in
      then_do (u32_from data offset) (\<lambda>name. then_do (u32_from data (offset + 4)) (\<lambda>off.
      Ok \<lparr>entry_name = name, entry_offset = off\<rparr>)))"

definition directoryEntries :: "string \<Rightarrow> u32 \<Rightarrow> u32 \<Rightarrow> resource_entry list icon_result" where
  "directoryEntries data rootOffset directoryOffset =
     (if unat directoryOffset + 16 > length data then Err DirectoryOutOfBounds
      else then_do (u16_from data (directoryOffset + 12)) (\<lambda>named.
           then_do (u16_from data (directoryOffset + 14)) (\<lambda>ids.
      let count = unat named + unat ids in
      if count = 0 \<or> unat directoryOffset + 16 + count * 8 > length data then Err InvalidEntries
      else each_do (entry_at data directoryOffset) [0..<count])))"

fun find_entry :: "u32 \<Rightarrow> u32 \<Rightarrow> resource_entry list \<Rightarrow> u32 icon_result" where
  "find_entry rootOffset ident [] = Err (MissingType ident)"
| "find_entry rootOffset ident (e # es) =
     (if entry_name e = ident
      then if entry_offset e AND 0x80000000 = 0 then Err (NotADirectory ident)
           else Ok (rootOffset + (entry_offset e AND 0x7fffffff))
      else find_entry rootOffset ident es)"

definition findDirectoryID :: "string \<Rightarrow> u32 \<Rightarrow> u32 \<Rightarrow> u32 \<Rightarrow> u32 icon_result" where
  "findDirectoryID data rootOffset directoryOffset ident =
     then_do (directoryEntries data rootOffset directoryOffset) (find_entry rootOffset ident)"

text \<open>The payload that a data entry of the directory points to.\<close>

definition resource_payload :: "pe_file \<Rightarrow> string \<Rightarrow> u32 \<Rightarrow> string icon_result" where
  "resource_payload file data dataEntryOffset =
     (if unat dataEntryOffset + 16 > length data then Err DataEntryOutOfBounds
      else then_do (u32_from data dataEntryOffset) (\<lambda>resourceRVA.
           then_do (u32_from data (dataEntryOffset + 4)) (\<lambda>resourceLength.
           then_do (sectionForRVA file resourceRVA) (\<lambda>(sec, offset).
           then_do (sectionData sec) (\<lambda>payloadSectionData.
      let last = unat offset + unat resourceLength in
      if resourceLength = 0 \<or> last > length payloadSectionData then Err PayloadOutOfBounds
      else slice (unat offset) (unat (of_nat last :: u32)) payloadSectionData)))))"

fun read_names :: "pe_file \<Rightarrow> string \<Rightarrow> u32 \<Rightarrow> resources \<Rightarrow> resource_entry list \<Rightarrow> resources icon_result" where
  "read_names file data rootOffset result [] = Ok result"
| "read_names file data rootOffset result (nameEntry # rest) =
     (if entry_name nameEntry AND 0x80000000 \<noteq> 0 \<or> entry_offset nameEntry AND 0x80000000 = 0
      then Err RejectedEntry
      else let resourceID = ucast (entry_name nameEntry) :: u16 in
      then_do (directoryEntries data rootOffset (rootOffset + (entry_offset nameEntry AND 0x7fffffff)))
        (\<lambda>languageEntries.
      if length languageEntries \<noteq> 1 then Err (LanguageEntries resourceID (length languageEntries))
      else let language = hd languageEntries in
      if entry_offset language AND 0x80000000 \<noteq> 0 then Err FourthLevel
      else then_do (resource_payload file data (rootOffset + entry_offset language)) (\<lambda>payload.
      if map_of result resourceID \<noteq> None then Err (DuplicateResource resourceID)
      else read_names file data rootOffset (result @ [(resourceID, payload)]) rest)))"

definition readResourceType :: "pe_file \<Rightarrow> string \<Rightarrow> u32 \<Rightarrow> u32 \<Rightarrow> resources icon_result" where
  "readResourceType file data rootOffset resourceType =
     then_do (findDirectoryID data rootOffset rootOffset resourceType) (\<lambda>typeDirectory.
     then_do (directoryEntries data rootOffset typeDirectory) (\<lambda>nameEntries.
     read_names file data rootOffset [] nameEntries))"

text \<open>The two resource maps of the executable.\<close>

definition pe_resources :: "pe_file \<Rightarrow> (resources \<times> resources) icon_result" where
  "pe_resources file =
     then_do (resourceDirectoryRVA file) (\<lambda>resourceRVA.
     then_do (sectionForRVA file resourceRVA) (\<lambda>(resourceSection, rootOffset).
     then_do (sectionData resourceSection) (\<lambda>resourceData.
     then_do (readResourceType file resourceData rootOffset resourceTypeIcon) (\<lambda>iconResources.
     then_do (readResourceType file resourceData rootOffset resourceTypeGroupIcon) (\<lambda>groupResources.
     if groupResources = [] then Err NoIconGroup else Ok (iconResources, groupResources))))))"

text \<open>\<open>order\<close> is the order in which the loop goes over the map of groups.\<close>

definition extractPEIconGroups :: "(resources \<Rightarrow> resources) \<Rightarrow> string + pe_file \<Rightarrow> icon_frame list list icon_result" where
  "extractPEIconGroups order opened =
     (case opened of Inl e \<Rightarrow> Err (OpenFailed e)
      | Inr file \<Rightarrow> then_do (pe_resources file) (\<lambda>(icons, groups). parseIconGroups icons (order groups)))"

subsection \<open>The command\<close>

definition icon_report :: "string \<Rightarrow> string \<Rightarrow> icon_frame list \<Rightarrow> string" where
  "icon_report binaryPath iconPath actual =
     (let nl = [CHR 0x0A] in
      ''Status: PASS'' @ nl @ ''BinaryPath: '' @ binaryPath @ nl @ ''IconPath: '' @ iconPath @ nl @
      ''FrameCount: '' @ digits_of (length actual) @ nl @
      ''FrameIdentitySHA256: '' @ frameIdentityHash actual @ nl)"

text \<open>
  What the run prints on standard output when it passes; the exit status is 0 for \<open>Ok\<close>, 1
  for an error, and 2 for missing flags and for a panic.
\<close>

definition iconverify ::
  "(resources \<Rightarrow> resources) \<Rightarrow> (string \<Rightarrow> string + string) \<Rightarrow> (string \<Rightarrow> string + pe_file) \<Rightarrow>
   string \<Rightarrow> string \<Rightarrow> string icon_result" where
  "iconverify order readFile openPE binaryPath iconPath =
     (if binaryPath = [] \<or> iconPath = [] then Err MissingFlags
      else case readFile iconPath of Inl e \<Rightarrow> Err (ReadFailed e)
      | Inr expectedData \<Rightarrow>
          then_do (parseICO expectedData) (\<lambda>expected.
          then_do (extractPEIconGroups order (openPE binaryPath)) (\<lambda>groups.
          let identities = remdups (map frameIdentityText groups) in
          if length identities \<noteq> 1 then Err (DifferentIdentities (length identities))
          else let actual = last groups in
          case compareFrames expected actual of Some e \<Rightarrow> Err e
          | None \<Rightarrow>
              Ok (icon_report binaryPath iconPath actual))))"

definition icon_exit :: "'a icon_result \<Rightarrow> int" where
  "icon_exit r = (case r of Panic \<Rightarrow> 2 | Err MissingFlags \<Rightarrow> 2 | Err _ \<Rightarrow> 1 | Ok _ \<Rightarrow> 0)"

end
