(* ===== verification/IconFacts.thy ===== *)
theory IconFacts
  imports Icons
begin

text \<open>
  Facts on the icon check: no slice of it is out of range as long as the icon file is
  shorter than 4 GiB, and the identity of a frame determines the frame, so that sorting by
  identity compares multisets of frames.
\<close>

subsection \<open>No panic\<close>

lemma outcome_let [panic_free]: "(let x = a in f x) \<noteq> Panic" if "f a \<noteq> Panic"
  using that by simp

lemma outcome_if [panic_free]:
  "(b \<Longrightarrow> x \<noteq> Panic) \<Longrightarrow> (\<not> b \<Longrightarrow> y \<noteq> Panic) \<Longrightarrow> (if b then x else y) \<noteq> Panic"
  by simp

lemma outcome_values [panic_free]: "Err e \<noteq> Panic" "Ok x \<noteq> Panic" by simp_all

lemmas [panic_free] = then_do_no_Panic

lemma newFrame_Panic_iff [simp]: "newFrame r p = Panic \<longleftrightarrow> length r < 12"
  by (auto simp: newFrame_def then_do_Panic_iff u16_at_def u32_at_def Uint16_def Uint32_def slice_def)

lemma ico_frame_no_Panic:
  assumes "length data < 2 ^ 32" "6 + (index + 1) * 16 \<le> length data"
  shows "ico_frame data index \<noteq> Panic"
  unfolding ico_frame_def
proof (intro panic_free)
  fix rec len offset r payload
  assume rec: "slice (6 + index * 16) (6 + (index + 1) * 16) data = Ok rec"
  then have len: "length rec = 16" by auto
  show "u32_at rec 8 \<noteq> Panic" "u32_at rec 12 \<noteq> Panic" "slice 0 12 rec \<noteq> Panic" by (simp_all add: len)
  assume ok: "\<not> (len = 0 \<or> unat offset + unat len > length data)" and r: "slice 0 12 rec = Ok r"
  then have "unat (of_nat (unat offset + unat len) :: u32) = unat offset + unat len"
    using assms(1) by (simp add: unat_of_nat del: of_nat_add)
  then show "slice (unat offset) (unat (of_nat (unat offset + unat len) :: u32)) data \<noteq> Panic"
    using ok by (simp del: of_nat_add)
  show "newFrame r payload \<noteq> Panic" using r by (auto dest!: slice_Ok_length)
qed (use assms(2) in simp)

text \<open>Beyond 4 GiB the end of a frame is truncated, and the slice ends before it starts.\<close>

lemma ico_frame_beyond_4GiB:
  assumes "(slice (6 + index * 16) (6 + (index + 1) * 16) data :: string icon_result) = Ok rec"
    and "(u32_at rec 8 :: u32 icon_result) = Ok len" "(u32_at rec 12 :: u32 icon_result) = Ok offset" "len \<noteq> 0"
    and "2 ^ 32 \<le> unat offset + unat len" "unat offset + unat len \<le> length data"
  shows "ico_frame data index = Panic"
proof -
  have "unat offset < 2 ^ 32" "unat len < 2 ^ 32"
    using unsigned_less [of offset, where 'a = nat] unsigned_less [of len, where 'a = nat] by simp_all
  then have "(unat offset + unat len) mod 2 ^ 32 = unat offset + unat len - 2 ^ 32"
    using assms(5) by (simp add: le_mod_geq)
  then have "unat (of_nat (unat offset + unat len) :: u32) < unat offset"
    using assms(5) \<open>unat len < 2 ^ 32\<close> by (simp add: unat_of_nat del: of_nat_add)
  then have "(slice (unat offset) (unat (of_nat (unat offset + unat len) :: u32)) data :: string icon_result) = Panic"
    by simp
  moreover have "(slice 0 12 rec :: string icon_result) = Ok (take 12 rec)"
    using slice_Ok_length [OF assms(1)] by (simp add: slice_def)
  ultimately show ?thesis
    unfolding ico_frame_def assms(1) then_do.simps assms(2,3) Let_def
    using assms(4,6) by (simp del: slice_no_Panic of_nat_add)
qed

lemma ico_frames_no_Panic:
  assumes "length data < 2 ^ 32"
  shows "ico_frames data \<noteq> Panic"
proof -
  have "ico_frame data i \<noteq> Panic" if "i < n" "\<not> length data < 6 + n * 16" for i n
    by (rule ico_frame_no_Panic [OF assms]) (use that in simp)
  then show ?thesis
    by (auto simp: ico_frames_def then_do_Panic_iff Let_def intro!: each_do_no_Panic)
qed

lemma parseICO_no_Panic: "length data < 2 ^ 32 \<Longrightarrow> parseICO data \<noteq> Panic"
  unfolding parseICO_def by (intro panic_free ico_frames_no_Panic)

lemma group_loop_no_Panic:
  "\<forall>i \<in> set is. 6 + (i + 1) * 14 \<le> length grp \<Longrightarrow> group_loop icons grp seen is \<noteq> Panic"
  by (induction "is" arbitrary: seen)
    (auto simp: then_do_Panic_iff split: if_splits option.splits dest!: slice_Ok_length)

lemma group_frames_no_Panic: "group_frames icons grp \<noteq> Panic"
  unfolding group_frames_def
  by (auto simp: then_do_Panic_iff Let_def intro!: group_loop_no_Panic)

lemma parseIconGroups_no_Panic: "parseIconGroups icons groups \<noteq> Panic"
  unfolding parseIconGroups_def
  by (intro panic_free each_do_no_Panic group_frames_no_Panic)

lemma sectionData_length: "sectionData sec = Ok d \<Longrightarrow> length d < 2 ^ 32"
  using unsigned_less [of "SizeOfData sec", where 'a = nat]
  by (auto simp: sectionData_def Let_def split: if_splits)

lemma sectionData_no_Panic [panic_free]: "sectionData sec \<noteq> Panic"
  by (simp add: sectionData_def Let_def)

lemma sectionForRVA_no_Panic [panic_free]: "sectionForRVA file rva \<noteq> Panic"
proof -
  have "section_for rva secs \<noteq> Panic" for secs by (induction secs) (simp_all add: Let_def)
  then show ?thesis by (simp add: sectionForRVA_def)
qed

lemma directory_offsets:
  assumes "unat (d :: u32) + 16 + k * 8 \<le> n" "n < 2 ^ 32" "i < k"
  shows "unat (d + 12) = unat d + 12" "unat (d + 14) = unat d + 14"
    "unat (d + 16 + of_nat i * 8) = unat d + 16 + i * 8"
    "unat (d + 16 + of_nat i * 8 + 4) = unat d + 16 + i * 8 + 4"
proof -
  have *: "d + 16 + of_nat i * 8 = d + of_nat (16 + i * 8)" "d + of_nat (16 + i * 8) + 4 = d + of_nat (16 + i * 8 + 4)"
    by simp_all
  have le: "unat d + (16 + i * 8 + 4) < 2 ^ 32" using assms by simp
  show "unat (d + 12) = unat d + 12" "unat (d + 14) = unat d + 14"
    using le unat_add_small [of d 12] unat_add_small [of d 14] by simp_all
  show "unat (d + 16 + of_nat i * 8) = unat d + 16 + i * 8"
    unfolding * using le by (subst unat_add_small) simp_all
  show "unat (d + 16 + of_nat i * 8 + 4) = unat d + 16 + i * 8 + 4"
    unfolding * using le by (subst unat_add_small) simp_all
qed


lemma directoryEntries_no_Panic [panic_free]:
  assumes "length data < 2 ^ 32"
  shows "directoryEntries data root d \<noteq> Panic"
proof -
  have "each_do (entry_at data d) [0..<k] \<noteq> Panic" if le: "unat d + 16 + k * 8 \<le> length data" for k
  proof (rule each_do_no_Panic)
    fix i assume "i \<in> set [0..<k]"
    then have i: "i < k" by simp
    have "u32_from data (d + 16 + of_nat i * 8) \<noteq> Panic" "u32_from data (d + 16 + of_nat i * 8 + 4) \<noteq> Panic"
      using directory_offsets [OF le assms i] le i assms by (simp_all add: u32_from_at)
    then show "entry_at data d i \<noteq> Panic" by (auto simp: entry_at_def Let_def then_do_Panic_iff)
  qed
  moreover have "u16_from data (d + 12) \<noteq> Panic" "u16_from data (d + 14) \<noteq> Panic"
    if "unat d + 16 \<le> length data"
    using unat_add_small [of d 12] unat_add_small [of d 14] that assms by (simp_all add: u16_from_at)
  ultimately show ?thesis
    by (auto simp: directoryEntries_def then_do_Panic_iff Let_def not_less)
qed

lemma resource_payload_no_Panic [panic_free]:
  assumes "length data < 2 ^ 32"
  shows "resource_payload file data d \<noteq> Panic"
proof -
  have word: "u32_from data d \<noteq> Panic \<and> u32_from data (d + 4) \<noteq> Panic" if "unat d + 16 \<le> length data"
    using unat_add_small [of d 4] that assms by (simp add: u32_from_at)
  have piece: "slice (unat offset) (unat (of_nat (unat offset + unat len) :: u32)) p \<noteq> Panic"
    if "sectionData sec = Ok p" "\<not> unat offset + unat len > length p" for sec p offset len
    using that sectionData_length [OF that(1)] by (simp add: unat_of_nat del: of_nat_add)
  show ?thesis
    using word piece sectionForRVA_no_Panic sectionData_no_Panic
    by (auto simp: resource_payload_def then_do_Panic_iff Let_def not_less split: prod.splits simp del: of_nat_add)
qed

lemma read_names_no_Panic [panic_free]:
  "length data < 2 ^ 32 \<Longrightarrow> read_names file data root result es \<noteq> Panic"
  by (induction es arbitrary: result)
    (auto simp: then_do_Panic_iff Let_def directoryEntries_no_Panic resource_payload_no_Panic)

lemma find_entry_no_Panic [panic_free]: "find_entry root ident es \<noteq> Panic"
  by (induction es) auto

lemma readResourceType_no_Panic [panic_free]:
  "length data < 2 ^ 32 \<Longrightarrow> readResourceType file data root kind \<noteq> Panic"
  unfolding readResourceType_def findDirectoryID_def by (intro panic_free)

lemma pe_resources_no_Panic [panic_free]: "pe_resources file \<noteq> Panic"
  unfolding pe_resources_def
  by (auto simp: then_do_Panic_iff resourceDirectoryRVA_def sectionForRVA_no_Panic sectionData_no_Panic
        split: optional_header.splits if_splits dest!: sectionData_length dest: readResourceType_no_Panic)

lemma extractPEIconGroups_no_Panic: "extractPEIconGroups order opened \<noteq> Panic"
  by (auto simp: extractPEIconGroups_def then_do_Panic_iff pe_resources_no_Panic parseIconGroups_no_Panic
      split: sum.splits)

lemma iconverify_no_Panic:
  assumes "\<forall>data. readFile iconPath = Inr data \<longrightarrow> length data < 2 ^ 32"
  shows "iconverify order readFile openPE binaryPath iconPath \<noteq> Panic"
proof -
  have "parseICO data \<noteq> Panic" if "readFile iconPath = Inr data" for data
    by (rule parseICO_no_Panic) (use assms that in blast)
  then show ?thesis
    by (auto simp: iconverify_def then_do_Panic_iff Let_def extractPEIconGroups_no_Panic
        split: sum.splits option.splits if_splits)
qed

subsection \<open>Identities\<close>

lemma digit_not_colon: "is_digit c \<Longrightarrow> c \<noteq> CHR '':'' \<and> c \<noteq> CHR 0x0A"
  by (auto simp: is_digit_def)

lemma padded_no_sep: "CHR '':'' \<notin> set (padded w n)" "CHR 0x0A \<notin> set (padded w n)"
  using padded_digits [of w n] by (auto simp: list_all_iff dest: digit_not_colon)

lemma frameIdentity_inj: "frameIdentity f = frameIdentity g \<longleftrightarrow> f = g"
proof
  assume "frameIdentity f = frameIdentity g"
  then show "f = g"
    by (cases f; cases g) (simp add: frameIdentity_def sep_inj padded_no_sep padded_inj word_unat_eq_iff [symmetric])
qed simp

definition text_frame :: "icon_frame \<Rightarrow> bool" where
  "text_frame f \<longleftrightarrow> CHR 0x0A \<notin> set (fSHA256 f)"

lemma frameIdentityText_inj:
  "list_all text_frame fs \<Longrightarrow> list_all text_frame gs \<Longrightarrow>
   frameIdentityText fs = frameIdentityText gs \<longleftrightarrow> fs = gs"
proof (induction fs arbitrary: gs)
  case Nil
  then show ?case by (cases gs) (auto simp: frameIdentityText_def)
next
  case (Cons f fs)
  have free: "CHR 0x0A \<notin> set (frameIdentity h)" if "text_frame h" for h
    using that padded_no_sep by (simp add: frameIdentity_def text_frame_def)
  show ?case
  proof (cases gs)
    case (Cons g gs')
    with Cons.prems free have "CHR 0x0A \<notin> set (frameIdentity f)" "CHR 0x0A \<notin> set (frameIdentity g)" by simp_all
    then show ?thesis
      using Cons.IH [of gs'] Cons.prems Cons
      by (simp add: frameIdentityText_def sep_inj frameIdentity_inj)
  qed (simp add: frameIdentityText_def)
qed

lemma sortFrames_eq_iff: "sortFrames fs = sortFrames gs \<longleftrightarrow> mset fs = mset gs"
proof
  assume "mset fs = mset gs"
  then show "sortFrames fs = sortFrames gs"
    unfolding sortFrames_def
    by (intro sort_key_inj_key_eq) (auto simp: inj_on_def frameIdentity_inj)
qed (metis mset_sort sortFrames_def)

lemma set_sortFrames [simp]: "set (sortFrames fs) = set fs"
  by (simp add: sortFrames_def)

lemma first_mismatch_None:
  "length es = length as \<Longrightarrow> first_mismatch i es as = None \<longleftrightarrow> es = as"
  by (induction i es as rule: first_mismatch.induct) auto

lemma compareFrames_None: "compareFrames es as = None \<longleftrightarrow> es = as"
  by (auto simp: compareFrames_def first_mismatch_None)

lemma newFrame_text: "newFrame r p = Ok f \<Longrightarrow> text_frame f"
  by (auto simp: newFrame_def then_do_Ok_iff text_frame_def sha256_hex_text split: if_splits)

lemma ico_frames_text: "ico_frames data = Ok fs \<Longrightarrow> list_all text_frame fs"
  by (auto simp: ico_frames_def then_do_Ok_iff Let_def each_do_Ok_iff list_all2_conv_all_nth list_all_length
        ico_frame_def split: if_splits intro: newFrame_text)

lemma group_loop_text: "group_loop icons grp seen is = Ok (fs, ids) \<Longrightarrow> list_all text_frame fs"
  by (induction "is" arbitrary: seen fs ids)
    (auto simp: then_do_Ok_iff split: if_splits option.splits intro: newFrame_text)

lemma group_frames_text: "group_frames icons grp = Ok (fs, ids) \<Longrightarrow> list_all text_frame fs"
  by (auto simp: group_frames_def then_do_Ok_iff Let_def split: if_splits dest: group_loop_text)

subsection \<open>References\<close>

lemma group_loop_ids:
  "group_loop icons grp seen is = Ok (fs, ids) \<Longrightarrow> set seen \<subseteq> fst ` set icons \<Longrightarrow> set ids \<subseteq> fst ` set icons"
proof (induction "is" arbitrary: seen fs ids)
  case (Cons i "is")
  then obtain rid payload fs' where m: "map_of icons rid = Some payload"
    and rest: "group_loop icons grp (rid # seen) is = Ok (fs', ids)"
    by (auto simp: then_do_Ok_iff split: if_splits option.splits)
  have "rid \<in> fst ` set icons" using m by (force dest: map_of_SomeD)
  then show ?case using Cons.IH [OF rest] Cons.prems(2) by simp
qed simp

lemma group_frames_ids: "group_frames icons grp = Ok (fs, ids) \<Longrightarrow> set ids \<subseteq> fst ` set icons"
  by (auto simp: group_frames_def then_do_Ok_iff Let_def split: if_splits dest: group_loop_ids)

lemma read_names_distinct:
  "read_names file data root result es = Ok rs \<Longrightarrow> distinct (map fst result) \<Longrightarrow> distinct (map fst rs)"
  by (induction es arbitrary: result)
    (auto simp: then_do_Ok_iff Let_def map_of_eq_None_iff split: if_splits)

lemma pe_resources_distinct:
  "pe_resources file = Ok (icons, groups) \<Longrightarrow> distinct (map fst icons) \<and> distinct (map fst groups) \<and> groups \<noteq> []"
  by (auto simp: pe_resources_def readResourceType_def then_do_Ok_iff split: if_splits prod.splits
      dest: read_names_distinct)

lemma all_referenced:
  assumes "distinct (map fst icons)" "set ids \<subseteq> fst ` set icons"
  shows "length icons = length (remdups ids) \<longleftrightarrow> fst ` set icons \<subseteq> set ids"
proof -
  have "length icons = card (fst ` set icons)"
    using assms(1) by (metis distinct_card length_map set_map)
  moreover have "length (remdups ids) = card (set ids)" by (metis distinct_card distinct_remdups set_remdups)
  ultimately show ?thesis
    using assms(2) by (metis List.finite_set card_subset_eq finite_imageI order_refl subset_antisym)
qed

subsection \<open>What the check decides\<close>

text \<open>The frames of a group, and the icons it refers to, as far as it is well formed.\<close>

definition group_matches :: "resources \<Rightarrow> icon_frame list \<Rightarrow> string \<Rightarrow> bool" where
  "group_matches icons fs grp =
     (case group_frames icons grp of Ok (gs, ids) \<Rightarrow> mset gs = mset fs | _ \<Rightarrow> False)"

definition group_refers :: "resources \<Rightarrow> string \<Rightarrow> u16 \<Rightarrow> bool" where
  "group_refers icons grp ident = (case group_frames icons grp of Ok (gs, ids) \<Rightarrow> ident \<in> set ids | _ \<Rightarrow> False)"

definition icons_agree :: "string \<Rightarrow> pe_file \<Rightarrow> bool" where
  "icons_agree data file =
     (case ico_frames data of Ok fs \<Rightarrow>
        (case pe_resources file of Ok (icons, groups) \<Rightarrow>
           (\<forall>grp \<in> set (map snd groups). group_matches icons fs grp) \<and>
           (\<forall>ident \<in> set (map fst icons). \<exists>grp \<in> set (map snd groups). group_refers icons grp ident)
         | _ \<Rightarrow> False)
      | _ \<Rightarrow> False)"

lemma one_identity:
  assumes "G \<noteq> []" "\<forall>g \<in> set G. list_all text_frame g" "list_all text_frame e"
  shows "length (remdups (map frameIdentityText G)) = 1 \<and> e = last G \<longleftrightarrow> (\<forall>g \<in> set G. g = e)"
proof -
  have "length (remdups (map frameIdentityText G)) = card (frameIdentityText ` set G)"
    by (metis distinct_card distinct_remdups set_map set_remdups)
  also have "\<dots> = 1 \<longleftrightarrow> (\<forall>g \<in> set G. frameIdentityText g = frameIdentityText (last G))"
    using assms(1) by (auto simp: card_1_singleton_iff image_def intro!: exI [of _ "frameIdentityText (last G)"] dest: last_in_set)
      (metis (mono_tags, lifting) last_in_set mem_Collect_eq singletonD)
  also have "\<dots> \<longleftrightarrow> (\<forall>g \<in> set G. g = last G)"
    using assms by (simp add: frameIdentityText_inj)
  finally show ?thesis using last_in_set [OF assms(1)] by metis
qed

lemma parseIconGroups_Ok:
  assumes "distinct (map fst icons)"
  shows "parseIconGroups icons groups = Ok G \<longleftrightarrow>
    (\<exists>gs. each_do (group_frames icons) (map snd groups) = Ok gs \<and> G = map (sortFrames \<circ> fst) gs \<and>
       (\<forall>ident \<in> set (map fst icons). \<exists>grp \<in> set (map snd groups). group_refers icons grp ident))"
proof -
  have "length icons = length (remdups (concat (map snd gs))) \<longleftrightarrow>
      (\<forall>ident \<in> set (map fst icons). \<exists>grp \<in> set (map snd groups). group_refers icons grp ident)"
    if gs: "each_do (group_frames icons) (map snd groups) = Ok gs" for gs
  proof -
    have l2: "list_all2 (\<lambda>g r. group_frames icons g = Ok r) (map snd groups) gs"
      using gs by (simp add: each_do_Ok_iff)
    have pair: "(\<exists>grp \<in> set (map snd groups). group_refers icons grp ident) \<longleftrightarrow> ident \<in> set (concat (map snd gs))" for ident
      using l2 by (induction rule: list_all2_induct) (auto simp: group_refers_def split: prod.splits)
    have "set ids \<subseteq> fst ` set icons" if "ids \<in> set (map snd gs)" for ids
      using l2 that by (induction rule: list_all2_induct) (auto dest: group_frames_ids [THEN subsetD])
    then have "set (concat (map snd gs)) \<subseteq> fst ` set icons" by auto
    from all_referenced [OF assms this] show ?thesis by (simp only: pair) auto
  qed
  then show ?thesis
    by (auto simp: parseIconGroups_def then_do_Ok_iff split_def comp_def)
qed

lemma groups_match:
  assumes "each_do (group_frames icons) gs = Ok rs" "gs \<noteq> []" "list_all text_frame e"
  shows "length (remdups (map frameIdentityText (map (sortFrames \<circ> fst) rs))) = 1 \<and>
      sortFrames e = last (map (sortFrames \<circ> fst) rs) \<longleftrightarrow> (\<forall>g \<in> set gs. group_matches icons e g)"
proof -
  have l2: "list_all2 (\<lambda>g r. group_frames icons g = Ok r) gs rs" using assms(1) by (simp add: each_do_Ok_iff)
  then have ne: "map (sortFrames \<circ> fst) rs \<noteq> []" using assms(2) by auto
  have texts: "\<forall>r \<in> set rs. list_all text_frame (fst r)"
    using l2 by (induction rule: list_all2_induct) (auto dest: group_frames_text)
  have m: "(\<forall>r \<in> set rs. mset (fst r) = mset e) \<longleftrightarrow> (\<forall>g \<in> set gs. group_matches icons e g)"
    using l2 by (induction rule: list_all2_induct) (auto simp: group_matches_def split: prod.splits)
  show ?thesis
    by (subst one_identity [OF ne]) (use texts assms(3) m in \<open>auto simp: list_all_iff sortFrames_eq_iff\<close>)
qed

lemma compare_Ok: "(case compareFrames es as of None \<Rightarrow> Ok x | Some e \<Rightarrow> Err e) = Ok y \<longleftrightarrow> es = as \<and> y = x"
  by (auto simp: compareFrames_None [symmetric] split: option.split)

lemma icons_pass:
  assumes "\<forall>gs. mset (order gs) = mset gs"
  shows "(\<exists>out. iconverify order readFile openPE binaryPath iconPath = Ok out) \<longleftrightarrow>
    binaryPath \<noteq> [] \<and> iconPath \<noteq> [] \<and>
    (\<exists>data pe. readFile iconPath = Inr data \<and> openPE binaryPath = Inr pe \<and> icons_agree data pe)"
    (is "?L \<longleftrightarrow> ?R")
proof (cases "binaryPath = [] \<or> iconPath = [] \<or> (\<exists>e. readFile iconPath = Inl e) \<or> (\<exists>e. openPE binaryPath = Inl e)")
  case True
  then show ?thesis
    by (auto simp: iconverify_def extractPEIconGroups_def then_do_Ok_iff split: sum.splits)
next
  case False
  then obtain data pe where d: "readFile iconPath = Inr data" "openPE binaryPath = Inr pe"
    and ne: "binaryPath \<noteq> []" "iconPath \<noteq> []"
    by (metis obj_sumE)
  have ord: "set (map snd (order gs)) = set (map snd gs)" "order gs \<noteq> [] \<longleftrightarrow> gs \<noteq> []" for gs
    using assms by (metis mset_map set_mset_mset, metis mset.simps(1) mset_zero_iff)
  have "?L \<longleftrightarrow> (\<exists>fs icons groups G. ico_frames data = Ok fs \<and> pe_resources pe = Ok (icons, groups) \<and>
      parseIconGroups icons (order groups) = Ok G \<and>
      length (remdups (map frameIdentityText G)) = 1 \<and> sortFrames fs = last G)"
    using ne by (auto simp: iconverify_def d extractPEIconGroups_def parseICO_def then_do_Ok_iff Let_def
        compare_Ok if_Err_Ok)
  also have "\<dots> \<longleftrightarrow> icons_agree data pe"
  proof (cases "\<exists>fs icons groups. ico_frames data = Ok fs \<and> pe_resources pe = Ok (icons, groups)")
    case True
    then obtain fs icons groups where r: "ico_frames data = Ok fs" "pe_resources pe = Ok (icons, groups)" by blast
    note p = pe_resources_distinct [OF r(2)]
    have refs: "(\<exists>grp \<in> set (map snd (order groups)). group_refers icons grp ident) \<longleftrightarrow>
        (\<exists>grp \<in> set (map snd groups). group_refers icons grp ident)" for ident
      by (simp only: ord)
    have "(\<exists>rs. each_do (group_frames icons) (map snd (order groups)) = Ok rs \<and>
          length (remdups (map frameIdentityText (map (sortFrames \<circ> fst) rs))) = 1 \<and>
          sortFrames fs = last (map (sortFrames \<circ> fst) rs)) \<longleftrightarrow>
        (\<forall>grp \<in> set (map snd groups). group_matches icons fs grp)"
    proof (cases "\<exists>rs. each_do (group_frames icons) (map snd (order groups)) = Ok rs")
      case True
      then obtain rs where rs: "each_do (group_frames icons) (map snd (order groups)) = Ok rs" ..
      have "map snd (order groups) \<noteq> []" using p ord by simp
      from groups_match [OF rs this ico_frames_text [OF r(1)]] show ?thesis by (simp only: rs ord go_outcome.inject ex_simps simp_thms)
    next
      case False
      then have "\<not> (\<forall>grp \<in> set (map snd (order groups)). \<exists>y. group_frames icons grp = Ok y)"
        unfolding each_do_Ok_ex .
      then have "\<not> (\<forall>grp \<in> set (map snd groups). \<exists>y. group_frames icons grp = Ok y)" unfolding ord .
      then have "\<not> (\<forall>grp \<in> set (map snd groups). group_matches icons fs grp)"
        by (auto simp: group_matches_def split: go_outcome.splits)
      then show ?thesis using False by blast
    qed
    note match = this
    define R where "R \<longleftrightarrow> (\<forall>ident \<in> set (map fst icons). \<exists>grp \<in> set (map snd groups). group_refers icons grp ident)"
    have parsed: "parseIconGroups icons (order groups) = Ok G \<longleftrightarrow>
        (\<exists>rs. each_do (group_frames icons) (map snd (order groups)) = Ok rs \<and> G = map (sortFrames \<circ> fst) rs \<and> R)" for G
      using p by (simp only: parseIconGroups_Ok refs R_def)
    have "icons_agree data pe \<longleftrightarrow> (\<forall>grp \<in> set (map snd groups). group_matches icons fs grp) \<and> R"
      by (simp add: icons_agree_def r R_def)
    then show ?thesis
      unfolding match [symmetric] by (auto simp: r parsed)
  qed (auto simp: icons_agree_def split: go_outcome.splits)
  finally show ?thesis using d ne by simp
qed

end
