(* ===== verification/IconProperties.thy ===== *)
theory IconProperties
  imports IconFacts
begin

text \<open>
  What the icon check guarantees, with a small icon and a small executable as witness.
\<close>

subsection \<open>A sample\<close>

definition sample_icon_header :: string where
  "sample_icon_header =
     [CHR 0x10, CHR 0x10, CHR 0x00, CHR 0x00, CHR 0x01, CHR 0x00, CHR 0x20, CHR 0x00,
      CHR 0x04, CHR 0x00, CHR 0x00, CHR 0x00]"

definition le16 :: "int \<Rightarrow> string" where "le16 n = [char_of n, CHR 0x00]"
definition le32 :: "int \<Rightarrow> bool \<Rightarrow> string" where
  "le32 n high = [char_of n, char_of (n div 256), CHR 0x00, if high then CHR 0x80 else CHR 0x00]"

definition sample_ico :: string where
  "sample_ico = le16 0 @ le16 1 @ le16 1 @ sample_icon_header @ le32 22 False @ ''icon''"

definition sample_group :: string where
  "sample_group = le16 0 @ le16 1 @ le16 1 @ sample_icon_header @ le16 7"

definition sample_directory :: "(int \<times> int \<times> bool) list \<Rightarrow> string" where
  "sample_directory es =
     replicate 12 (CHR 0x00) @ le16 0 @ le16 (int (length es)) @
     concat (map (\<lambda>(name, offset, sub). le32 name False @ le32 offset sub) es)"

definition sample_section :: string where
  "sample_section =
     sample_directory [(3, 32, True), (14, 80, True)] @
     sample_directory [(7, 56, True)] @ sample_directory [(1033, 128, False)] @
     sample_directory [(1, 104, True)] @ sample_directory [(1033, 144, False)] @
     le32 4256 False @ le32 4 False @ le32 0 False @ le32 0 False @
     le32 4260 False @ le32 20 False @ le32 0 False @ le32 0 False @
     ''icon'' @ sample_group"

definition sample_pe :: pe_file where
  "sample_pe = \<lparr>
     OptionalHeader = OptionalHeader64 [0, 0, 4096],
     Sections = [\<lparr>VirtualAddress = 4096, VirtualSize = 200, SizeOfData = 184, ReaderAt = Some sample_section,
                   sr = sample_section\<rparr>]\<rparr>"

lemma sample_resources: "pe_resources sample_pe = Ok ([(7, ''icon'')], [(1, sample_group)])"
  by code_simp


definition sample_frame :: icon_frame where
  "sample_frame =
     \<lparr>Width = 16, Height = 16, ColorCount = 0, Reserved = 0, Planes = 1, BitCount = 32, fLength = 4,
      fSHA256 = sha256_hex ''icon''\<rparr>"

lemma sample_slices:
  "length sample_ico = 26"
  "(u16_at sample_ico 0 :: _ icon_result) = Ok 0" "(u16_at sample_ico 2 :: _ icon_result) = Ok 1" "(u16_at sample_ico 4 :: _ icon_result) = Ok 1"
  "(slice 6 22 sample_ico :: _ icon_result) = Ok (sample_icon_header @ le32 22 False)"
  "(u32_at (sample_icon_header @ le32 22 False) 8 :: _ icon_result) = Ok 4"
  "(u32_at (sample_icon_header @ le32 22 False) 12 :: _ icon_result) = Ok 22"
  "(slice 0 12 (sample_icon_header @ le32 22 False) :: _ icon_result) = Ok sample_icon_header"
  "(slice 22 26 sample_ico :: _ icon_result) = Ok ''icon''"
  "length sample_group = 20"
  "(u16_at sample_group 0 :: _ icon_result) = Ok 0" "(u16_at sample_group 2 :: _ icon_result) = Ok 1" "(u16_at sample_group 4 :: _ icon_result) = Ok 1"
  "(slice 6 20 sample_group :: _ icon_result) = Ok (sample_icon_header @ le16 7)"
  "(u16_at (sample_icon_header @ le16 7) 12 :: _ icon_result) = Ok 7" "(u32_at (sample_icon_header @ le16 7) 8 :: _ icon_result) = Ok 4"
  "(slice 0 12 (sample_icon_header @ le16 7) :: _ icon_result) = Ok sample_icon_header"
  by code_simp+

lemma sample_header:
  "length sample_icon_header = 12"
  "(u16_at sample_icon_header 4 :: _ icon_result) = Ok 1" "(u16_at sample_icon_header 6 :: _ icon_result) = Ok 32" "(u32_at sample_icon_header 8 :: _ icon_result) = Ok 4"
  "(of_char (sample_icon_header ! 0) :: 8 word) = 16" "(of_char (sample_icon_header ! 1) :: 8 word) = 16"
  "(of_char (sample_icon_header ! 2) :: 8 word) = 0" "(of_char (sample_icon_header ! 3) :: 8 word) = 0"
  by code_simp+

lemma sample_newFrame: "newFrame sample_icon_header ''icon'' = Ok sample_frame"
  by (simp add: newFrame_def sample_header sample_frame_def del: One_nat_def)

lemma sample_frames:
  "ico_frames sample_ico = Ok [sample_frame]"
  "group_frames [(7, ''icon'')] sample_group = Ok ([sample_frame], [7])"
  by (simp_all add: ico_frames_def ico_frame_def group_frames_def sample_slices sample_newFrame Let_def)

lemma sample_agree: "icons_agree sample_ico sample_pe"
  by (simp add: icons_agree_def sample_resources sample_frames group_matches_def group_refers_def)

subsection \<open>Properties\<close>

text \<open>
  C36: the icon check never panics on an icon file below 4 GiB, whatever the executable
  contains, and it passes exactly when the icon file is well formed, every icon group of the
  executable is well formed and has the same frames as the icon file with the same
  multiplicities (whatever their order in either, and whatever the order in which the loop
  goes over the map of groups), and every embedded icon is referred to by a group.
\<close>

theorem icon_check_decides:
  assumes "\<forall>gs. mset (order gs) = mset gs"
    and "\<forall>data. readFile iconPath = Inr data \<longrightarrow> length data < 2 ^ 32"
    and "binaryPath \<noteq> []" "iconPath \<noteq> []"
  shows "iconverify order readFile openPE binaryPath iconPath \<noteq> Panic \<and>
    (icon_exit (iconverify order readFile openPE binaryPath iconPath) = 0 \<longleftrightarrow>
      (\<exists>data pe. readFile iconPath = Inr data \<and> openPE binaryPath = Inr pe \<and> icons_agree data pe))"
proof
  show "iconverify order readFile openPE binaryPath iconPath \<noteq> Panic" by (rule iconverify_no_Panic) (rule assms(2))
  have "icon_exit r = 0 \<longleftrightarrow> (\<exists>out. r = Ok out)" for r :: "string icon_result"
    by (auto simp: icon_exit_def split: go_outcome.split icon_error.split)
  then show "icon_exit (iconverify order readFile openPE binaryPath iconPath) = 0 \<longleftrightarrow>
      (\<exists>data pe. readFile iconPath = Inr data \<and> openPE binaryPath = Inr pe \<and> icons_agree data pe)"
    using icons_pass [OF assms(1)] assms(3,4) by simp
qed

theorem icon_check_decides_witness:
  "icon_exit (iconverify rev (\<lambda>_. Inr sample_ico) (\<lambda>_. Inr sample_pe) ''server.exe'' ''app.ico'') = 0"
  using icon_check_decides [of rev "\<lambda>_. Inr sample_ico" "''app.ico''" "''server.exe''" "\<lambda>_. Inr sample_pe"]
  by (simp add: sample_agree sample_slices)

end
