(* ===== verification/GoRegexp.thy ===== *)
theory GoRegexp
  imports GoJson
begin

text \<open>
  The part of package \<open>regexp\<close> the program uses. An expression matches runes, given here by
  their bytes: a well-formed UTF-8 sequence, or one byte that belongs to none. Among the
  matches at a position the first is taken in the order in which Perl's backtracking search
  finds them (greedy repetitions and left alternatives first).
\<close>

subsection \<open>Runes\<close>

function runes_of :: "string \<Rightarrow> string list" where
  "runes_of [] = []"
| "runes_of (c # s) =
     (let n = rune_len (c # s) in
      if n = 0 then [c] # runes_of s else take n (c # s) # runes_of (drop (n - 1) s))"
  by pat_completeness auto
termination
  by (relation "measure length") auto

declare runes_of.simps [simp del]

definition is_word :: "string \<Rightarrow> bool" where
  "is_word r \<longleftrightarrow> (case r of [c] \<Rightarrow> is_digit c \<or> 65 \<le> byte c \<and> byte c \<le> 90 \<or> 97 \<le> byte c \<and> byte c \<le> 122 \<or> c = CHR ''_'' | _ \<Rightarrow> False)"

subsection \<open>Expressions\<close>

datatype re =
  Eps | Cls "string \<Rightarrow> bool" | Cat re re | Alt re re | Star re | Grp nat re | TextBegin | WordBoundary

text \<open>The rune behind the position, the runes after it, and the groups matched so far.\<close>

record mstate =
  behind :: "string option"
  ahead :: "string list"
  groups :: "(nat \<times> string) list"

fun greedy :: "(mstate \<Rightarrow> mstate list) \<Rightarrow> nat \<Rightarrow> mstate \<Rightarrow> mstate list" where
  "greedy f 0 st = [st]"
| "greedy f (Suc n) st =
     concat (map (\<lambda>st'. if length (ahead st') < length (ahead st) then greedy f n st' else []) (f st)) @ [st]"

text \<open>All matches from a state, the preferred first.\<close>

primrec matches :: "re \<Rightarrow> mstate \<Rightarrow> mstate list" where
  "matches Eps st = [st]"
| "matches (Cls p) st =
     (case ahead st of [] \<Rightarrow> [] | r # rs \<Rightarrow> if p r then [st\<lparr>behind := Some r, ahead := rs\<rparr>] else [])"
| "matches (Cat a b) st = concat (map (matches b) (matches a st))"
| "matches (Alt a b) st = matches a st @ matches b st"
| "matches (Star a) st = greedy (matches a) (length (ahead st)) st"
| "matches (Grp n a) st =
     map (\<lambda>st'. st'\<lparr>groups := (n, concat (take (length (ahead st) - length (ahead st')) (ahead st))) # groups st'\<rparr>)
       (matches a st)"
| "matches TextBegin st = (if behind st = None then [st] else [])"
| "matches WordBoundary st =
     (let w = (\<lambda>r. case r of Some r \<Rightarrow> is_word r | None \<Rightarrow> False) in
      if w (behind st) \<noteq> w (case ahead st of [] \<Rightarrow> None | r # _ \<Rightarrow> Some r) then [st] else [])"

definition first_at :: "re \<Rightarrow> string option \<Rightarrow> string list \<Rightarrow> mstate option" where
  "first_at r prev rs = (case matches r \<lparr>behind = prev, ahead = rs, groups = []\<rparr> of [] \<Rightarrow> None | st # _ \<Rightarrow> Some st)"

text \<open>\<open>MatchString\<close>.\<close>

fun match_from :: "re \<Rightarrow> string option \<Rightarrow> string list \<Rightarrow> bool" where
  "match_from r prev [] \<longleftrightarrow> first_at r prev [] \<noteq> None"
| "match_from r prev (x # xs) \<longleftrightarrow> first_at r prev (x # xs) \<noteq> None \<or> match_from r (Some x) xs"

definition MatchString :: "re \<Rightarrow> string \<Rightarrow> bool" where
  "MatchString r s \<longleftrightarrow> match_from r None (runes_of s)"

text \<open>
  \<open>ReplaceAllString\<close> with a template of texts and groups, for expressions that match no empty
  text: the matches are replaced from left to right, and the search goes on behind each.
\<close>

datatype piece = Text string | Ref nat

definition expand :: "piece list \<Rightarrow> (nat \<times> string) list \<Rightarrow> string" where
  "expand template gs =
     concat (map (\<lambda>p. case p of Text t \<Rightarrow> t | Ref n \<Rightarrow> (case map_of gs n of Some t \<Rightarrow> t | None \<Rightarrow> [])) template)"

function replace_from :: "re \<Rightarrow> piece list \<Rightarrow> string option \<Rightarrow> string list \<Rightarrow> string" where
  "replace_from r template prev [] = []"
| "replace_from r template prev (x # xs) =
     (case first_at r prev (x # xs) of
        Some st \<Rightarrow>
          if length (ahead st) \<le> length xs
          then expand template (groups st) @ replace_from r template (behind st) (ahead st)
          else x @ replace_from r template (Some x) xs
      | None \<Rightarrow> x @ replace_from r template (Some x) xs)"
  by pat_completeness auto
termination
  by (relation "measure (\<lambda>(r, t, p, xs). length xs)") auto

declare replace_from.simps [simp del]

definition ReplaceAllString :: "re \<Rightarrow> piece list \<Rightarrow> string \<Rightarrow> string" where
  "ReplaceAllString r template s = replace_from r template None (runes_of s)"

subsection \<open>Building expressions\<close>

definition byte_cls :: "(char \<Rightarrow> bool) \<Rightarrow> string \<Rightarrow> bool" where
  "byte_cls p r \<longleftrightarrow> (case r of [c] \<Rightarrow> byte c < 128 \<and> p c | _ \<Rightarrow> False)"

text \<open>A class of ASCII characters, its complement among all runes, and a literal.\<close>

definition One :: "(char \<Rightarrow> bool) \<Rightarrow> re" where "One p = Cls (byte_cls p)"
definition NotOne :: "(char \<Rightarrow> bool) \<Rightarrow> re" where "NotOne p = Cls (\<lambda>r. \<not> byte_cls p r)"
definition Lit :: "string \<Rightarrow> re" where "Lit s = foldr (\<lambda>c r. Cat (One (\<lambda>d. d = c)) r) s Eps"

text \<open>
  The same under \<open>(?i)\<close>: two more runes fold to ASCII letters, the long s and the Kelvin sign.
\<close>

definition lower :: "char \<Rightarrow> char" where
  "lower c = (if 65 \<le> byte c \<and> byte c \<le> 90 then char_of (byte c + 32) else c)"

definition fold_rune :: "string \<Rightarrow> string" where
  "fold_rune r =
     (if r = [CHR 0xC5, CHR 0xBF] then ''s'' else if r = [CHR 0xE2, CHR 0x84, CHR 0xAA] then ''k''
      else case r of [c] \<Rightarrow> [lower c] | _ \<Rightarrow> r)"

definition OneFold :: "(char \<Rightarrow> bool) \<Rightarrow> re" where "OneFold p = Cls (\<lambda>r. byte_cls p (fold_rune r))"
definition LitFold :: "string \<Rightarrow> re" where
  "LitFold s = foldr (\<lambda>c r. Cat (OneFold (\<lambda>d. d = lower c)) r) s Eps"

definition Plus :: "re \<Rightarrow> re" where "Plus r = Cat r (Star r)"
definition Opt :: "re \<Rightarrow> re" where "Opt r = Alt r Eps"
definition Cats :: "re list \<Rightarrow> re" where "Cats rs = foldr Cat rs Eps"
definition Alts :: "re list \<Rightarrow> re" where "Alts rs = foldr Alt (butlast rs) (last rs)"

fun up_to :: "nat \<Rightarrow> re \<Rightarrow> re" where
  "up_to 0 r = Eps"
| "up_to (Suc n) r = Alt (Cat r (up_to n r)) Eps"

fun times :: "nat \<Rightarrow> re \<Rightarrow> re" where
  "times 0 r = Eps"
| "times (Suc n) r = Cat r (times n r)"

text \<open>\<open>\s\<close>, letters, digits, and membership in a list.\<close>

definition space :: "char \<Rightarrow> bool" where
  "space c \<longleftrightarrow> c \<in> {CHR 0x09, CHR 0x0A, CHR 0x0C, CHR 0x0D, CHR 0x20}"

definition letter :: "char \<Rightarrow> bool" where
  "letter c \<longleftrightarrow> 65 \<le> byte c \<and> byte c \<le> 90 \<or> 97 \<le> byte c \<and> byte c \<le> 122"

definition capital :: "char \<Rightarrow> bool" where
  "capital c \<longleftrightarrow> 65 \<le> byte c \<and> byte c \<le> 90"

end
