(* ===== verification/RegexpFacts.thy ===== *)
theory RegexpFacts
  imports GoRegexp JsonMarshal "HOL-Library.Sublist"
begin

text \<open>
  What the properties use of regular expressions: a replacement takes nothing from outside the
  text (\<open>ReplaceAll_keeps\<close>), and removes every text that the expression is sure to match
  (\<open>ReplaceAll_removes\<close>). \<open>can\<close> says that an expression can match some runes first.
\<close>

subsection \<open>Runes\<close>

definition proper :: "string \<Rightarrow> bool" where
  "proper r \<longleftrightarrow> r \<noteq> [] \<and> (length r = 1 \<or> list_all (\<lambda>c. 128 \<le> byte c) r)"

lemma rune_bytes:
  assumes "rune_len (c # s) \<noteq> 0"
  shows "rune_len (c # s) \<le> length (c # s)" "proper (take (rune_len (c # s)) (c # s))"
proof -
  have "rune_len (c # s) \<le> length (c # s) \<and> proper (take (rune_len (c # s)) (c # s))"
  proof (cases "byte c < 128")
    case True
    then show ?thesis by (simp add: rune_len_ascii proper_def)
  next
    case False
    then have "128 \<le> byte c" by simp
    with assms show ?thesis
      by (cases rule: rune_cases) (auto simp: proper_def cont_def)
  qed
  then show "rune_len (c # s) \<le> length (c # s)" "proper (take (rune_len (c # s)) (c # s))" by simp_all
qed

lemma concat_runes: "concat (runes_of s) = s"
proof (induction s rule: runes_of.induct)
  case (2 c s)
  show ?case
  proof (cases "rune_len (c # s) = 0")
    case False
    then obtain k where k: "rune_len (c # s) = Suc k" by (cases "rune_len (c # s)") auto
    then show ?thesis using 2(2) [OF refl False] by (simp add: runes_of.simps(2))
  qed (use 2(1) in \<open>simp add: runes_of.simps(2)\<close>)
qed (simp add: runes_of.simps)

lemma proper_runes: "list_all proper (runes_of s)"
proof (induction s rule: runes_of.induct)
  case (2 c s)
  show ?case
  proof (cases "rune_len (c # s) = 0")
    case False
    then show ?thesis using 2(2) [OF refl False] rune_bytes(2) [OF False] by (simp add: runes_of.simps(2) Let_def)
  qed (use 2(1) in \<open>simp add: runes_of.simps(2) proper_def\<close>)
qed (simp add: runes_of.simps)

lemma proper_ascii:
  assumes "proper r" "last r = c" "byte c < 128"
  shows "r = [c]"
proof (cases "length r = 1")
  case True
  then show ?thesis using assms(2) by (cases r) auto
next
  case False
  then have "128 \<le> byte (last r)" using assms(1) by (auto simp: proper_def list_all_iff)
  then show ?thesis using assms(2,3) by simp
qed

abbreviation singles :: "string \<Rightarrow> string list" where "singles \<equiv> map (\<lambda>c. [c])"

text \<open>ASCII text at the front is one rune per byte.\<close>

lemma singles_front:
  assumes "list_all (\<lambda>c. byte c < 128) w" "list_all proper xs" "prefix w (concat xs)"
  shows "\<exists>ys. xs = singles w @ ys"
  using assms
proof (induction w arbitrary: xs)
  case (Cons c w)
  obtain x ys where xs: "xs = x # ys" "proper x" using Cons.prems(2,3) by (cases xs) auto
  then have "hd x = c" using Cons.prems(3) by (cases x) (auto simp: proper_def)
  then have x: "x = [c]" using xs(2) Cons.prems(1) by (cases x; cases "tl x") (auto simp: proper_def)
  then show ?case using Cons xs by auto
qed simp

subsection \<open>Matches\<close>

text \<open>The state after some runes, and the runes a match takes.\<close>

definition prev_of :: "string option \<Rightarrow> string list \<Rightarrow> string option" where
  "prev_of b ws = (if ws = [] then b else Some (last ws))"

lemma prev_of_simps [simp]:
  "prev_of b [] = b" "prev_of b (w # ws) = prev_of (Some w) ws" "prev_of (prev_of b us) ws = prev_of b (us @ ws)"
  by (simp_all add: prev_of_def)

definition takes :: "mstate \<Rightarrow> mstate \<Rightarrow> bool" where
  "takes st st' \<longleftrightarrow> (\<exists>ws. ahead st = ws @ ahead st' \<and> behind st' = prev_of (behind st) ws)"

lemma takes_refl: "takes st st"
  by (auto simp: takes_def)

lemma takes_trans: "takes a b \<Longrightarrow> takes b c \<Longrightarrow> takes a c"
  unfolding takes_def by (metis append.assoc prev_of_simps(3))

lemma greedy_takes:
  assumes "\<And>st st'. st' \<in> set (f st) \<Longrightarrow> takes st st'" "st' \<in> set (greedy f n st)"
  shows "takes st st'"
  using assms(2)
proof (induction n arbitrary: st)
  case (Suc n)
  then show ?case by (auto split: if_splits intro: takes_refl takes_trans [OF assms(1)])
qed (simp add: takes_refl)

lemma takes_one: "ahead st = x # xs \<Longrightarrow> takes st (st\<lparr>behind := Some x, ahead := xs\<rparr>)"
  by (auto simp: takes_def intro!: exI [of _ "[x]"])

lemma takes_groups: "takes st (st'\<lparr>groups := gs\<rparr>) \<longleftrightarrow> takes st st'"
  by (simp add: takes_def)

lemma matches_takes: "st' \<in> set (matches r st) \<Longrightarrow> takes st st'"
proof (induction r arbitrary: st st')
  case (Cls p)
  then show ?case by (auto intro: takes_one split: list.splits if_splits)
next
  case (Cat a b)
  then obtain st1 where "st1 \<in> set (matches a st)" "st' \<in> set (matches b st1)" by auto
  then show ?case by (rule takes_trans [OF Cat.IH(1) Cat.IH(2)])
next
  case (Star r)
  then show ?case using greedy_takes [of "matches r"] by simp
next
  case (Grp n r)
  then show ?case by (auto simp: takes_groups)
next
  case (Alt a b)
  then show ?case by auto
qed (simp_all add: takes_refl Let_def split: if_splits)

text \<open>The least number of runes, and the groups an expression can set.\<close>

primrec least :: "re \<Rightarrow> nat" where
  "least Eps = 0"
| "least (Cls p) = 1"
| "least (Cat a b) = least a + least b"
| "least (Alt a b) = min (least a) (least b)"
| "least (Star a) = 0"
| "least (Grp n a) = least a"
| "least TextBegin = 0"
| "least WordBoundary = 0"

lemma takes_length: "takes st st' \<Longrightarrow> length (ahead st') \<le> length (ahead st)"
  by (auto simp: takes_def)

lemma matches_least: "st' \<in> set (matches r st) \<Longrightarrow> length (ahead st') + least r \<le> length (ahead st)"
proof (induction r arbitrary: st st')
  case (Cls p)
  then show ?case by (cases "ahead st") (auto split: if_splits)
next
  case (Cat a b)
  then obtain st1 where "st1 \<in> set (matches a st)" "st' \<in> set (matches b st1)" by auto
  from Cat.IH(1) [OF this(1)] Cat.IH(2) [OF this(2)] show ?case by simp
next
  case (Star r)
  then have "takes st st'" by (intro matches_takes [of _ "Star r"]) simp
  then show ?case by (simp add: takes_length)
next
  case (Alt a b)
  then show ?case by fastforce
qed (auto split: list.splits if_splits simp: Let_def)

primrec sets_group :: "nat \<Rightarrow> re \<Rightarrow> bool" where
  "sets_group n Eps \<longleftrightarrow> False"
| "sets_group n (Cls p) \<longleftrightarrow> False"
| "sets_group n (Cat a b) \<longleftrightarrow> sets_group n a \<or> sets_group n b"
| "sets_group n (Alt a b) \<longleftrightarrow> sets_group n a \<or> sets_group n b"
| "sets_group n (Star a) \<longleftrightarrow> sets_group n a"
| "sets_group n (Grp k a) \<longleftrightarrow> n = k \<or> sets_group n a"
| "sets_group n TextBegin \<longleftrightarrow> False"
| "sets_group n WordBoundary \<longleftrightarrow> False"

lemma greedy_groups:
  assumes "\<And>st st'. st' \<in> set (f st) \<Longrightarrow> map_of (groups st') n = map_of (groups st) n" "st' \<in> set (greedy f k st)"
  shows "map_of (groups st') n = map_of (groups st) n"
  using assms(2)
proof (induction k arbitrary: st)
  case (Suc k)
  then show ?case by (auto split: if_splits) (metis assms(1))
qed simp

lemma matches_groups:
  "st' \<in> set (matches r st) \<Longrightarrow> \<not> sets_group n r \<Longrightarrow> map_of (groups st') n = map_of (groups st) n"
proof (induction r arbitrary: st st')
  case (Cls p)
  then show ?case by (auto split: list.splits if_splits)
next
  case (Cat a b)
  then obtain st1 where st1: "st1 \<in> set (matches a st)" "st' \<in> set (matches b st1)" by auto
  have "map_of (groups st') n = map_of (groups st1) n" using Cat.IH(2) [OF st1(2)] Cat.prems(2) by simp
  also have "\<dots> = map_of (groups st) n" using Cat.IH(1) [OF st1(1)] Cat.prems(2) by simp
  finally show ?case .
next
  case (Alt a b)
  then have "st' \<in> set (matches a st) \<or> st' \<in> set (matches b st)" "\<not> sets_group n a" "\<not> sets_group n b" by simp_all
  then show ?case using Alt.IH by blast
next
  case (Star r)
  have "\<not> sets_group n r" "st' \<in> set (greedy (matches r) (length (ahead st)) st)" using Star.prems by simp_all
  then show ?case using Star.IH greedy_groups [of "matches r" n st' "length (ahead st)" st] by blast
next
  case (Grp k r)
  then obtain st1 where "st1 \<in> set (matches r st)" "map_of (groups st') n = map_of (groups st1) n" by auto
  then show ?case using Grp.IH [of st1 st] Grp.prems(2) by simp
qed (simp_all add: Let_def split: if_splits)

subsection \<open>Replacements\<close>

text \<open>
  A replacement is marked: some of the matched text from its start, of which \<open>keeps\<close> holds,
  and a mark in brackets.
  A text is traceless if no part of a mark can be a part of it.
\<close>

definition mark_word :: "string \<Rightarrow> bool" where
  "mark_word = list_all (\<lambda>c. capital c \<or> c = CHR ''_'')"

definition marked :: "re \<Rightarrow> piece list \<Rightarrow> (string \<Rightarrow> bool) \<Rightarrow> bool" where
  "marked r template keeps \<longleftrightarrow> 0 < least r \<and>
     (\<forall>prev xs st. list_all proper xs \<longrightarrow> st \<in> set (matches r \<lparr>behind = prev, ahead = xs, groups = []\<rparr>) \<longrightarrow>
        (\<exists>p lead mid tail. expand template (groups st) = p @ lead @ CHR ''['' # mid @ CHR '']'' # tail \<and>
           prefix p (concat xs) \<and> keeps p \<and> set lead \<subseteq> set (dquote # ''=: '') \<and> set tail \<subseteq> set (dquote # ''@'') \<and> mark_word mid))"

definition traceless :: "string \<Rightarrow> bool" where
  "traceless w \<longleftrightarrow> w \<noteq> [] \<and> CHR ''['' \<notin> set w \<and> CHR '']'' \<notin> set w \<and> \<not> mark_word w \<and>
     hd w \<notin> set (dquote # ''@'') \<and> last w \<notin> set (dquote # ''=: '')"

lemma sublist_around: "sublist w (u @ c # v) \<Longrightarrow> c \<notin> set w \<Longrightarrow> sublist w u \<or> sublist w v"
  by (auto simp: sublist_append sublist_Cons_right prefix_Cons)

lemma sublist_left:
  assumes "sublist w (u @ v)" "w \<noteq> []" "last w \<notin> set v"
  shows "sublist w u"
proof -
  consider "sublist w u" | "sublist w v" | x y where "w = x @ y" "suffix x u" "prefix y v"
    using assms(1) by (auto simp: sublist_append)
  then show ?thesis
  proof cases
    case 2
    then show ?thesis using assms(2,3) by (meson last_in_set set_mono_sublist subsetD)
  next
    case 3
    then show ?thesis using assms(3) by (cases "y = []") (auto dest: set_mono_prefix last_in_set)
  qed
qed

lemma sublist_right:
  assumes "sublist w (u @ v)" "w \<noteq> []" "hd w \<notin> set u"
  shows "sublist w v"
proof -
  have "sublist (rev w) (rev v @ rev u)" using assms(1) by (simp flip: rev_append)
  then have "sublist (rev w) (rev v)" by (rule sublist_left) (use assms(2,3) in \<open>simp_all add: last_rev\<close>)
  then show ?thesis by simp
qed

lemma sublist_mark:
  assumes "sublist w (a @ lead @ CHR ''['' # mid @ CHR '']'' # tail @ rest)" "traceless w"
    and "set lead \<subseteq> set (dquote # ''=: '')" "set tail \<subseteq> set (dquote # ''@'')" "mark_word mid"
  shows "sublist w a \<or> sublist w rest"
proof -
  have w: "w \<noteq> []" "CHR ''['' \<notin> set w" "CHR '']'' \<notin> set w" "\<not> mark_word w" "hd w \<notin> set tail" "last w \<notin> set lead"
    using assms(2-4) by (auto simp: traceless_def)
  consider "sublist w (a @ lead)" | "sublist w mid" | "sublist w (tail @ rest)"
    using sublist_around [of w "a @ lead" "CHR ''[''" "mid @ CHR '']'' # tail @ rest"]
      sublist_around [of w mid "CHR '']''" "tail @ rest"] assms(1) w(2,3) by auto
  then show ?thesis
  proof cases
    case 1
    then show ?thesis using sublist_left w(1,6) by blast
  next
    case 2
    then have "mark_word w" using assms(5) set_mono_sublist by (fastforce simp: mark_word_def list_all_iff)
    then show ?thesis using w(4) by simp
  next
    case 3
    then show ?thesis using sublist_right w(1,5) by blast
  qed
qed

lemma first_atD:
  assumes "first_at r prev xs = Some st" "0 < least r"
  shows "st \<in> set (matches r \<lparr>behind = prev, ahead = xs, groups = []\<rparr>)" "length (ahead st) < length xs"
    "\<exists>ws. xs = ws @ ahead st \<and> behind st = prev_of prev ws \<and> ws \<noteq> []"
proof -
  let ?st = "\<lparr>behind = prev, ahead = xs, groups = []\<rparr>"
  show m: "st \<in> set (matches r ?st)" using assms(1) by (auto simp: first_at_def split: list.splits)
  show l: "length (ahead st) < length xs" using matches_least [OF m] assms(2) by simp
  obtain ws where ws: "xs = ws @ ahead st" "behind st = prev_of prev ws"
    using matches_takes [OF m] by (auto simp: takes_def)
  then have "ws \<noteq> []" using l by (metis append_Nil less_irrefl)
  with ws show "\<exists>ws. xs = ws @ ahead st \<and> behind st = prev_of prev ws \<and> ws \<noteq> []" by blast
qed

lemma first_at_None: "first_at r prev xs = None \<longleftrightarrow> matches r \<lparr>behind = prev, ahead = xs, groups = []\<rparr> = []"
  by (simp add: first_at_def split: list.split)

lemma replace_cases:
  assumes "0 < least r"
  shows "replace_from r template prev (x # xs) =
     (case first_at r prev (x # xs) of
        Some st \<Rightarrow> expand template (groups st) @ replace_from r template (behind st) (ahead st)
      | None \<Rightarrow> x @ replace_from r template (Some x) xs)"
proof (cases "first_at r prev (x # xs)")
  case (Some st)
  then show ?thesis using first_atD(2) [OF Some assms] by (simp add: replace_from.simps)
qed (simp add: replace_from.simps)

lemma markedD:
  assumes "marked r template keeps" "first_at r prev xs = Some st" "list_all proper xs"
  obtains p lead mid tail where "expand template (groups st) = p @ lead @ CHR ''['' # mid @ CHR '']'' # tail"
    "prefix p (concat xs)" "keeps p" "set lead \<subseteq> set (dquote # ''=: '')" "set tail \<subseteq> set (dquote # ''@'')" "mark_word mid"
proof -
  have "st \<in> set (matches r \<lparr>behind = prev, ahead = xs, groups = []\<rparr>)"
    using assms by (intro first_atD(1)) (simp_all add: marked_def)
  then show ?thesis using assms(1,3) that unfolding marked_def by blast
qed

lemma replace_keeps:
  assumes "marked r template keeps" "traceless w"
  shows "list_all proper xs \<Longrightarrow> sublist w (pre @ replace_from r template prev xs) \<Longrightarrow> sublist w (pre @ concat xs)"
proof (induction "length xs" arbitrary: pre prev xs rule: less_induct)
  case less
  have least: "0 < least r" using assms(1) by (simp add: marked_def)
  show ?case
  proof (cases xs)
    case Nil
    then show ?thesis using less.prems by (simp add: replace_from.simps)
  next
    case (Cons x xs')
    show ?thesis
    proof (cases "first_at r prev xs")
      case None
      then have "sublist w ((pre @ x) @ replace_from r template (Some x) xs')"
        using less.prems by (simp add: Cons replace_cases [OF least])
      from less.hyps [OF _ _ this] less.prems(1) show ?thesis by (simp add: Cons)
    next
      case (Some st)
      obtain p lead mid tail where e: "expand template (groups st) = p @ lead @ CHR ''['' # mid @ CHR '']'' # tail"
        and p: "prefix p (concat xs)" and m: "set lead \<subseteq> set (dquote # ''=: '')" "set tail \<subseteq> set (dquote # ''@'')" "mark_word mid"
        using assms(1) Some less.prems(1) by (rule markedD)
      note st = first_atD(2,3) [OF Some least]
      have "sublist w ((pre @ p) @ lead @ CHR ''['' # mid @ CHR '']'' # tail @ replace_from r template (behind st) (ahead st))"
        using less.prems Some by (simp add: Cons replace_cases [OF least] e)
      from sublist_mark [OF this assms(2) m] show ?thesis
      proof
        assume "sublist w (pre @ p)"
        then show ?thesis using p by (auto simp: prefix_def intro: sublist_order.order_trans)
      next
        assume "sublist w (replace_from r template (behind st) (ahead st))"
        moreover obtain ws where xs: "xs = ws @ ahead st" using st(2) by blast
        ultimately have "sublist w (concat (ahead st))"
          using less.hyps [OF st(1), of "[]" "behind st"] less.prems(1) by simp
        moreover from xs have "sublist (concat (ahead st)) (pre @ concat xs)"
          by (metis append.assoc concat_append sublist_append_leftI)
        ultimately show ?thesis by (rule sublist_order.order_trans)
      qed
    qed
  qed
qed

lemma ReplaceAll_keeps:
  "marked r template keeps \<Longrightarrow> traceless w \<Longrightarrow> sublist w (pre @ ReplaceAllString r template s) \<Longrightarrow> sublist w (pre @ s)"
  using replace_keeps [of r template keeps w "runes_of s" pre None]
  by (simp add: ReplaceAllString_def concat_runes proper_runes)

text \<open>
  A text \<open>v\<close> behind \<open>ctx\<close> is removed if the expression matches wherever it starts. \<open>link\<close> ties
  the text already written to the rune before the position.
\<close>

definition link :: "string \<Rightarrow> string option \<Rightarrow> bool" where
  "link t prev \<longleftrightarrow> t = [] \<or> prev = None \<or> (\<exists>r. prev = Some r \<and> proper r \<and> last r = last t)"

definition unstarted :: "string \<Rightarrow> string \<Rightarrow> string \<Rightarrow> string \<Rightarrow> bool" where
  "unstarted ctx v pre s \<longleftrightarrow> (\<forall>a b. pre @ s = a @ ctx @ v @ b \<longrightarrow> length pre \<le> length (a @ ctx))"

lemma proper_inner: "proper x \<Longrightarrow> 0 < j \<Longrightarrow> j < length x \<Longrightarrow> 128 \<le> byte (x ! j)"
  by (auto simp: proper_def list_all_length)

lemma split_behind: "t @ s = u @ r \<Longrightarrow> length t \<le> length u \<Longrightarrow> \<exists>q. u = t @ q \<and> s = q @ r"
  by (auto simp: append_eq_append_conv2)

lemma unstarted_step:
  assumes "unstarted ctx v pre (x @ s)" "proper x" "v \<noteq> []" "byte (hd v) < 128"
    and here: "\<not> (\<exists>a. pre = a @ ctx \<and> prefix v (x @ s))"
  shows "unstarted ctx v (pre @ x) s"
  unfolding unstarted_def
proof (intro allI impI, rule ccontr)
  fix a b
  assume eq: "(pre @ x) @ s = a @ ctx @ v @ b" and short: "\<not> length (pre @ x) \<le> length (a @ ctx)"
  have le: "length pre \<le> length (a @ ctx)" using assms(1) eq by (simp add: unstarted_def)
  then obtain q where q: "a @ ctx = pre @ q" "x @ s = q @ v @ b"
    using split_behind [of pre "x @ s" "a @ ctx" "v @ b"] eq by auto
  show False
  proof (cases "q = []")
    case True
    then show False using q here by (auto simp: prefix_def)
  next
    case False
    moreover have "length q < length x" using short q(1) by (metis length_append nat_add_left_cancel_less not_le)
    ultimately have "128 \<le> byte (x ! length q)" using proper_inner [OF assms(2)] by simp
    moreover have "x ! length q = hd v"
      using arg_cong [OF q(2), of "\<lambda>l. l ! length q"] \<open>length q < length x\<close> assms(3)
      by (simp add: nth_append hd_conv_nth)
    ultimately show False using assms(4) by simp
  qed
qed

lemma replace_removes:
  assumes marked: "marked r template keeps" "traceless (ctx @ v)" "\<And>p. keeps p \<Longrightarrow> \<not> sublist v p"
    and v: "v \<noteq> []" "byte (hd v) < 128"
    and here: "\<And>prev xs. list_all proper xs \<Longrightarrow> prefix v (concat xs) \<Longrightarrow> link ctx prev \<Longrightarrow>
      matches r \<lparr>behind = prev, ahead = xs, groups = []\<rparr> \<noteq> []"
  shows "list_all proper xs \<Longrightarrow> unstarted ctx v pre (concat xs) \<Longrightarrow> link pre prev \<Longrightarrow>
    \<not> sublist (ctx @ v) (pre @ replace_from r template prev xs)"
proof (induction "length xs" arbitrary: pre prev xs rule: less_induct)
  case less
  have least: "0 < least r" using marked(1) by (simp add: marked_def)
  have inside: False
    if w: "sublist (ctx @ v) (pre @ p)" and pp: "prefix p (concat xs)" and nv: "\<not> sublist v p" for p
  proof -
    obtain a b where e: "pre @ p = a @ ctx @ v @ b"
      using w unfolding sublist_def append.assoc by blast
    obtain u where "concat xs = p @ u" using pp by (auto simp: prefix_def)
    then have "pre @ concat xs = a @ ctx @ v @ b @ u" using e by (metis append.assoc)
    then have "length pre \<le> length (a @ ctx)" using less.prems(2) by (simp add: unstarted_def)
    then obtain q where "p = q @ v @ b" using split_behind [of pre p "a @ ctx" "v @ b"] e by auto
    then show False using nv by (auto simp: sublist_def)
  qed
  show ?case
  proof (cases xs)
    case Nil
    then show ?thesis using inside [of "[]"] v(1) by (auto simp: replace_from.simps)
  next
    case (Cons x xs')
    show ?thesis
    proof (cases "first_at r prev xs")
      case None
      have "\<not> (\<exists>a. pre = a @ ctx \<and> prefix v (x @ concat xs'))"
      proof
        assume "\<exists>a. pre = a @ ctx \<and> prefix v (x @ concat xs')"
        then have "link ctx prev" "prefix v (concat xs)" using less.prems(3) by (auto simp: link_def Cons)
        from here [OF less.prems(1) this(2,1)] None show False by (auto simp: first_at_def split: list.splits)
      qed
      then have "unstarted ctx v (pre @ x) (concat xs')"
        using less.prems(1,2) by (intro unstarted_step v) (simp_all add: Cons)
      moreover have "link (pre @ x) (Some x)" using less.prems(1) by (simp add: Cons link_def proper_def)
      ultimately have "\<not> sublist (ctx @ v) ((pre @ x) @ replace_from r template (Some x) xs')"
        using less.prems(1) by (intro less.hyps) (simp_all add: Cons)
      then show ?thesis using None by (simp add: Cons replace_cases [OF least])
    next
      case (Some st)
      obtain p lead mid tail where e: "expand template (groups st) = p @ lead @ CHR ''['' # mid @ CHR '']'' # tail"
        and p: "prefix p (concat xs)" "keeps p"
        and m: "set lead \<subseteq> set (dquote # ''=: '')" "set tail \<subseteq> set (dquote # ''@'')" "mark_word mid"
        using marked(1) Some less.prems(1) by (rule markedD)
      note st = first_atD(2,3) [OF Some least]
      have "list_all proper (ahead st)" using st(2) less.prems(1) by auto
      then have "\<not> sublist (ctx @ v) ([] @ replace_from r template (behind st) (ahead st))"
        by (intro less.hyps st(1)) (simp_all add: unstarted_def link_def)
      moreover have "\<not> sublist (ctx @ v) (pre @ p)" using inside p(1) marked(3) [OF p(2)] by blast
      ultimately have "\<not> sublist (ctx @ v)
          ((pre @ p) @ lead @ CHR ''['' # mid @ CHR '']'' # tail @ replace_from r template (behind st) (ahead st))"
        using sublist_mark [of "ctx @ v" "pre @ p" lead mid tail "replace_from r template (behind st) (ahead st)",
            OF _ marked(2) m] by (auto simp only: append_Nil)
      then show ?thesis using Some by (simp add: Cons replace_cases [OF least] e)
    qed
  qed
qed

lemma ReplaceAll_removes:
  assumes "marked r template keeps" "traceless (ctx @ v)" "\<And>p. keeps p \<Longrightarrow> \<not> sublist v p"
    and "v \<noteq> []" "byte (hd v) < 128" "ctx \<noteq> [] \<or> hd v \<noteq> c \<or> \<not> prefix (tl v) s"
    and "\<And>prev xs. list_all proper xs \<Longrightarrow> prefix v (concat xs) \<Longrightarrow> link ctx prev \<Longrightarrow>
      matches r \<lparr>behind = prev, ahead = xs, groups = []\<rparr> \<noteq> []"
  shows "\<not> sublist (ctx @ v) (c # ReplaceAllString r template s)"
proof -
  have "unstarted ctx v [c] (concat (runes_of s))"
    using assms(4,6) by (cases ctx; cases v) (auto simp: unstarted_def Cons_eq_append_conv concat_runes)
  then show ?thesis
    using replace_removes [OF assms(1-5,7) proper_runes, of "[c]" s None]
    by (simp add: ReplaceAllString_def link_def)
qed

end
