(* ===== verification/RegexpMatches.thy ===== *)
theory RegexpMatches
  imports RegexpFacts
begin

text \<open>
  That an expression can match: \<open>can r b ws xs\<close> says that behind \<open>b\<close> one of the matches of
  \<open>r\<close> takes exactly \<open>ws\<close> of \<open>ws @ xs\<close>. And what a match cannot take.
\<close>

definition can :: "re \<Rightarrow> string option \<Rightarrow> string list \<Rightarrow> string list \<Rightarrow> bool" where
  "can r b ws xs \<longleftrightarrow>
     (\<forall>gs. \<exists>st' \<in> set (matches r \<lparr>behind = b, ahead = ws @ xs, groups = gs\<rparr>). ahead st' = xs)"

lemma can_nonempty: "can r b ws xs \<Longrightarrow> matches r \<lparr>behind = b, ahead = ws @ xs, groups = []\<rparr> \<noteq> []"
  by (metis can_def empty_iff empty_set)

lemma canE:
  assumes "can r b ws xs"
  obtains gs' where "\<lparr>behind = prev_of b ws, ahead = xs, groups = gs'\<rparr> \<in> set (matches r \<lparr>behind = b, ahead = ws @ xs, groups = gs\<rparr>)"
proof -
  obtain st' where st': "st' \<in> set (matches r \<lparr>behind = b, ahead = ws @ xs, groups = gs\<rparr>)" "ahead st' = xs"
    using assms unfolding can_def by blast
  then have "behind st' = prev_of b ws" using matches_takes [OF st'(1)] by (auto simp: takes_def)
  then have "st' = \<lparr>behind = prev_of b ws, ahead = xs, groups = groups st'\<rparr>" using st'(2) by simp
  then show ?thesis using st'(1) that by metis
qed

lemma can_Eps: "can Eps b [] xs"
  by (simp add: can_def)

lemma can_Cls: "p w \<Longrightarrow> can (Cls p) b [w] xs"
  by (simp add: can_def)

lemma can_Cat:
  assumes "can r b ws (us @ xs)" "can q (prev_of b ws) us xs"
  shows "can (Cat r q) b (ws @ us) xs"
  unfolding can_def
proof
  fix gs
  obtain gs' where "\<lparr>behind = prev_of b ws, ahead = us @ xs, groups = gs'\<rparr>
      \<in> set (matches r \<lparr>behind = b, ahead = ws @ us @ xs, groups = gs\<rparr>)" using assms(1) by (rule canE)
  moreover obtain st' where "st' \<in> set (matches q \<lparr>behind = prev_of b ws, ahead = us @ xs, groups = gs'\<rparr>)" "ahead st' = xs"
    using assms(2) unfolding can_def by blast
  ultimately show "\<exists>st' \<in> set (matches (Cat r q) \<lparr>behind = b, ahead = (ws @ us) @ xs, groups = gs\<rparr>). ahead st' = xs"
    by auto
qed

lemma can_Alt: "can r b ws xs \<or> can q b ws xs \<Longrightarrow> can (Alt r q) b ws xs"
  unfolding can_def matches.simps set_append by blast

lemma can_Alts: "r \<in> set rs \<Longrightarrow> can r b ws xs \<Longrightarrow> can (Alts rs) b ws xs"
proof (induction rs rule: rev_induct)
  case (snoc q rs)
  have last: "can (foldr Alt rs q) b ws xs" if "can q b ws xs" using that by (induction rs) (auto intro: can_Alt)
  have early: "can (foldr Alt rs q) b ws xs" if "r \<in> set rs" using that snoc.prems(2) by (induction rs) (auto intro: can_Alt)
  show ?case using snoc.prems last early by (auto simp: Alts_def)
qed simp

lemma can_Grp: "can r b ws xs \<Longrightarrow> can (Grp n r) b ws xs"
  by (fastforce simp: can_def)

lemma greedy_stop: "st \<in> set (greedy f n st)"
  by (cases n) simp_all

lemma can_Star_none: "can (Star r) b [] xs"
  by (auto simp: can_def intro!: bexI [OF _ greedy_stop])

lemma greedy_Cls:
  assumes "list_all p ws" "length ws \<le> n"
  shows "\<exists>st' \<in> set (greedy (matches (Cls p)) n \<lparr>behind = b, ahead = ws @ xs, groups = gs\<rparr>). ahead st' = xs"
  using assms
proof (induction ws arbitrary: b n)
  case (Cons w ws)
  then obtain k where n: "n = Suc k" by (cases n) auto
  from Cons.IH [of k "Some w"] Cons.prems show ?case by (auto simp: n)
qed (auto intro!: bexI [OF _ greedy_stop])

lemma can_Star: "list_all p ws \<Longrightarrow> can (Star (Cls p)) b ws xs"
  using greedy_Cls [of p ws "length (ws @ xs)"] by (simp add: can_def)

lemma can_Plus: "ws \<noteq> [] \<Longrightarrow> list_all p ws \<Longrightarrow> can (Plus (Cls p)) b ws xs"
  using can_Cat [OF can_Cls can_Star, of p "hd ws" p "tl ws" b xs] by (cases ws) (simp_all add: Plus_def)

lemma can_Plus_once: "can r b ws xs \<Longrightarrow> can (Plus r) b ws xs"
  using can_Cat [OF _ can_Star_none, of r b ws xs] by (simp add: Plus_def)

lemma can_Cats_Nil: "can (Cats []) b [] xs"
  by (simp add: Cats_def can_Eps)

lemma can_Cats_Cons:
  "can r b ws (us @ xs) \<Longrightarrow> can (Cats rs) (prev_of b ws) us xs \<Longrightarrow> can (Cats (r # rs)) b (ws @ us) xs"
  using can_Cat [of r b ws us xs "Cats rs"] by (simp add: Cats_def)

text \<open>ASCII text against classes and literals.\<close>

lemma byte_cls_single [simp]: "byte_cls p [c] \<longleftrightarrow> byte c < 128 \<and> p c"
  by (simp add: byte_cls_def)

lemma fold_rune_single [simp]: "fold_rune [c] = [lower c]"
  by (simp add: fold_rune_def)

lemma lower_ascii [simp]: "byte (lower c) < 128 \<longleftrightarrow> byte c < 128"
  by (simp add: lower_def of_char_of take_bit_eq_mod)

lemma can_One: "byte c < 128 \<Longrightarrow> p c \<Longrightarrow> can (One p) b [[c]] xs"
  by (simp add: One_def can_Cls)

lemma can_Star_One: "list_all (\<lambda>c. byte c < 128 \<and> p c) s \<Longrightarrow> can (Star (One p)) b (singles s) xs"
  by (simp add: One_def can_Star list_all_iff)

lemma can_Plus_One: "s \<noteq> [] \<Longrightarrow> list_all (\<lambda>c. byte c < 128 \<and> p c) s \<Longrightarrow> can (Plus (One p)) b (singles s) xs"
  by (simp add: One_def can_Plus list_all_iff)

lemma can_Plus_NotOne: "s \<noteq> [] \<Longrightarrow> list_all (\<lambda>c. \<not> p c) s \<Longrightarrow> can (Plus (NotOne p)) b (singles s) xs"
  by (simp add: NotOne_def can_Plus list_all_iff)

lemma can_Lit: "list_all (\<lambda>c. byte c < 128) s \<Longrightarrow> can (Lit s) b (singles s) xs"
proof (induction s arbitrary: b)
  case (Cons c s)
  then show ?case using can_Cat [of "One (\<lambda>d. d = c)" b "[[c]]" "singles s" xs "Lit s"] by (simp add: Lit_def can_One)
qed (simp add: Lit_def can_Eps)

lemma can_LitFold:
  "list_all (\<lambda>c. byte c < 128) t \<Longrightarrow> map lower t = map lower s \<Longrightarrow> can (LitFold s) b (singles t) xs"
proof (induction t arbitrary: s b)
  case (Cons d t)
  then obtain c s' where s: "s = c # s'" "lower d = lower c" "map lower t = map lower s'" by auto
  have "byte d < 128" using Cons.prems(1) by simp
  then have "byte c < 128" using s(2) lower_ascii by metis
  with s(2) have "byte_cls (\<lambda>d. d = lower c) (fold_rune [d])" by simp
  then have "can (OneFold (\<lambda>d. d = lower c)) b [[d]] (singles t @ xs)"
    unfolding OneFold_def by (rule can_Cls)
  then show ?case using can_Cat [of _ b "[[d]]" "singles t" xs "LitFold s'"] Cons.IH [OF _ s(3)] Cons.prems(1) s(1)
    by (simp add: LitFold_def)
qed (simp add: LitFold_def can_Eps)

lemma can_WordBoundary:
  "(case b of Some r \<Rightarrow> is_word r | None \<Rightarrow> False) \<noteq> (xs \<noteq> [] \<and> is_word (hd xs)) \<Longrightarrow> can WordBoundary b [] xs"
  by (auto simp: can_def Let_def split: option.splits list.splits)

subsection \<open>What a match can take\<close>

text \<open>Every match of the expression takes only runes with the property.\<close>

primrec only :: "(string \<Rightarrow> bool) \<Rightarrow> re \<Rightarrow> bool" where
  "only R Eps \<longleftrightarrow> True"
| "only R (Cls p) \<longleftrightarrow> (\<forall>r. proper r \<and> p r \<longrightarrow> R r)"
| "only R (Cat a b) \<longleftrightarrow> only R a \<and> only R b"
| "only R (Alt a b) \<longleftrightarrow> only R a \<and> only R b"
| "only R (Star a) \<longleftrightarrow> only R a"
| "only R (Grp n a) \<longleftrightarrow> only R a"
| "only R TextBegin \<longleftrightarrow> True"
| "only R WordBoundary \<longleftrightarrow> True"

definition takes_only :: "(string \<Rightarrow> bool) \<Rightarrow> mstate \<Rightarrow> mstate \<Rightarrow> bool" where
  "takes_only R st st' \<longleftrightarrow> (\<exists>ws. ahead st = ws @ ahead st' \<and> list_all R ws)"

lemma takes_only_refl: "takes_only R st st"
  by (auto simp: takes_only_def)

lemma takes_only_trans: "takes_only R a b \<Longrightarrow> takes_only R b c \<Longrightarrow> takes_only R a c"
proof -
  assume "takes_only R a b" "takes_only R b c"
  then obtain u v where "ahead a = u @ ahead b" "ahead b = v @ ahead c" "list_all R u" "list_all R v"
    unfolding takes_only_def by blast
  then have "ahead a = (u @ v) @ ahead c" "list_all R (u @ v)" by simp_all
  then show ?thesis unfolding takes_only_def by blast
qed

lemma takes_onlyD: "takes_only R st st' \<Longrightarrow> ahead st = ws @ ahead st' \<Longrightarrow> list_all R ws"
  by (auto simp: takes_only_def)

lemma proper_has: "proper r \<Longrightarrow> d \<in> set r \<Longrightarrow> byte d < 128 \<Longrightarrow> r = [d]"
  by (cases r; cases "tl r") (auto simp: proper_def list_all_iff)

lemma proper_takes: "takes st st' \<Longrightarrow> list_all proper (ahead st) \<Longrightarrow> list_all proper (ahead st')"
  by (auto simp: takes_def)

lemma greedy_only:
  assumes "\<And>st st'. list_all proper (ahead st) \<Longrightarrow> st' \<in> set (f st) \<Longrightarrow> takes_only R st st' \<and> takes st st'"
    and "list_all proper (ahead st)" "st' \<in> set (greedy f n st)"
  shows "takes_only R st st'"
  using assms(2,3)
proof (induction n arbitrary: st)
  case (Suc n)
  consider "st' = st" | st1 where "st1 \<in> set (f st)" "st' \<in> set (greedy f n st1)"
    using Suc.prems(2) by (auto split: if_splits)
  then show ?case
  proof cases
    case 2
    note one = assms(1) [OF Suc.prems(1) 2(1)]
    then have "takes_only R st1 st'" using Suc.IH 2(2) proper_takes Suc.prems(1) by blast
    then show ?thesis using one takes_only_trans by blast
  qed (simp add: takes_only_refl)
qed (simp add: takes_only_refl)

lemma matches_only:
  "list_all proper (ahead st) \<Longrightarrow> only R r \<Longrightarrow> st' \<in> set (matches r st) \<Longrightarrow> takes_only R st st'"
proof (induction r arbitrary: st st')
  case (Cls p)
  then obtain w ws where w: "ahead st = w # ws" "p w" "st' = st\<lparr>behind := Some w, ahead := ws\<rparr>" "proper w"
    by (cases "ahead st") (auto split: if_splits)
  then have "R w" using Cls.prems(2) by simp
  then show ?case using w by (auto simp: takes_only_def intro!: exI [of _ "[w]"])
next
  case (Cat a b)
  then obtain st1 where st1: "st1 \<in> set (matches a st)" "st' \<in> set (matches b st1)" by auto
  have "list_all proper (ahead st1)" using proper_takes [OF matches_takes [OF st1(1)] Cat.prems(1)] .
  then show ?case using takes_only_trans Cat.IH(1) [OF Cat.prems(1) _ st1(1)] Cat.IH(2) [OF _ _ st1(2)] Cat.prems(2) by simp
next
  case (Alt a b)
  then have "st' \<in> set (matches a st) \<or> st' \<in> set (matches b st)" "only R a" "only R b" by simp_all
  then show ?case using Alt.IH Alt.prems(1) by blast
next
  case (Star r)
  have "only R r" "st' \<in> set (greedy (matches r) (length (ahead st)) st)" using Star.prems by simp_all
  then show ?case using Star.IH matches_takes greedy_only [of "matches r", OF _ Star.prems(1)] by blast
next
  case (Grp k r)
  then obtain st1 where "st1 \<in> set (matches r st)" "ahead st' = ahead st1" by auto
  then show ?case using Grp.IH [of st st1] Grp.prems(1,2) by (simp add: takes_only_def)
qed (simp_all add: Let_def takes_only_refl split: if_splits)

text \<open>The property used most: no rune has the byte.\<close>

definition avoids :: "char \<Rightarrow> re \<Rightarrow> bool" where
  "avoids d r \<longleftrightarrow> only (\<lambda>x. d \<notin> set x) r"

lemma byte_clsD: "byte_cls p r \<Longrightarrow> \<exists>c. r = [c] \<and> byte c < 128 \<and> p c"
  by (auto simp: byte_cls_def split: list.splits)

lemma proper_single [simp]: "proper [c]"
  by (simp add: proper_def)

lemma avoids_class: "byte d < 128 \<Longrightarrow> \<not> p [d] \<Longrightarrow> avoids d (Cls p)"
  using proper_has by (auto simp: avoids_def)

lemma avoids_simps:
  "avoids d Eps" "avoids d TextBegin" "avoids d WordBoundary" "avoids d (Cat a b) \<longleftrightarrow> avoids d a \<and> avoids d b"
  "avoids d (Alt a b) \<longleftrightarrow> avoids d a \<and> avoids d b" "avoids d (Star a) \<longleftrightarrow> avoids d a"
  "avoids d (Grp n a) \<longleftrightarrow> avoids d a" "avoids d (Plus a) \<longleftrightarrow> avoids d a"
  by (simp_all add: avoids_def Plus_def)

lemma avoids_literals:
  "byte d < 128 \<Longrightarrow> \<not> p d \<Longrightarrow> avoids d (One p)"
  "byte d < 128 \<Longrightarrow> d \<notin> set s \<Longrightarrow> avoids d (Lit s)"
  "byte d < 128 \<Longrightarrow> lower d \<notin> lower ` set s \<Longrightarrow> avoids d (LitFold s)"
proof -
  show "byte d < 128 \<Longrightarrow> \<not> p d \<Longrightarrow> avoids d (One p)" for p by (simp add: One_def avoids_class)
  then show "byte d < 128 \<Longrightarrow> d \<notin> set s \<Longrightarrow> avoids d (Lit s)" by (induction s) (auto simp: Lit_def avoids_simps)
  show "byte d < 128 \<Longrightarrow> lower d \<notin> lower ` set s \<Longrightarrow> avoids d (LitFold s)"
    by (induction s) (auto simp: LitFold_def OneFold_def avoids_simps intro!: avoids_class)
qed

lemma avoids_Cats: "avoids d (Cats rs) \<longleftrightarrow> (\<forall>r \<in> set rs. avoids d r)"
  by (induction rs) (simp_all add: Cats_def avoids_simps)

lemma avoids_text:
  assumes "st' \<in> set (matches r st)" "ahead st = ws @ ahead st'" "list_all proper (ahead st)" "avoids d r"
  shows "d \<notin> set (concat ws)"
  using takes_onlyD [OF matches_only [OF assms(3) assms(4) [unfolded avoids_def] assms(1)] assms(2)]
  by (auto simp: list_all_iff)

lemma spaces_text:
  assumes "st' \<in> set (matches (Star (One p)) st)" "ahead st = ws @ ahead st'" "list_all proper (ahead st)"
  shows "list_all p (concat ws)"
proof -
  have "only (list_all p) (Star (One p))" by (auto simp: One_def dest: byte_clsD)
  from takes_onlyD [OF matches_only [OF assms(3) this assms(1)] assms(2)] show ?thesis
    by (auto simp: list_all_iff)
qed

lemma Lit_takes: "st' \<in> set (matches (Lit s) st) \<Longrightarrow> ahead st = singles s @ ahead st'"
proof (induction s arbitrary: st)
  case (Cons c s)
  then obtain st1 where st1: "st1 \<in> set (matches (One (\<lambda>d. d = c)) st)" "st' \<in> set (matches (Lit s) st1)"
    by (auto simp: Lit_def)
  then have "ahead st = [c] # ahead st1" by (auto simp: One_def split: list.splits if_splits dest!: byte_clsD)
  then show ?case using Cons.IH [OF st1(2)] by simp
qed (simp add: Lit_def)

lemma LitFold_append:
  "st' \<in> set (matches (LitFold (s @ t)) st) \<longleftrightarrow> (\<exists>st1 \<in> set (matches (LitFold s) st). st' \<in> set (matches (LitFold t) st1))"
  by (induction s arbitrary: st) (auto simp: LitFold_def)

subsection \<open>What a replacement keeps\<close>

lemma marked_text:
  assumes "0 < least r" "mark_word mid"
  shows "marked r [Text (CHR ''['' # mid @ '']'')] (\<lambda>p. p = [])"
proof -
  have "expand [Text (CHR ''['' # mid @ '']'')] gs = [] @ [] @ CHR ''['' # mid @ CHR '']'' # []" for gs
    by (simp add: expand_def)
  then show ?thesis unfolding marked_def using assms by (metis empty_set empty_subsetI prefix_bot.bot_least)
qed

text \<open>A group that starts the match holds what its expression took.\<close>

lemma Cats_Cons: "matches (Cats (r # rs)) st = concat (map (matches (Cats rs)) (matches r st))"
  by (simp add: Cats_def)

lemma sets_group_Cats: "sets_group n (Cats rs) \<longleftrightarrow> (\<exists>r \<in> set rs. sets_group n r)"
  by (induction rs) (simp_all add: Cats_def)

lemma group_of:
  assumes "st' \<in> set (matches (Cats (Grp n a # rs)) st)" "\<not> sets_group n (Cats rs)"
  obtains ws st1 where "st1 \<in> set (matches a st)" "ahead st = ws @ ahead st1" "map_of (groups st') n = Some (concat ws)"
    "st' \<in> set (matches (Cats rs) (st1\<lparr>groups := (n, concat ws) # groups st1\<rparr>))"
proof -
  obtain st1 where st1: "st1 \<in> set (matches a st)"
      "st' \<in> set (matches (Cats rs) (st1\<lparr>groups := (n, concat (take (length (ahead st) - length (ahead st1)) (ahead st))) # groups st1\<rparr>))"
    using assms(1) unfolding Cats_Cons by auto
  obtain ws where ws: "ahead st = ws @ ahead st1" using matches_takes [OF st1(1)] by (auto simp: takes_def)
  then have "take (length (ahead st) - length (ahead st1)) (ahead st) = ws" by simp
  then have m: "st' \<in> set (matches (Cats rs) (st1\<lparr>groups := (n, concat ws) # groups st1\<rparr>))" using st1(2) by simp
  from matches_groups [OF this assms(2)] have "map_of (groups st') n = Some (concat ws)" by simp
  from that [OF st1(1) ws this m] show ?thesis .
qed

lemma marked_group:
  assumes "0 < least (Cats (Grp 1 a # rs))" "\<not> sets_group 1 (Cats rs)" "mark_word mid"
    and "set lead \<subseteq> set (dquote # ''=: '')" "set tail \<subseteq> set (dquote # ''@'')" "\<And>d. d \<in> D \<Longrightarrow> avoids d a"
  shows "marked (Cats (Grp 1 a # rs)) [Ref 1, Text (lead @ CHR ''['' # mid @ CHR '']'' # tail)] (\<lambda>p. D \<inter> set p = {})"
  unfolding marked_def
proof (intro conjI allI impI)
  fix prev xs st
  assume ok: "list_all proper xs" and m: "st \<in> set (matches (Cats (Grp 1 a # rs)) \<lparr>behind = prev, ahead = xs, groups = []\<rparr>)"
  obtain ws st1 where g: "st1 \<in> set (matches a \<lparr>behind = prev, ahead = xs, groups = []\<rparr>)" "xs = ws @ ahead st1"
      "map_of (groups st) 1 = Some (concat ws)"
    by (rule group_of [OF m assms(2)]) (rule that; simp)
  have "d \<notin> set (concat ws)" if "d \<in> D" for d
    by (rule avoids_text [OF g(1)]) (use ok g(2) assms(6) [OF that] in simp_all)
  then have "D \<inter> set (concat ws) = {}" by blast
  moreover have "expand [Ref 1, Text (lead @ CHR ''['' # mid @ CHR '']'' # tail)] (groups st) =
      concat ws @ lead @ CHR ''['' # mid @ CHR '']'' # tail" using g(3) by (simp add: expand_def)
  moreover have "prefix (concat ws) (concat xs)" using g(2) by simp
  ultimately show "\<exists>p l m t. expand [Ref 1, Text (lead @ CHR ''['' # mid @ CHR '']'' # tail)] (groups st) =
      p @ l @ CHR ''['' # m @ CHR '']'' # t \<and> prefix p (concat xs) \<and> D \<inter> set p = {} \<and>
      set l \<subseteq> set (dquote # ''=: '') \<and> set t \<subseteq> set (dquote # ''@'') \<and> mark_word m"
    using assms(3-5) by blast
qed (rule assms(1))

text \<open>Texts in ASCII that the expression can match are removed.\<close>

lemma removes_ascii:
  assumes "marked r template keeps" "traceless (ctx @ v)" "\<And>p. keeps p \<Longrightarrow> \<not> sublist v p"
    and "v \<noteq> []" "list_all (\<lambda>c. byte c < 128) v"
    "ctx \<noteq> [] \<or> hd v \<noteq> c \<or> \<not> prefix (tl v) s"
    and "\<And>prev ys. link ctx prev \<Longrightarrow> can r prev (singles v) ys"
  shows "\<not> sublist (ctx @ v) (c # ReplaceAllString r template s)"
proof (rule ReplaceAll_removes [OF assms(1-4) _ assms(6)])
  show "byte (hd v) < 128" using assms(4,5) by (cases v) simp_all
  fix prev xs
  assume "list_all proper xs" "prefix v (concat xs)" "link ctx prev"
  then show "matches r \<lparr>behind = prev, ahead = xs, groups = []\<rparr> \<noteq> []"
    using singles_front [OF assms(5)] can_nonempty [OF assms(7)] by metis
qed

text \<open>A test of the position before the match changes nothing, nor does a weaker \<open>keeps\<close>.\<close>

lemma marked_boundary:
  assumes "marked (Cats rs) template keeps"
  shows "marked (Cats (WordBoundary # rs)) template keeps"
proof -
  have "matches (Cats (WordBoundary # rs)) st = matches (Cats rs) st \<or> matches (Cats (WordBoundary # rs)) st = []" for st
    by (simp add: Cats_Cons Let_def)
  then have "set (matches (Cats (WordBoundary # rs)) st) \<subseteq> set (matches (Cats rs) st)" for st by (metis empty_set empty_subsetI order_refl)
  moreover have "0 < least (Cats (WordBoundary # rs))" using assms by (simp add: marked_def Cats_def)
  ultimately show ?thesis using assms unfolding marked_def by blast
qed

lemma marked_mono: "marked r t P \<Longrightarrow> (\<And>p. P p \<Longrightarrow> Q p) \<Longrightarrow> marked r t Q"
  unfolding marked_def by blast

subsection \<open>Sequences and occurrences\<close>

text \<open>One expression of a sequence after the other, on ASCII text.\<close>

lemma can_next:
  "can r b (singles s) (singles t @ xs) \<Longrightarrow> can (Cats rs) (prev_of b (singles s)) (singles t) xs \<Longrightarrow>
    can (Cats (r # rs)) b (singles (s @ t)) xs"
  using can_Cats_Cons by simp

lemma can_end: "can (Cats []) b (singles []) xs"
  by (simp add: can_Cats_Nil)

lemma can_last: "can r b (singles s) xs \<Longrightarrow> can (Cats [r]) b (singles s) xs"
  using can_next [OF _ can_end, of r b s xs] by simp

lemma can_OneFold: "byte c < 128 \<Longrightarrow> p (lower c) \<Longrightarrow> can (OneFold p) b [[c]] xs"
  by (simp add: OneFold_def can_Cls)

lemma can_Opt: "s = [] \<or> can r b (singles s) xs \<Longrightarrow> can (Opt r) b (singles s) xs"
  unfolding Opt_def by (rule can_Alt) (auto simp: can_Eps)

lemma can_times: "list_all (\<lambda>c. byte c < 128 \<and> p c) s \<Longrightarrow> can (times (length s) (One p)) b (singles s) xs"
proof (induction s arbitrary: b)
  case (Cons c s)
  then show ?case
    using can_Cat [of "One p" b "[[c]]" "singles s" xs "times (length s) (One p)"] by (simp add: can_One)
qed (simp add: can_Eps)

lemma can_up_to_none: "can (up_to n r) b (singles []) xs"
  by (cases n) (simp_all add: can_Eps can_Alt)

lemma can_NotOne: "\<not> p c \<Longrightarrow> can (NotOne p) b [[c]] xs"
  by (simp add: NotOne_def can_Cls)

lemma lower_ascii_text: "map lower s = t \<Longrightarrow> list_all (\<lambda>c. byte c < 128) t \<Longrightarrow> list_all (\<lambda>c. byte c < 128) s"
  by (auto simp: list_all_iff)

text \<open>ASCII text that the expression can take, wherever it is, is found.\<close>

lemma runes_at:
  assumes "list_all proper xs" "concat xs = a @ v @ b" "v \<noteq> []" "list_all (\<lambda>c. byte c < 128) v"
  shows "\<exists>us ys. xs = us @ singles v @ ys"
  using assms(1,2)
proof (induction xs arbitrary: a)
  case (Cons x xs)
  show ?case
  proof (cases "a = []")
    case True
    then have "prefix v (concat (x # xs))" using Cons.prems(2) by simp
    then obtain ys where "x # xs = singles v @ ys" using singles_front [OF assms(4) Cons.prems(1)] by blast
    then have "x # xs = [] @ singles v @ ys" by simp
    then show ?thesis by blast
  next
    case False
    have x: "proper x" "list_all proper xs" using Cons.prems(1) by simp_all
    have "length x \<le> length a"
    proof (rule ccontr)
      assume "\<not> length x \<le> length a"
      then have "x ! length a = (a @ v @ b) ! length a"
        using Cons.prems(2) by (metis concat.simps(2) not_le_imp_less nth_append)
      also have "\<dots> = hd v" using assms(3) by (simp add: nth_append hd_conv_nth)
      finally have "byte (x ! length a) < 128" using assms(3,4) by (cases v) simp_all
      moreover have "128 \<le> byte (x ! length a)"
        using proper_inner [OF x(1), of "length a"] False \<open>\<not> length x \<le> length a\<close> by simp
      ultimately show False by simp
    qed
    then obtain q where "a = x @ q" "concat xs = q @ v @ b"
      using split_behind [of x "concat xs" a "v @ b"] Cons.prems(2) by auto
    then obtain us ys where "xs = us @ singles v @ ys" using Cons.IH [OF x(2)] by blast
    then have "x # xs = (x # us) @ singles v @ ys" by simp
    then show ?thesis by blast
  qed
qed (simp add: assms(3))

lemma match_from_here: "first_at r prev xs \<noteq> None \<Longrightarrow> match_from r prev xs"
  by (cases xs) simp_all

lemma match_from_later: "(\<And>prev. first_at r prev xs \<noteq> None) \<Longrightarrow> match_from r prev (us @ xs)"
proof (induction us arbitrary: prev)
  case Nil
  then show ?case using match_from_here [of r prev xs] by simp
qed simp

lemma MatchString_at:
  assumes "sublist v s" "v \<noteq> []" "list_all (\<lambda>c. byte c < 128) v" "\<And>b xs. can r b (singles v) xs"
  shows "MatchString r s"
proof -
  obtain a b where "concat (runes_of s) = a @ v @ b" using assms(1) by (auto simp: sublist_def concat_runes)
  then obtain us ys where "runes_of s = us @ singles v @ ys" using runes_at [OF proper_runes _ assms(2,3)] by blast
  moreover have "first_at r prev (singles v @ ys) \<noteq> None" for prev
    using can_nonempty [OF assms(4), of prev ys] by (simp add: first_at_None)
  ultimately show ?thesis by (simp add: MatchString_def match_from_later)
qed

end
