(* ===== verification/Redaction.thy ===== *)
theory Redaction
  imports Diagnostics RegexpMatches
begin

text \<open>
  What redaction removes, as texts that do not mention the patterns, and the proof that none
  of them is left: each is removed by one replacement, and the later ones do not bring it back.
\<close>

subsection \<open>Sensitive texts\<close>









lemma lower_eq: "lower c = d \<Longrightarrow> c = d \<or> 65 \<le> byte c \<and> byte c \<le> 90"
  by (auto simp: lower_def split: if_splits)









subsection \<open>Marks\<close>


lemma least_simps [simp]:
  "least (Cats []) = 0" "least (Cats (r # rs)) = least r + least (Cats rs)" "least (One p) = 1" "least (NotOne p) = 1"
  "least (Plus r) = least r" "least (Lit s) = length s" "least (LitFold s) = length s"
proof -
  show "least (Lit s) = length s" by (induction s) (simp_all add: Lit_def One_def)
  show "least (LitFold s) = length s" by (induction s) (simp_all add: LitFold_def OneFold_def)
qed (simp_all add: Cats_def One_def NotOne_def Plus_def)

lemma sets_group_simps [simp]:
  "\<not> sets_group n (One p)" "\<not> sets_group n (NotOne p)" "sets_group n (Plus r) \<longleftrightarrow> sets_group n r" "\<not> sets_group n (Lit s)"
  "\<not> sets_group n (LitFold s)"
proof -
  show "\<not> sets_group n (Lit s)" by (induction s) (simp_all add: Lit_def One_def)
  show "\<not> sets_group n (LitFold s)" by (induction s) (simp_all add: LitFold_def OneFold_def)
qed (simp_all add: One_def NotOne_def Plus_def)







subsection \<open>Matches\<close>














subsection \<open>The kept part of an authorization header\<close>







subsection \<open>Redaction\<close>














text \<open>
  A path of one component, one that is not behind white space or a quote, and a secret whose
  name is longer than the five words are kept.
\<close>

lemma redaction_keeps: "Redact ''at /srv'' = ''at /srv''" "Redact ''r=/etc/ssh'' = ''r=/etc/ssh''"
  by code_simp+

lemma redaction_keeps_parenthesis: "Redact ''(/etc/ssh/key)'' = ''(/etc/ssh/key)''"
  by code_simp

lemma redaction_keeps_token: "Redact ''access_token=abc'' = ''access_token=abc''"
  by code_simp

text \<open>What reaches the writer of a logger is what was there and, when it is enabled, one redacted line.\<close>

lemma Debugf_out:
  "map_option lg_out (Debugf l message) =
     map_option (\<lambda>lg. map_option (\<lambda>out. if lg_debug lg then out @ ''flashgate-mcp: '' @ Redact message @ [CHR 0x0A] else out)
       (lg_out lg)) l"
  by (auto simp: Debugf_def split: option.split)

end
