(* ===== verification/GoFlags.thy ===== *)
theory GoFlags
  imports GoStrings
begin

text \<open>
  Package \<open>flag\<close> as the release tool uses it: a flag set of string flags, and perhaps one
  whose value is a \<open>stringList\<close>. \<open>quote\<close> is the \<open>%q\<close> of \<open>fmt\<close>; what a flag set prints when an
  argument is wrong is not modelled, only the error it returns.
\<close>

subsection \<open>Lists of strings\<close>

definition stringList_String :: "string list \<Rightarrow> string" where
  "stringList_String values = join_with '','' values"

definition stringList_Set :: "string list \<Rightarrow> string \<Rightarrow> (string, string list) result" where
  "stringList_Set values value =
     (if value = [] then Inl ''forbidden value must not be empty'' else Inr (values @ [value]))"

subsection \<open>Parsing\<close>

record flag_values =
  fv_string :: "string \<Rightarrow> string"
  fv_list :: "string list"

definition no_flags :: flag_values where
  "no_flags = \<lparr>fv_string = (\<lambda>_. []), fv_list = []\<rparr>"

text \<open>A flag set: the names of its string flags and of its list.\<close>

record flag_set =
  fs_strings :: "string list"
  fs_list :: "string option"

definition set_flag ::
  "(string \<Rightarrow> string) \<Rightarrow> flag_set \<Rightarrow> string \<Rightarrow> string \<Rightarrow> flag_values \<Rightarrow> (string, flag_values) result" where
  "set_flag quote fset name value fv =
     (if fs_list fset = Some name
      then (case stringList_Set (fv_list fv) value of
          Inl e \<Rightarrow> Inl (''invalid value '' @ quote value @ '' for flag -'' @ name @ '': '' @ e)
        | Inr values \<Rightarrow> Inr (fv\<lparr>fv_list := values\<rparr>))
      else Inr (fv\<lparr>fv_string := (fv_string fv)(name := value)\<rparr>))"

text \<open>The name of an argument and the value behind its first \<open>=\<close>, which is not its first byte.\<close>

definition split_flag :: "string \<Rightarrow> string \<times> string option" where
  "split_flag name =
     (case cut_at (CHR ''='') (tl name) of (before, after, found) \<Rightarrow>
        if found then (hd name # before, Some after) else (name, None))"

definition has_flag :: "flag_set \<Rightarrow> string \<Rightarrow> bool" where
  "has_flag fset name \<longleftrightarrow> name \<in> set (fs_strings fset) \<or> fs_list fset = Some name"

text \<open>Parsing ends at the first argument that is no flag, and behind \<open>--\<close>.\<close>

fun parse_flags :: "(string \<Rightarrow> string) \<Rightarrow> flag_set \<Rightarrow> string list \<Rightarrow> flag_values \<Rightarrow> (string, flag_values) result" where
  "parse_flags quote fset [] fv = Inr fv"
| "parse_flags quote fset (s # args) fv =
     (if length s < 2 \<or> hd s \<noteq> CHR ''-'' \<or> s = ''--'' then Inr fv
      else let name = (if s ! 1 = CHR ''-'' then drop 2 s else drop 1 s) in
      if name = [] \<or> hd name = CHR ''-'' \<or> hd name = CHR ''='' then Inl (''bad flag syntax: '' @ s)
      else case split_flag name of (name, value) \<Rightarrow>
        if \<not> has_flag fset name
        then Inl (if name = ''help'' \<or> name = ''h'' then ''flag: help requested''
                  else ''flag provided but not defined: -'' @ name)
        else case value of
          Some v \<Rightarrow>
            (case set_flag quote fset name v fv of Inl e \<Rightarrow> Inl e | Inr fv' \<Rightarrow> parse_flags quote fset args fv')
        | None \<Rightarrow>
            (case args of [] \<Rightarrow> Inl (''flag needs an argument: -'' @ name)
             | v # rest \<Rightarrow>
                 (case set_flag quote fset name v fv of Inl e \<Rightarrow> Inl e | Inr fv' \<Rightarrow> parse_flags quote fset rest fv')))"

text \<open>Flags in the form \<open>--name value\<close> set their values in turn.\<close>

definition plain_flag :: "string \<Rightarrow> bool" where
  "plain_flag name \<longleftrightarrow> name \<noteq> [] \<and> hd name \<noteq> CHR ''-'' \<and> CHR ''='' \<notin> set name"

lemma parse_flag:
  assumes "plain_flag name" "has_flag fset name"
  shows "parse_flags quote fset ((''--'' @ name) # v # rest) fv =
    (case set_flag quote fset name v fv of Inl e \<Rightarrow> Inl e | Inr fv' \<Rightarrow> parse_flags quote fset rest fv')"
proof -
  have "CHR ''='' \<notin> set (tl name)" using assms(1) by (cases name) (auto simp: plain_flag_def)
  then have s: "split_flag name = (name, None)" by (simp add: split_flag_def cut_at_none)
  have "name \<noteq> []" "hd name \<noteq> CHR ''-''" "hd name \<noteq> CHR ''=''"
    using assms(1) hd_in_set [of name] by (auto simp: plain_flag_def simp del: hd_in_set)
  then show ?thesis by (simp add: s assms(2) Let_def)
qed

end
