(* ===== verification/Archives.thy ===== *)
theory Archives
  imports GoPath HostFs JsonData Sha256 GoFlags "HOL-Library.Char_ord" "HOL-Library.List_Lexorder"
begin

text \<open>
  The release tool \<open>cmd/releaseaudit\<close>, the commands \<open>inventory\<close> and \<open>compare\<close>: it reads a ZIP
  or TAR archive, refuses names and types that are unsafe, and reports its entries with
  their digests. An opened archive is the list of its entries with the streams of their
  data; archive formats and compression are not modelled. Texts of errors of the system are
  given with the inputs, and so is \<open>quote\<close>, the \<open>%q\<close> of \<open>fmt\<close>.
\<close>

unbundle bit_operations_syntax

definition maximumEntrySize :: nat where "maximumEntrySize = 67108864"

record archive_entry =
  ae_Path :: string
  ae_Type :: string
  ae_Length :: nat
  ae_SHA256 :: string
  ae_data :: string

record inventory_report =
  iv_Schema :: string
  iv_Status :: string
  iv_Artifact :: string
  iv_Entries :: "archive_entry list option"
  iv_Errors :: "string list"

record comparison_report =
  cr_Schema :: string
  cr_Status :: string
  cr_ArchiveSHA256 :: string
  cr_ChecksumSHA256 :: string
  cr_BinarySHA256 :: string
  cr_InventoryCount :: nat
  cr_Errors :: "string list"

datatype audit_error =
  UnsafePath string | EmptyPath string | NoncanonicalPath string | UnsafeComponent string
| UnsupportedArchive string | DuplicateZIP string | UnsupportedZIPType string | InconsistentZIPDirectory string
| ZIPTooLarge string | ZIPLength string | DuplicateTAR string | TARDirectoryData string | TARTooLarge string
| TARLength string | UnsupportedTARType string | IOError string

definition audit_error_text :: "(string \<Rightarrow> string) \<Rightarrow> audit_error \<Rightarrow> string" where
  "audit_error_text quote e =
     (case e of
        UnsafePath v \<Rightarrow> ''unsafe archive path '' @ quote v
      | EmptyPath v \<Rightarrow> ''empty normalized archive path '' @ quote v
      | NoncanonicalPath v \<Rightarrow> ''noncanonical archive path '' @ quote v
      | UnsafeComponent v \<Rightarrow> ''unsafe archive component in '' @ quote v
      | UnsupportedArchive p \<Rightarrow> ''unsupported archive type: '' @ p
      | DuplicateZIP n \<Rightarrow> ''duplicate normalized ZIP path: '' @ n
      | UnsupportedZIPType n \<Rightarrow> ''unsupported ZIP entry type: '' @ n
      | InconsistentZIPDirectory n \<Rightarrow> ''inconsistent ZIP directory type: '' @ n
      | ZIPTooLarge n \<Rightarrow> ''ZIP entry exceeds the audit limit: '' @ n
      | ZIPLength n \<Rightarrow> ''ZIP entry length mismatch: '' @ n
      | DuplicateTAR n \<Rightarrow> ''duplicate normalized TAR path: '' @ n
      | TARDirectoryData n \<Rightarrow> ''TAR directory has data: '' @ n
      | TARTooLarge n \<Rightarrow> ''TAR entry exceeds the audit limit: '' @ n
      | TARLength n \<Rightarrow> ''TAR entry length mismatch: '' @ n
      | UnsupportedTARType n \<Rightarrow> ''unsupported TAR entry type for '' @ n
      | IOError t \<Rightarrow> t)"

type_synonym 'a audit_result = "(audit_error, 'a) result"

subsection \<open>Names\<close>

definition trim_suffix :: "string \<Rightarrow> string \<Rightarrow> string" where
  "trim_suffix s suf = (if has_suffix s suf then take (length s - length suf) s else s)"

definition normalizeArchivePath :: "string \<Rightarrow> string audit_result" where
  "normalizeArchivePath v =
     (if v = [] \<or> CHR 0x00 \<in> set v \<or> contains v [CHR 0x5C] \<or> has_prefix v ''/'' then Inl (UnsafePath v)
      else let trimmed = trim_suffix v ''/'' in
      if trimmed = [] then Inl (EmptyPath v)
      else let cleaned = Clean trimmed in
      if cleaned \<noteq> trimmed \<or> cleaned = ''.'' \<or> has_prefix cleaned ''../'' then Inl (NoncanonicalPath v)
      else if \<exists>component \<in> set (split_on sep cleaned). component = [] \<or> component = ''.'' \<or> component = ''..''
      then Inl (UnsafeComponent v)
      else Inr cleaned)"

subsection \<open>Entries\<close>

text \<open>A reader gives its bytes and then ends, with an error or without.\<close>

record stream =
  st_bytes :: string
  st_error :: "string option"
  st_close :: "string option"

text \<open>\<open>io.ReadAll(io.LimitReader(r, n))\<close>: an error behind the limit is not seen.\<close>

definition read_limited :: "nat \<Rightarrow> stream \<Rightarrow> string \<times> string option" where
  "read_limited n r = (if n \<le> length (st_bytes r) then (take n (st_bytes r), None) else (st_bytes r, st_error r))"

definition fileEntry :: "string \<Rightarrow> string \<Rightarrow> archive_entry" where
  "fileEntry name data =
     \<lparr>ae_Path = name, ae_Type = ''file'', ae_Length = length data, ae_SHA256 = sha256_hex data, ae_data = data\<rparr>"

definition directoryEntry :: "string \<Rightarrow> archive_entry" where
  "directoryEntry name = \<lparr>ae_Path = name, ae_Type = ''directory'', ae_Length = 0, ae_SHA256 = [], ae_data = []\<rparr>"

definition sortEntries :: "archive_entry list \<Rightarrow> archive_entry list" where
  "sortEntries es = sort_key ae_Path es"

definition inventoryIdentity :: "archive_entry list \<Rightarrow> string" where
  "inventoryIdentity es =
     concat (map (\<lambda>e. ae_Path e @ [CHR 0x09] @ ae_Type e @ [CHR 0x09] @ digits_of (ae_Length e) @ [CHR 0x09] @
       ae_SHA256 e @ [CHR 0x0A]) es)"

subsection \<open>ZIP\<close>

text \<open>The bits of \<open>fs.FileMode\<close>.\<close>

definition ModeDir :: u32 where "ModeDir = 0x80000000"
definition ModeSymlink :: u32 where "ModeSymlink = 0x08000000"
definition ModeDevice :: u32 where "ModeDevice = 0x04000000"
definition ModeNamedPipe :: u32 where "ModeNamedPipe = 0x02000000"
definition ModeSocket :: u32 where "ModeSocket = 0x01000000"

record zip_file =
  zf_Name :: string
  zf_Mode :: u32
  zf_UncompressedSize64 :: "64 word"
  zf_Open :: "string + stream"

definition zip_entry :: "zip_file \<Rightarrow> string \<Rightarrow> archive_entry audit_result" where
  "zip_entry file name =
     (let mode = zf_Mode file; isDir = (mode AND ModeDir \<noteq> 0) in
      if mode AND ModeSymlink \<noteq> 0 \<or> mode AND (ModeDevice OR ModeNamedPipe OR ModeSocket) \<noteq> 0
      then Inl (UnsupportedZIPType name)
      else if has_suffix (zf_Name file) ''/'' \<or> isDir
      then if \<not> has_suffix (zf_Name file) ''/'' \<or> \<not> isDir then Inl (InconsistentZIPDirectory name)
           else Inr (directoryEntry name)
      else if zf_UncompressedSize64 file > of_nat maximumEntrySize then Inl (ZIPTooLarge name)
      else case zf_Open file of Inl e \<Rightarrow> Inl (IOError e)
      | Inr reader \<Rightarrow>
          case read_limited (maximumEntrySize + 1) reader of (data, readErr) \<Rightarrow>
            if readErr \<noteq> None then Inl (IOError (the readErr))
            else if st_close reader \<noteq> None then Inl (IOError (the (st_close reader)))
            else if length data > maximumEntrySize \<or> (of_nat (length data) :: 64 word) \<noteq> zf_UncompressedSize64 file
            then Inl (ZIPLength name)
            else Inr (fileEntry name data))"

text \<open>
  The loop of both formats over the entries: normalized names must not repeat. The entry of
  an item is made by \<open>entry\<close>, \<open>dup\<close> is the error for a repeated name.
\<close>

fun entries_loop ::
  "('x \<Rightarrow> string) \<Rightarrow> (string \<Rightarrow> audit_error) \<Rightarrow> ('x \<Rightarrow> string \<Rightarrow> archive_entry audit_result) \<Rightarrow> string set \<Rightarrow> 'x list \<Rightarrow>
   archive_entry list audit_result" where
  "entries_loop name dup entry seen [] = Inr []"
| "entries_loop name dup entry seen (x # xs) =
     (case normalizeArchivePath (name x) of Inl e \<Rightarrow> Inl e
      | Inr n \<Rightarrow>
          if n \<in> seen then Inl (dup n)
          else case entry x n of Inl e \<Rightarrow> Inl e
          | Inr e \<Rightarrow> (case entries_loop name dup entry (insert n seen) xs of Inl err \<Rightarrow> Inl err | Inr es \<Rightarrow> Inr (e # es)))"

definition readZIP :: "string + zip_file list \<Rightarrow> archive_entry list audit_result" where
  "readZIP opened =
     (case opened of Inl e \<Rightarrow> Inl (IOError e)
      | Inr files \<Rightarrow> (case entries_loop zf_Name DuplicateZIP zip_entry {} files of Inl e \<Rightarrow> Inl e | Inr es \<Rightarrow> Inr (sortEntries es)))"

subsection \<open>TAR\<close>

definition TypeDir :: char where "TypeDir = CHR ''5''"
definition TypeReg :: char where "TypeReg = CHR ''0''"

record tar_header =
  th_Name :: string
  th_Typeflag :: char
  th_Size :: int
  th_Data :: stream

definition tar_entry :: "tar_header \<Rightarrow> string \<Rightarrow> archive_entry audit_result" where
  "tar_entry header name =
     (if th_Typeflag header = TypeDir
      then if th_Size header \<noteq> 0 then Inl (TARDirectoryData name) else Inr (directoryEntry name)
      else if th_Typeflag header = TypeReg \<or> th_Typeflag header = CHR 0x00
      then if th_Size header < 0 \<or> th_Size header > int maximumEntrySize then Inl (TARTooLarge name)
           else case read_limited (maximumEntrySize + 1) (th_Data header) of (data, readErr) \<Rightarrow>
             if readErr \<noteq> None then Inl (IOError (the readErr))
             else if int (length data) \<noteq> th_Size header then Inl (TARLength name)
             else Inr (fileEntry name data)
      else Inl (UnsupportedTARType name))"

text \<open>The headers that \<open>Next\<close> gives, and its error at the end if it is not the end of the file.\<close>

definition readTarGZ :: "string + tar_header list \<times> string option \<Rightarrow> archive_entry list audit_result" where
  "readTarGZ opened =
     (case opened of Inl e \<Rightarrow> Inl (IOError e)
      | Inr (headers, stop) \<Rightarrow>
          case entries_loop th_Name DuplicateTAR tar_entry {} headers of Inl e \<Rightarrow> Inl e
          | Inr es \<Rightarrow> (case stop of Some e \<Rightarrow> Inl (IOError e) | None \<Rightarrow> Inr (sortEntries es)))"

text \<open>What the tool sees of the file system: ZIP archives, compressed TAR archives, files.\<close>

record audit_inputs =
  in_zip :: "string \<Rightarrow> string + zip_file list"
  in_targz :: "string \<Rightarrow> string + tar_header list \<times> string option"
  in_file :: "string \<Rightarrow> string + string"

definition readArchive :: "audit_inputs \<Rightarrow> string \<Rightarrow> archive_entry list audit_result" where
  "readArchive inp archivePath =
     (if has_suffix archivePath ''.zip'' then readZIP (in_zip inp archivePath)
      else if has_suffix archivePath ''.tar.gz'' then readTarGZ (in_targz inp archivePath)
      else Inl (UnsupportedArchive archivePath))"

definition hashFile :: "audit_inputs \<Rightarrow> string \<Rightarrow> string + string" where
  "hashFile inp filePath = (case in_file inp filePath of Inl e \<Rightarrow> Inl e | Inr data \<Rightarrow> Inr (sha256_hex data))"

subsection \<open>Reports\<close>

text \<open>\<open>json.Encoder\<close> with \<open>SetIndent("", "  ")\<close>: a line per member or element, indented by its depth.\<close>

definition indent_line :: "nat \<Rightarrow> string" where
  "indent_line d = CHR 0x0A # replicate (2 * d) (CHR '' '')"

fun indented :: "nat \<Rightarrow> gojson \<Rightarrow> string option" where
  "indented d (GArr vs) =
     (if vs = [] then Some ''[]''
      else map_option (\<lambda>ts. ''['' @ indent_line (Suc d) @ join_with ('','' @ indent_line (Suc d)) ts @ indent_line d @ '']'')
        (sequence_opt (map (indented (Suc d)) vs)))"
| "indented d (GObj ms) =
     (if ms = [] then Some ''{}''
      else map_option (\<lambda>ts. ''{'' @ indent_line (Suc d) @ join_with ('','' @ indent_line (Suc d)) ts @ indent_line d @ ''}'')
        (sequence_opt (map (\<lambda>(k, v). map_option (\<lambda>t. quote_string k @ '': '' @ t) (indented (Suc d) v)) ms)))"
| "indented d v = marshal v"

definition archive_entry_json :: "archive_entry \<Rightarrow> gojson" where
  "archive_entry_json e = GObj
     ([(''path'', GStr (ae_Path e)), (''type'', GStr (ae_Type e)), (''length'', GInt (int (ae_Length e)))] @
      (if ae_SHA256 e = [] then [] else [(''sha256'', GStr (ae_SHA256 e))]))"

definition inventory_json :: "inventory_report \<Rightarrow> gojson" where
  "inventory_json r = GObj
     [(''schema'', GStr (iv_Schema r)), (''status'', GStr (iv_Status r)), (''artifact'', GStr (iv_Artifact r)),
      (''entries'', case iv_Entries r of None \<Rightarrow> GNull | Some es \<Rightarrow> GArr (map archive_entry_json es)),
      (''errors'', GArr (map GStr (iv_Errors r)))]"

definition comparison_json :: "comparison_report \<Rightarrow> gojson" where
  "comparison_json r = GObj
     [(''schema'', GStr (cr_Schema r)), (''status'', GStr (cr_Status r)), (''archiveSha256'', GStr (cr_ArchiveSHA256 r)),
      (''checksumSha256'', GStr (cr_ChecksumSHA256 r)), (''binarySha256'', GStr (cr_BinarySHA256 r)),
      (''inventoryCount'', GInt (int (cr_InventoryCount r))), (''errors'', GArr (map GStr (cr_Errors r)))]"

text \<open>
  The report file must be new; its directory is made from the root or from the working
  directory. A value that does not marshal leaves it empty.
\<close>

datatype write_error = FileError goerr | EncodeError

definition writeJSON :: "string \<Rightarrow> gojson \<Rightarrow> host \<Rightarrow> host \<times> write_error option" where
  "writeJSON reportPath v h =
     (case os_mkdir_all h (render True (kpath h (Dir reportPath))) 0x1ED of
        (h1, Some e) \<Rightarrow> (h1, Some (FileError e))
      | (h1, None) \<Rightarrow>
          case os_open_write h1 reportPath \<lparr>o_trunc = False, o_excl = True\<rparr> 0x180 of
            (h2, Inl e) \<Rightarrow> (h2, Some (FileError e))
          | (h2, Inr i) \<Rightarrow>
              case indented 0 v of None \<Rightarrow> (h2, Some EncodeError)
              | Some t \<Rightarrow> (case fd_write h2 i (t @ [CHR 0x0A]) of (h3, _, e) \<Rightarrow> (h3, map_option FileError e)))"

subsection \<open>Commands\<close>

text \<open>A run ends with the host and its error, if it has one.\<close>

datatype run_failure =
  FlagsFailed string | MissingArguments string | AuditFailed audit_error | ReportFailed write_error
| CheckFailed string | UnknownCommand string

definition inventory_report_of :: "(string \<Rightarrow> string) \<Rightarrow> string \<Rightarrow> archive_entry list audit_result \<Rightarrow> inventory_report" where
  "inventory_report_of quote artifact r =
     \<lparr>iv_Schema = ''flashgate-release-inventory/v1'',
      iv_Status = (case r of Inl _ \<Rightarrow> ''FAIL'' | Inr _ \<Rightarrow> ''PASS''),
      iv_Artifact = Base artifact,
      iv_Entries = (case r of Inl _ \<Rightarrow> None | Inr es \<Rightarrow> Some es),
      iv_Errors = (case r of Inl e \<Rightarrow> [audit_error_text quote e] | Inr _ \<Rightarrow> [])\<rparr>"

definition inventory_flags :: flag_set where
  "inventory_flags = \<lparr>fs_strings = [''artifact'', ''report''], fs_list = None\<rparr>"

definition runInventory :: "(string \<Rightarrow> string) \<Rightarrow> audit_inputs \<Rightarrow> string list \<Rightarrow> host \<Rightarrow> host \<times> run_failure option" where
  "runInventory quote inp arguments h =
     (case parse_flags quote inventory_flags arguments no_flags of
        Inl e \<Rightarrow> (h, Some (FlagsFailed e))
      | Inr fv \<Rightarrow>
          let artifact = fv_string fv ''artifact''; reportPath = fv_string fv ''report'' in
          if artifact = [] \<or> reportPath = []
          then (h, Some (MissingArguments ''inventory requires --artifact and --report''))
          else let r = readArchive inp artifact in
          case writeJSON reportPath (inventory_json (inventory_report_of quote artifact r)) h of
            (h', Some e) \<Rightarrow> (h', Some (ReportFailed e))
          | (h', None) \<Rightarrow> (h', case r of Inl e \<Rightarrow> Some (AuditFailed e) | Inr _ \<Rightarrow> None))"

definition hash_or_empty :: "string + string \<Rightarrow> string" where
  "hash_or_empty r = (case r of Inl _ \<Rightarrow> [] | Inr s \<Rightarrow> s)"

definition hash_error :: "string + string \<Rightarrow> string list" where
  "hash_error r = (case r of Inl e \<Rightarrow> [e] | Inr _ \<Rightarrow> [])"

definition binary_matches :: "string \<Rightarrow> archive_entry list \<Rightarrow> string list" where
  "binary_matches binarySuffix es =
     map ae_SHA256 (filter (\<lambda>e. ae_Type e = ''file'' \<and> has_suffix (ae_Path e) binarySuffix) es)"

text \<open>The comparison of two inventories: its errors and the digest of the binary.\<close>

definition compare_entries :: "string \<Rightarrow> archive_entry list \<Rightarrow> archive_entry list \<Rightarrow> string list \<times> string" where
  "compare_entries binarySuffix entriesA entriesB =
     (let identity = (if inventoryIdentity entriesA \<noteq> inventoryIdentity entriesB then [''archive inventories differ''] else []);
          matches = map (binary_matches binarySuffix) [entriesA, entriesB];
          missing = concat (map (\<lambda>m. if length m \<noteq> 1 then [''expected exactly one binary entry per archive''] else []) matches);
          binaryHashes = concat (filter (\<lambda>m. length m = 1) matches)
      in if length binaryHashes = 2
         then (identity @ missing @ (if binaryHashes ! 0 \<noteq> binaryHashes ! 1 then [''binary hashes differ''] else []), binaryHashes ! 0)
         else (identity @ missing, []))"

definition comparison_report_of ::
  "(string \<Rightarrow> string) \<Rightarrow> audit_inputs \<Rightarrow> string \<Rightarrow> string \<Rightarrow> string \<Rightarrow> string \<Rightarrow> string \<Rightarrow> comparison_report" where
  "comparison_report_of quote inp artifactA checksumA artifactB checksumB binarySuffix =
     (let archiveHashA = hashFile inp artifactA; archiveHashB = hashFile inp artifactB;
          archive = hash_error archiveHashA @ hash_error archiveHashB @
            (if hash_or_empty archiveHashA \<noteq> hash_or_empty archiveHashB then [''archive hashes differ''] else []);
          checksumHashA = hashFile inp checksumA; checksumHashB = hashFile inp checksumB;
          checksum = hash_error checksumHashA @ hash_error checksumHashB @
            (if hash_or_empty checksumHashA \<noteq> hash_or_empty checksumHashB then [''checksum-file hashes differ''] else []);
          a = readArchive inp artifactA; b = readArchive inp artifactB;
          readErrors = (\<lambda>r. case r of Inl e \<Rightarrow> [audit_error_text quote e] | Inr _ \<Rightarrow> []);
          (compared, binary, count) =
            (case (a, b) of (Inr entriesA, Inr entriesB) \<Rightarrow>
                (case compare_entries binarySuffix entriesA entriesB of (errs, binary) \<Rightarrow> (errs, binary, length entriesA))
             | _ \<Rightarrow> ([], [], 0));
          errors = archive @ checksum @ readErrors a @ readErrors b @ compared
      in \<lparr>cr_Schema = ''flashgate-release-reproducibility/v1'',
          cr_Status = (if errors = [] then ''PASS'' else ''FAIL''),
          cr_ArchiveSHA256 = hash_or_empty archiveHashA, cr_ChecksumSHA256 = hash_or_empty checksumHashA,
          cr_BinarySHA256 = binary, cr_InventoryCount = count, cr_Errors = errors\<rparr>)"

text \<open>A Go map is the list of its entries in the order in which the loop over it goes.\<close>

definition compare_flags :: flag_set where
  "compare_flags =
     \<lparr>fs_strings = [''artifact-a'', ''checksum-a'', ''artifact-b'', ''checksum-b'', ''binary-suffix'', ''report''],
      fs_list = None\<rparr>"

definition runCompare ::
  "((string \<times> string) list \<Rightarrow> (string \<times> string) list) \<Rightarrow> (string \<Rightarrow> string) \<Rightarrow> audit_inputs \<Rightarrow> string list \<Rightarrow> host \<Rightarrow>
   host \<times> run_failure option" where
  "runCompare order quote inp arguments h =
     (case parse_flags quote compare_flags arguments no_flags of
        Inl e \<Rightarrow> (h, Some (FlagsFailed e))
      | Inr fv \<Rightarrow>
          (case find (\<lambda>(name, val). val = []) (order (map (\<lambda>name. (name, fv_string fv name)) (fs_strings compare_flags))) of
            Some (name, _) \<Rightarrow> (h, Some (MissingArguments (''compare requires --'' @ name)))
          | None \<Rightarrow>
              let report = comparison_report_of quote inp (fv_string fv ''artifact-a'') (fv_string fv ''checksum-a'')
                    (fv_string fv ''artifact-b'') (fv_string fv ''checksum-b'') (fv_string fv ''binary-suffix'') in
              case writeJSON (fv_string fv ''report'') (comparison_json report) h of
                (h', Some e) \<Rightarrow> (h', Some (ReportFailed e))
              | (h', None) \<Rightarrow>
                  (h', if cr_Status report \<noteq> ''PASS''
                       then Some (CheckFailed ''release reproducibility comparison failed'') else None)))"

end
