(* ===== verification/ArchiveFacts.thy ===== *)
theory ArchiveFacts
  imports Archives "HOL-Library.Multiset"
begin

text \<open>
  Which archives the audit accepts, and what it reports: safe names are lists of good
  components, entries are described without the order of the checks, and inventories are
  told apart by their identity where no name has a tab or a line feed.
\<close>

subsection \<open>Names\<close>

definition safe_component :: "string \<Rightarrow> bool" where
  "safe_component c \<longleftrightarrow> good_comp c \<and> CHR 0x00 \<notin> set c \<and> CHR 0x5C \<notin> set c"

definition safe_path :: "string \<Rightarrow> bool" where
  "safe_path p \<longleftrightarrow> (\<exists>cs. cs \<noteq> [] \<and> list_all safe_component cs \<and> p = join_with ''/'' cs)"

lemma join_comps:
  assumes "cs \<noteq> []" "good_comps cs"
  shows "split_on sep (join_with ''/'' cs) = cs" "Clean (join_with ''/'' cs) = join_with ''/'' cs"
    "join_with ''/'' cs \<noteq> []" "join_with ''/'' cs \<noteq> ''.''" "\<not> has_prefix (join_with ''/'' cs) ''/''"
    "\<not> has_suffix (join_with ''/'' cs) ''/''" "\<not> has_prefix (join_with ''/'' cs) ''../''"
proof -
  have r: "render False cs = join_with ''/'' cs" using assms(1) by (simp add: render_def)
  show split: "split_on sep (join_with ''/'' cs) = cs"
    using assms by (intro split_on_join) (auto simp: list_all_iff good_comp_def)
  have unrooted: "\<not> is_rooted (join_with ''/'' cs)" using not_rooted_render [OF assms(2)] by (simp add: r)
  then show "\<not> has_prefix (join_with ''/'' cs) ''/''" by (simp add: is_rooted_def has_prefix_def)
  show "Clean (join_with ''/'' cs) = join_with ''/'' cs"
    using path_comps_render [OF assms(2), of False] unrooted by (simp add: Clean_def r)
  show "join_with ''/'' cs \<noteq> []" using split assms by (auto simp: good_comp_def)
  show "join_with ''/'' cs \<noteq> ''.''" using split assms by (auto simp: good_comp_def)
  show "\<not> has_suffix (join_with ''/'' cs) ''/''"
  proof
    assume "has_suffix (join_with ''/'' cs) ''/''"
    then obtain u where u: "join_with ''/'' cs = u @ [sep]" by (auto simp: has_suffix_def suffix_def)
    then have "cs = split_on sep u @ [[]]" using split split_on_append_sep [of sep u "[]"] by simp
    then show False using assms(2) by (simp add: good_comp_def)
  qed
  show "\<not> has_prefix (join_with ''/'' cs) ''../''"
  proof
    assume "has_prefix (join_with ''/'' cs) ''../''"
    then obtain u where "join_with ''/'' cs = ''..'' @ sep # u" by (auto simp: has_prefix_def prefix_def)
    then have "cs = split_on sep ''..'' @ split_on sep u" using split split_on_append_sep [of sep "''..''" u] by simp
    then show False using assms(2) by (simp add: good_comp_def)
  qed
qed

lemma trim_suffix_slash: "\<not> has_suffix p ''/'' \<Longrightarrow> trim_suffix p ''/'' = p" "trim_suffix (p @ ''/'') ''/'' = p"
  by (simp_all add: trim_suffix_def has_suffix_def)

lemma set_join_comps: "set (join_with ''/'' cs) \<subseteq> insert sep (\<Union> (set ` set cs))"
  by (induction "''/''" cs rule: join_with.induct) auto

lemma comps_sub_join: "c \<in> set cs \<Longrightarrow> set c \<subseteq> set (join_with ''/'' cs)"
  by (induction "''/''" cs rule: join_with.induct) auto

lemma has_prefix_slash: "has_prefix s ''/'' \<longleftrightarrow> s \<noteq> [] \<and> hd s = sep"
  by (cases s) (auto simp: has_prefix_def)

lemma normalize_accepts:
  assumes "safe_path p" "v = p \<or> v = p @ ''/''"
  shows "normalizeArchivePath v = Inr p"
proof -
  obtain cs where cs: "cs \<noteq> []" "list_all safe_component cs" "p = join_with ''/'' cs"
    using assms(1) by (auto simp: safe_path_def)
  then have good: "good_comps cs" by (auto simp: list_all_iff safe_component_def)
  note j = join_comps [OF cs(1) good]
  have "CHR 0x00 \<notin> set p" "CHR 0x5C \<notin> set p"
    using set_join_comps [of cs] cs(2) unfolding cs(3) by (auto simp: list_all_iff safe_component_def)
  then have v: "v \<noteq> []" "CHR 0x00 \<notin> set v" "CHR 0x5C \<notin> set v" "\<not> has_prefix v ''/''"
    using assms(2) j(3,5) unfolding cs(3) by (auto simp: has_prefix_slash)
  have "trim_suffix v ''/'' = p" using assms(2) j(6) trim_suffix_slash cs(3) by metis
  then show ?thesis
    using v j good cs(3) by (auto simp: normalizeArchivePath_def Let_def contains_char list_all_iff good_comp_def)
qed

lemma normalize_refuses_rest:
  assumes "normalizeArchivePath v = Inr p"
  shows "safe_path p" "v = p \<or> v = p @ ''/''"
proof -
  have n: "CHR 0x00 \<notin> set v" "CHR 0x5C \<notin> set v" "Clean (trim_suffix v ''/'') = trim_suffix v ''/''"
      "p = trim_suffix v ''/''" "trim_suffix v ''/'' \<noteq> []"
      "\<forall>c \<in> set (split_on sep p). c \<noteq> [] \<and> c \<noteq> ''.'' \<and> c \<noteq> ''..''"
    using assms by (auto simp: normalizeArchivePath_def Let_def contains_char split: if_splits)
  show vp: "v = p \<or> v = p @ ''/''"
    unfolding n(4) trim_suffix_def by (auto simp: has_suffix_def suffix_def)
  then have "CHR 0x00 \<notin> set p" "CHR 0x5C \<notin> set p" using n(1,2) by auto
  moreover have "set c \<subseteq> set p" if "c \<in> set (split_on sep p)" for c
    using comps_sub_join [OF that] by (simp add: join_split_on)
  ultimately have "list_all safe_component (split_on sep p)"
    using n(6) split_on_sep_free [of p] by (auto simp: list_all_iff safe_component_def good_comp_def)
  moreover have "p = join_with ''/'' (split_on sep p)" by (simp add: join_split_on)
  ultimately show "safe_path p" unfolding safe_path_def using split_on_not_Nil by blast
qed

lemma normalize_iff: "normalizeArchivePath v = Inr p \<longleftrightarrow> safe_path p \<and> (v = p \<or> v = p @ ''/'')"
  using normalize_accepts normalize_refuses_rest by blast

lemma safe_path_end: "safe_path p \<Longrightarrow> \<not> has_suffix p ''/''"
  using join_comps(6) by (fastforce simp: safe_path_def safe_component_def list_all_iff)

subsection \<open>Entries\<close>

text \<open>The data of a stream that ends without an error, within the limit.\<close>

definition gives :: "stream \<Rightarrow> string \<Rightarrow> bool" where
  "gives r d \<longleftrightarrow> st_bytes r = d \<and> st_error r = None \<and> length d \<le> maximumEntrySize"

definition special_mode :: "u32 \<Rightarrow> bool" where
  "special_mode m \<longleftrightarrow> m AND (ModeSymlink OR ModeDevice OR ModeNamedPipe OR ModeSocket) \<noteq> 0"

definition zip_describes :: "zip_file \<Rightarrow> archive_entry \<Rightarrow> bool" where
  "zip_describes f e \<longleftrightarrow>
     (\<exists>p. safe_path p \<and> \<not> special_mode (zf_Mode f) \<and>
        (zf_Name f = p @ ''/'' \<and> zf_Mode f AND ModeDir \<noteq> 0 \<and> e = directoryEntry p \<or>
         zf_Name f = p \<and> zf_Mode f AND ModeDir = 0 \<and>
           (\<exists>r d. zf_Open f = Inr r \<and> gives r d \<and> st_close r = None \<and> unat (zf_UncompressedSize64 f) = length d \<and>
              e = fileEntry p d)))"

definition tar_describes :: "tar_header \<Rightarrow> archive_entry \<Rightarrow> bool" where
  "tar_describes t e \<longleftrightarrow>
     (\<exists>p. safe_path p \<and> (th_Name t = p \<or> th_Name t = p @ ''/'') \<and>
        (th_Typeflag t = TypeDir \<and> th_Size t = 0 \<and> e = directoryEntry p \<or>
         th_Typeflag t \<in> {TypeReg, CHR 0x00} \<and>
           (\<exists>d. gives (th_Data t) d \<and> th_Size t = int (length d) \<and> e = fileEntry p d)))"

lemma read_limited_within:
  "read_limited (Suc n) r = (d, None) \<and> length d \<le> n \<longleftrightarrow> st_bytes r = d \<and> st_error r = None \<and> length d \<le> n"
  by (auto simp: read_limited_def)

lemma gives_iff:
  assumes "read_limited (maximumEntrySize + 1) r = (d, err)"
  shows "gives r d' \<longleftrightarrow> d' = d \<and> err = None \<and> length d \<le> maximumEntrySize"
proof -
  have "gives r d' \<longleftrightarrow> read_limited (Suc maximumEntrySize) r = (d', None) \<and> length d' \<le> maximumEntrySize"
    by (simp add: gives_def read_limited_within)
  also have "\<dots> \<longleftrightarrow> d' = d \<and> err = None \<and> length d \<le> maximumEntrySize" using assms by auto
  finally show ?thesis .
qed

lemma size_word: "n \<le> maximumEntrySize \<Longrightarrow> (of_nat n :: 64 word) = w \<longleftrightarrow> unat w = n"
  by (auto simp: maximumEntrySize_def unat_of_nat word_unat_eq_iff)

lemma special_mode_iff:
  "special_mode m \<longleftrightarrow> m AND ModeSymlink \<noteq> 0 \<or> m AND (ModeDevice OR ModeNamedPipe OR ModeSocket) \<noteq> 0"
  by (simp add: special_mode_def bit.conj_disj_distrib or_eq_0_iff or.assoc)

lemma zip_data:
  "(if zf_UncompressedSize64 f > of_nat maximumEntrySize then Inl (ZIPTooLarge p)
    else case zf_Open f of Inl e \<Rightarrow> Inl (IOError e)
    | Inr reader \<Rightarrow>
        case read_limited (maximumEntrySize + 1) reader of (data, readErr) \<Rightarrow>
          if readErr \<noteq> None then Inl (IOError (the readErr))
          else if st_close reader \<noteq> None then Inl (IOError (the (st_close reader)))
          else if length data > maximumEntrySize \<or> (of_nat (length data) :: 64 word) \<noteq> zf_UncompressedSize64 f
          then Inl (ZIPLength p) else Inr (fileEntry p data)) = Inr e \<longleftrightarrow>
   (\<exists>r d. zf_Open f = Inr r \<and> gives r d \<and> st_close r = None \<and> unat (zf_UncompressedSize64 f) = length d \<and> e = fileEntry p d)"
  (is "?code = Inr e \<longleftrightarrow> ?spec")
proof (cases "zf_Open f")
  case (Inr r)
  obtain d err where d: "read_limited (maximumEntrySize + 1) r = (d, err)" by (metis surj_pair)
  have max: "unat (of_nat maximumEntrySize :: 64 word) = maximumEntrySize" by (simp add: maximumEntrySize_def)
  have "?code = Inr e \<longleftrightarrow> err = None \<and> st_close r = None \<and> length d \<le> maximumEntrySize \<and>
      unat (zf_UncompressedSize64 f) = length d \<and> e = fileEntry p d"
    using size_word [of "length d" "zf_UncompressedSize64 f"] by (auto simp: Inr d [unfolded Suc_eq_plus1 [symmetric]] word_less_nat_alt max)
  also have "\<dots> \<longleftrightarrow> (\<exists>d'. gives r d' \<and> st_close r = None \<and> unat (zf_UncompressedSize64 f) = length d' \<and> e = fileEntry p d')"
    unfolding gives_iff [OF d] by blast
  also have "\<dots> \<longleftrightarrow> ?spec" by (simp add: Inr)
  finally show ?thesis .
qed simp

lemma zip_entry_iff:
  assumes "safe_path p" "zf_Name f = p \<or> zf_Name f = p @ ''/''"
  shows "zip_entry f p = Inr e \<longleftrightarrow> zip_describes f e"
proof -
  have only: "q = p" if "safe_path q" "zf_Name f = q \<or> zf_Name f = q @ ''/''" for q
    using normalize_accepts [OF that] normalize_accepts [OF assms] by simp
  have slash: "has_suffix (zf_Name f) ''/'' \<longleftrightarrow> zf_Name f = p @ ''/''"
    using assms safe_path_end by (auto simp: has_suffix_def)
  have "zip_describes f e \<longleftrightarrow> \<not> special_mode (zf_Mode f) \<and>
      (zf_Name f = p @ ''/'' \<and> zf_Mode f AND ModeDir \<noteq> 0 \<and> e = directoryEntry p \<or>
       zf_Name f = p \<and> zf_Mode f AND ModeDir = 0 \<and>
         (\<exists>r d. zf_Open f = Inr r \<and> gives r d \<and> st_close r = None \<and> unat (zf_UncompressedSize64 f) = length d \<and>
            e = fileEntry p d))"
    unfolding zip_describes_def using only assms(1) by blast
  also have "\<dots> \<longleftrightarrow> zip_entry f p = Inr e"
    unfolding zip_entry_def Let_def special_mode_iff zip_data [symmetric] slash using assms(2) by auto
  finally show ?thesis ..
qed

lemma tar_entry_iff:
  assumes "safe_path p" "th_Name t = p \<or> th_Name t = p @ ''/''"
  shows "tar_entry t p = Inr e \<longleftrightarrow> tar_describes t e"
proof -
  have only: "q = p" if "safe_path q" "th_Name t = q \<or> th_Name t = q @ ''/''" for q
    using normalize_accepts [OF that] normalize_accepts [OF assms] by simp
  have "tar_describes t e \<longleftrightarrow> th_Typeflag t = TypeDir \<and> th_Size t = 0 \<and> e = directoryEntry p \<or>
         th_Typeflag t \<in> {TypeReg, CHR 0x00} \<and>
           (\<exists>d. gives (th_Data t) d \<and> th_Size t = int (length d) \<and> e = fileEntry p d)"
    unfolding tar_describes_def using only assms by blast
  moreover obtain d err where d: "read_limited (maximumEntrySize + 1) (th_Data t) = (d, err)" by (metis surj_pair)
  moreover have "TypeReg \<noteq> TypeDir" "CHR 0x00 \<noteq> TypeDir" by (simp_all add: TypeReg_def TypeDir_def)
  moreover have "(\<exists>d'. gives (th_Data t) d' \<and> th_Size t = int (length d') \<and> e = fileEntry p d') \<longleftrightarrow>
      err = None \<and> length d \<le> maximumEntrySize \<and> th_Size t = int (length d) \<and> e = fileEntry p d"
    unfolding gives_iff [OF d] by blast
  ultimately show ?thesis by (auto simp: tar_entry_def)
qed

lemma describes_path:
  "zip_describes f e \<Longrightarrow> normalizeArchivePath (zf_Name f) = Inr (ae_Path e)"
  "tar_describes t e \<Longrightarrow> normalizeArchivePath (th_Name t) = Inr (ae_Path e)"
  by (auto simp: zip_describes_def tar_describes_def directoryEntry_def fileEntry_def normalize_iff)

lemma entries_loop_iff:
  assumes "\<And>x p e. normalizeArchivePath (name x) = Inr p \<Longrightarrow> entry x p = Inr e \<longleftrightarrow> describes x e"
    and "\<And>x e. describes x e \<Longrightarrow> normalizeArchivePath (name x) = Inr (ae_Path e)"
  shows "entries_loop name dup entry seen xs = Inr es \<longleftrightarrow>
    list_all2 describes xs es \<and> distinct (map ae_Path es) \<and> seen \<inter> set (map ae_Path es) = {}"
proof (induction xs arbitrary: seen es)
  case (Cons x xs)
  show ?case
  proof (cases "normalizeArchivePath (name x)")
    case (Inl err)
    then show ?thesis using assms(2) by (auto simp: list_all2_Cons1)
  next
    case (Inr p)
    show ?thesis
    proof (cases es)
      case Nil
      then show ?thesis by (simp add: Inr split: sum.split)
    next
      case es: (Cons e es')
      have path: "describes x e \<Longrightarrow> ae_Path e = p" using assms(2) Inr by fastforce
      have "entries_loop name dup entry seen (x # xs) = Inr (e # es') \<longleftrightarrow>
          p \<notin> seen \<and> entry x p = Inr e \<and> entries_loop name dup entry (insert p seen) xs = Inr es'"
        by (auto simp: Inr split: sum.split)
      also have "\<dots> \<longleftrightarrow> p \<notin> seen \<and> describes x e \<and> list_all2 describes xs es' \<and> distinct (map ae_Path es') \<and>
          insert p seen \<inter> set (map ae_Path es') = {}" by (simp only: Cons.IH assms(1) [OF Inr])
      also have "\<dots> \<longleftrightarrow> list_all2 describes (x # xs) (e # es') \<and> distinct (map ae_Path (e # es')) \<and>
          seen \<inter> set (map ae_Path (e # es')) = {}"
        using path by (cases "describes x e") auto
      finally show ?thesis by (simp only: es)
    qed
  qed
qed auto

lemma result_map: "(case r of Inl e \<Rightarrow> Inl e | Inr x \<Rightarrow> Inr (f x)) = Inr y \<longleftrightarrow> (\<exists>x. r = Inr x \<and> y = f x)"
  by (cases r) auto

lemma list_all2_right: "list_all2 P xs ys \<Longrightarrow> (\<And>x y. P x y \<Longrightarrow> Q y) \<Longrightarrow> list_all Q ys"
  by (induction rule: list_all2_induct) auto

lemma readZIP_iff:
  "readZIP opened = Inr es \<longleftrightarrow>
     (\<exists>files es0. opened = Inr files \<and> list_all2 zip_describes files es0 \<and> distinct (map ae_Path es0) \<and> es = sort_key ae_Path es0)"
proof -
  have "entries_loop zf_Name DuplicateZIP zip_entry {} files = Inr es0 \<longleftrightarrow>
      list_all2 zip_describes files es0 \<and> distinct (map ae_Path es0)" for files es0
    by (subst entries_loop_iff [where describes = zip_describes])
      (auto simp: normalize_iff zip_entry_iff describes_path(1) [unfolded normalize_iff])
  note loop = this
  show ?thesis by (cases opened) (simp_all add: readZIP_def sortEntries_def result_map loop conj_ac)
qed

lemma readTarGZ_iff:
  "readTarGZ opened = Inr es \<longleftrightarrow>
     (\<exists>hs es0. opened = Inr (hs, None) \<and> list_all2 tar_describes hs es0 \<and> distinct (map ae_Path es0) \<and> es = sort_key ae_Path es0)"
proof -
  have "entries_loop th_Name DuplicateTAR tar_entry {} hs = Inr es0 \<longleftrightarrow>
      list_all2 tar_describes hs es0 \<and> distinct (map ae_Path es0)" for hs es0
    by (subst entries_loop_iff [where describes = tar_describes])
      (auto simp: normalize_iff tar_entry_iff describes_path(2) [unfolded normalize_iff])
  note loop = this
  show ?thesis
  proof (cases opened)
    case (Inr a)
    obtain hs stop where a: "a = (hs, stop)" by (cases a)
    show ?thesis
    proof (cases stop)
      case None
      then have "readTarGZ opened = (case entries_loop th_Name DuplicateTAR tar_entry {} hs of
          Inl e \<Rightarrow> Inl e | Inr es \<Rightarrow> Inr (sort_key ae_Path es))"
        by (simp add: readTarGZ_def sortEntries_def Inr a split: sum.split)
      then show ?thesis using None by (simp add: result_map loop Inr a conj_ac)
    next
      case (Some e)
      then show ?thesis by (simp add: readTarGZ_def Inr a split: sum.split)
    qed
  qed (simp add: readTarGZ_def)
qed

subsection \<open>Inventories\<close>

text \<open>What an inventory says of an entry, and the names it can tell apart.\<close>

definition listed :: "archive_entry \<Rightarrow> string \<times> string \<times> nat \<times> string" where
  "listed e = (ae_Path e, ae_Type e, ae_Length e, ae_SHA256 e)"

definition plain_name :: "string \<Rightarrow> bool" where
  "plain_name p \<longleftrightarrow> CHR 0x09 \<notin> set p \<and> CHR 0x0A \<notin> set p"

definition audited :: "archive_entry \<Rightarrow> bool" where
  "audited e \<longleftrightarrow> safe_path (ae_Path e) \<and>
     (e = directoryEntry (ae_Path e) \<or> e = fileEntry (ae_Path e) (ae_data e) \<and> length (ae_data e) \<le> maximumEntrySize)"

lemma describes_audited: "zip_describes f e \<Longrightarrow> audited e" "tar_describes t e \<Longrightarrow> audited e"
  by (auto simp: zip_describes_def tar_describes_def audited_def gives_def directoryEntry_def fileEntry_def)

lemma readArchive_audited:
  assumes "readArchive inp p = Inr es"
  shows "list_all audited es" "distinct (map ae_Path es)" "sorted (map ae_Path es)"
proof -
  have "\<exists>es0. es = sort_key ae_Path es0 \<and> distinct (map ae_Path es0) \<and>
      ((\<exists>files. list_all2 zip_describes files es0) \<or> (\<exists>hs. list_all2 tar_describes hs es0))"
    using assms
    by (cases "has_suffix p ''.zip''"; cases "has_suffix p ''.tar.gz''") (auto simp: readArchive_def readZIP_iff readTarGZ_iff)
  then obtain es0 where e: "es = sort_key ae_Path es0" "distinct (map ae_Path es0)" "list_all audited es0"
    using list_all2_right [of zip_describes _ _ audited] list_all2_right [of tar_describes _ _ audited] describes_audited
    by blast
  then show "list_all audited es" by (simp add: list_all_iff)
  have "mset (map ae_Path es) = mset (map ae_Path es0)" by (simp only: e(1) mset_map mset_sort)
  then show "distinct (map ae_Path es)" using e(2) by (metis mset_eq_imp_distinct_iff)
  show "sorted (map ae_Path es)" by (simp add: e(1))
qed

text \<open>The identity of an inventory determines what it lists, if the names are plain.\<close>

definition entry_line :: "archive_entry \<Rightarrow> string" where
  "entry_line e = ae_Path e @ CHR 0x09 # ae_Type e @ CHR 0x09 # digits_of (ae_Length e) @ CHR 0x09 # ae_SHA256 e"

lemma inventoryIdentity_lines: "inventoryIdentity es = concat (map (\<lambda>e. entry_line e @ [CHR 0x0A]) es)"
  by (simp add: inventoryIdentity_def entry_line_def)

lemma digits_of_inj: "digits_of m = digits_of n \<longleftrightarrow> m = n"
  by (metis decimal_digits_of)

lemma digits_of_text: "CHR 0x0A \<notin> set (digits_of n)" "CHR 0x09 \<notin> set (digits_of n)"
  using digits_of_digits [of n] by (auto simp: list_all_iff is_digit_def)

lemma audited_cases:
  assumes "audited e"
  obtains p where "e = directoryEntry p" | p d where "e = fileEntry p d"
  using assms unfolding audited_def by blast

lemma audited_text:
  assumes "audited e"
  shows "CHR 0x09 \<notin> set (ae_Type e)" "CHR 0x0A \<notin> set (ae_Type e)" "CHR 0x0A \<notin> set (ae_SHA256 e)"
  using assms by (cases rule: audited_cases; simp add: directoryEntry_def fileEntry_def sha256_hex_text)+

lemma entry_line_plain:
  assumes "audited e" "plain_name (ae_Path e)"
  shows "CHR 0x0A \<notin> set (entry_line e)"
  using audited_text [OF assms(1)] assms(2) digits_of_text [of "ae_Length e"]
  by (simp add: entry_line_def plain_name_def)

lemma entry_line_inj:
  assumes "audited e" "audited f" "plain_name (ae_Path e)" "plain_name (ae_Path f)"
  shows "entry_line e = entry_line f \<longleftrightarrow> listed e = listed f"
  using audited_text(1) [OF assms(1)] audited_text(1) [OF assms(2)] assms(3,4)
  by (simp add: entry_line_def listed_def plain_name_def sep_inj digits_of_text digits_of_inj)

lemma inventoryIdentity_inj:
  assumes "list_all audited as" "list_all audited bs"
    "list_all (plain_name \<circ> ae_Path) as" "list_all (plain_name \<circ> ae_Path) bs"
  shows "inventoryIdentity as = inventoryIdentity bs \<longleftrightarrow> map listed as = map listed bs"
  using assms
proof (induction as arbitrary: bs)
  case Nil
  then show ?case by (cases bs) (simp_all add: inventoryIdentity_lines)
next
  case (Cons a as)
  show ?case
  proof (cases bs)
    case (Cons b bs')
    then show ?thesis
      using Cons.prems Cons.IH [of bs'] entry_line_plain [of a] entry_line_plain [of b] entry_line_inj [of a b]
      by (simp add: inventoryIdentity_lines sep_inj)
  qed (simp add: inventoryIdentity_lines)
qed

text \<open>A tab and a line feed in the name of one directory pass for two directories.\<close>

lemma inventoryIdentity_not_inj:
  fixes p :: string
  defines "p \<equiv> ''a'' @ [CHR 0x09] @ ''directory'' @ [CHR 0x09] @ ''0'' @ [CHR 0x09, CHR 0x0A] @ ''b''"
  shows "inventoryIdentity [directoryEntry ''a'', directoryEntry ''b''] = inventoryIdentity [directoryEntry p]"
    and "audited (directoryEntry p)"
proof -
  have "digits_of 0 = ''0''" by code_simp
  then show "inventoryIdentity [directoryEntry ''a'', directoryEntry ''b''] = inventoryIdentity [directoryEntry p]"
    by (simp add: inventoryIdentity_def directoryEntry_def p_def)
  have "safe_component p" by (simp add: p_def safe_component_def good_comp_def)
  then have "safe_path p" by (auto simp: safe_path_def intro!: exI [of _ "[p]"])
  then show "audited (directoryEntry p)" by (simp add: audited_def directoryEntry_def)
qed

end
