(* ===== verification/LeakFacts.thy ===== *)
theory LeakFacts
  imports LeakScan ArchiveFacts RegexpMatches
begin

text \<open>
  What a scan that passes excludes: texts given without the rules, among the bytes of a file
  and among its little-endian UTF-16 units.
\<close>

subsection \<open>Printable runs\<close>

lemma flush_run_prefix: "prefix out (flush_run enc out run)"
  by (simp add: flush_run_def)

lemma printable_loop_prefix: "prefix out (printable_loop ok enc out run xs)"
proof (induction xs arbitrary: out run)
  case (Cons x xs)
  then show ?case using flush_run_prefix prefix_order.trans by fastforce
qed (simp add: flush_run_prefix)

lemma flush_run_holds:
  assumes "sublist w run" "6 \<le> length w"
  shows "sublist (map enc w) (flush_run enc out run)"
proof -
  have "6 \<le> length run" using assms sublist_length_le order_trans by blast
  moreover have "sublist (map enc w) (out @ map enc run @ [CHR 0x0A])"
    using map_mono_sublist [OF assms(1)] by (meson sublist_appendI sublist_order.order.trans)
  ultimately show ?thesis by (simp add: flush_run_def)
qed

lemma printable_loop_holds:
  assumes "6 \<le> length w" "list_all ok w"
  shows "sublist w (run @ xs) \<Longrightarrow> sublist (map enc w) (printable_loop ok enc out run xs)"
proof (induction xs arbitrary: out run)
  case Nil
  then show ?case using assms(1) by (simp add: flush_run_holds)
next
  case (Cons x xs)
  show ?case
  proof (cases "ok x")
    case True
    then show ?thesis using Cons.IH [of "run @ [x]"] Cons.prems by simp
  next
    case False
    then have "x \<notin> set w" using assms(2) by (auto simp: list_all_iff)
    then consider "sublist w run" | "sublist w xs"
      using sublist_around [OF Cons.prems] by blast
    then show ?thesis
    proof cases
      case 1
      from flush_run_holds [OF this assms(1)] have "sublist (map enc w) (flush_run enc out run)" .
      then show ?thesis
        using False printable_loop_prefix [of "flush_run enc out run" ok enc "[]" xs]
        by (auto intro: sublist_order.order.trans prefix_imp_sublist)
    next
      case 2
      then show ?thesis using False Cons.IH [of "[]"] by simp
    qed
  qed
qed

text \<open>Printable text as UTF-16 units.\<close>

definition units_of :: "string \<Rightarrow> u16 list" where
  "units_of w = map of_char w"

lemma printable_units:
  assumes "list_all printable_byte w"
  shows "list_all printable_unit (units_of w)" "map unit_char (units_of w) = w"
proof -
  have "printable_unit (of_char c)" "unit_char (of_char c) = c" if "printable_byte c" for c
  proof -
    have u: "unat (of_char c :: u16) = byte c"
    proof -
      have "(of_char c :: u16) = of_nat (byte c)" by (metis of_nat_of_char)
      then show ?thesis using that by (simp only: unat_of_nat) (simp add: printable_byte_def)
    qed
    show "unit_char (of_char c) = c" by (simp add: unit_char_def u)
    show "printable_unit (of_char c)" using that by (simp add: printable_unit_def printable_byte_def word_le_nat_alt u)
  qed
  then show "list_all printable_unit (units_of w)" "map unit_char (units_of w) = w"
    using assms by (auto simp: units_of_def list_all_iff comp_def intro: map_idI)
qed

lemma printableUTF16LE_holds:
  assumes "sublist (units_of w) (units_le data)" "list_all printable_byte w" "6 \<le> length w"
  shows "sublist w (printableUTF16LE data)"
  using printable_loop_holds [of "units_of w" printable_unit "[]" "units_le data" unit_char "[]"] printable_units [OF assms(2)] assms
  by (simp add: printableUTF16LE_def units_of_def)

subsection \<open>Findings\<close>

text \<open>A text that no rule finds and that has none of the forbidden values.\<close>

definition silent :: "string list \<Rightarrow> string \<Rightarrow> bool" where
  "silent forbidden txt \<longleftrightarrow>
     (\<forall>(name, pattern) \<in> set leak_rules. \<not> MatchString pattern txt) \<and>
     (\<forall>v \<in> set forbidden. 3 \<le> length v \<longrightarrow> \<not> contains txt v)"

definition seen_ok :: "string set \<times> leak_finding list \<Rightarrow> bool" where
  "seen_ok st \<longleftrightarrow> fst st \<noteq> {} \<longrightarrow> snd st \<noteq> []"

lemma addFinding_snd: "seen_ok st \<Longrightarrow> snd (addFinding source rule st) \<noteq> []"
  by (cases st) (auto simp: addFinding_def seen_ok_def Let_def)

lemma fold_findings:
  "seen_ok st \<Longrightarrow> seen_ok (fold (\<lambda>x st. if P x then addFinding source (rule x) st else st) xs st) \<and>
     (snd (fold (\<lambda>x st. if P x then addFinding source (rule x) st else st) xs st) = [] \<longleftrightarrow>
        snd st = [] \<and> (\<forall>x \<in> set xs. \<not> P x))"
proof (induction xs arbitrary: st)
  case (Cons x xs)
  show ?case
  proof (cases "P x")
    case True
    have "snd (addFinding source (rule x) st) \<noteq> []" using addFinding_snd [OF Cons.prems] .
    then show ?thesis using Cons.IH [of "addFinding source (rule x) st"] True by (simp add: seen_ok_def)
  next
    case False
    then show ?thesis using Cons.IH [OF Cons.prems] by simp
  qed
qed simp

lemma scan_text_findings:
  assumes "seen_ok st"
  shows "seen_ok (scan_text source forbidden txt st) \<and>
    (snd (scan_text source forbidden txt st) = [] \<longleftrightarrow> snd st = [] \<and> silent forbidden txt)"
proof -
  let ?st = "fold (\<lambda>x st. if MatchString (snd x) txt then addFinding source (fst x) st else st) leak_rules st"
  note rules = fold_findings [OF assms, of "\<lambda>x. MatchString (snd x) txt" source fst leak_rules]
  note vals = fold_findings [OF conjunct1 [OF rules], of "\<lambda>v. 3 \<le> length v \<and> contains txt v" source "\<lambda>_. ''forbidden-host-value''" forbidden]
  show ?thesis using rules vals by (simp add: scan_text_def split_def silent_def Let_def)
qed

lemma fold_texts:
  "seen_ok st \<Longrightarrow> snd (fold (scan_text source forbidden) txts st) = [] \<longleftrightarrow> snd st = [] \<and> (\<forall>t \<in> set txts. silent forbidden t)"
proof (induction txts arbitrary: st)
  case (Cons t txts)
  then show ?case using scan_text_findings [OF Cons.prems, of source forbidden t] by simp
qed simp

definition quiet_file :: "string list \<Rightarrow> string \<Rightarrow> bool" where
  "quiet_file forbidden data \<longleftrightarrow>
     silent forbidden data \<and> silent forbidden (printableASCII data) \<and> silent forbidden (printableUTF16LE data)"

lemma scanBytes_findings:
  "lr_Findings (scanBytes source data forbidden report) = [] \<longleftrightarrow> lr_Findings report = [] \<and> quiet_file forbidden data"
proof -
  have "seen_ok ({}, lr_Findings report)" by (simp add: seen_ok_def)
  note t = fold_texts [OF this, of source forbidden "[data, printableASCII data, printableUTF16LE data]"]
  have "lr_Findings (scanBytes source data forbidden report) =
      snd (fold (scan_text source forbidden) [data, printableASCII data, printableUTF16LE data] ({}, lr_Findings report))"
    unfolding scanBytes_def by (simp only: split_def leak_report.select_convs leak_report.update_convs leak_report.surjective) simp
  then show ?thesis using t by (simp only: quiet_file_def list.set ball_simps snd_conv) simp
qed

lemma scanBytes_rest [simp]:
  "lr_Errors (scanBytes source data forbidden report) = lr_Errors report"
  "lr_Status (scanBytes source data forbidden report) = lr_Status report"
  by (simp_all add: scanBytes_def split_def)

lemma scan_entries_findings:
  "lr_Findings (scan_entries forbidden es report) = [] \<longleftrightarrow>
     lr_Findings report = [] \<and> (\<forall>e \<in> set es. ae_Type e = ''file'' \<longrightarrow> quiet_file forbidden (ae_data e))"
  "lr_Errors (scan_entries forbidden es report) = lr_Errors report"
  "lr_Status (scan_entries forbidden es report) = lr_Status report"
  by (induction es arbitrary: report) (auto simp: scan_entries_def scanBytes_findings)

lemma scan_report_passes:
  "lr_Findings (scan_report quote inp a c fb) = [] \<and> lr_Errors (scan_report quote inp a c fb) = [] \<longleftrightarrow>
     (\<exists>es d. readArchive inp a = Inr es \<and> in_file inp c = Inr d \<and> quiet_file fb d \<and>
        (\<forall>e \<in> set es. ae_Type e = ''file'' \<longrightarrow> quiet_file fb (ae_data e)))"
  by (cases "readArchive inp a"; cases "in_file inp c")
    (auto simp: scan_report_def Let_def scan_failed_def new_report_def scanBytes_findings scan_entries_findings)

lemma scan_file_report_passes:
  "lr_Findings (scan_file_report inp p fb) = [] \<and> lr_Errors (scan_file_report inp p fb) = [] \<longleftrightarrow>
     (\<exists>d. in_file inp p = Inr d \<and> quiet_file fb d)"
  by (cases "in_file inp p") (auto simp: scan_file_report_def Let_def scan_failed_def new_report_def scanBytes_findings)

lemma report_status:
  "lr_Status (scan_report quote inp a c fb) = ''PASS'' \<or> lr_Errors (scan_report quote inp a c fb) \<noteq> []"
  "lr_Status (scan_file_report inp p fb) = ''PASS'' \<or> lr_Errors (scan_file_report inp p fb) \<noteq> []"
  by (simp_all add: scan_report_def scan_file_report_def Let_def scan_failed_def new_report_def scan_entries_findings
      split: sum.split)

lemma finish_scan_None:
  assumes "lr_Status report = ''PASS'' \<or> lr_Errors report \<noteq> []"
  shows "snd (finish_scan failure reportPath report h) = None \<longleftrightarrow>
    lr_Findings report = [] \<and> lr_Errors report = [] \<and> snd (writeJSON reportPath (leak_json report) h) = None"
  using assms by (auto simp: finish_scan_def set_status_def Let_def split: prod.splits option.splits)

subsection \<open>Leaks\<close>

definition ascii :: "char \<Rightarrow> bool" where
  "ascii c \<longleftrightarrow> byte c < 128"

definition visible :: "char \<Rightarrow> bool" where
  "visible c \<longleftrightarrow> ascii c \<and> \<not> space c \<and> c \<notin> {CHR 0x00, CHR ''/'', CHR ''@'', CHR '':'', bslash}"

text \<open>
  A path in the profile of a Windows user; one in a Windows directory for temporary files; one
  in a home directory or in \<open>/tmp\<close>; the two forms of GitHub tokens; an AWS access key; a URL
  with a password; the block of a private key.
\<close>

inductive leak_text :: "string \<Rightarrow> bool" where
  user_profile: "letter l \<Longrightarrow> map lower users = ''users'' \<Longrightarrow> list_all visible name \<Longrightarrow> name \<noteq> [] \<Longrightarrow> visible c \<Longrightarrow>
    leak_text (l # '':'' @ [bslash] @ users @ [bslash] @ name @ [bslash, c])"
| windows_temp: "letter l \<Longrightarrow> map lower dir \<in> {''windows'' @ [bslash] @ ''temp'', ''temp''} \<Longrightarrow> visible c \<Longrightarrow>
    leak_text (l # '':'' @ [bslash] @ dir @ [bslash, c])"
| home: "visible c \<Longrightarrow> leak_text (''/home/'' @ [c])"
| tmp: "visible c \<Longrightarrow> leak_text (''/tmp/'' @ [c])"
| github_token: "k \<in> set ''pousr'' \<Longrightarrow> list_all token_char t \<Longrightarrow> 20 \<le> length t \<Longrightarrow> leak_text (''gh'' @ [k] @ ''_'' @ t)"
| github_pat: "list_all token_char t \<Longrightarrow> 20 \<le> length t \<Longrightarrow> leak_text (''github_pat_'' @ t)"
| aws_key: "k \<in> {''AKIA'', ''ASIA''} \<Longrightarrow> list_all (\<lambda>c. is_digit c \<or> capital c) t \<Longrightarrow> length t = 16 \<Longrightarrow> leak_text (k @ t)"
| password_url: "map lower scheme \<in> {''http'', ''https''} \<Longrightarrow> list_all visible user \<Longrightarrow> user \<noteq> [] \<Longrightarrow>
    list_all visible pass \<Longrightarrow> pass \<noteq> [] \<Longrightarrow> leak_text (scheme @ ''://'' @ user @ '':'' @ pass @ ''@'')"
| key_block: "kind \<in> {[], ''RSA '', ''EC '', ''OPENSSH ''} \<Longrightarrow> eol \<in> {[CHR 0x0A], [CHR 0x0D, CHR 0x0A]} \<Longrightarrow>
    list_all key_char body \<Longrightarrow> 32 \<le> length body \<Longrightarrow>
    leak_text (''-----BEGIN '' @ kind @ ''PRIVATE KEY-----'' @ eol @ body @ ''-----END'')"

lemma can_at_least:
  assumes "list_all (\<lambda>c. byte c < 128 \<and> p c) s" "n \<le> length s"
  shows "can (at_least n (One p)) b (singles s) xs"
proof -
  have s: "list_all (\<lambda>c. byte c < 128 \<and> p c) (take n s)" "list_all (\<lambda>c. byte c < 128 \<and> p c) (drop n s)"
    using assms(1) by (auto simp: list_all_iff dest: in_set_takeD in_set_dropD)
  have "can (times n (One p)) b (singles (take n s)) ys" for b ys
    using can_times [OF s(1)] assms(2) by simp
  then have "can (at_least n (One p)) b (singles (take n s @ drop n s)) xs"
    unfolding at_least_def by (intro can_next can_last can_Star_One s(2))
  then show ?thesis by simp
qed

lemma can_up_to_240:
  assumes "can r b (singles [c]) xs"
  shows "can (up_to_240 r) b (singles [c]) xs"
proof -
  have "can (Cats [up_to 239 r]) b' (singles []) xs" for b' by (intro can_last can_up_to_none)
  then show ?thesis unfolding up_to_240_def using can_next [of r b "[c]" "[]" xs] assms by simp
qed

lemma lower_letter: "letter c \<Longrightarrow> letter (lower c) \<and> byte c < 128"
  by (auto simp: letter_def lower_def)

lemma visible_facts:
  assumes "visible c"
  shows "byte c < 128" "\<not> space c" "c \<noteq> CHR 0x00" "c \<noteq> CHR 0x0D" "c \<noteq> CHR 0x0A" "c \<noteq> CHR ''/''" "c \<noteq> CHR ''@''"
    "c \<noteq> CHR '':''" "c \<noteq> bslash"
  using assms by (auto simp: visible_def ascii_def space_def)

lemma can_visible:
  assumes "list_all visible s" "s \<noteq> []" "\<And>c. visible c \<Longrightarrow> \<not> p c"
  shows "can (Plus (NotOne p)) b (singles s) xs"
  using assms by (intro can_Plus_NotOne list.pred_mono_strong [OF assms(1)]) auto

lemma can_end_visible: "visible c \<Longrightarrow> \<not> p c \<Longrightarrow> can (up_to_240 (NotOne p)) b (singles [c]) xs"
  by (intro can_up_to_240) (simp add: can_NotOne)

lemma windows_words:
  "map lower (''Users'' @ [bslash]) = ''users'' @ [bslash]" "map lower (''Windows'' @ [bslash] @ ''Temp'') = ''windows'' @ [bslash] @ ''temp''"
  "map lower ''Temp'' = ''temp''" "map lower ''http'' = ''http''" "map lower ''s'' = ''s''" "lower bslash = bslash"
  by code_simp+

lemma can_word:
  assumes "map lower t = map lower s" "list_all (\<lambda>c. byte c < 128) s"
  shows "can (LitFold s) b (singles t) xs"
proof (intro can_LitFold assms(1))
  have "list_all (\<lambda>c. byte (lower c) < 128) s" using assms(2) by simp
  then have "list_all (\<lambda>c. byte c < 128) (map lower s)" by (simp add: list_all_iff)
  then show "list_all (\<lambda>c. byte c < 128) t" using assms(1) lower_ascii_text by blast
qed

lemma can_windows:
  assumes "letter l" "visible c"
    and mid: "map lower mid \<in> {''windows'' @ [bslash] @ ''temp'', ''temp''} \<or>
      (\<exists>users name. mid = users @ [bslash] @ name \<and> map lower users = ''users'' \<and> list_all visible name \<and> name \<noteq> [])"
  shows "can windowsTempPattern b (singles (l # '':'' @ [bslash] @ mid @ [bslash, c])) xs"
proof -
  let ?dirs = "[Cats [LitFold (''Users'' @ [bslash]), Plus (NotOne (\<lambda>c. c = bslash \<or> space c))],
           LitFold (''Windows'' @ [bslash] @ ''Temp''), LitFold ''Temp'']"
  have "can (Alts ?dirs) b (singles mid) ys" for b ys
    using mid
  proof (elim disjE exE conjE)
    assume "map lower mid \<in> {''windows'' @ [bslash] @ ''temp'', ''temp''}"
    then have "map lower mid = map lower (''Windows'' @ [bslash] @ ''Temp'') \<or> map lower mid = map lower ''Temp''"
      by (simp only: windows_words insert_iff empty_iff simp_thms)
    then have "can (LitFold (''Windows'' @ [bslash] @ ''Temp'')) b (singles mid) ys \<or> can (LitFold ''Temp'') b (singles mid) ys"
      using can_word [of mid] by fastforce
    then show ?thesis by (elim disjE) (erule can_Alts [rotated], simp)+
  next
    fix users name
    assume m: "mid = users @ [bslash] @ name" "map lower users = ''users''" "list_all visible name" "name \<noteq> []"
    have "can (LitFold (''Users'' @ [bslash])) b (singles (users @ [bslash])) zs" for b zs
      by (rule can_word) (simp only: windows_words(1), simp_all add: m(2) windows_words(6))
    then have "can (Cats [LitFold (''Users'' @ [bslash]), Plus (NotOne (\<lambda>c. c = bslash \<or> space c))]) b
        (singles ((users @ [bslash]) @ name)) ys"
      by (intro can_next can_last can_visible m) (auto dest: visible_facts)
    then show ?thesis unfolding m(1) by (intro can_Alts) simp_all
  qed
  then have "can windowsTempPattern b (singles ([l] @ ('':'' @ [bslash]) @ mid @ [bslash] @ [c])) xs"
    unfolding windowsTempPattern_def using assms(1,2)
    by (intro can_next can_last can_Lit can_end_visible) (auto simp: can_OneFold lower_letter dest: visible_facts)
  then show ?thesis by simp
qed

lemma can_linux:
  assumes "visible c"
  shows "can linuxTempPattern b (singles (''/home/'' @ [c])) xs" "can linuxTempPattern b (singles (''/tmp/'' @ [c])) xs"
proof -
  have "can (Cats [Lit ''/home/'', Plus (NotOne (\<lambda>c. c = CHR ''/'' \<or> space c \<or> c = CHR 0x00))]) b (singles (''/home/'' @ [c])) xs"
    using assms by (intro can_next can_last can_visible can_Lit) (auto dest: visible_facts)
  then show "can linuxTempPattern b (singles (''/home/'' @ [c])) xs" unfolding linuxTempPattern_def by (rule can_Alts [rotated]) simp
  have "can (Cats [Lit ''/tmp/'', up_to_240 (NotOne (\<lambda>c. space c \<or> c = CHR 0x00))]) b (singles (''/tmp/'' @ [c])) xs"
    using assms by (intro can_next can_last can_end_visible can_Lit) (auto dest: visible_facts)
  then show "can linuxTempPattern b (singles (''/tmp/'' @ [c])) xs" unfolding linuxTempPattern_def by (rule can_Alts [rotated]) simp
qed

lemma token_ascii: "list_all token_char t \<Longrightarrow> list_all (\<lambda>c. byte c < 128 \<and> token_char c) t"
  by (erule list.pred_mono_strong) (auto simp: token_char_def letter_def is_digit_def)

lemma key_ascii: "list_all key_char t \<Longrightarrow> list_all (\<lambda>c. byte c < 128 \<and> key_char c) t"
  by (erule list.pred_mono_strong) (auto simp: key_char_def letter_def is_digit_def)

lemma aws_ascii:
  "list_all (\<lambda>c. is_digit c \<or> capital c) t \<Longrightarrow> list_all (\<lambda>c. byte c < 128 \<and> (is_digit c \<or> capital c)) t"
  by (erule list.pred_mono_strong) (auto simp: capital_def is_digit_def)

lemma can_github:
  assumes "list_all token_char t" "20 \<le> length t"
  shows "k \<in> set ''pousr'' \<Longrightarrow> can githubTokenPattern b (singles (''gh'' @ [k] @ ''_'' @ t)) xs"
    "can githubTokenPattern b (singles (''github_pat_'' @ t)) xs"
proof -
  note tok = can_at_least [OF token_ascii [OF assms(1)] assms(2)]
  assume k: "k \<in> set ''pousr''"
  have "can (One (\<lambda>c. c \<in> set ''pousr'')) b (singles [k]) ys" for b ys
    using k by (auto intro!: can_One)
  then have "can (Cats [Lit ''gh'', One (\<lambda>c. c \<in> set ''pousr''), Lit ''_'', at_least 20 (One token_char)]) b
      (singles (''gh'' @ [k] @ ''_'' @ t)) xs"
    by (intro can_next can_last tok can_Lit) simp_all
  then show "can githubTokenPattern b (singles (''gh'' @ [k] @ ''_'' @ t)) xs"
    unfolding githubTokenPattern_def by (rule can_Alts [rotated]) simp
next
  note tok = can_at_least [OF token_ascii [OF assms(1)] assms(2)]
  have "can (Cats [Lit ''github_pat_'', at_least 20 (One token_char)]) b (singles (''github_pat_'' @ t)) xs"
    by (intro can_next can_last tok can_Lit) simp_all
  then show "can githubTokenPattern b (singles (''github_pat_'' @ t)) xs"
    unfolding githubTokenPattern_def by (rule can_Alts [rotated]) simp
qed

lemma can_Alts_Lit: "s \<in> set ws \<Longrightarrow> list_all (\<lambda>c. byte c < 128) s \<Longrightarrow> can (Alts (map Lit ws)) b (singles s) xs"
  by (rule can_Alts [of "Lit s"]) (simp_all add: can_Lit)

lemma can_aws:
  assumes "k \<in> {''AKIA'', ''ASIA''}" "list_all (\<lambda>c. is_digit c \<or> capital c) t" "length t = 16"
  shows "can awsKeyPattern b (singles (k @ t)) xs"
proof -
  have "can (Alts (map Lit [''AKIA'', ''ASIA''])) b (singles k) ys" for b ys
    using assms(1) by (intro can_Alts_Lit) auto
  moreover have "can (times 16 (One (\<lambda>c. is_digit c \<or> capital c))) b (singles t) ys" for b ys
    using can_times [OF aws_ascii [OF assms(2)]] assms(3) by simp
  ultimately show ?thesis unfolding awsKeyPattern_def by (intro can_next can_last) simp_all
qed

lemma can_url:
  assumes "map lower scheme \<in> {''http'', ''https''}" "list_all visible user" "user \<noteq> []" "list_all visible pass" "pass \<noteq> []"
  shows "can credentialURLPattern b (singles (scheme @ ''://'' @ user @ '':'' @ pass @ ''@'')) xs"
proof -
  obtain h s where h: "scheme = h @ s" "map lower h = ''http''" "s = [] \<or> map lower s = ''s''"
  proof (cases "map lower scheme = ''http''")
    case True
    then show ?thesis using that [of scheme "[]"] by simp
  next
    case False
    then have e: "map lower scheme = ''http'' @ ''s''" using assms(1) by simp
    show ?thesis
      using that [of "take 4 scheme" "drop 4 scheme"] arg_cong [OF e, of "take 4"] arg_cong [OF e, of "drop 4"]
      by (simp add: take_map drop_map)
  qed
  have "can (LitFold ''http'') b (singles h) ys" "can (Opt (LitFold ''s'')) b (singles s) ys" for b ys
    using h(2,3) windows_words(4,5) by (auto intro!: can_word can_Opt)
  then have "can credentialURLPattern b (singles (h @ s @ ''://'' @ user @ '':'' @ pass @ ''@'')) xs"
    unfolding credentialURLPattern_def using assms(2-5)
    by (intro can_next can_last can_visible can_Lit) (auto dest: visible_facts)
  then show ?thesis by (simp add: h(1))
qed

lemma can_key_block:
  assumes "kind \<in> {[], ''RSA '', ''EC '', ''OPENSSH ''}" "eol \<in> {[CHR 0x0A], [CHR 0x0D, CHR 0x0A]}"
    "list_all key_char body" "32 \<le> length body"
  shows "can privateKeyBlockPattern b (singles (''-----BEGIN '' @ kind @ ''PRIVATE KEY-----'' @ eol @ body @ ''-----END'')) xs"
proof -
  have "kind = [] \<or> can (Alts (map Lit [''RSA '', ''EC '', ''OPENSSH ''])) b (singles kind) ys" for b ys
    using assms(1) can_Alts_Lit [of kind "[''RSA '', ''EC '', ''OPENSSH '']" b ys] by auto
  then have "can (Opt (Alts (map Lit [''RSA '', ''EC '', ''OPENSSH '']))) b (singles kind) ys" for b ys
    by (rule can_Opt)
  moreover have "can (Plus (One (\<lambda>c. c = CHR 0x0D \<or> c = CHR 0x0A))) b (singles eol) ys" for b ys
    using assms(2) by (intro can_Plus_One) auto
  moreover note can_at_least [OF key_ascii [OF assms(3)] assms(4)]
  ultimately show ?thesis
    unfolding privateKeyBlockPattern_def by (intro can_next can_last can_Lit) simp_all
qed

text \<open>Every leak is found by a rule, behind any text.\<close>

lemma leak_found:
  assumes "leak_text w"
  shows "\<exists>(name, pattern) \<in> set leak_rules. \<forall>b xs. can pattern b (singles w) xs"
  using assms
proof cases
  case (user_profile l users name c)
  then have "can windowsTempPattern b (singles (l # '':'' @ [bslash] @ (users @ [bslash] @ name) @ [bslash, c])) xs" for b xs
    by (intro can_windows disjI2 exI conjI) simp_all
  then have "can windowsTempPattern b (singles w) xs" for b xs using user_profile(1) by simp
  then show ?thesis by (auto simp: leak_rules_def)
next
  case (windows_temp l dir c)
  then have "can windowsTempPattern b (singles w) xs" for b xs unfolding windows_temp(1) by (intro can_windows disjI1)
  then show ?thesis by (auto simp: leak_rules_def)
next
  case (home c)
  then show ?thesis using can_linux(1) [of c] by (auto simp: leak_rules_def)
next
  case (tmp c)
  then show ?thesis using can_linux(2) [of c] by (auto simp: leak_rules_def)
next
  case (github_token k t)
  then show ?thesis using can_github(1) [of t k] by (auto simp: leak_rules_def)
next
  case (github_pat t)
  then show ?thesis using can_github(2) [of t] by (auto simp: leak_rules_def)
next
  case (aws_key k t)
  then show ?thesis using can_aws [of k t] by (auto simp: leak_rules_def)
next
  case (password_url scheme user pass)
  then show ?thesis using can_url [of scheme user pass] by (auto simp: leak_rules_def)
next
  case (key_block kind eol body)
  then show ?thesis using can_key_block [of kind eol body] by (auto simp: leak_rules_def)
qed

lemma texts_ascii:
  "list_all visible s \<Longrightarrow> list_all (\<lambda>c. byte c < 128) s"
  "list_all token_char s \<Longrightarrow> list_all (\<lambda>c. byte c < 128) s"
  "list_all key_char s \<Longrightarrow> list_all (\<lambda>c. byte c < 128) s"
  "list_all (\<lambda>c. is_digit c \<or> capital c) s \<Longrightarrow> list_all (\<lambda>c. byte c < 128) s"
  by (erule list.pred_mono_strong; auto simp: token_char_def key_char_def letter_def is_digit_def capital_def dest: visible_facts)+

lemma leak_ascii:
  assumes "leak_text w"
  shows "list_all (\<lambda>c. byte c < 128) w" "w \<noteq> []"
proof -
  show "w \<noteq> []" using assms by cases auto
  show "list_all (\<lambda>c. byte c < 128) w"
    using assms
  proof cases
    case (user_profile l users name c)
    then show ?thesis using lower_ascii_text [of users "''users''"] texts_ascii(1) [of name] lower_letter visible_facts(1) by simp
  next
    case (windows_temp l dir c)
    then have "list_all (\<lambda>c. byte c < 128) dir" using lower_ascii_text [of dir "map lower dir"] by auto
    then show ?thesis using windows_temp lower_letter visible_facts(1) by simp
  next
    case (password_url scheme user pass)
    then have "list_all (\<lambda>c. byte c < 128) scheme" using lower_ascii_text [of scheme "map lower scheme"] by auto
    then show ?thesis using password_url texts_ascii(1) by simp
  qed (use texts_ascii in \<open>auto simp: visible_facts\<close>)
qed

subsection \<open>What a scan excludes\<close>

text \<open>
  What a scan that passes says of a file. The bytes have no leak text and no forbidden value
  of three bytes or more. The little-endian UTF-16 units that start at even offsets have none
  of those that are printable ASCII of six characters or more. Exempt, as in the code, are
  forbidden values of one or two bytes, and in UTF-16 shorter texts, big-endian units and
  units at odd offsets.
\<close>

definition clean_file :: "string list \<Rightarrow> string \<Rightarrow> bool" where
  "clean_file forbidden data \<longleftrightarrow>
     (\<forall>w. leak_text w \<or> w \<in> set forbidden \<and> 3 \<le> length w \<longrightarrow>
        \<not> sublist w data \<and>
        (list_all printable_byte w \<and> 6 \<le> length w \<longrightarrow> \<not> sublist (units_of w) (units_le data)))"

lemma silent_clean:
  assumes "silent forbidden txt" "leak_text w \<or> w \<in> set forbidden \<and> 3 \<le> length w"
  shows "\<not> sublist w txt"
proof
  assume sub: "sublist w txt"
  show False
    using assms(2)
  proof
    assume w: "leak_text w"
    then obtain name pattern where "(name, pattern) \<in> set leak_rules" "\<And>b xs. can pattern b (singles w) xs"
      using leak_found by blast
    moreover from this have "MatchString pattern txt" using MatchString_at [OF sub leak_ascii(2,1) [OF w]] by blast
    ultimately show False using assms(1) by (auto simp: silent_def)
  next
    assume "w \<in> set forbidden \<and> 3 \<le> length w"
    then show False using assms(1) sub by (auto simp: silent_def contains_iff)
  qed
qed

lemma quiet_clean: "quiet_file forbidden data \<Longrightarrow> clean_file forbidden data"
  unfolding quiet_file_def clean_file_def using silent_clean printableUTF16LE_holds by blast

end
