(* ===== verification/ReleaseProperties.thy ===== *)
theory ReleaseProperties
  imports LeakFacts Sample
begin

text \<open>
  What the release tool establishes when it ends without an error: what the inventory of an
  archive is, that two releases are the same, and what a release does not contain.
\<close>

subsection \<open>Inventories\<close>

text \<open>C33: an archive is read into a list of entries exactly if it is a ZIP or compressed TAR
  archive whose items are, in their order, regular files within the limit whose data and sizes
  agree and directories, with safe relative names, no two of which are the same; the list is
  sorted by name.\<close>

theorem archive_inventory_exact:
  "readArchive inp p = Inr es \<longleftrightarrow>
     (\<exists>es0. es = sort_key ae_Path es0 \<and> distinct (map ae_Path es0) \<and>
        (if has_suffix p ''.zip'' then \<exists>files. in_zip inp p = Inr files \<and> list_all2 zip_describes files es0
         else has_suffix p ''.tar.gz'' \<and> (\<exists>hs. in_targz inp p = Inr (hs, None) \<and> list_all2 tar_describes hs es0)))"
  by (auto simp: readArchive_def readZIP_iff readTarGZ_iff)

subsection \<open>Reports\<close>

text \<open>Values without raw texts marshal.\<close>

lemma sequence_opt_Some: "list_all (\<lambda>x. x \<noteq> None) xs \<Longrightarrow> sequence_opt xs \<noteq> None"
  by (induction xs) auto

lemma indented_Some: "no_raw v \<Longrightarrow> indented d v \<noteq> None"
proof (induction d v rule: indented.induct)
  case (1 d vs)
  have "sequence_opt (map (indented (Suc d)) vs) \<noteq> None" if "vs \<noteq> []"
    using 1 that by (intro sequence_opt_Some) (simp add: list_all_iff)
  then show ?case by auto
next
  case (2 d ms)
  have "sequence_opt (map (\<lambda>(k, v). map_option (\<lambda>t. quote_string k @ '': '' @ t) (indented (Suc d) v)) ms) \<noteq> None"
    if "ms \<noteq> []"
    using 2 that by (intro sequence_opt_Some) (force simp: list_all_iff)
  then show ?case by auto
qed simp_all

lemma reports_no_raw: "no_raw (comparison_json c)" "no_raw (leak_json r)"
  by (simp_all add: comparison_json_def leak_json_def list_all_iff)

lemma mkdir_all_exists:
  assumes "os_stat h (render True cs) = Inr i" "fi_is_dir i" "cs \<noteq> []"
  shows "mkdir_all_rev h (rev cs) pm = (h, None)"
proof (cases "rev cs")
  case (Cons c ds)
  then have "rev (c # ds) = cs" by (metis rev_rev_ident)
  then show ?thesis using assms by (simp add: Cons Let_def)
qed (use assms(3) in simp)

lemma writeJSON_new:
  assumes "os_stat h (render True cs) = Inr i" "fi_is_dir i" "cs \<noteq> []" "path_comps (render True (kpath h (Dir p))) = cs"
    "fault h SOpen p = None" "kpath h p \<noteq> []" "walk_parent h (kpath h p) = Inr q" "lookup h q = None"
    "\<And>j t. write_fault h j t = None" "no_raw v"
  shows "snd (writeJSON p v h) = None"
proof -
  obtain t where t: "indented 0 v = Some t" using indented_Some [OF assms(10)] by blast
  show ?thesis
    using assms by (simp add: writeJSON_def os_mkdir_all_def mkdir_all_exists os_open_write_def t fd_write_def
        new_file_def add_entry_def new_inode_def Let_def)
qed

lemma sample_report: "no_raw v \<Longrightarrow> snd (writeJSON ''/srv/report.json'' v clean_host) = None"
proof (rule writeJSON_new)
  show "os_stat clean_host (render True [''srv'']) = Inr (info_of clean_host ''srv'' (DirN 1))" by code_simp
  show "fi_is_dir (info_of clean_host ''srv'' (DirN 1))" by code_simp
  show "path_comps (render True (kpath clean_host (Dir ''/srv/report.json''))) = [''srv'']" by code_simp
  show "walk_parent clean_host (kpath clean_host ''/srv/report.json'') = Inr [''srv'', ''report.json'']" by code_simp
  show "lookup clean_host [''srv'', ''report.json''] = None" by code_simp
  show "kpath clean_host ''/srv/report.json'' \<noteq> []" by code_simp
qed (simp_all add: clean_host_def)

subsection \<open>Two builds of a release\<close>

definition is_binary :: "string \<Rightarrow> archive_entry \<Rightarrow> bool" where
  "is_binary binarySuffix e \<longleftrightarrow> ae_Type e = ''file'' \<and> has_suffix (ae_Path e) binarySuffix"

lemma single_digest: "map f xs = [d] \<longleftrightarrow> (\<exists>x. xs = [x] \<and> f x = d)"
  by (cases xs) auto

lemma compare_entries_agree:
  "fst (compare_entries suf as bs) = [] \<longleftrightarrow> inventoryIdentity as = inventoryIdentity bs \<and>
     (\<exists>x y. filter (is_binary suf) as = [x] \<and> filter (is_binary suf) bs = [y] \<and> ae_SHA256 x = ae_SHA256 y)"
proof -
  have m: "binary_matches suf es = map ae_SHA256 (filter (is_binary suf) es)" for es
    by (simp add: binary_matches_def is_binary_def [abs_def])
  have one: "length (binary_matches suf es) = 1 \<longleftrightarrow> (\<exists>d. binary_matches suf es = [d])" for es
    by (simp add: length_Suc_conv)
  have "fst (compare_entries suf as bs) = [] \<longleftrightarrow> inventoryIdentity as = inventoryIdentity bs \<and>
      (\<exists>d. binary_matches suf as = [d] \<and> binary_matches suf bs = [d])"
    using one [of as] one [of bs] by (auto simp: compare_entries_def Let_def)
  then show ?thesis by (auto simp: m single_digest)
qed

lemma hash_agree:
  "hash_error a @ hash_error b @ (if hash_or_empty a \<noteq> hash_or_empty b then [t] else []) = [] \<longleftrightarrow>
     (\<exists>d. a = Inr d \<and> b = Inr d)"
  by (cases a; cases b) (auto simp: hash_error_def hash_or_empty_def)

lemma comparison_passes:
  "cr_Status (comparison_report_of quote inp a ca b cb suf) = ''PASS'' \<longleftrightarrow>
     (\<exists>d. hashFile inp a = Inr d \<and> hashFile inp b = Inr d) \<and> (\<exists>d. hashFile inp ca = Inr d \<and> hashFile inp cb = Inr d) \<and>
     (\<exists>es fs. readArchive inp a = Inr es \<and> readArchive inp b = Inr fs \<and> fst (compare_entries suf es fs) = [])"
proof -
  have "cr_Status (comparison_report_of quote inp a ca b cb suf) = ''PASS'' \<longleftrightarrow>
      hash_error (hashFile inp a) @ hash_error (hashFile inp b) @
        (if hash_or_empty (hashFile inp a) \<noteq> hash_or_empty (hashFile inp b) then [''archive hashes differ''] else []) = [] \<and>
      hash_error (hashFile inp ca) @ hash_error (hashFile inp cb) @
        (if hash_or_empty (hashFile inp ca) \<noteq> hash_or_empty (hashFile inp cb) then [''checksum-file hashes differ''] else []) = [] \<and>
      (\<exists>es fs. readArchive inp a = Inr es \<and> readArchive inp b = Inr fs \<and> fst (compare_entries suf es fs) = [])"
    by (cases "readArchive inp a"; cases "readArchive inp b") (auto simp: comparison_report_of_def Let_def split: prod.splits)
  then show ?thesis by (simp only: hash_agree)
qed

lemma flag_names:
  "fs_strings compare_flags = [''artifact-a'', ''checksum-a'', ''artifact-b'', ''checksum-b'', ''binary-suffix'', ''report'']"
  "fs_strings scan_flags = [''artifact'', ''checksum'', ''report'']"
  by (simp_all add: compare_flags_def scan_flags_def)

lemma exit_zero:
  "snd (snd (audit_main order quote inp (prog # cmd # args) h)) = 0 \<longleftrightarrow>
     fst (snd (audit_main order quote inp (prog # cmd # args) h)) = None"
  by (simp add: audit_main_def split_def Let_def)

lemma find_empty:
  assumes "\<forall>xs. mset (order xs) = mset xs"
  shows "find (\<lambda>(name, val). val = []) (order (map (\<lambda>name. (name, f name)) names)) = None \<longleftrightarrow> (\<forall>name \<in> set names. f name \<noteq> [])"
proof -
  have "set (order (map (\<lambda>name. (name, f name)) names)) = set (map (\<lambda>name. (name, f name)) names)"
    using assms by (metis set_mset_mset)
  then show ?thesis by (auto simp: find_None_iff)
qed

lemma runCompare_None:
  assumes "\<forall>xs. mset (order xs) = mset xs"
  shows "snd (runCompare order quote inp args h) = None \<longleftrightarrow>
    (\<exists>fv. parse_flags quote compare_flags args no_flags = Inr fv \<and> (\<forall>name \<in> set (fs_strings compare_flags). fv_string fv name \<noteq> []) \<and>
      (let r = comparison_report_of quote inp (fv_string fv ''artifact-a'') (fv_string fv ''checksum-a'')
         (fv_string fv ''artifact-b'') (fv_string fv ''checksum-b'') (fv_string fv ''binary-suffix'')
       in snd (writeJSON (fv_string fv ''report'') (comparison_json r) h) = None \<and> cr_Status r = ''PASS''))"
proof (cases "parse_flags quote compare_flags args no_flags")
  case (Inr fv)
  show ?thesis
    using find_empty [OF assms, of "fv_string fv" "fs_strings compare_flags"]
    by (cases "find (\<lambda>(name, val). val = []) (order (map (\<lambda>name. (name, fv_string fv name)) (fs_strings compare_flags)))")
      (auto simp: runCompare_def Inr Let_def split: prod.splits option.splits)
qed (simp add: runCompare_def)

text \<open>C35: when the command \<open>compare\<close> exits with 0, all its arguments are given, both archives and both
  checksum files have the same digest, both archives are read, each has exactly one binary and
  the two binaries have the same digest, and unless a name has a tab or a line feed the
  archives list the same entries with the same types, lengths and digests.\<close>

theorem reproducible_release:
  assumes order: "\<forall>xs. mset (order xs) = mset xs"
    and exit: "snd (snd (audit_main order quote inp (prog # ''compare'' # args) h)) = 0"
  shows "\<exists>fv es fs x y. parse_flags quote compare_flags args no_flags = Inr fv \<and>
    (\<forall>name \<in> set (fs_strings compare_flags). fv_string fv name \<noteq> []) \<and>
    (\<exists>d. hashFile inp (fv_string fv ''artifact-a'') = Inr d \<and> hashFile inp (fv_string fv ''artifact-b'') = Inr d) \<and>
    (\<exists>d. hashFile inp (fv_string fv ''checksum-a'') = Inr d \<and> hashFile inp (fv_string fv ''checksum-b'') = Inr d) \<and>
    readArchive inp (fv_string fv ''artifact-a'') = Inr es \<and> readArchive inp (fv_string fv ''artifact-b'') = Inr fs \<and>
    filter (is_binary (fv_string fv ''binary-suffix'')) es = [x] \<and> filter (is_binary (fv_string fv ''binary-suffix'')) fs = [y] \<and>
    ae_SHA256 x = ae_SHA256 y \<and>
    (list_all (plain_name \<circ> ae_Path) (es @ fs) \<longrightarrow> map listed es = map listed fs)"
proof -
  have "snd (runCompare order quote inp args h) = None"
    using exit unfolding exit_zero by (simp add: audit_main_def split_def Let_def)
  then obtain fv where fv: "parse_flags quote compare_flags args no_flags = Inr fv"
      "\<forall>name \<in> set (fs_strings compare_flags). fv_string fv name \<noteq> []"
    and pass: "cr_Status (comparison_report_of quote inp (fv_string fv ''artifact-a'') (fv_string fv ''checksum-a'')
         (fv_string fv ''artifact-b'') (fv_string fv ''checksum-b'') (fv_string fv ''binary-suffix'')) = ''PASS''"
    unfolding runCompare_None [OF order] Let_def by blast
  from pass [unfolded comparison_passes] obtain es fs where es: "readArchive inp (fv_string fv ''artifact-a'') = Inr es"
      "readArchive inp (fv_string fv ''artifact-b'') = Inr fs" "fst (compare_entries (fv_string fv ''binary-suffix'') es fs) = []"
    and d: "\<exists>d. hashFile inp (fv_string fv ''artifact-a'') = Inr d \<and> hashFile inp (fv_string fv ''artifact-b'') = Inr d"
      "\<exists>d. hashFile inp (fv_string fv ''checksum-a'') = Inr d \<and> hashFile inp (fv_string fv ''checksum-b'') = Inr d"
    by blast
  from es(3) [unfolded compare_entries_agree] obtain x y where xy: "inventoryIdentity es = inventoryIdentity fs"
      "filter (is_binary (fv_string fv ''binary-suffix'')) es = [x]" "filter (is_binary (fv_string fv ''binary-suffix'')) fs = [y]"
      "ae_SHA256 x = ae_SHA256 y" by blast
  have "list_all (plain_name \<circ> ae_Path) (es @ fs) \<longrightarrow> map listed es = map listed fs"
    using inventoryIdentity_inj [OF readArchive_audited(1) [OF es(1)] readArchive_audited(1) [OF es(2)]] xy(1) by simp
  then show ?thesis using fv d es(1,2) xy by blast
qed

text \<open>A release for the witnesses: one binary, and a checksum file.\<close>

definition sample_release :: audit_inputs where
  "sample_release =
     \<lparr>in_zip = (\<lambda>_. Inr [\<lparr>zf_Name = ''app'', zf_Mode = 0, zf_UncompressedSize64 = 1,
        zf_Open = Inr \<lparr>st_bytes = ''x'', st_error = None, st_close = None\<rparr>\<rparr>]),
      in_targz = (\<lambda>_. Inl ''no archive''), in_file = (\<lambda>_. Inr ''sum'')\<rparr>"

lemma sample_archive: "readArchive sample_release ''a.zip'' = Inr [fileEntry ''app'' ''x'']"
proof -
  have name: "normalizeArchivePath ''app'' = Inr ''app''" "has_suffix ''a.zip'' ''.zip''" "\<not> has_suffix ''app'' ''/''" by code_simp+
  show ?thesis
    by (simp add: readArchive_def name sample_release_def readZIP_def zip_entry_def read_limited_def maximumEntrySize_def
        sortEntries_def Let_def)
qed

definition compare_args :: "string list" where
  "compare_args = [''--artifact-a'', ''a.zip'', ''--checksum-a'', ''s'', ''--artifact-b=a.zip'', ''--checksum-b'', ''s'',
     ''-binary-suffix'', ''app'', ''--report'', ''/srv/report.json'']"

lemma sample_compare_flags:
  "case parse_flags (\<lambda>v. v) compare_flags compare_args no_flags of Inl _ \<Rightarrow> False
   | Inr fv \<Rightarrow> map (fv_string fv) (fs_strings compare_flags) = [''a.zip'', ''s'', ''a.zip'', ''s'', ''app'', ''/srv/report.json'']"
  by code_simp

theorem reproducible_release_witness:
  "snd (snd (audit_main (\<lambda>xs. xs) (\<lambda>v. v) sample_release (''releaseaudit'' # ''compare'' # compare_args) clean_host)) = 0 \<and>
   (\<exists>x. filter (is_binary ''app'') [fileEntry ''app'' ''x''] = [x])"
proof -
  obtain fv where fv: "parse_flags (\<lambda>v. v) compare_flags compare_args no_flags = Inr fv"
    using sample_compare_flags by (auto split: sum.splits)
  then have vals: "fv_string fv ''artifact-a'' = ''a.zip''" "fv_string fv ''checksum-a'' = ''s''" "fv_string fv ''artifact-b'' = ''a.zip''"
    "fv_string fv ''checksum-b'' = ''s''" "fv_string fv ''binary-suffix'' = ''app''" "fv_string fv ''report'' = ''/srv/report.json''"
    using sample_compare_flags by (simp_all add: flag_names)
  have "filter (is_binary ''app'') [fileEntry ''app'' ''x''] = [fileEntry ''app'' ''x'']"
    by (simp add: is_binary_def fileEntry_def has_suffix_def)
  then have agree: "fst (compare_entries ''app'' [fileEntry ''app'' ''x''] [fileEntry ''app'' ''x'']) = []"
    by (simp add: compare_entries_agree)
  have hash: "hashFile sample_release p = Inr (sha256_hex ''sum'')" for p by (simp add: hashFile_def sample_release_def)
  have "snd (runCompare (\<lambda>xs. xs) (\<lambda>v. v) sample_release compare_args clean_host) = None"
    by (subst runCompare_None)
      (auto simp: fv vals flag_names Let_def comparison_passes sample_archive hash agree intro!: sample_report reports_no_raw exI [of _ fv])
  then have exit: "snd (snd (audit_main (\<lambda>xs. xs) (\<lambda>v. v) sample_release (''releaseaudit'' # ''compare'' # compare_args) clean_host)) = 0"
    unfolding exit_zero by (simp add: audit_main_def split_def Let_def)
  show ?thesis
    using reproducible_release [OF _ exit] exit fv vals sample_archive by (auto simp: fv split: if_splits)
qed

subsection \<open>Leaks\<close>

lemma runScan_None:
  "snd (runScan quote inp args h) = None \<longleftrightarrow>
    (\<exists>fv. parse_flags quote scan_flags args no_flags = Inr fv \<and> (\<forall>name \<in> set (fs_strings scan_flags). fv_string fv name \<noteq> []) \<and>
      (let r = scan_report quote inp (fv_string fv ''artifact'') (fv_string fv ''checksum'') (fv_list fv)
       in lr_Findings r = [] \<and> lr_Errors r = [] \<and> snd (writeJSON (fv_string fv ''report'') (leak_json r) h) = None))"
proof (cases "parse_flags quote scan_flags args no_flags")
  case (Inr fv)
  show ?thesis
    using finish_scan_None [OF report_status(1)] by (auto simp: runScan_def Inr Let_def flag_names)
qed (simp add: runScan_def)

text \<open>
  C34: when the command \<open>scan\<close> exits with 0, the archive and the checksum file are read, and
  each file of the archive and the checksum file is clean: its bytes have no leak text
  and no forbidden value of at least three bytes, and its UTF-16 text (little-endian, at even
  offsets) none of those that are printable and have at least six characters. Shorter values
  and other UTF-16 text are exempt.
\<close>

theorem leak_scan_excludes:
  assumes "snd (snd (audit_main order quote inp (prog # ''scan'' # args) h)) = 0"
  shows "\<exists>fv es checksum. parse_flags quote scan_flags args no_flags = Inr fv \<and>
    readArchive inp (fv_string fv ''artifact'') = Inr es \<and> in_file inp (fv_string fv ''checksum'') = Inr checksum \<and>
    clean_file (fv_list fv) checksum \<and> (\<forall>e \<in> set es. ae_Type e = ''file'' \<longrightarrow> clean_file (fv_list fv) (ae_data e))"
proof -
  have "snd (runScan quote inp args h) = None"
    using assms unfolding exit_zero by (simp add: audit_main_def split_def Let_def)
  then obtain fv where fv: "parse_flags quote scan_flags args no_flags = Inr fv"
    and "lr_Findings (scan_report quote inp (fv_string fv ''artifact'') (fv_string fv ''checksum'') (fv_list fv)) = [] \<and>
      lr_Errors (scan_report quote inp (fv_string fv ''artifact'') (fv_string fv ''checksum'') (fv_list fv)) = []"
    unfolding runScan_None Let_def by blast
  then obtain es d where "readArchive inp (fv_string fv ''artifact'') = Inr es" "in_file inp (fv_string fv ''checksum'') = Inr d"
      "quiet_file (fv_list fv) d" "\<forall>e \<in> set es. ae_Type e = ''file'' \<longrightarrow> quiet_file (fv_list fv) (ae_data e)"
    unfolding scan_report_passes by blast
  then show ?thesis using fv quiet_clean by blast
qed

definition scan_args :: "string list" where
  "scan_args = [''--artifact'', ''a.zip'', ''--checksum'', ''s'', ''--forbidden'', ''host7'', ''--report'', ''/srv/report.json'']"

lemma sample_scan_flags:
  "case parse_flags (\<lambda>v. v) scan_flags scan_args no_flags of Inl _ \<Rightarrow> False
   | Inr fv \<Rightarrow> map (fv_string fv) (fs_strings scan_flags) = [''a.zip'', ''s'', ''/srv/report.json''] \<and> fv_list fv = [''host7'']"
  by code_simp

lemma release_quiet: "quiet_file [''host7''] ''x''" "quiet_file [''host7''] ''sum''"
  by code_simp+

theorem leak_scan_excludes_witness:
  "snd (snd (audit_main (\<lambda>xs. xs) (\<lambda>v. v) sample_release (''releaseaudit'' # ''scan'' # scan_args) clean_host)) = 0 \<and>
   clean_file [''host7''] ''sum''"
proof -
  obtain fv where fv: "parse_flags (\<lambda>v. v) scan_flags scan_args no_flags = Inr fv"
    using sample_scan_flags by (auto split: sum.splits)
  then have vals: "fv_string fv ''artifact'' = ''a.zip''" "fv_string fv ''checksum'' = ''s''"
    "fv_string fv ''report'' = ''/srv/report.json''" "fv_list fv = [''host7'']"
    using sample_scan_flags by (simp_all add: flag_names)
  have sum: "in_file sample_release p = Inr ''sum''" for p by (simp add: sample_release_def)
  have "lr_Findings (scan_report (\<lambda>v. v) sample_release ''a.zip'' ''s'' [''host7'']) = [] \<and>
      lr_Errors (scan_report (\<lambda>v. v) sample_release ''a.zip'' ''s'' [''host7'']) = []"
    unfolding scan_report_passes using sample_archive sum release_quiet by (auto simp: fileEntry_def)
  then have "snd (runScan (\<lambda>v. v) sample_release scan_args clean_host) = None"
    unfolding runScan_None by (auto simp: fv vals flag_names Let_def intro!: sample_report reports_no_raw)
  then have exit: "snd (snd (audit_main (\<lambda>xs. xs) (\<lambda>v. v) sample_release (''releaseaudit'' # ''scan'' # scan_args) clean_host)) = 0"
    unfolding exit_zero by (simp add: audit_main_def split_def Let_def)
  show ?thesis using leak_scan_excludes [OF exit] exit fv vals sum by auto
qed

text \<open>
  A value of fewer than three bytes given with \<open>--forbidden\<close>, which the help calls a value to
  reject, is never looked for.
\<close>

lemma short_values_ignored:
  "scanBytes source data forbidden report = scanBytes source data (filter (\<lambda>v. 3 \<le> length v) forbidden) report"
proof -
  have "fold (\<lambda>v st. if length v \<ge> 3 \<and> contains s v then addFinding source n st else st) vs st =
      fold (\<lambda>v st. if length v \<ge> 3 \<and> contains s v then addFinding source n st else st) (filter (\<lambda>v. 3 \<le> length v) vs) st"
    for s n vs st
    by (induction vs arbitrary: st) auto
  then have "scan_text source forbidden = scan_text source (filter (\<lambda>v. 3 \<le> length v) forbidden)"
    by (intro ext) (simp add: scan_text_def Let_def)
  then show ?thesis by (simp add: scanBytes_def)
qed

end
