(* ===== verification/Spec2Isabelle.thy ===== *)
theory Spec2Isabelle
  imports
    FsProperties2
    ServerProperties
    RequestProperties
    ToolProperties
    BootProperties
    WireContract
    JsonCode
    BuildInfo
    BuildManifest
    IconProperties
    Redaction
    ReleaseProperties
begin

text \<open>
  FlashGate MCP (\<open>flashgate-mcp\<close>), a server that gives the clients of the Model Context
  Protocol access to the files below one directory. This development models the server as
  it is built for Linux, from the environment to the exit code, and proves what makes it
  safe and correct.

  \<^bold>\<open>The program.\<close> \<open>cmd/server\<close> loads a configuration from the environment, builds a guarded
  file system over the root directory, a registry of eight tools over it (three when the
  server is read-only), a router with three methods, and a server that reads JSON-RPC
  messages from standard input line by line and answers them on standard output. A tool
  call goes through the loop (\<open>internal/mcp/server\<close>), the router, the handler of
  \<open>tools/call\<close>, the tool, the file system (\<open>internal/fs\<close>) and the path guard
  (\<open>internal/security\<close>), which decides what a client's path may name.

  \<^bold>\<open>Theories and code.\<close>
  \<^item> \<open>Prelude\<close>, \<open>GoStrings\<close>, \<open>GoPath\<close>: results as sums, lists; the functions of \<open>strings\<close>,
    \<open>strconv\<close> and \<open>path/filepath\<close> the code calls, on strings as lists of bytes.
  \<^item> \<open>HostFs\<close>, \<open>HostFacts\<close>, \<open>HostOps\<close>: the host: a tree of entries with inodes, symbolic links,
    permissions, devices and injected faults, path resolution as the kernel and
    \<open>filepath.EvalSymlinks\<close> do it, and the operations of package \<open>os\<close>.
  \<^item> \<open>Security\<close>, \<open>SecurityFacts\<close>: \<open>internal/security/path.go\<close> and \<open>policy_unix.go\<close>; one
    definition per method of \<open>PathGuard\<close>.
  \<^item> \<open>LocalFs\<close>, \<open>FsFacts\<close>, \<open>FsResults\<close>: \<open>internal/fs\<close>, one definition per operation of
    \<open>LocalFileSystem\<close>; \<open>LinkFacts\<close>: what its operations do through a final symbolic link; \<open>Sandbox\<close>: the interface \<open>fs.FileSystem\<close> as the record \<open>fsys\<close> and the
    contract of its clients as the locale \<open>sandboxed\<close>, interpreted on \<open>local_fsys\<close>.
  \<^item> \<open>GoJson\<close>, \<open>JsonData\<close>: \<open>encoding/json\<close> as the server uses it: validity with the limit on
    nesting, raw members, strings, decoding into structs (case folding, unknown and null
    members), \<open>Compact\<close>, \<open>Marshal\<close>; \<open>JsonFacts\<close>, \<open>JsonText\<close>, \<open>JsonMarshal\<close>, \<open>JsonParse\<close>: what is
    marshalled is valid, on one line, and parses back; \<open>JsonCode\<close>: equations for evaluation;
    \<open>AnyValue\<close>: decoding into \<open>any\<close>, and what a marshalled value decodes to.
  \<^item> \<open>Protocol\<close>: \<open>internal/protocol\<close>; \<open>Transport\<close>: \<open>internal/mcp/transport\<close>.
  \<^item> \<open>Params\<close>, \<open>ToolSchemas\<close>, \<open>Tools\<close>: \<open>internal/mcp/tools\<close>, one group per tool; \<open>Handlers\<close>: the
    registry, the router (\<open>internal/mcp/router\<close>) and the handlers of \<open>tools/list\<close>, \<open>tools/call\<close>
    and \<open>initialize\<close> (\<open>internal/mcp/initialize\<close>); \<open>WireContract\<close>: \<open>internal/mcptest\<close>, the decoder by
    which the tests state the contract of call results.
  \<^item> \<open>RequestValidation\<close>, \<open>Server\<close>: \<open>internal/mcp/server\<close>; \<open>ServerFacts\<close>: the contract of the
    handlers (locale \<open>safe_handlers\<close>); \<open>Wiring\<close>: \<open>tools_boot.go\<close> and \<open>router_boot.go\<close>, and the
    contract of the tools (locale \<open>safe_tools\<close>), with sublocales from a sandboxed file system
    to safe tools to safe handlers; \<open>Session\<close>: the line-by-line specification of the server
    and the simulation; \<open>Rounds\<close>: the loop as a step relation; \<open>Arrivals\<close>: how the reader cuts
    the whole input into messages, and which answer belongs to each.
  \<^item> \<open>Config\<close>: \<open>internal/config\<close>; \<open>Boot\<close>: \<open>server_boot.go\<close>, \<open>cli.go\<close> and \<open>main.go\<close> of
    \<open>cmd/server\<close>.
  \<^item> \<open>Version\<close>, \<open>BuildInfo\<close>: \<open>internal/version\<close>, and the resource tool \<open>cmd/versioninfo\<close>, over
    \<open>GoTime\<close>, the calendar and the RFC 3339 texts of package \<open>time\<close>.
  \<^item> \<open>GoRegexp\<close>: regular expressions with the matching of package \<open>regexp\<close>, leftmost and in the
    order of a backtracking search, on runes; \<open>RegexpFacts\<close>, \<open>RegexpMatches\<close>: what replacing all
    matches keeps and removes, and which texts an expression can match; \<open>Diagnostics\<close>,
    \<open>Redaction\<close>: \<open>internal/diagnostics\<close>, and what redaction removes.
  \<^item> \<open>BuildManifest\<close>: \<open>cmd/versionmanifest\<close>; \<open>Icons\<close>, \<open>IconFacts\<close>, \<open>IconProperties\<close>: \<open>cmd/iconverify\<close>,
    over \<open>GoBytes\<close> (byte slices whose operations may panic, little-endian readers) and
    \<open>Sha256\<close> (\<open>crypto/sha256\<close>).
  \<^item> \<open>GoFlags\<close>, \<open>Archives\<close>, \<open>LeakScan\<close>: \<open>cmd/releaseaudit\<close>, the flag sets, the commands \<open>inventory\<close> and
    \<open>compare\<close>, and the commands \<open>scan\<close> and \<open>scan-file\<close>; \<open>ArchiveFacts\<close>, \<open>LeakFacts\<close>: the archives that
    are accepted, and the texts that the rules find.
  \<^item> \<open>Sample\<close> and the \<open>...Properties\<close> theories: concrete hosts, and the properties with their
    witnesses; \<open>Version\<close>, \<open>BuildInfo\<close> and \<open>BuildManifest\<close> end with their own.

  \<^bold>\<open>State.\<close> The host is passed through every operation that may change it and returned. The
  server's state is its transport (the bytes still to come, how the reader ends, the bytes
  written, how many more the writer takes), its router and limits, and the messages given
  to the diagnostics. Errors are values: \<open>goerr\<close> for the sentinel errors and errnos of the
  file system, \<open>rpc_error\<close> for JSON-RPC errors, \<open>outcome\<close> with a case for a panic,
  \<open>config_error\<close> for the start.

  \<^bold>\<open>What is shown.\<close> Confinement at four levels: the operations of the file system, a
  session over any input, the whole process, and nothing at all changes when read-only.
  The file operations in closed form: what each leaves in the tree when it succeeds; for an
  overwrite and for a copy, also what happens when the target is a link that leads nowhere.
  The loop refines the specification; it ends, consumes every input to its end with exactly
  one answer per message that asks for one, under the id that the message carries, writes only
  well-formed replies and fails only with its reader or writer. Messages: exact framing, which
  messages are acceptable and the code and id of every refusal, acceptance, no effect of
  notifications. Tools: fixed error texts, when a write is read back through JSON and when it
  is not, every result of a call decodes to what the tool returned. Start: which exit code
  and line on standard error each setting of the environment and the command line leads to,
  what a configuration guarantees. Diagnostics: which forms of secrets and paths redaction
  removes, and which it keeps. Release tools: what
  the checks of icons, manifests and versions decide, which archives the audit accepts, and
  what a comparison and a leak scan that pass exclude. And the places where the code does
  not do what it means to: dangling links (guard, write, copy, move), a copy onto itself, deletion of the
  root, a line of exactly the limit, absolute paths and tokens that redaction keeps, forbidden
  values too short for the leak scan, archive names that make two inventories look alike.

  \<^bold>\<open>Specifications.\<close> Some definitions have no counterpart in the code and state what it should
  do: \<open>sandboxed\<close> and the other locales, \<open>session\<close>, \<open>arrivals\<close> and \<open>answers\<close> of the server,
  \<open>acceptable\<close> and \<open>refusal\<close> of a message, \<open>start_refusal\<close> and \<open>cli_outcome\<close> of a start,
  \<open>sensitive\<close> of redaction (narrower than the patterns of the code, as its claim says),
  \<open>clean_file\<close> of the leak scan (with the exemptions its claim names), \<open>zip_describes\<close> and
  \<open>tar_describes\<close> of an archive, \<open>icons_agree\<close> of icons. The last one reads icons with the parsers of the model, so
  that it says which images agree and not what a well-formed icon is.

  \<^bold>\<open>Bounds.\<close> The scanner of JSON recurses on fuel \<open>scan_fuel s\<close>, larger than any nesting and
  length of the text \<open>s\<close>, with the limit on nesting (10000) of \<open>encoding/json\<close> beside it;
  \<open>JsonFacts.enough_fuel\<close> shows that more changes nothing. The walk of a path is bounded by
  the number of links it may follow, 40 for the kernel and 255 for \<open>EvalSymlinks\<close>, as the
  systems do. Other recursions end by a measure. Numbers are integers of HOL where the code
  checks their range when they are read; sizes come from lengths and stay far below 2^63.

  \<^bold>\<open>Not modelled.\<close> Windows (\<open>policy_windows.go\<close>, \<open>move_windows.go\<close>). The formatting of
  diagnostics: a message is given to the logger as its text. The locks of
  registry and router, because requests are handled one at a time. Other processes, except
  in the race of \<open>Move\<close>. Buffering inside \<open>bufio\<close>: every message is flushed, and a writer
  that fails may do so in the middle of one. The benchmark suite, which is not part of the
  server. Faults inside \<open>os.RemoveAll\<close>: it deletes all of a tree or nothing, an injected fault
  has no effect on it, and it refuses the root directory of the host. The different errors of
  \<open>os.Getwd\<close>: they are one value, so that the start fails with \<open>startup_failed\<close> for each of them.
  The member \<open>data\<close> of JSON-RPC errors: the program never sets it, and it is then left out of
  the reply. Of the release tools, the parsing of their flags except in the release audit, what
  package \<open>flag\<close> prints, and the formats of archives, executables and resources: what their
  libraries return is an argument.
\<close>

end
